(* ===== verification/Prelude.thy ===== *)
theory Prelude
  imports Main "HOL-Library.Word" "HOL-Library.Monad_Syntax" "HOL-Library.Product_Lexorder"
begin

text \<open>
  What the component theories share: the machine integers of the emulator
  (\<open>common/common_types.h\<close>), the type of a computation that may abort, the
  collections of rewrite rules, and lemmas on lists, options and maps that more
  than one component needs.
\<close>

unbundle bit_operations_syntax

section \<open>Machine integers\<close>

type_synonym u8 = "8 word"
type_synonym u16 = "16 word"
type_synonym u32 = "32 word"
type_synonym u64 = "64 word"
type_synonym VAddr = u32
type_synonym PAddr = u32

text \<open>Where the code adds and subtracts addresses and sizes, they are natural numbers below
  \<open>2 ^ 32\<close> and the wrap-around of \<open>u32\<close> is written out.\<close>

definition add32 :: "nat \<Rightarrow> nat \<Rightarrow> nat" where "add32 a b = (a + b) mod 2 ^ 32"
definition sub32 :: "nat \<Rightarrow> nat \<Rightarrow> nat" where "sub32 a b = (a + (2 ^ 32 - b mod 2 ^ 32)) mod 2 ^ 32"

lemma add32_less [simp]: "add32 a b < 2 ^ 32" "add32 a b < 4294967296"
  by (simp_all add: add32_def)

lemma add32_id: "a + b < 2 ^ 32 \<Longrightarrow> add32 a b = a + b"
  by (simp add: add32_def)

lemma sub32_id: "b \<le> a \<Longrightarrow> a < 2 ^ 32 \<Longrightarrow> sub32 a b = a - b"
proof -
  assume "b \<le> a" "a < 2 ^ 32"
  then have "a + (2 ^ 32 - b mod 2 ^ 32) = (a - b) + 2 ^ 32" "a - b < 2 ^ 32" by auto
  then show ?thesis unfolding sub32_def by simp
qed

section \<open>Computations that may abort\<close>

text \<open>
  \<open>None\<close> stands for a run that gives no value: a failed \<open>ASSERT\<close> (which calls
  \<open>Crash()\<close>), the use of a pointer or index that designates nothing, or a loop
  that never ends. \<open>Some r\<close> is a run that returns \<open>r\<close>.
\<close>

type_synonym 'a run = "'a option"

definition assert_that :: "bool \<Rightarrow> unit run" where
  "assert_that b = (if b then Some () else None)"

lemma assert_that_Some [simp]: "assert_that b = Some u \<longleftrightarrow> b"
  by (simp add: assert_that_def)

lemma assert_that_None [simp]: "assert_that b = None \<longleftrightarrow> \<not> b"
  by (simp add: assert_that_def)

lemma assert_that_True [simp]: "assert_that True = Some ()"
  by simp

lemma bind_assert [simp]: "Option.bind (assert_that b) f = (if b then f () else None)"
  by (simp add: assert_that_def)

section \<open>Collections\<close>

named_theorems cheat_step \<open>what the operations of a cheat do\<close>

section \<open>Lists\<close>

lemma filter_neq_id: "x \<notin> set xs \<Longrightarrow> filter (\<lambda>y. y \<noteq> x) xs = xs"
  by (induction xs) auto

text \<open>The least number in a range with a property: what the linear searches of the code find.\<close>

definition least_from :: "(nat \<Rightarrow> bool) \<Rightarrow> nat \<Rightarrow> nat \<Rightarrow> nat option" where
  "least_from P a b = (case filter P [a..<b] of [] \<Rightarrow> None | j # _ \<Rightarrow> Some j)"

lemma least_from_None: "least_from P a b = None \<longleftrightarrow> (\<forall>k. a \<le> k \<longrightarrow> k < b \<longrightarrow> \<not> P k)"
  by (auto simp: least_from_def filter_empty_conv split: list.splits)
    (metis atLeastLessThan_iff atLeastLessThan_upt filter_empty_conv list.distinct(1))

lemma least_from_SomeD:
  assumes "least_from P a b = Some j"
  shows "a \<le> j" "j < b" "P j" "\<And>k. a \<le> k \<Longrightarrow> k < j \<Longrightarrow> \<not> P k"
proof -
  from assms obtain js where eq: "filter P [a..<b] = j # js"
    by (auto simp: least_from_def split: list.splits)
  then have "j \<in> set (filter P [a..<b])" by simp
  then show "a \<le> j" "j < b" "P j" by auto
  fix k assume k: "a \<le> k" "k < j"
  have "sorted (filter P [a..<b])" by (rule sorted_wrt_filter) simp
  with eq have least: "\<forall>i \<in> set (filter P [a..<b]). j \<le> i" by auto
  show "\<not> P k"
  proof
    assume "P k"
    with k \<open>j < b\<close> have "k \<in> set (filter P [a..<b])" by auto
    with least k show False by auto
  qed
qed

lemma least_from_Some:
  "least_from P a b = Some j \<longleftrightarrow> a \<le> j \<and> j < b \<and> P j \<and> (\<forall>k. a \<le> k \<longrightarrow> k < j \<longrightarrow> \<not> P k)"
    (is "?L = ?R")
proof
  assume ?R
  then obtain i where i: "least_from P a b = Some i"
    using least_from_None [of P a b] by (cases "least_from P a b") auto
  note d = least_from_SomeD [OF i]
  from \<open>?R\<close> d have "i = j" by (metis linorder_neqE_nat)
  with i show ?L by simp
qed (blast dest: least_from_SomeD)

lemma least_from_skip:
  assumes "i \<le> j" and "\<And>k. i \<le> k \<Longrightarrow> k < j \<Longrightarrow> \<not> P k"
  shows "least_from P j b = least_from P i b"
proof (cases "least_from P i b")
  case None
  then have none: "\<not> P k" if "i \<le> k" "k < b" for k
    using that by (simp add: least_from_None)
  have "\<not> P k" if "j \<le> k" "k < b" for k
    using none [OF order.trans [OF assms(1) that(1)] that(2)] .
  then have "least_from P j b = None" by (simp add: least_from_None)
  with None show ?thesis by simp
next
  case (Some m)
  then have m: "i \<le> m" "m < b" "P m" "\<forall>k. i \<le> k \<longrightarrow> k < m \<longrightarrow> \<not> P k"
    by (auto simp: least_from_Some)
  with assms(2) have "j \<le> m" by (meson not_less)
  with m assms(1) show ?thesis unfolding Some by (auto simp: least_from_Some)
qed

lemma least_from_cong:
  "(\<And>k. a \<le> k \<Longrightarrow> k < b \<Longrightarrow> P k = Q k) \<Longrightarrow> least_from P a b = least_from Q a b"
  unfolding least_from_def by (metis (no_types, lifting) atLeastLessThan_iff atLeastLessThan_upt filter_cong)

lemma concat_take_nth_drop:
  "i < length xss \<Longrightarrow> concat xss = concat (take i xss) @ xss ! i @ concat (drop (Suc i) xss)"
  by (metis concat.simps(2) concat_append id_take_nth_drop)

lemma concat_take_empty:
  "(\<And>k. k < i \<Longrightarrow> k < length xss \<Longrightarrow> xss ! k = []) \<Longrightarrow> concat (take i xss) = []"
  by (auto simp: concat_eq_Nil_conv set_conv_nth)

end
