(* ===== verification/ThreadQueueList.thy ===== *)
theory ThreadQueueList
  imports Prelude
begin

text \<open>
  The ready queue of the thread manager, \<open>common/thread_queue_list.h\<close>: one double-ended
  queue per priority level, the levels that have ever been used chained by pointers.
  \<open>link\<close> is a \<open>Queue*\<close>: the tag for a level that was never used, the null
  pointer, or the address of one of the levels. A default-constructed element
  (\<open>T()\<close>, a null \<open>Thread*\<close>) is \<open>None\<close>.
\<close>

section \<open>The structure\<close>

datatype link = UnlinkedTag | NullPtr | QueueAt nat

record 'a level =
  next_nonempty :: link
  level_data :: "'a list"

record 'a ready_queue =
  first_level :: link
  queues :: "'a level list"

definition new_level :: "'a level" where
  "new_level = \<lparr>next_nonempty = UnlinkedTag, level_data = []\<rparr>"

definition new_queue :: "nat \<Rightarrow> 'a ready_queue" where
  "new_queue n = \<lparr>first_level = NullPtr, queues = replicate n new_level\<rparr>"

definition set_data :: "nat \<Rightarrow> ('a list \<Rightarrow> 'a list) \<Rightarrow> 'a ready_queue \<Rightarrow> 'a ready_queue" where
  "set_data p f q = q\<lparr>queues := (queues q)[p := (queues q ! p)\<lparr>level_data := f (level_data (queues q ! p))\<rparr>]\<rparr>"

section \<open>Operations\<close>

definition contains :: "'a \<Rightarrow> 'a ready_queue \<Rightarrow> nat option" where
  "contains uid q =
     least_from (\<lambda>i. uid \<in> set (level_data (queues q ! i))) 0 (length (queues q))"

text \<open>
  The loop of \<open>get_first\<close> and \<open>pop_first\<close>: follow the chain to the first level that
  holds something. \<open>Some None\<close> is the end of the chain; following the tag is no value.
\<close>

partial_function (option) first_nonempty :: "'a level list \<Rightarrow> link \<Rightarrow> nat option run" where
  "first_nonempty qs cur =
     (case cur of
        NullPtr \<Rightarrow> Some None
      | UnlinkedTag \<Rightarrow> None
      | QueueAt i \<Rightarrow>
          if i < length qs
          then if level_data (qs ! i) \<noteq> [] then Some (Some i)
               else first_nonempty qs (next_nonempty (qs ! i))
          else None)"

text \<open>
  The loop of \<open>pop_first_better\<close> compares addresses: it goes on while \<open>cur < stop\<close>. The
  null pointer and the tag compare below every level, and using them is no value.
\<close>

partial_function (option) first_nonempty_below :: "'a level list \<Rightarrow> nat \<Rightarrow> link \<Rightarrow> nat option run" where
  "first_nonempty_below qs stop cur =
     (case cur of
        NullPtr \<Rightarrow> None
      | UnlinkedTag \<Rightarrow> None
      | QueueAt i \<Rightarrow>
          if i < stop
          then if i < length qs
               then if level_data (qs ! i) \<noteq> [] then Some (Some i)
                    else first_nonempty_below qs stop (next_nonempty (qs ! i))
               else None
          else Some None)"

definition get_first :: "'a ready_queue \<Rightarrow> 'a option run" where
  "get_first q =
     map_option (map_option (\<lambda>i. hd (level_data (queues q ! i)))) (first_nonempty (queues q) (first_level q))"

definition take_front :: "'a ready_queue \<Rightarrow> nat option \<Rightarrow> 'a option \<times> 'a ready_queue" where
  "take_front q r =
     (case r of
        None \<Rightarrow> (None, q)
      | Some i \<Rightarrow> (Some (hd (level_data (queues q ! i))), set_data i tl q))"

definition pop_first :: "'a ready_queue \<Rightarrow> ('a option \<times> 'a ready_queue) run" where
  "pop_first q = map_option (take_front q) (first_nonempty (queues q) (first_level q))"

definition pop_first_better :: "nat \<Rightarrow> 'a ready_queue \<Rightarrow> ('a option \<times> 'a ready_queue) run" where
  "pop_first_better priority q =
     map_option (take_front q) (first_nonempty_below (queues q) priority (first_level q))"

definition push_front :: "nat \<Rightarrow> 'a \<Rightarrow> 'a ready_queue \<Rightarrow> 'a ready_queue" where
  "push_front priority thread_id q = set_data priority (\<lambda>d. thread_id # d) q"

definition push_back :: "nat \<Rightarrow> 'a \<Rightarrow> 'a ready_queue \<Rightarrow> 'a ready_queue" where
  "push_back priority thread_id q = set_data priority (\<lambda>d. d @ [thread_id]) q"

definition remove_from :: "nat \<Rightarrow> 'a \<Rightarrow> 'a ready_queue \<Rightarrow> 'a ready_queue" where
  "remove_from priority thread_id q = set_data priority (filter (\<lambda>t. t \<noteq> thread_id)) q"

definition rotate_level :: "nat \<Rightarrow> 'a ready_queue \<Rightarrow> 'a ready_queue" where
  "rotate_level priority q =
     set_data priority (\<lambda>d. if 1 < length d then tl d @ [hd d] else d) q"

definition clear_queue :: "'a ready_queue \<Rightarrow> 'a ready_queue" where
  "clear_queue q = \<lparr>first_level = NullPtr, queues = replicate (length (queues q)) new_level\<rparr>"

definition level_empty :: "nat \<Rightarrow> 'a ready_queue \<Rightarrow> bool" where
  "level_empty priority q \<longleftrightarrow> level_data (queues q ! priority) = []"

text \<open>The loop of \<open>link\<close>: the levels below \<open>i\<close>, from the highest number down.\<close>

fun linked_below :: "'a level list \<Rightarrow> nat \<Rightarrow> nat option" where
  "linked_below qs 0 = None"
| "linked_below qs (Suc i) =
     (if next_nonempty (qs ! i) \<noteq> UnlinkedTag then Some i else linked_below qs i)"

definition set_next :: "nat \<Rightarrow> link \<Rightarrow> 'a ready_queue \<Rightarrow> 'a ready_queue" where
  "set_next p l q = q\<lparr>queues := (queues q)[p := (queues q ! p)\<lparr>next_nonempty := l\<rparr>]\<rparr>"

definition link_level :: "nat \<Rightarrow> 'a ready_queue \<Rightarrow> 'a ready_queue" where
  "link_level priority q =
     (case linked_below (queues q) priority of
        Some i \<Rightarrow>
          set_next i (QueueAt priority)
            (set_next priority (next_nonempty (queues q ! i)) q)
      | None \<Rightarrow> (set_next priority (first_level q) q)\<lparr>first_level := QueueAt priority\<rparr>)"

definition prepare :: "nat \<Rightarrow> 'a ready_queue \<Rightarrow> 'a ready_queue" where
  "prepare priority q =
     (if next_nonempty (queues q ! priority) = UnlinkedTag then link_level priority q else q)"

definition move_between :: "'a \<Rightarrow> nat \<Rightarrow> nat \<Rightarrow> 'a ready_queue \<Rightarrow> 'a ready_queue" where
  "move_between thread_id old_priority new_priority q =
     push_back new_priority thread_id (prepare new_priority (remove_from old_priority thread_id q))"

section \<open>The chain invariant\<close>

definition linked :: "'a level list \<Rightarrow> nat \<Rightarrow> bool" where
  "linked qs i \<longleftrightarrow> next_nonempty (qs ! i) \<noteq> UnlinkedTag"

definition chain_from :: "'a level list \<Rightarrow> nat \<Rightarrow> link" where
  "chain_from qs i =
     (case least_from (linked qs) i (length qs) of None \<Rightarrow> NullPtr | Some j \<Rightarrow> QueueAt j)"

text \<open>
  Every pointer of the chain leads to the next used level, and a level that holds a
  thread is on the chain.
\<close>

definition chain_ok :: "'a ready_queue \<Rightarrow> bool" where
  "chain_ok q \<longleftrightarrow>
     first_level q = chain_from (queues q) 0 \<and>
     (\<forall>i < length (queues q). linked (queues q) i \<longrightarrow>
        next_nonempty (queues q ! i) = chain_from (queues q) (Suc i))"

definition data_linked :: "'a ready_queue \<Rightarrow> bool" where
  "data_linked q \<longleftrightarrow>
     (\<forall>i < length (queues q). level_data (queues q ! i) \<noteq> [] \<longrightarrow> linked (queues q) i)"

definition queue_inv :: "nat \<Rightarrow> 'a ready_queue \<Rightarrow> bool" where
  "queue_inv n q \<longleftrightarrow> length (queues q) = n \<and> chain_ok q \<and> data_linked q"

text \<open>
  What the structure stands for: the threads of each level, and the ready threads in the
  order the scheduler takes them, highest priority (lowest number) first.
\<close>

definition level :: "'a ready_queue \<Rightarrow> nat \<Rightarrow> 'a list" where
  "level q p = (if p < length (queues q) then level_data (queues q ! p) else [])"

definition ready_order :: "'a ready_queue \<Rightarrow> 'a list" where
  "ready_order q = concat (map level_data (queues q))"

definition used_levels :: "'a ready_queue \<Rightarrow> nat set" where
  "used_levels q = {i. i < length (queues q) \<and> linked (queues q) i}"

section \<open>Walking the chain\<close>

lemma chain_from_Null: "chain_from qs i = NullPtr \<longleftrightarrow> (\<forall>k. i \<le> k \<longrightarrow> k < length qs \<longrightarrow> \<not> linked qs k)"
  by (auto simp: chain_from_def least_from_None [symmetric] split: option.splits)

lemma chain_from_At:
  "chain_from qs i = QueueAt j \<longleftrightarrow>
     i \<le> j \<and> j < length qs \<and> linked qs j \<and> (\<forall>k. i \<le> k \<longrightarrow> k < j \<longrightarrow> \<not> linked qs k)"
  by (auto simp: chain_from_def least_from_Some [symmetric] split: option.splits)

lemma chain_from_not_tag [simp]: "chain_from qs i \<noteq> UnlinkedTag"
  by (simp add: chain_from_def split: option.splits)

lemma first_nonempty_chain:
  assumes next_eq: "\<forall>i < length qs. linked qs i \<longrightarrow> next_nonempty (qs ! i) = chain_from qs (Suc i)"
    and dl: "\<forall>i < length qs. level_data (qs ! i) \<noteq> [] \<longrightarrow> linked qs i"
  shows "first_nonempty qs (chain_from qs i) =
           Some (least_from (\<lambda>j. level_data (qs ! j) \<noteq> []) i (length qs))"
proof (induction "length qs - i" arbitrary: i rule: less_induct)
  case less
  show ?case
  proof (cases "chain_from qs i")
    case (QueueAt j)
    then have j: "i \<le> j" "j < length qs" "linked qs j" "\<forall>k. i \<le> k \<longrightarrow> k < j \<longrightarrow> \<not> linked qs k"
      by (auto simp: chain_from_At)
    then have gap: "level_data (qs ! k) = []" if "i \<le> k" "k < j" for k
      using dl that by (meson order.strict_trans)
    show ?thesis
    proof (cases "level_data (qs ! j) = []")
      case True
      have "first_nonempty qs (chain_from qs (Suc j)) =
              Some (least_from (\<lambda>j. level_data (qs ! j) \<noteq> []) (Suc j) (length qs))"
        using j by (intro less) auto
      moreover have "least_from (\<lambda>j. level_data (qs ! j) \<noteq> []) (Suc j) (length qs) =
          least_from (\<lambda>j. level_data (qs ! j) \<noteq> []) i (length qs)"
        using j(1) gap True by (intro least_from_skip) (auto simp: less_Suc_eq)
      ultimately show ?thesis
        using QueueAt j True next_eq by (simp add: first_nonempty.simps [of qs "QueueAt j"])
    next
      case False
      then have "least_from (\<lambda>j. level_data (qs ! j) \<noteq> []) i (length qs) = Some j"
        using j gap by (auto simp: least_from_Some)
      with QueueAt j False show ?thesis by (simp add: first_nonempty.simps [of qs "QueueAt j"])
    qed
  next
    case NullPtr
    then have "least_from (\<lambda>j. level_data (qs ! j) \<noteq> []) i (length qs) = None"
      using dl by (auto simp: chain_from_Null least_from_None)
    with NullPtr show ?thesis by (simp add: first_nonempty.simps [of qs NullPtr])
  qed simp
qed

lemma first_nonempty_below_chain:
  assumes next_eq: "\<forall>i < length qs. linked qs i \<longrightarrow> next_nonempty (qs ! i) = chain_from qs (Suc i)"
    and dl: "\<forall>i < length qs. level_data (qs ! i) \<noteq> [] \<longrightarrow> linked qs i"
    and stop: "i \<le> stop" "stop \<le> m" "m < length qs" "linked qs m"
  shows "first_nonempty_below qs stop (chain_from qs i) =
           Some (least_from (\<lambda>j. level_data (qs ! j) \<noteq> []) i stop)"
proof -
  have "first_nonempty_below qs stop (chain_from qs i) =
           Some (least_from (\<lambda>j. level_data (qs ! j) \<noteq> []) i stop)" if "i \<le> m" for i
    using that
  proof (induction "length qs - i" arbitrary: i rule: less_induct)
    case less
    obtain j where At: "chain_from qs i = QueueAt j"
      using less.prems stop by (cases "chain_from qs i") (auto simp: chain_from_Null)
    then have j: "i \<le> j" "j < length qs" "linked qs j" "\<forall>k. i \<le> k \<longrightarrow> k < j \<longrightarrow> \<not> linked qs k"
      by (auto simp: chain_from_At)
    have gap: "level_data (qs ! k) = []" if "i \<le> k" "k < j" for k
      using dl j that by (meson order.strict_trans)
    show ?case
    proof (cases "j < stop")
      case False
      then have "least_from (\<lambda>j. level_data (qs ! j) \<noteq> []) i stop = None"
        using gap by (simp add: least_from_None)
      with False At show ?thesis by (simp add: first_nonempty_below.simps [of qs stop "QueueAt j"])
    next
      case True
      note below = True
      show ?thesis
      proof (cases "level_data (qs ! j) = []")
        case True
        have "first_nonempty_below qs stop (chain_from qs (Suc j)) =
                Some (least_from (\<lambda>j. level_data (qs ! j) \<noteq> []) (Suc j) stop)"
          using j below stop by (intro less) auto
        moreover have "least_from (\<lambda>j. level_data (qs ! j) \<noteq> []) (Suc j) stop =
            least_from (\<lambda>j. level_data (qs ! j) \<noteq> []) i stop"
          using j(1) gap True by (intro least_from_skip) (auto simp: less_Suc_eq)
        ultimately show ?thesis
          using At j True next_eq below
          by (simp add: first_nonempty_below.simps [of qs stop "QueueAt j"])
      next
        case False
        then have "least_from (\<lambda>j. level_data (qs ! j) \<noteq> []) i stop = Some j"
          using j gap below by (simp add: least_from_Some)
        with At j False below show ?thesis
          by (simp add: first_nonempty_below.simps [of qs stop "QueueAt j"])
      qed
    qed
  qed
  with stop show ?thesis by simp
qed

text \<open>With nothing to find and no used level at or beyond \<open>stop\<close>, the walk falls off the chain.\<close>

lemma first_nonempty_below_falls_off:
  assumes next_eq: "\<forall>i < length qs. linked qs i \<longrightarrow> next_nonempty (qs ! i) = chain_from qs (Suc i)"
    and none: "\<forall>k. stop \<le> k \<longrightarrow> k < length qs \<longrightarrow> \<not> linked qs k"
    and empty: "\<forall>k < stop. level_data (qs ! k) = []"
  shows "first_nonempty_below qs stop (chain_from qs i) = None"
proof (induction "length qs - i" arbitrary: i rule: less_induct)
  case less
  show ?case
  proof (cases "chain_from qs i")
    case (QueueAt j)
    then have j: "i \<le> j" "j < length qs" "linked qs j" by (auto simp: chain_from_At)
    with none have "j < stop" by (meson not_less)
    moreover have "first_nonempty_below qs stop (chain_from qs (Suc j)) = None"
      using j by (intro less) auto
    ultimately show ?thesis
      using QueueAt j empty next_eq by (simp add: first_nonempty_below.simps [of qs stop "QueueAt j"])
  qed (simp_all add: first_nonempty_below.simps [of qs stop NullPtr])
qed

section \<open>What each operation does to the structure\<close>

lemma length_set_data [simp]: "length (queues (set_data p f q)) = length (queues q)"
  by (simp add: set_data_def)

lemma first_set_data [simp]: "first_level (set_data p f q) = first_level q"
  by (simp add: set_data_def)

lemma next_set_data [simp]:
  "next_nonempty (queues (set_data p f q) ! i) = next_nonempty (queues q ! i)"
  by (cases "p < length (queues q)"; cases "p = i") (auto simp: set_data_def list_update_beyond)

lemma linked_set_data [simp]: "linked (queues (set_data p f q)) = linked (queues q)"
  by (rule ext) (simp add: linked_def)

lemma chain_from_set_data [simp]: "chain_from (queues (set_data p f q)) i = chain_from (queues q) i"
  by (simp add: chain_from_def)

lemma chain_ok_set_data [simp]: "chain_ok (set_data p f q) = chain_ok q"
  by (simp add: chain_ok_def)

lemma used_set_data [simp]: "used_levels (set_data p f q) = used_levels q"
  by (simp add: used_levels_def)

lemma level_set_data:
  "p < length (queues q) \<Longrightarrow> level (set_data p f q) i = (if i = p then f (level q p) else level q i)"
  by (auto simp: level_def set_data_def nth_list_update)

lemma queue_inv_set_data:
  assumes "queue_inv n q" "p \<in> used_levels q"
  shows "queue_inv n (set_data p f q)"
proof -
  have "data_linked (set_data p f q)"
    unfolding data_linked_def
  proof (intro allI impI)
    fix i assume i: "i < length (queues (set_data p f q))"
      "level_data (queues (set_data p f q) ! i) \<noteq> []"
    show "linked (queues (set_data p f q)) i"
    proof (cases "i = p")
      case True
      with assms(2) show ?thesis by (simp add: used_levels_def)
    next
      case False
      with i have "level_data (queues q ! i) \<noteq> []" by (simp add: set_data_def)
      with i(1) assms(1) show ?thesis by (auto simp: queue_inv_def data_linked_def)
    qed
  qed
  with assms(1) show ?thesis by (simp add: queue_inv_def)
qed

lemma queue_inv_set_data_shrink:
  assumes "queue_inv n q" "p < n" "\<And>d. d = [] \<Longrightarrow> f d = []"
  shows "queue_inv n (set_data p f q)"
proof (cases "p \<in> used_levels q")
  case False
  with assms have "level_data (queues q ! p) = []"
    by (auto simp: used_levels_def queue_inv_def data_linked_def)
  then have "(queues q ! p)\<lparr>level_data := f (level_data (queues q ! p))\<rparr> = queues q ! p"
    using assms(3) by (cases "queues q ! p") simp
  then have "set_data p f q = q"
    by (simp add: set_data_def)
  with assms(1) show ?thesis by simp
qed (rule queue_inv_set_data [OF assms(1)])

lemma used_levels_less: "queue_inv n q \<Longrightarrow> p \<in> used_levels q \<Longrightarrow> p < n"
  by (simp add: used_levels_def queue_inv_def)

lemma level_unused: "queue_inv n q \<Longrightarrow> p \<notin> used_levels q \<Longrightarrow> level q p = []"
  by (auto simp: used_levels_def queue_inv_def data_linked_def level_def)

subsection \<open>Linking a level into the chain\<close>

lemma linked_below_None: "linked_below qs p = None \<longleftrightarrow> (\<forall>k < p. \<not> linked qs k)"
  by (induction p) (auto simp: linked_def less_Suc_eq)

lemma linked_below_Some:
  "linked_below qs p = Some i \<Longrightarrow> i < p \<and> linked qs i \<and> (\<forall>k. i < k \<longrightarrow> k < p \<longrightarrow> \<not> linked qs k)"
  by (induction p) (auto simp: linked_def less_Suc_eq split: if_splits)

lemma chain_from_insert:
  assumes len: "length qs' = length qs" and p: "p < length qs"
    and ins: "\<And>k. k < length qs \<Longrightarrow> linked qs' k \<longleftrightarrow> linked qs k \<or> k = p"
  shows "chain_from qs' i =
    (if i \<le> p \<and> (\<forall>k. i \<le> k \<longrightarrow> k < p \<longrightarrow> \<not> linked qs k) then QueueAt p else chain_from qs i)"
proof (cases "i \<le> p \<and> (\<forall>k. i \<le> k \<longrightarrow> k < p \<longrightarrow> \<not> linked qs k)")
  case True
  with p ins len show ?thesis by (auto simp: chain_from_At)
next
  case False
  have "least_from (linked qs') i (length qs) = least_from (linked qs) i (length qs)"
  proof (cases "i \<le> p")
    case True
    with False obtain k where k: "i \<le> k" "k < p" "linked qs k" by blast
    with p have "least_from (linked qs) i (length qs) \<noteq> None" by (auto simp: least_from_None)
    then obtain m where some: "least_from (linked qs) i (length qs) = Some m" by blast
    then have m: "i \<le> m" "m < length qs" "linked qs m" "\<forall>k. i \<le> k \<longrightarrow> k < m \<longrightarrow> \<not> linked qs k"
      by (auto simp: least_from_Some)
    with k have "m \<le> k" by (meson not_less)
    with m k ins have "least_from (linked qs') i (length qs) = Some m"
      by (auto simp: least_from_Some)
    with some show ?thesis by simp
  next
    case False
    with ins show ?thesis by (intro least_from_cong) auto
  qed
  then show ?thesis unfolding if_not_P [OF False] by (simp add: chain_from_def len)
qed

lemma chain_from_gap:
  "i \<le> j \<Longrightarrow> (\<And>k. i \<le> k \<Longrightarrow> k < j \<Longrightarrow> \<not> linked qs k) \<Longrightarrow> chain_from qs j = chain_from qs i"
  unfolding chain_from_def by (subst least_from_skip [of i j]) auto

lemma length_set_next [simp]: "length (queues (set_next p l q)) = length (queues q)"
  by (simp add: set_next_def)

lemma first_set_next [simp]: "first_level (set_next p l q) = first_level q"
  by (simp add: set_next_def)

lemma next_set_next:
  "p < length (queues q) \<Longrightarrow>
     next_nonempty (queues (set_next p l q) ! i) =
       (if i = p then l else next_nonempty (queues q ! i))"
  by (simp add: set_next_def nth_list_update)

lemma data_set_next [simp]:
  "level_data (queues (set_next p l q) ! i) = level_data (queues q ! i)"
  by (cases "p < length (queues q)"; cases "i = p") (auto simp: set_next_def list_update_beyond)

lemma linked_set_next:
  "p < length (queues q) \<Longrightarrow>
     linked (queues (set_next p l q)) i = (if i = p then l \<noteq> UnlinkedTag else linked (queues q) i)"
  by (simp add: linked_def next_set_next)

lemma link_level_frame:
  "length (queues (link_level p q)) = length (queues q)"
  "level_data (queues (link_level p q) ! i) = level_data (queues q ! i)"
  by (auto simp: link_level_def split: option.splits)

lemma link_level_chain:
  assumes q: "chain_ok q" and p: "p < length (queues q)" and un: "\<not> linked (queues q) p"
  shows "chain_ok (link_level p q)"
    and "\<And>k. linked (queues (link_level p q)) k \<longleftrightarrow> linked (queues q) k \<or> k = p"
proof -
  let ?qs = "queues q" and ?q' = "link_level p q"
  have fst0: "first_level q = chain_from ?qs 0"
    and nxt: "\<And>i. i < length ?qs \<Longrightarrow> linked ?qs i \<Longrightarrow> next_nonempty (?qs ! i) = chain_from ?qs (Suc i)"
    using q by (auto simp: chain_ok_def)
  show ins: "linked (queues ?q') k \<longleftrightarrow> linked ?qs k \<or> k = p" for k
  proof (cases "linked_below ?qs p")
    case None
    with p fst0 show ?thesis by (auto simp: link_level_def linked_set_next)
  next
    case (Some i)
    note i = linked_below_Some [OF Some]
    with nxt p have "next_nonempty (?qs ! i) \<noteq> UnlinkedTag" by (simp add: linked_def)
    with Some i p show ?thesis by (auto simp: link_level_def linked_set_next)
  qed
  have cf: "chain_from (queues ?q') i =
    (if i \<le> p \<and> (\<forall>k. i \<le> k \<longrightarrow> k < p \<longrightarrow> \<not> linked ?qs k) then QueueAt p else chain_from ?qs i)" for i
    using p by (intro chain_from_insert) (auto simp: link_level_frame ins)
  show "chain_ok ?q'"
  proof (cases "linked_below ?qs p")
    case None
    then have none: "\<forall>k < p. \<not> linked ?qs k" by (simp add: linked_below_None)
    have "chain_from ?qs (Suc p) = chain_from ?qs 0"
      using none un by (intro chain_from_gap) (auto simp: less_Suc_eq)
    then have nx: "next_nonempty (queues ?q' ! i) =
        (if i = p then chain_from ?qs (Suc p) else next_nonempty (?qs ! i))" for i
      using None p fst0 by (simp add: link_level_def next_set_next)
    show ?thesis
      unfolding chain_ok_def
    proof (intro conjI allI impI)
      have "first_level ?q' = QueueAt p" using None by (simp add: link_level_def)
      with none show "first_level ?q' = chain_from (queues ?q') 0" unfolding cf by simp
    next
      fix i assume i: "i < length (queues ?q')" "linked (queues ?q') i"
      then have "p \<le> i" using none unfolding ins by (auto simp: not_less [symmetric])
      with i nx nxt ins show "next_nonempty (queues ?q' ! i) = chain_from (queues ?q') (Suc i)"
        by (auto simp: cf link_level_frame)
    qed
  next
    case (Some i)
    note i = linked_below_Some [OF Some]
    have "chain_from ?qs (Suc p) = chain_from ?qs (Suc i)"
      using i un by (intro chain_from_gap) (auto simp: less_Suc_eq)
    then have nx: "next_nonempty (queues ?q' ! j) =
        (if j = i then QueueAt p else if j = p then chain_from ?qs (Suc p) else next_nonempty (?qs ! j))" for j
      using Some i p nxt by (simp add: link_level_def next_set_next)
    show ?thesis
      unfolding chain_ok_def
    proof (intro conjI allI impI)
      have "first_level ?q' = first_level q" using Some by (simp add: link_level_def)
      with i fst0 show "first_level ?q' = chain_from (queues ?q') 0" unfolding cf by auto
    next
      fix j assume j: "j < length (queues ?q')" "linked (queues ?q') j"
      consider "j < i" | "j = i" | "j = p" | "p < j"
        using j(2) ins i by (metis linorder_neqE_nat)
      then show "next_nonempty (queues ?q' ! j) = chain_from (queues ?q') (Suc j)"
      proof cases
        case 1
        with i j ins nx nxt p show ?thesis by (auto simp: cf)
      next
        case 2
        with i show ?thesis by (auto simp: nx cf)
      next
        case 3
        with i show ?thesis by (auto simp: nx cf)
      next
        case 4
        with i j ins nxt show ?thesis by (auto simp: nx cf link_level_frame)
      qed
    qed
  qed
qed

lemma prepare_spec:
  assumes "queue_inv n q" "p < n"
  shows "queue_inv n (prepare p q)" "used_levels (prepare p q) = insert p (used_levels q)"
    "level (prepare p q) = level q"
proof -
  have p: "p < length (queues q)" and ok: "chain_ok q" and dl: "data_linked q"
    using assms by (auto simp: queue_inv_def)
  have "queue_inv n (prepare p q) \<and> used_levels (prepare p q) = insert p (used_levels q)
      \<and> level (prepare p q) = level q"
  proof (cases "linked (queues q) p")
    case True
    with assms p show ?thesis by (auto simp: prepare_def linked_def used_levels_def)
  next
    case False
    note lk = link_level_chain [OF ok p False]
    have pq: "prepare p q = link_level p q" using False by (simp add: prepare_def linked_def)
    have "data_linked (link_level p q)"
      using dl by (auto simp: data_linked_def lk link_level_frame)
    with assms(1) lk(1) have "queue_inv n (link_level p q)" by (simp add: queue_inv_def link_level_frame)
    moreover have "used_levels (link_level p q) = insert p (used_levels q)"
      using p by (auto simp: used_levels_def lk link_level_frame)
    moreover have "level (link_level p q) = level q"
      by (simp add: level_def fun_eq_iff link_level_frame)
    ultimately show ?thesis by (simp add: pq)
  qed
  then show "queue_inv n (prepare p q)" "used_levels (prepare p q) = insert p (used_levels q)"
    "level (prepare p q) = level q" by auto
qed

subsection \<open>Taking the best thread\<close>

lemma queue_inv_walk:
  assumes "queue_inv n q"
  shows "first_nonempty (queues q) (first_level q) = Some (least_from (\<lambda>j. level q j \<noteq> []) 0 n)"
    and "p \<in> used_levels q \<Longrightarrow>
      first_nonempty_below (queues q) p (first_level q) = Some (least_from (\<lambda>j. level q j \<noteq> []) 0 p)"
proof -
  have q: "length (queues q) = n" "first_level q = chain_from (queues q) 0"
    "\<forall>i < length (queues q). linked (queues q) i \<longrightarrow> next_nonempty (queues q ! i) = chain_from (queues q) (Suc i)"
    "\<forall>i < length (queues q). level_data (queues q ! i) \<noteq> [] \<longrightarrow> linked (queues q) i"
    using assms by (auto simp: queue_inv_def chain_ok_def data_linked_def)
  have lev: "least_from (\<lambda>j. level q j \<noteq> []) 0 m = least_from (\<lambda>j. level_data (queues q ! j) \<noteq> []) 0 m"
    if "m \<le> n" for m
    using that q(1) by (intro least_from_cong) (simp add: level_def)
  show "first_nonempty (queues q) (first_level q) = Some (least_from (\<lambda>j. level q j \<noteq> []) 0 n)"
    using first_nonempty_chain [OF q(3,4)] q(1,2) lev [of n] by simp
  assume "p \<in> used_levels q"
  then have p: "p < length (queues q)" "linked (queues q) p" by (auto simp: used_levels_def)
  show "first_nonempty_below (queues q) p (first_level q) = Some (least_from (\<lambda>j. level q j \<noteq> []) 0 p)"
    using first_nonempty_below_chain [OF q(3,4) _ order.refl p, of 0] p q(1,2) lev [of p] by simp
qed

lemma take_front_spec:
  assumes "queue_inv n q" "least_from (\<lambda>j. level q j \<noteq> []) 0 m = Some i" "m \<le> n"
  shows "take_front q (Some i) = (Some (hd (level q i)), set_data i tl q)"
    "queue_inv n (set_data i tl q)" "level (set_data i tl q) = (level q)(i := tl (level q i))"
proof -
  have i: "i < n" "level q i \<noteq> []" using assms(2,3) by (auto simp: least_from_Some)
  with assms(1) have len: "i < length (queues q)" by (simp add: queue_inv_def)
  then show "take_front q (Some i) = (Some (hd (level q i)), set_data i tl q)"
    by (simp add: take_front_def level_def)
  show "queue_inv n (set_data i tl q)"
    using assms(1) i by (intro queue_inv_set_data_shrink) auto
  show "level (set_data i tl q) = (level q)(i := tl (level q i))"
    using len by (auto simp: level_set_data)
qed

section \<open>The interface of a ready queue\<close>

text \<open>
  What the thread manager relies on. \<open>used\<close> is the set of levels \<open>prepare\<close> was called
  for; pushing to any other level, or asking for a thread better than one that runs at
  any other level, is outside the contract.
\<close>

locale priority_levels =
  fixes inv :: "'q \<Rightarrow> bool"
    and lev :: "'q \<Rightarrow> nat \<Rightarrow> 'a list"
    and used :: "'q \<Rightarrow> nat set"
    and bound :: nat
    and popf :: "'q \<Rightarrow> ('a option \<times> 'q) option"
    and popb :: "nat \<Rightarrow> 'q \<Rightarrow> ('a option \<times> 'q) option"
    and pushf :: "nat \<Rightarrow> 'a \<Rightarrow> 'q \<Rightarrow> 'q"
    and pushb :: "nat \<Rightarrow> 'a \<Rightarrow> 'q \<Rightarrow> 'q"
    and rm :: "nat \<Rightarrow> 'a \<Rightarrow> 'q \<Rightarrow> 'q"
    and prep :: "nat \<Rightarrow> 'q \<Rightarrow> 'q"
  assumes used_bound: "inv q \<Longrightarrow> p \<in> used q \<Longrightarrow> p < bound"
    and unused_empty: "inv q \<Longrightarrow> p \<notin> used q \<Longrightarrow> lev q p = []"
    and prep_spec: "inv q \<Longrightarrow> p < bound \<Longrightarrow>
      inv (prep p q) \<and> used (prep p q) = insert p (used q) \<and> lev (prep p q) = lev q"
    and pushf_spec: "inv q \<Longrightarrow> p \<in> used q \<Longrightarrow>
      inv (pushf p t q) \<and> used (pushf p t q) = used q \<and> lev (pushf p t q) = (lev q)(p := t # lev q p)"
    and pushb_spec: "inv q \<Longrightarrow> p \<in> used q \<Longrightarrow>
      inv (pushb p t q) \<and> used (pushb p t q) = used q \<and> lev (pushb p t q) = (lev q)(p := lev q p @ [t])"
    and rm_spec: "inv q \<Longrightarrow> p < bound \<Longrightarrow>
      inv (rm p t q) \<and> used (rm p t q) = used q \<and>
      lev (rm p t q) = (lev q)(p := filter (\<lambda>x. x \<noteq> t) (lev q p))"
    and popf_spec: "inv q \<Longrightarrow>
      (case least_from (\<lambda>j. lev q j \<noteq> []) 0 bound of
         None \<Rightarrow> popf q = Some (None, q)
       | Some i \<Rightarrow> \<exists>q'. popf q = Some (Some (hd (lev q i)), q') \<and> inv q' \<and> used q' = used q \<and>
                     lev q' = (lev q)(i := tl (lev q i)))"
    and popb_spec: "inv q \<Longrightarrow> p \<in> used q \<Longrightarrow>
      (case least_from (\<lambda>j. lev q j \<noteq> []) 0 p of
         None \<Rightarrow> popb p q = Some (None, q)
       | Some i \<Rightarrow> \<exists>q'. popb p q = Some (Some (hd (lev q i)), q') \<and> inv q' \<and> used q' = used q \<and>
                     lev q' = (lev q)(i := tl (lev q i)))"
begin

lemma inv_ops:
  "inv q \<Longrightarrow> p < bound \<Longrightarrow> inv (prep p q)"
  "inv q \<Longrightarrow> p \<in> used q \<Longrightarrow> inv (pushf p t q)"
  "inv q \<Longrightarrow> p \<in> used q \<Longrightarrow> inv (pushb p t q)"
  "inv q \<Longrightarrow> p < bound \<Longrightarrow> inv (rm p t q)"
  by (simp_all add: prep_spec pushf_spec pushb_spec rm_spec)

lemma popf_total: "inv q \<Longrightarrow> \<exists>r q'. popf q = Some (r, q') \<and> inv q' \<and> used q' = used q"
  using popf_spec [of q] by (cases "least_from (\<lambda>j. lev q j \<noteq> []) 0 bound") auto

lemma popb_total:
  "inv q \<Longrightarrow> p \<in> used q \<Longrightarrow> \<exists>r q'. popb p q = Some (r, q') \<and> inv q' \<and> used q' = used q"
  using popb_spec [of q p] by (cases "least_from (\<lambda>j. lev q j \<noteq> []) 0 p") auto

lemma popf_None:
  assumes "inv q" "popf q = Some (None, q')"
  shows "q' = q" "lev q p = []"
proof -
  have none: "least_from (\<lambda>j. lev q j \<noteq> []) 0 bound = None"
    using popf_spec [OF assms(1)] assms(2) by (auto split: option.splits)
  with popf_spec [OF assms(1)] assms(2) show "q' = q" by simp
  show "lev q p = []"
    using none unused_empty [OF assms(1)] used_bound [OF assms(1)]
    by (cases "p \<in> used q") (auto simp: least_from_None)
qed

lemma popf_best:
  assumes "inv q" "popf q = Some (Some t, q')"
  obtains i where "i < bound" "lev q i = t # lev q' i" "\<forall>k < i. lev q k = []"
    "\<forall>k. k \<noteq> i \<longrightarrow> lev q' k = lev q k"
proof -
  from popf_spec [OF assms(1)] assms(2) obtain i
    where i: "least_from (\<lambda>j. lev q j \<noteq> []) 0 bound = Some i" "t = hd (lev q i)"
      "lev q' = (lev q)(i := tl (lev q i))"
    by (auto split: option.splits)
  then have "i < bound" "lev q i \<noteq> []" "\<forall>k < i. lev q k = []" by (auto simp: least_from_Some)
  with i show thesis by (intro that [of i]) auto
qed

lemma popb_best:
  assumes "inv q" "p \<in> used q" "popb p q = Some (Some t, q')"
  obtains i where "i < p" "lev q i = t # lev q' i" "\<forall>k < i. lev q k = []"
    "\<forall>k. k \<noteq> i \<longrightarrow> lev q' k = lev q k"
proof -
  from popb_spec [OF assms(1,2)] assms(3) obtain i
    where i: "least_from (\<lambda>j. lev q j \<noteq> []) 0 p = Some i" "t = hd (lev q i)"
      "lev q' = (lev q)(i := tl (lev q i))"
    by (auto split: option.splits)
  then have "i < p" "lev q i \<noteq> []" "\<forall>k < i. lev q k = []" by (auto simp: least_from_Some)
  with i show thesis by (intro that [of i]) auto
qed

lemma popb_None:
  assumes "inv q" "p \<in> used q" "popb p q = Some (None, q')"
  shows "q' = q" "k < p \<Longrightarrow> lev q k = []"
  using popb_spec [OF assms(1,2)] assms(3) by (auto simp: least_from_None split: option.splits)

text \<open>A preempted thread goes to the front of its level and is the next to run there.\<close>

lemma preempt_resume:
  assumes "inv q" "p \<in> used q" "\<forall>k < p. lev q k = []"
  shows "\<exists>q'. popf (pushf p t q) = Some (Some t, q') \<and> lev q' = lev q"
proof -
  note pf = pushf_spec [OF assms(1,2), of t]
  have "least_from (\<lambda>j. lev (pushf p t q) j \<noteq> []) 0 bound = Some p"
    using pf assms used_bound [OF assms(1,2)] by (auto simp: least_from_Some)
  with popf_spec [of "pushf p t q"] pf show ?thesis by auto
qed

text \<open>A change of priority: removed from one level, put at the back of another.\<close>

lemma reprioritise:
  fixes t :: 'a
  assumes "inv q" "old < bound" "new < bound"
  defines "q' \<equiv> pushb new t (prep new (rm old t q))"
  shows "inv q'" "used q' = insert new (used q)"
    "lev q' = (\<lambda>p. (if p = old then filter (\<lambda>x. x \<noteq> t) (lev q p) else lev q p) @ (if p = new then [t] else []))"
proof -
  note r = rm_spec [OF assms(1,2), of t]
  note p = prep_spec [OF conjunct1 [OF r] assms(3)]
  have "new \<in> used (prep new (rm old t q))" using p by simp
  note b = pushb_spec [OF conjunct1 [OF p] this, of t]
  from b p r show "inv q'" "used q' = insert new (used q)" by (auto simp: q'_def)
  from b p r show "lev q' = (\<lambda>p. (if p = old then filter (\<lambda>x. x \<noteq> t) (lev q p) else lev q p) @ (if p = new then [t] else []))"
    by (auto simp: q'_def fun_eq_iff)
qed

end

interpretation rq: priority_levels "queue_inv n" level used_levels n pop_first pop_first_better
  push_front push_back remove_from prepare for n
proof
  fix q :: "'a ready_queue" and p and t :: 'a
  assume q: "queue_inv n q"
  show "p \<in> used_levels q \<Longrightarrow> p < n" by (rule used_levels_less [OF q])
  show "p \<notin> used_levels q \<Longrightarrow> level q p = []" by (rule level_unused [OF q])
  show "p < n \<Longrightarrow> queue_inv n (prepare p q) \<and> used_levels (prepare p q) = insert p (used_levels q) \<and>
      level (prepare p q) = level q"
    using prepare_spec [OF q] by simp
  have len: "p < length (queues q)" if "p < n" for p using q that by (simp add: queue_inv_def)
  show "queue_inv n (push_front p t q) \<and> used_levels (push_front p t q) = used_levels q \<and>
      level (push_front p t q) = (level q)(p := t # level q p)" if "p \<in> used_levels q"
    using queue_inv_set_data [OF q that] len [OF used_levels_less [OF q that]]
    by (auto simp: push_front_def level_set_data)
  show "queue_inv n (push_back p t q) \<and> used_levels (push_back p t q) = used_levels q \<and>
      level (push_back p t q) = (level q)(p := level q p @ [t])" if "p \<in> used_levels q"
    using queue_inv_set_data [OF q that] len [OF used_levels_less [OF q that]]
    by (auto simp: push_back_def level_set_data)
  show "queue_inv n (remove_from p t q) \<and> used_levels (remove_from p t q) = used_levels q \<and>
      level (remove_from p t q) = (level q)(p := filter (\<lambda>x. x \<noteq> t) (level q p))" if "p < n"
    using queue_inv_set_data_shrink [OF q that] len [OF that]
    by (auto simp: remove_from_def level_set_data)
  show "case least_from (\<lambda>j. level q j \<noteq> []) 0 n of
         None \<Rightarrow> pop_first q = Some (None, q)
       | Some i \<Rightarrow> \<exists>q'. pop_first q = Some (Some (hd (level q i)), q') \<and> queue_inv n q' \<and>
            used_levels q' = used_levels q \<and> level q' = (level q)(i := tl (level q i))"
    using take_front_spec [OF q, of n]
    by (auto simp: pop_first_def queue_inv_walk [OF q] take_front_def split: option.splits)
  show "case least_from (\<lambda>j. level q j \<noteq> []) 0 p of
         None \<Rightarrow> pop_first_better p q = Some (None, q)
       | Some i \<Rightarrow> \<exists>q'. pop_first_better p q = Some (Some (hd (level q i)), q') \<and> queue_inv n q' \<and>
            used_levels q' = used_levels q \<and> level q' = (level q)(i := tl (level q i))"
    if "p \<in> used_levels q"
    using take_front_spec [OF q, of p] used_levels_less [OF q that]
    by (auto simp: pop_first_better_def queue_inv_walk [OF q] that take_front_def split: option.splits)
qed

section \<open>Runs of a queue\<close>

text \<open>
  Every queue the thread manager can have: built from an empty one, and pushed to only at
  levels that were prepared (\<open>CreateThread\<close>, \<open>SetPriority\<close> and \<open>BoostPriority\<close> prepare the
  level of a thread before it can be pushed there).
\<close>

inductive queue_run :: "nat \<Rightarrow> 'a ready_queue \<Rightarrow> bool" where
  start: "queue_run n (new_queue n)"
| cleared: "queue_run n q \<Longrightarrow> queue_run n (clear_queue q)"
| prepared: "queue_run n q \<Longrightarrow> p < n \<Longrightarrow> queue_run n (prepare p q)"
| pushed_back: "queue_run n q \<Longrightarrow> p \<in> used_levels q \<Longrightarrow> queue_run n (push_back p t q)"
| pushed_front: "queue_run n q \<Longrightarrow> p \<in> used_levels q \<Longrightarrow> queue_run n (push_front p t q)"
| removed: "queue_run n q \<Longrightarrow> p < n \<Longrightarrow> queue_run n (remove_from p t q)"
| rotated: "queue_run n q \<Longrightarrow> p < n \<Longrightarrow> queue_run n (rotate_level p q)"
| popped: "queue_run n q \<Longrightarrow> pop_first q = Some (r, q') \<Longrightarrow> queue_run n q'"
| popped_better: "queue_run n q \<Longrightarrow> p \<in> used_levels q \<Longrightarrow> pop_first_better p q = Some (r, q') \<Longrightarrow>
    queue_run n q'"

lemma queue_inv_new: "queue_inv n (new_queue n)"
  by (auto simp: queue_inv_def new_queue_def new_level_def chain_ok_def data_linked_def linked_def
      chain_from_def least_from_None split: option.splits dest: least_from_SomeD(2,3))

lemma used_new [simp]: "used_levels (new_queue n) = {}"
  by (auto simp: used_levels_def new_queue_def new_level_def linked_def)

lemma used_prepare:
  "queue_inv n q \<Longrightarrow> p < n \<Longrightarrow> used_levels (prepare p q) = insert p (used_levels q)"
  by (simp add: rq.prep_spec)

lemma queue_run_inv: "queue_run n q \<Longrightarrow> queue_inv n q"
proof (induction rule: queue_run.induct)
  case (start n)
  show ?case by (rule queue_inv_new)
next
  case (cleared n q)
  then show ?case using queue_inv_new [of n] by (simp add: clear_queue_def new_queue_def queue_inv_def)
next
  case (rotated n q p)
  then show ?case by (auto simp: rotate_level_def intro: queue_inv_set_data_shrink)
next
  case (popped n q r q')
  then show ?case using rq.popf_total [of n q] by auto
next
  case (popped_better n q p r q')
  then show ?case using rq.popb_total [of n q p] by auto
qed (simp_all add: rq.inv_ops)

text \<open>The ready threads that run before any thread of level \<open>p\<close>.\<close>

definition order_below :: "nat \<Rightarrow> 'a ready_queue \<Rightarrow> 'a list" where
  "order_below p q = concat (map (level q) [0..<p])"

lemma ready_order_levels: "ready_order q = concat (map (level q) [0..<length (queues q)])"
  unfolding ready_order_def level_def
  by (rule arg_cong [where f = concat], rule nth_equalityI) auto

lemma concat_map_split:
  "i < m \<Longrightarrow> concat (map f [0..<m]) = concat (map f [0..<i]) @ f i @ concat (map f [Suc i..<m])"
  by (metis concat.simps(2) concat_append less_imp_le_nat list.simps(9) map_append upt_add_eq_append
      upt_conv_Cons le_add_diff_inverse zero_le)

lemma pop_level_order:
  assumes "i < m" "\<forall>k < i. f k = []" "f i = t # ts" "g = f(i := ts)"
  shows "concat (map f [0..<m]) = t # concat (map g [0..<m])"
proof -
  have low: "concat (map f [0..<i]) = []" "concat (map g [0..<i]) = []"
    using assms(2,4) by (auto simp: concat_eq_Nil_conv)
  have high: "map g [Suc i..<m] = map f [Suc i..<m]"
    using assms(4) by auto
  show ?thesis
    using concat_map_split [OF assms(1), of f] concat_map_split [OF assms(1), of g] low high assms(3,4)
    by simp
qed

lemma empty_order: "\<forall>k < m. f k = [] \<Longrightarrow> concat (map f [0..<m]) = []"
  by (auto simp: concat_eq_Nil_conv)

section \<open>Properties\<close>

text \<open>C17: In every queue the thread manager can build, \<open>pop_first\<close> returns the oldest thread of the
  highest-priority level that holds one (the head of the ready order), removes exactly it,
  and keeps the order of the rest; with no ready thread it returns the null thread.\<close>

theorem pop_first_takes_best:
  assumes "queue_run n q"
  shows "\<exists>q'. pop_first q = Some (case ready_order q of [] \<Rightarrow> None | t # _ \<Rightarrow> Some t, q') \<and>
    ready_order q' = tl (ready_order q) \<and> queue_inv n q' \<and> used_levels q' = used_levels q"
proof -
  note inv = queue_run_inv [OF assms]
  from rq.popf_total [OF inv] obtain r q' where pop: "pop_first q = Some (r, q')"
    and q': "queue_inv n q'" "used_levels q' = used_levels q" by blast
  have len: "length (queues q) = n" "length (queues q') = n"
    using inv q' by (auto simp: queue_inv_def)
  show ?thesis
  proof (cases r)
    case None
    with pop rq.popf_None [OF inv] have "q' = q" "\<forall>p. level q p = []" by auto
    then have "ready_order q = []" unfolding ready_order_levels by (intro empty_order) auto
    with pop q' None \<open>q' = q\<close> show ?thesis by simp
  next
    case (Some t)
    from rq.popf_best [OF inv pop [unfolded Some]] obtain i where i: "i < n"
      "level q i = t # level q' i" "\<forall>k < i. level q k = []" "\<forall>k. k \<noteq> i \<longrightarrow> level q' k = level q k" by blast
    then have "level q' = (level q)(i := level q' i)" by (auto simp: fun_eq_iff)
    with i have "concat (map (level q) [0..<n]) = t # concat (map (level q') [0..<n])"
      by (intro pop_level_order) auto
    with pop q' Some len show ?thesis by (simp add: ready_order_levels)
  qed
qed

lemma queue_run_example: "queue_run 4 (push_back 2 (7::nat) (prepare 2 (prepare 0 (new_queue 4))))"
proof (rule queue_run.pushed_back)
  show "queue_run 4 (prepare 2 (prepare 0 (new_queue 4)))"
    by (intro queue_run.prepared queue_run.start) auto
  show "2 \<in> used_levels (prepare 2 (prepare 0 (new_queue 4 :: nat ready_queue)))"
    using rq.prep_spec [of 4 "new_queue 4 :: nat ready_queue" 0]
      rq.prep_spec [of 4 "prepare 0 (new_queue 4) :: nat ready_queue" 2] queue_inv_new [of 4] by auto
qed

lemma ready_order_example:
  "ready_order (push_back 2 (7::nat) (prepare 2 (prepare 0 (new_queue 4)))) = [7]"
  by code_simp

theorem pop_first_takes_best_witness:
  "\<exists>q'. pop_first (push_back 2 (7::nat) (prepare 2 (prepare 0 (new_queue 4)))) = Some (Some 7, q') \<and>
    ready_order q' = []"
  using pop_first_takes_best [OF queue_run_example] by (auto simp: ready_order_example)

text \<open>C20: When the running thread's own level has been prepared, \<open>pop_first_better\<close> never follows a
  null or unlinked level pointer, and returns the oldest thread of a strictly better level,
  or the null thread when there is none.\<close>

theorem pop_first_better_safe:
  assumes "queue_run n q" "p \<in> used_levels q"
  shows "\<exists>q'. pop_first_better p q =
      Some (case order_below p q of [] \<Rightarrow> None | t # _ \<Rightarrow> Some t, q') \<and>
    order_below p q' = tl (order_below p q) \<and>
    (\<forall>k \<ge> p. level q' k = level q k)"
proof -
  note inv = queue_run_inv [OF assms(1)]
  from rq.popb_total [OF inv assms(2)] obtain r q' where pop: "pop_first_better p q = Some (r, q')"
    by blast
  show ?thesis
  proof (cases r)
    case None
    with pop rq.popb_None [OF inv assms(2)] have "q' = q" "\<forall>k < p. level q k = []" by auto
    then have "order_below p q = []" unfolding order_below_def by (intro empty_order) auto
    with pop None \<open>q' = q\<close> show ?thesis by simp
  next
    case (Some t)
    from rq.popb_best [OF inv assms(2) pop [unfolded Some]] obtain i where i: "i < p"
      "level q i = t # level q' i" "\<forall>k < i. level q k = []" "\<forall>k. k \<noteq> i \<longrightarrow> level q' k = level q k" by blast
    then have "level q' = (level q)(i := level q' i)" by (auto simp: fun_eq_iff)
    with i have "order_below p q = t # order_below p q'"
      unfolding order_below_def by (intro pop_level_order) auto
    with pop Some i show ?thesis by auto
  qed
qed

theorem pop_first_better_safe_witness:
  "\<exists>q'. pop_first_better 2 (push_back 2 (7::nat) (prepare 2 (prepare 0 (new_queue 4)))) = Some (None, q') \<and>
    level q' 2 = [7]"
proof -
  let ?q = "push_back 2 (7::nat) (prepare 2 (prepare 0 (new_queue 4)))"
  have "linked (queues ?q) 2" "length (queues ?q) = 4" "order_below 2 ?q = []" "level ?q 2 = [7]"
    by code_simp+
  then show ?thesis using pop_first_better_safe [OF queue_run_example, of 2] by (auto simp: used_levels_def)
qed

text \<open>The contract of \<open>pop_first_better\<close> is tight: when every level below \<open>p\<close> is empty and no
  level from \<open>p\<close> on was ever prepared, its loop runs off the end of the chain and dereferences
  the null pointer (which compares below \<open>stop\<close>) instead of returning the null thread.\<close>

theorem pop_first_better_unprepared:
  assumes "queue_run n q" "order_below p q = []" "\<forall>k \<ge> p. k \<notin> used_levels q" "p \<le> n"
  shows "pop_first_better p q = None"
proof -
  have q: "length (queues q) = n" "first_level q = chain_from (queues q) 0"
    "\<forall>i < length (queues q). linked (queues q) i \<longrightarrow> next_nonempty (queues q ! i) = chain_from (queues q) (Suc i)"
    using queue_run_inv [OF assms(1)] by (auto simp: queue_inv_def chain_ok_def)
  have "\<forall>k < p. level_data (queues q ! k) = []"
    using assms(2,4) q(1) by (auto simp: order_below_def level_def concat_eq_Nil_conv)
  moreover have "\<forall>k. p \<le> k \<longrightarrow> k < length (queues q) \<longrightarrow> \<not> linked (queues q) k"
    using assms(3) by (auto simp: used_levels_def)
  ultimately show ?thesis
    using first_nonempty_below_falls_off [OF q(3)] q(2) by (simp add: pop_first_better_def)
qed

theorem pop_first_better_unprepared_witness:
  "pop_first_better 3 (prepare 1 (new_queue 4 :: nat ready_queue)) = None"
proof -
  have "queue_run 4 (prepare 1 (new_queue 4 :: nat ready_queue))"
    by (intro queue_run.prepared queue_run.start) auto
  moreover have "order_below 3 (prepare 1 (new_queue 4 :: nat ready_queue)) = []" by code_simp
  moreover have "used_levels (prepare 1 (new_queue 4 :: nat ready_queue)) = {1}"
    by (subst used_prepare [OF queue_inv_new]) simp_all
  moreover have "\<forall>k \<ge> 3. k \<notin> {1::nat}" by simp
  ultimately show ?thesis
    using pop_first_better_unprepared [of 4 "prepare 1 (new_queue 4 :: nat ready_queue)" 3]
    by (simp only: simp_thms)
qed

text \<open>Changing the priority of a ready thread (\<open>move\<close>) takes every entry of it off its old level,
  appends it once to its new level, leaves the order of all other threads alone and links the
  new level into the chain.\<close>

theorem move_between_spec:
  assumes "queue_run n q" "old < n" "new < n"
  shows "level (move_between t old new q) =
      (\<lambda>p. (if p = old then filter (\<lambda>x. x \<noteq> t) (level q p) else level q p) @ (if p = new then [t] else []))
    \<and> used_levels (move_between t old new q) = insert new (used_levels q)
    \<and> queue_inv n (move_between t old new q)"
  using rq.reprioritise [OF queue_run_inv [OF assms(1)] assms(2,3), of t]
  by (simp add: move_between_def)

theorem move_between_spec_witness:
  "level (move_between 7 2 1 (push_back 2 (7::nat) (prepare 2 (prepare 0 (new_queue 4))))) 1 = [7]"
proof -
  have "level (push_back 2 (7::nat) (prepare 2 (prepare 0 (new_queue 4)))) 1 = []" by code_simp
  then show ?thesis using move_between_spec [OF queue_run_example, of 2 1 7] by simp
qed

end
