(* ===== verification/HandleTable.thy ===== *)
theory HandleTable
  imports Prelude
begin

text \<open>
  The handle table of a process, \<open>core/hle/kernel/handle_table.cpp\<close>: a fixed array of
  object pointers and, beside it, an array that holds the generation of a slot in use and,
  for a slot that is free, the next slot of the free list. A null pointer is \<open>None\<close>.
  \<open>'obj\<close> is the type of kernel objects.
\<close>

section \<open>Handles\<close>

type_synonym Handle = u32

definition MAX_COUNT :: nat where "MAX_COUNT = 4096"

definition CurrentThread :: Handle where "CurrentThread = 0xFFFF8000"
definition CurrentProcess :: Handle where "CurrentProcess = 0xFFFF8001"

text \<open>Both accessors return a \<open>u16\<close>: the shifted handle is truncated to 16 bits.\<close>

definition GetSlot :: "Handle \<Rightarrow> u16" where
  "GetSlot handle = ucast (drop_bit 15 handle)"

definition GetGeneration :: "Handle \<Rightarrow> u16" where
  "GetGeneration handle = ucast (handle AND 0x7FFF)"

datatype handle_error = ERR_OUT_OF_HANDLES | ERR_INVALID_HANDLE

section \<open>The table\<close>

record 'obj handle_table =
  generations :: "u16 list"
  objects :: "'obj option list"
  next_generation :: u16
  next_free_slot :: u16

definition Clear :: "'obj handle_table \<Rightarrow> 'obj handle_table" where
  "Clear t = t\<lparr>generations := map (\<lambda>i. of_nat (Suc i)) [0..<MAX_COUNT],
               objects := replicate MAX_COUNT None,
               next_free_slot := 0\<rparr>"

definition new_table :: "'obj handle_table" where
  "new_table = Clear \<lparr>generations = replicate MAX_COUNT 0, objects = replicate MAX_COUNT None,
                      next_generation = 1, next_free_slot = 0\<rparr>"

definition advance_generation :: "u16 \<Rightarrow> u16" where
  "advance_generation g = (let g' = g + 1 in if g' \<ge> 0x8000 then 1 else g')"

definition make_handle :: "u16 \<Rightarrow> u16 \<Rightarrow> Handle" where
  "make_handle generation slot = ucast generation OR push_bit 15 (ucast slot)"

definition Create :: "'obj \<Rightarrow> 'obj handle_table \<Rightarrow> (handle_error + Handle) \<times> 'obj handle_table" where
  "Create obj t =
     (let slot = next_free_slot t in
      if unat slot \<ge> length (generations t) then (Inl ERR_OUT_OF_HANDLES, t)
      else (Inr (make_handle (next_generation t) slot),
            t\<lparr>next_free_slot := generations t ! unat slot,
              next_generation := advance_generation (next_generation t),
              generations := (generations t)[unat slot := next_generation t],
              objects := (objects t)[unat slot := Some obj]\<rparr>))"

definition IsValid :: "Handle \<Rightarrow> 'obj handle_table \<Rightarrow> bool" where
  "IsValid handle t \<longleftrightarrow>
     unat (GetSlot handle) < MAX_COUNT \<and>
     objects t ! unat (GetSlot handle) \<noteq> None \<and>
     generations t ! unat (GetSlot handle) = GetGeneration handle"

text \<open>
  The kernel supplies the current thread and the current process for the two
  pseudo-handles; either may be null.
\<close>

definition GetGeneric ::
    "'obj option \<Rightarrow> 'obj option \<Rightarrow> Handle \<Rightarrow> 'obj handle_table \<Rightarrow> 'obj option" where
  "GetGeneric current_thread current_process handle t =
     (if handle = CurrentThread then current_thread
      else if handle = CurrentProcess then current_process
      else if \<not> IsValid handle t then None
      else objects t ! unat (GetSlot handle))"

definition Duplicate ::
    "'obj option \<Rightarrow> 'obj option \<Rightarrow> Handle \<Rightarrow> 'obj handle_table
      \<Rightarrow> (handle_error + Handle) \<times> 'obj handle_table" where
  "Duplicate current_thread current_process handle t =
     (case GetGeneric current_thread current_process handle t of
        None \<Rightarrow> (Inl ERR_INVALID_HANDLE, t)
      | Some object \<Rightarrow> Create object t)"

definition Close :: "Handle \<Rightarrow> 'obj handle_table \<Rightarrow> handle_error option \<times> 'obj handle_table" where
  "Close handle t =
     (if \<not> IsValid handle t then (Some ERR_INVALID_HANDLE, t)
      else let slot = GetSlot handle in
        (None, t\<lparr>objects := (objects t)[unat slot := None],
                 generations := (generations t)[unat slot := next_free_slot t],
                 next_free_slot := slot\<rparr>))"

section \<open>Bits of a handle\<close>

lemma bit_below: "unat (w :: 'a :: len word) < 2 ^ n \<Longrightarrow> n \<le> m \<Longrightarrow> \<not> bit w m"
  by (metis bit_take_bit_iff not_less take_bit_nat_eq_self unsigned_take_bit_eq word_unat_eq_iff)

lemma GetSlot_make [simp]:
  assumes "unat g < 0x8000" shows "GetSlot (make_handle g s) = s"
proof (rule bit_word_eqI)
  fix n assume "n < LENGTH(16)"
  with bit_below [of g 15 "15 + n"] assms show "bit (GetSlot (make_handle g s)) n = bit s n"
    by (auto simp: GetSlot_def make_handle_def bit_simps)
qed

lemma GetGeneration_make [simp]:
  assumes "unat g < 0x8000" shows "GetGeneration (make_handle g s) = g"
proof (rule bit_word_eqI)
  fix n assume n: "n < LENGTH(16)"
  have m: "(0x7FFF :: u32) = mask 15" by (simp add: mask_eq_exp_minus_1)
  show "bit (GetGeneration (make_handle g s)) n = bit g n"
    using n assms bit_below [of g 15 n] unfolding GetGeneration_def make_handle_def m
    by (cases "n < 15") (auto simp: bit_simps)
qed

lemma slot_no_pseudo:
  "unat (GetSlot CurrentThread) = 0xFFFF" "unat (GetSlot CurrentProcess) = 0xFFFF"
  by (simp_all add: GetSlot_def CurrentThread_def CurrentProcess_def)

section \<open>The invariant\<close>

text \<open>\<open>free_list g s fl\<close>: from slot \<open>s\<close> the free list threaded through \<open>g\<close> visits \<open>fl\<close> and then
  ends at the index one past the table.\<close>

fun free_list :: "u16 list \<Rightarrow> u16 \<Rightarrow> nat list \<Rightarrow> bool" where
  "free_list g s [] \<longleftrightarrow> unat s = MAX_COUNT"
| "free_list g s (i # is) \<longleftrightarrow> unat s = i \<and> i < MAX_COUNT \<and> free_list g (g ! i) is"

definition table_inv :: "'obj handle_table \<Rightarrow> bool" where
  "table_inv t \<longleftrightarrow>
     length (generations t) = MAX_COUNT \<and> length (objects t) = MAX_COUNT \<and>
     0 < unat (next_generation t) \<and> unat (next_generation t) < 0x8000 \<and>
     (\<forall>i < MAX_COUNT. objects t ! i \<noteq> None \<longrightarrow> unat (generations t ! i) < 0x8000) \<and>
     (\<exists>fl. distinct fl \<and> free_list (generations t) (next_free_slot t) fl \<and>
           set fl = {i. i < MAX_COUNT \<and> objects t ! i = None})"

lemma table_invD:
  assumes "table_inv t"
  shows "length (generations t) = MAX_COUNT" "length (objects t) = MAX_COUNT"
    "0 < unat (next_generation t)" "unat (next_generation t) < 0x8000"
  using assms by (auto simp: table_inv_def)

lemma unat_advance_generation:
  assumes "unat g < 0x8000"
  shows "unat (advance_generation g) = (if unat g = 0x7FFF then 1 else Suc (unat g))"
proof -
  have "unat (g + 1) = Suc (unat g)" using assms by (simp add: unat_word_ariths)
  then show ?thesis using assms by (auto simp: advance_generation_def Let_def word_le_nat_alt)
qed

lemma advance_generation_range:
  "unat g < 0x8000 \<Longrightarrow> 0 < unat (advance_generation g) \<and> unat (advance_generation g) < 0x8000"
  by (simp add: unat_advance_generation)

lemma free_list_update:
  "i \<notin> set fl \<Longrightarrow> free_list (g[i := x]) s fl = free_list g s fl"
  by (induction fl arbitrary: s) auto

lemma free_list_iota:
  assumes "n \<le> MAX_COUNT"
  shows "free_list (map (\<lambda>i. of_nat (Suc i)) [0..<MAX_COUNT]) (of_nat n) [n..<MAX_COUNT]"
  using assms
proof (induction "MAX_COUNT - n" arbitrary: n)
  case 0
  then have "n = MAX_COUNT" by simp
  moreover have "unat (of_nat MAX_COUNT :: u16) = MAX_COUNT" by (simp add: MAX_COUNT_def)
  ultimately show ?case by (simp del: unat_of_nat)
next
  case (Suc d)
  then have "n < MAX_COUNT" by simp
  moreover from Suc this have "free_list (map (\<lambda>i. of_nat (Suc i)) [0..<MAX_COUNT]) (of_nat (Suc n)) [Suc n..<MAX_COUNT]"
    by (intro Suc) auto
  moreover have "unat (of_nat n :: u16) = n"
    using \<open>n < MAX_COUNT\<close> by (simp add: unat_of_nat MAX_COUNT_def)
  moreover have "map (\<lambda>i. of_nat (Suc i)) [0..<MAX_COUNT] ! n = (of_nat (Suc n) :: u16)"
    using \<open>n < MAX_COUNT\<close> by simp
  ultimately show ?case
    unfolding upt_conv_Cons [OF \<open>n < MAX_COUNT\<close>] free_list.simps(2) by metis
qed

lemma table_inv_Clear:
  assumes "0 < unat (next_generation t)" "unat (next_generation t) < 0x8000"
  shows "table_inv (Clear t)"
proof -
  have "free_list (generations (Clear t)) (next_free_slot (Clear t)) [0..<MAX_COUNT]"
    using free_list_iota [of 0] by (simp add: Clear_def)
  moreover have "set [0..<MAX_COUNT] = {i. i < MAX_COUNT \<and> objects (Clear t) ! i = None}"
    by (auto simp: Clear_def)
  moreover have "distinct [0..<MAX_COUNT]" by simp
  moreover have "\<forall>i < MAX_COUNT. objects (Clear t) ! i = None" by (simp add: Clear_def)
  moreover have "length (generations (Clear t)) = MAX_COUNT" "length (objects (Clear t)) = MAX_COUNT"
    "next_generation (Clear t) = next_generation t" by (simp_all add: Clear_def)
  ultimately show ?thesis using assms unfolding table_inv_def by metis
qed

lemma table_inv_new: "table_inv new_table"
  unfolding new_table_def by (rule table_inv_Clear) auto

text \<open>A free slot heads the free list exactly when the code sees an index inside the table.\<close>

lemma free_head:
  assumes "table_inv t" "unat (next_free_slot t) < MAX_COUNT"
  obtains fl where "distinct (unat (next_free_slot t) # fl)"
    "free_list (generations t) (generations t ! unat (next_free_slot t)) fl"
    "set (unat (next_free_slot t) # fl) = {i. i < MAX_COUNT \<and> objects t ! i = None}"
    "objects t ! unat (next_free_slot t) = None"
proof -
  from assms(1) obtain fl where fl: "distinct fl" "free_list (generations t) (next_free_slot t) fl"
    "set fl = {i. i < MAX_COUNT \<and> objects t ! i = None}" by (auto simp: table_inv_def)
  show thesis
  proof (cases fl)
    case Nil
    with fl assms(2) show thesis by simp
  next
    case (Cons i rest)
    with fl have "i = unat (next_free_slot t)" "i \<in> set fl" by auto
    with fl Cons show thesis by (intro that [of rest]) auto
  qed
qed

lemma table_inv_Create:
  assumes "table_inv t"
  shows "table_inv (snd (Create obj t))"
proof (cases "unat (next_free_slot t) < MAX_COUNT")
  case True
  note d = table_invD [OF assms]
  from free_head [OF assms True] obtain fl where fl: "distinct (unat (next_free_slot t) # fl)"
    "free_list (generations t) (generations t ! unat (next_free_slot t)) fl"
    "set (unat (next_free_slot t) # fl) = {i. i < MAX_COUNT \<and> objects t ! i = None}" by blast
  let ?s = "unat (next_free_slot t)"
  have set_fl: "set fl = {i. i < MAX_COUNT \<and> objects t ! i = None} - {?s}"
    using fl by auto
  have "free_list ((generations t)[?s := next_generation t]) (generations t ! ?s) fl"
    using fl by (subst free_list_update) auto
  moreover have "set fl = {i. i < MAX_COUNT \<and> (objects t)[?s := Some obj] ! i = None}"
    using True d(2) unfolding set_fl by (auto simp: nth_list_update)
  moreover have "\<forall>i < MAX_COUNT. (objects t)[?s := Some obj] ! i \<noteq> None \<longrightarrow>
      unat ((generations t)[?s := next_generation t] ! i) < 0x8000"
    using assms d True by (auto simp: nth_list_update table_inv_def)
  ultimately show ?thesis
    using True d fl advance_generation_range [OF d(4)]
    by (auto simp: Create_def Let_def table_inv_def)
next
  case False
  with assms show ?thesis by (simp add: Create_def Let_def table_invD)
qed

lemma table_inv_Close:
  assumes "table_inv t"
  shows "table_inv (snd (Close h t))"
proof (cases "IsValid h t")
  case True
  note d = table_invD [OF assms]
  let ?s = "unat (GetSlot h)"
  from True have s: "?s < MAX_COUNT" "objects t ! ?s \<noteq> None" by (auto simp: IsValid_def)
  from assms obtain fl where fl: "distinct fl" "free_list (generations t) (next_free_slot t) fl"
    "set fl = {i. i < MAX_COUNT \<and> objects t ! i = None}" by (auto simp: table_inv_def)
  with s have notin: "?s \<notin> set fl" by simp
  have "free_list ((generations t)[?s := next_free_slot t]) (GetSlot h) (?s # fl)"
    using fl notin s d by (simp add: free_list_update)
  moreover have "set (?s # fl) = {i. i < MAX_COUNT \<and> (objects t)[?s := None] ! i = None}"
    using fl s d by (auto simp: nth_list_update)
  moreover have "\<forall>i < MAX_COUNT. (objects t)[?s := None] ! i \<noteq> None \<longrightarrow>
      unat ((generations t)[?s := next_free_slot t] ! i) < 0x8000"
    using assms d s by (auto simp: nth_list_update table_inv_def)
  moreover have "distinct (?s # fl)" using fl notin by simp
  ultimately show ?thesis
    using True d by (auto simp: Close_def Let_def table_inv_def intro!: exI [of _ "?s # fl"])
next
  case False
  with assms show ?thesis by (simp add: Close_def)
qed

section \<open>The interface of a table of handles\<close>

text \<open>
  What the system calls rely on: two handles with the same \<open>key\<close> designate the same entry,
  creating adds one entry and closing removes one, and no other entry changes.
\<close>

definition handle_key :: "Handle \<Rightarrow> u16 \<times> u16" where
  "handle_key h = (GetSlot h, GetGeneration h)"

definition lookup_handle :: "'obj handle_table \<Rightarrow> Handle \<Rightarrow> 'obj option" where
  "lookup_handle t h = (if IsValid h t then objects t ! unat (GetSlot h) else None)"

locale handle_space =
  fixes inv :: "'t \<Rightarrow> bool"
    and get :: "'t \<Rightarrow> 'h \<Rightarrow> 'o option"
    and key :: "'h \<Rightarrow> 'k"
    and full :: "'t \<Rightarrow> bool"
    and create :: "'o \<Rightarrow> 't \<Rightarrow> ('e + 'h) \<times> 't"
    and close :: "'h \<Rightarrow> 't \<Rightarrow> 'e option \<times> 't"
  assumes create_inv: "inv t \<Longrightarrow> inv (snd (create x t))"
    and close_inv: "inv t \<Longrightarrow> inv (snd (close h t))"
    and create_ok: "inv t \<Longrightarrow> \<not> full t \<Longrightarrow> \<exists>h. fst (create x t) = Inr h \<and> get t h = None \<and>
      get (snd (create x t)) = (\<lambda>h'. if key h' = key h then Some x else get t h')"
    and create_full: "inv t \<Longrightarrow> full t \<Longrightarrow> (\<exists>e. fst (create x t) = Inl e) \<and> snd (create x t) = t"
    and close_ok: "inv t \<Longrightarrow> get t h \<noteq> None \<Longrightarrow> fst (close h t) = None \<and>
      get (snd (close h t)) = (\<lambda>h'. if key h' = key h then None else get t h')"
    and close_bad: "inv t \<Longrightarrow> get t h = None \<Longrightarrow> fst (close h t) \<noteq> None \<and> snd (close h t) = t"
    and get_key: "key h = key h' \<Longrightarrow> get t h = get t h'"
begin

lemma create_Inr:
  assumes "inv t" "create x t = (Inr h, t')"
  shows "get t h = None" "get t' = (\<lambda>h'. if key h' = key h then Some x else get t h')" "inv t'"
  using create_ok [OF assms(1), of x] create_full [OF assms(1), of x] create_inv [OF assms(1), of x] assms(2)
  by (cases "full t"; auto)+

lemma create_close:
  assumes "inv t" "create x t = (Inr h, t')"
  shows "fst (close h t') = None" "get (snd (close h t')) = get t"
proof -
  note c = create_Inr [OF assms]
  have some: "get t' h \<noteq> None" by (simp add: c(2))
  show "fst (close h t') = None" using close_ok [OF c(3) some] by simp
  show "get (snd (close h t')) = get t"
  proof
    fix h' show "get (snd (close h t')) h' = get t h'"
      using close_ok [OF c(3) some] c(1,2) get_key [of h' h t] by auto
  qed
qed

lemma double_close: "inv t \<Longrightarrow> fst (close h (snd (close h t))) \<noteq> None"
  using close_bad [OF close_inv] close_ok close_bad [of t h] by (cases "get t h = None") auto

end

lemma table_full_iff:
  assumes "table_inv t"
  shows "MAX_COUNT \<le> unat (next_free_slot t) \<longleftrightarrow> None \<notin> set (objects t)"
proof -
  note d = table_invD [OF assms]
  from assms obtain fl where fl: "free_list (generations t) (next_free_slot t) fl"
    "set fl = {i. i < MAX_COUNT \<and> objects t ! i = None}" by (auto simp: table_inv_def)
  have "None \<in> set (objects t) \<longleftrightarrow> (\<exists>i < MAX_COUNT. objects t ! i = None)"
    by (simp only: in_set_conv_nth d(2))
  also have "\<dots> \<longleftrightarrow> set fl \<noteq> {}" unfolding fl(2) by auto
  also have "\<dots> \<longleftrightarrow> fl \<noteq> []" by simp
  finally show ?thesis using fl(1) by (cases fl) auto
qed

lemma Create_effect:
  assumes inv: "table_inv t" and room: "None \<in> set (objects t)"
  defines "h \<equiv> make_handle (next_generation t) (next_free_slot t)"
  shows "fst (Create obj t) = Inr h" "lookup_handle t h = None"
    "lookup_handle (snd (Create obj t)) = (\<lambda>h'. if handle_key h' = handle_key h then Some obj else lookup_handle t h')"
proof -
  note d = table_invD [OF inv]
  have lt: "unat (next_free_slot t) < MAX_COUNT" using table_full_iff [OF inv] room by (simp add: not_le [symmetric])
  from free_head [OF inv lt] have free: "objects t ! unat (next_free_slot t) = None" by blast
  have h: "GetSlot h = next_free_slot t" "GetGeneration h = next_generation t"
    using d by (simp_all add: h_def)
  show "fst (Create obj t) = Inr h" using lt d by (simp add: Create_def Let_def h_def)
  show "lookup_handle t h = None" using free h by (simp add: lookup_handle_def IsValid_def)
  show "lookup_handle (snd (Create obj t)) = (\<lambda>h'. if handle_key h' = handle_key h then Some obj else lookup_handle t h')"
  proof
    fix h'
    show "lookup_handle (snd (Create obj t)) h' =
      (if handle_key h' = handle_key h then Some obj else lookup_handle t h')"
      using lt d free h
      by (cases "GetSlot h' = next_free_slot t")
        (auto simp: lookup_handle_def IsValid_def Create_def Let_def handle_key_def
          nth_list_update word_unat_eq_iff [symmetric])
  qed
qed

lemma Close_effect:
  assumes inv: "table_inv t" and ok: "lookup_handle t h \<noteq> None"
  shows "fst (Close h t) = None"
    "lookup_handle (snd (Close h t)) = (\<lambda>h'. if handle_key h' = handle_key h then None else lookup_handle t h')"
proof -
  note d = table_invD [OF inv]
  from ok have v: "IsValid h t" by (auto simp: lookup_handle_def split: if_splits)
  then show "fst (Close h t) = None" by (simp add: Close_def Let_def)
  show "lookup_handle (snd (Close h t)) = (\<lambda>h'. if handle_key h' = handle_key h then None else lookup_handle t h')"
  proof
    fix h'
    show "lookup_handle (snd (Close h t)) h' =
      (if handle_key h' = handle_key h then None else lookup_handle t h')"
      using v d
      by (cases "GetSlot h' = GetSlot h")
        (auto simp: lookup_handle_def IsValid_def Close_def Let_def handle_key_def
          nth_list_update word_unat_eq_iff [symmetric])
  qed
qed

interpretation ht: handle_space table_inv lookup_handle handle_key
  "\<lambda>t :: 'obj handle_table. None \<notin> set (objects t)" Create Close
proof
  fix t :: "'obj handle_table" and x :: 'obj and h h' :: Handle
  show "table_inv t \<Longrightarrow> table_inv (snd (Create x t))" by (rule table_inv_Create)
  show "table_inv t \<Longrightarrow> table_inv (snd (Close h t))" by (rule table_inv_Close)
  show "\<exists>h. fst (Create x t) = Inr h \<and> lookup_handle t h = None \<and>
      lookup_handle (snd (Create x t)) = (\<lambda>h'. if handle_key h' = handle_key h then Some x else lookup_handle t h')"
    if "table_inv t" "\<not> None \<notin> set (objects t)"
    using Create_effect(1,3) [OF that(1), of x] Create_effect(2) [OF that(1)] that(2) by blast
  show "(\<exists>e. fst (Create x t) = Inl e) \<and> snd (Create x t) = t"
    if "table_inv t" "None \<notin> set (objects t)"
    using that table_full_iff [OF that(1)] by (simp add: Create_def Let_def table_invD)
  show "fst (Close h t) = None \<and>
      lookup_handle (snd (Close h t)) = (\<lambda>h'. if handle_key h' = handle_key h then None else lookup_handle t h')"
    if "table_inv t" "lookup_handle t h \<noteq> None"
    using Close_effect [OF that] by simp
  show "fst (Close h t) \<noteq> None \<and> snd (Close h t) = t" if "table_inv t" "lookup_handle t h = None"
    using that by (auto simp: Close_def lookup_handle_def IsValid_def split: if_splits)
  show "handle_key h = handle_key h' \<Longrightarrow> lookup_handle t h = lookup_handle t h'"
    by (auto simp: handle_key_def lookup_handle_def IsValid_def)
qed

section \<open>Sequences of operations\<close>

datatype 'obj table_op = DoCreate 'obj | DoDuplicate Handle | DoClose Handle | DoClear

text \<open>The two pseudo-handles are resolved against a fixed current thread and process.\<close>

fun table_step :: "'obj option \<Rightarrow> 'obj option \<Rightarrow> 'obj table_op \<Rightarrow> 'obj handle_table \<Rightarrow> 'obj handle_table" where
  "table_step ct cp (DoCreate obj) t = snd (Create obj t)"
| "table_step ct cp (DoDuplicate h) t = snd (Duplicate ct cp h t)"
| "table_step ct cp (DoClose h) t = snd (Close h t)"
| "table_step ct cp DoClear t = Clear t"

definition table_run :: "'obj option \<Rightarrow> 'obj option \<Rightarrow> 'obj table_op list \<Rightarrow> 'obj handle_table \<Rightarrow> 'obj handle_table" where
  "table_run ct cp ops t = fold (table_step ct cp) ops t"

lemma Duplicate_cases:
  "snd (Duplicate ct cp h t) = t \<or> (\<exists>obj. snd (Duplicate ct cp h t) = snd (Create obj t))"
  by (auto simp: Duplicate_def split: option.splits)

lemma table_inv_step: "table_inv t \<Longrightarrow> table_inv (table_step ct cp op t)"
  using Duplicate_cases [of ct cp _ t]
  by (cases op) (auto simp: table_inv_Create table_inv_Close table_inv_Clear table_invD, metis table_inv_Create)

lemma table_inv_run: "table_inv t \<Longrightarrow> table_inv (table_run ct cp ops t)"
  unfolding table_run_def by (induction ops arbitrary: t) (auto simp: table_inv_step)

subsection \<open>How soon a closed handle can come back\<close>

text \<open>The next \<open>k\<close> handles all get a generation other than that of \<open>h\<close>.\<close>

definition gen_gap :: "Handle \<Rightarrow> nat \<Rightarrow> 'obj handle_table \<Rightarrow> bool" where
  "gen_gap h k t \<longleftrightarrow> table_inv t \<and>
     (\<forall>j < k. (unat (next_generation t) - 1 + j) mod 0x7FFF \<noteq> (unat (GetGeneration h) - 1) mod 0x7FFF)"

lemma gen_gap_less: "gen_gap h (Suc k) t \<Longrightarrow> gen_gap h k t"
  by (auto simp: gen_gap_def)

lemma advance_index:
  assumes "0 < unat g" "unat g < 0x8000"
  shows "(unat (advance_generation g) - 1 + j) mod 0x7FFF = (unat g - 1 + Suc j) mod 0x7FFF"
proof -
  have "(unat (advance_generation g) - 1) mod 0x7FFF = (unat g - 1 + 1) mod 0x7FFF"
    using assms by (auto simp: unat_advance_generation)
  from mod_add_cong [OF this refl, of j] show ?thesis by (simp add: add.assoc)
qed

lemma gen_gap_Create:
  assumes q: "gen_gap h (Suc k) t"
  shows "gen_gap h k (snd (Create obj t))"
proof (cases "None \<in> set (objects t)")
  case False
  then have "snd (Create obj t) = t" using q ht.create_full [of t obj] by (simp add: gen_gap_def)
  with q gen_gap_less show ?thesis by simp
next
  case True
  from q have inv: "table_inv t"
    and gen: "\<And>j. j < Suc k \<Longrightarrow>
      (unat (next_generation t) - 1 + j) mod 0x7FFF \<noteq> (unat (GetGeneration h) - 1) mod 0x7FFF"
    by (auto simp: gen_gap_def)
  note d = table_invD [OF inv]
  have "next_generation (snd (Create obj t)) = advance_generation (next_generation t)"
    using True table_full_iff [OF inv] d by (auto simp: Create_def Let_def)
  moreover have "(unat (advance_generation (next_generation t)) - 1 + j) mod 0x7FFF \<noteq>
      (unat (GetGeneration h) - 1) mod 0x7FFF" if "j < k" for j
    unfolding advance_index [OF d(3,4)] using that by (intro gen) simp
  ultimately show ?thesis using table_inv_Create [OF inv] by (simp add: gen_gap_def)
qed

lemma gen_gap_Close: "gen_gap h k t \<Longrightarrow> gen_gap h k (snd (Close h' t))"
  using table_inv_Close [of t h'] by (auto simp: gen_gap_def Close_def Let_def split: if_splits)

lemma gen_gap_Clear: "gen_gap h k t \<Longrightarrow> gen_gap h k (Clear t)"
  using table_inv_Clear [of t] by (auto simp: gen_gap_def table_invD) (auto simp: Clear_def)

text \<open>A handle that designates nothing stays so while its generation does not come up.\<close>

lemma dead_Create:
  assumes q: "gen_gap h (Suc k) t" and none: "lookup_handle t h = None"
  shows "lookup_handle (snd (Create obj t)) h = None"
proof (cases "None \<in> set (objects t)")
  case False
  then have "snd (Create obj t) = t" using q ht.create_full [of t obj] by (simp add: gen_gap_def)
  with none show ?thesis by simp
next
  case True
  from q have inv: "table_inv t" by (simp add: gen_gap_def)
  let ?n = "make_handle (next_generation t) (next_free_slot t)"
  have "handle_key h \<noteq> handle_key ?n"
  proof
    assume "handle_key h = handle_key ?n"
    with table_invD [OF inv] have "GetGeneration h = next_generation t" by (simp add: handle_key_def)
    with q show False by (auto simp: gen_gap_def)
  qed
  then show ?thesis using Create_effect(3) [OF inv True, of obj] none by simp
qed

lemma dead_Close:
  "table_inv t \<Longrightarrow> lookup_handle t h = None \<Longrightarrow> lookup_handle (snd (Close h' t)) h = None"
  using Close_effect [of t h'] ht.close_bad [of t h'] by (cases "lookup_handle t h' = None") auto

lemma dead_Clear: "lookup_handle (Clear t) h = None"
  by (auto simp: Clear_def lookup_handle_def IsValid_def)

definition creates :: "'obj table_op list \<Rightarrow> nat" where
  "creates ops = length (filter (\<lambda>op. case op of DoCreate _ \<Rightarrow> True | DoDuplicate _ \<Rightarrow> True | _ \<Rightarrow> False) ops)"

lemma gap_step:
  assumes "gen_gap h (creates [op] + k) t"
  shows "gen_gap h k (table_step ct cp op t)"
    "lookup_handle t h = None \<Longrightarrow> lookup_handle (table_step ct cp op t) h = None"
proof -
  have "gen_gap h k (table_step ct cp op t) \<and>
    (lookup_handle t h = None \<longrightarrow> lookup_handle (table_step ct cp op t) h = None)"
  proof (cases op)
    case (DoCreate obj)
    with assms have "gen_gap h (Suc k) t" by (simp add: creates_def)
    with DoCreate show ?thesis by (simp add: gen_gap_Create dead_Create)
  next
    case (DoDuplicate h')
    with assms have g: "gen_gap h (Suc k) t" by (simp add: creates_def)
    from Duplicate_cases [of ct cp h' t] show ?thesis
    proof
      assume "snd (Duplicate ct cp h' t) = t"
      with DoDuplicate gen_gap_less [OF g] show ?thesis by simp
    next
      assume "\<exists>obj. snd (Duplicate ct cp h' t) = snd (Create obj t)"
      with DoDuplicate gen_gap_Create [OF g] dead_Create [OF g] show ?thesis by auto
    qed
  next
    case (DoClose h')
    with assms have "gen_gap h k t" by (simp add: creates_def)
    moreover from this have "table_inv t" by (simp add: gen_gap_def)
    ultimately show ?thesis using DoClose by (simp add: gen_gap_Close dead_Close)
  next
    case DoClear
    with assms show ?thesis by (simp add: creates_def gen_gap_Clear dead_Clear)
  qed
  then show "gen_gap h k (table_step ct cp op t)"
    "lookup_handle t h = None \<Longrightarrow> lookup_handle (table_step ct cp op t) h = None" by auto
qed

lemma creates_Cons: "creates (op # ops) = creates [op] + creates ops"
  by (simp add: creates_def)

lemma gap_run:
  "gen_gap h (creates ops + k) t \<Longrightarrow> gen_gap h k (table_run ct cp ops t) \<and>
    (lookup_handle t h = None \<longrightarrow> lookup_handle (table_run ct cp ops t) h = None)"
proof (induction ops arbitrary: t)
  case Nil
  then show ?case by (simp add: table_run_def creates_def)
next
  case (Cons op ops)
  from Cons.prems have g: "gen_gap h (creates [op] + (creates ops + k)) t"
    by (subst (asm) creates_Cons) (simp only: add.assoc)
  note s = gap_step [OF g, of ct cp]
  from Cons.IH [OF s(1)] s(2) show ?case by (auto simp: table_run_def)
qed

lemma gen_gap_fresh:
  assumes inv: "table_inv t" and c: "Create obj t = (Inr h, t')"
  shows "gen_gap h 0x7FFE t'"
proof -
  note d = table_invD [OF inv]
  have room: "None \<in> set (objects t)"
    using c ht.create_full [OF inv, of obj] by auto
  with table_full_iff [OF inv] d c have h: "h = make_handle (next_generation t) (next_free_slot t)"
    "next_generation t' = advance_generation (next_generation t)"
    by (auto simp: Create_def Let_def)
  have "(unat (next_generation t) - 1 + Suc j) mod 0x7FFF \<noteq> (unat (next_generation t) - 1) mod 0x7FFF"
    if "j < 0x7FFE" for j
  proof
    assume "(unat (next_generation t) - 1 + Suc j) mod 0x7FFF = (unat (next_generation t) - 1) mod 0x7FFF"
    then have "0x7FFF dvd unat (next_generation t) - 1 + Suc j - (unat (next_generation t) - 1)"
      by (subst (asm) mod_eq_dvd_iff_nat) auto
    then have "0x7FFF dvd Suc j" by simp
    with that show False by (auto dest: dvd_imp_le)
  qed
  then show ?thesis
    using table_inv_Create [OF inv, of obj] c d h unfolding gen_gap_def by (simp only: advance_index) simp
qed

section \<open>Properties\<close>

text \<open>C22: In every table the operations can build, \<open>Create\<close> either fails because all 4096 slots are in
  use (and then changes nothing), or returns a handle that designated nothing before, that
  \<open>GetGeneric\<close> now resolves to the object, and that is no pseudo-handle, while every handle
  with another slot or generation resolves as before.\<close>

theorem Create_lookup:
  assumes "t = table_run ct cp ops new_table"
  shows "case Create obj t of
      (Inl e, t') \<Rightarrow> e = ERR_OUT_OF_HANDLES \<and> t' = t \<and> None \<notin> set (objects t)
    | (Inr h, t') \<Rightarrow> lookup_handle t h = None \<and> GetGeneric ct cp h t' = Some obj \<and>
        h \<noteq> CurrentThread \<and> h \<noteq> CurrentProcess \<and>
        (\<forall>h'. handle_key h' \<noteq> handle_key h \<longrightarrow> GetGeneric ct cp h' t' = GetGeneric ct cp h' t)"
proof (cases "None \<in> set (objects t)")
  case False
  have inv: "table_inv t" unfolding assms by (rule table_inv_run [OF table_inv_new])
  with False show ?thesis by (simp add: Create_def Let_def table_full_iff table_invD)
next
  case True
  have inv: "table_inv t" unfolding assms by (rule table_inv_run [OF table_inv_new])
  let ?h = "make_handle (next_generation t) (next_free_slot t)"
  note e = Create_effect(1,3) [OF inv True, of obj] Create_effect(2) [OF inv True]
  have "unat (next_free_slot t) < MAX_COUNT" using True table_full_iff [OF inv] by (simp add: not_le [symmetric])
  then have slot: "unat (GetSlot ?h) \<noteq> 0xFFFF" using table_invD [OF inv] by (simp add: MAX_COUNT_def)
  then have np: "?h \<noteq> CurrentThread" "?h \<noteq> CurrentProcess" using slot_no_pseudo by metis+
  have gen: "GetGeneric ct cp h' u = (if h' = CurrentThread then ct else if h' = CurrentProcess then cp
      else lookup_handle u h')" for h' u
    by (simp add: GetGeneric_def lookup_handle_def)
  show ?thesis using e np by (cases "Create obj t") (auto simp: gen)
qed

theorem Create_lookup_witness:
  "case Create ''event'' (table_run None None [DoCreate ''mutex''] new_table) of
     (Inl e, t') \<Rightarrow> False
   | (Inr h, t') \<Rightarrow> GetGeneric None None h t' = Some ''event''"
proof -
  let ?t0 = "new_table :: string handle_table"
  have "None \<in> set (objects ?t0)" by (simp add: new_table_def Clear_def MAX_COUNT_def)
  let ?t = "table_run None None [DoCreate ''mutex''] ?t0"
  have "objects ?t ! 1 = None" "length (objects ?t) = MAX_COUNT"
    by (simp_all add: table_run_def Create_def Let_def new_table_def Clear_def MAX_COUNT_def nth_list_update)
  then have "None \<in> set (objects ?t)" by (metis MAX_COUNT_def nth_mem one_less_numeral_iff semiring_norm(76))
  with Create_lookup [of ?t None None "[DoCreate ''mutex'']" "''event''", OF refl] show ?thesis
    by (auto split: prod.splits sum.splits)
qed

text \<open>C24: Closing a handle that resolves succeeds, afterwards exactly the handles with its slot and
  generation resolve to nothing and all others resolve as before, closing it again is
  \<open>ERR_INVALID_HANDLE\<close>, and its slot is the next one to be handed out.\<close>

theorem Close_lookup:
  assumes "t = table_run ct cp ops new_table" "lookup_handle t h = Some obj"
  shows "fst (Close h t) = None \<and>
    lookup_handle (snd (Close h t)) = (\<lambda>h'. if handle_key h' = handle_key h then None else lookup_handle t h') \<and>
    Close h (snd (Close h t)) = (Some ERR_INVALID_HANDLE, snd (Close h t)) \<and>
    next_free_slot (snd (Close h t)) = GetSlot h"
proof -
  have inv: "table_inv t" unfolding assms(1) by (rule table_inv_run [OF table_inv_new])
  have ok: "lookup_handle t h \<noteq> None" using assms(2) by simp
  note e = Close_effect [OF inv ok]
  have "IsValid h t" using assms(2) by (simp add: lookup_handle_def split: if_splits)
  then have "next_free_slot (snd (Close h t)) = GetSlot h" by (simp add: Close_def Let_def)
  moreover have "Close h (snd (Close h t)) = (Some ERR_INVALID_HANDLE, snd (Close h t))"
  proof -
    have "lookup_handle (snd (Close h t)) h = None" using e by simp
    then have "\<not> IsValid h (snd (Close h t))" by (auto simp: lookup_handle_def IsValid_def)
    then show ?thesis by (simp add: Close_def [of h "snd (Close h t)"])
  qed
  ultimately show ?thesis using e by simp
qed

lemma first_create:
  "lookup_handle (table_run ct cp [DoCreate obj] new_table) 1 = Some obj"
  by (simp add: table_run_def Create_def Let_def new_table_def Clear_def MAX_COUNT_def
      lookup_handle_def IsValid_def GetSlot_def GetGeneration_def nth_list_update)

theorem Close_lookup_witness:
  "lookup_handle (snd (Close 1 (table_run None None [DoCreate ''mutex''] new_table))) 1 = None"
  using Close_lookup [OF refl first_create, of None None "''mutex''"] by simp

text \<open>C25: A closed handle stays dead: whatever the program does with the table, a handle that was
  closed resolves to nothing until more than 32766 handles have been created since it was
  itself created (the period of the generation counter).\<close>

theorem closed_handle_stays_closed:
  assumes "t0 = table_run ct cp ops0 new_table" and "Create obj t0 = (Inr h, t1)"
    and "t2 = snd (Close h (table_run ct cp ops1 t1))"
    and "creates ops1 + creates ops2 \<le> 0x7FFE"
  shows "lookup_handle (table_run ct cp ops2 t2) h = None"
proof -
  have inv: "table_inv t0" unfolding assms(1) by (rule table_inv_run [OF table_inv_new])
  have "gen_gap h (creates ops1 + (0x7FFE - creates ops1)) t1"
    using gen_gap_fresh [OF inv assms(2)] assms(4) by simp
  from gap_run [OF this] have g: "gen_gap h (0x7FFE - creates ops1) (table_run ct cp ops1 t1)" by simp
  then have g2: "gen_gap h (creates ops2 + (0x7FFE - creates ops1 - creates ops2)) t2"
    using assms(3,4) by (simp add: gen_gap_Close)
  have "lookup_handle t2 h = None"
    using g Close_effect [of "table_run ct cp ops1 t1" h] ht.close_bad [of "table_run ct cp ops1 t1" h]
    unfolding assms(3) gen_gap_def by (cases "lookup_handle (table_run ct cp ops1 t1) h = None") auto
  with gap_run [OF g2] show ?thesis by simp
qed

theorem closed_handle_stays_closed_witness:
  "lookup_handle (table_run None None [DoCreate ''event''] (snd (Close 1 (snd (Create ''mutex'' new_table))))) 1 = None"
proof -
  have "Create ''mutex'' new_table = (Inr 1, snd (Create ''mutex'' new_table))"
    by (simp add: Create_def Let_def new_table_def Clear_def MAX_COUNT_def make_handle_def)
  then show ?thesis
    using closed_handle_stays_closed [of new_table None None "[]" "''mutex''" 1 "snd (Create ''mutex'' new_table)"
        _ "[]" "[DoCreate ''event'']", OF _ _ refl]
    by (simp add: table_run_def creates_def)
qed

text \<open>\<open>GetSlot\<close> truncates to 16 bits, so the top bit of a handle is ignored: every handle that is
  no pseudo-handle has a twin, differing in bit 31, that is valid in exactly the same tables
  and designates the same entry.\<close>

theorem handle_top_bit_ignored:
  "handle_key (h XOR 0x80000000) = handle_key h \<and> IsValid (h XOR 0x80000000) t = IsValid h t"
proof -
  have top: "bit (0x80000000 :: u32) n \<longleftrightarrow> n = 31" for n
  proof -
    have "(0x80000000 :: u32) = push_bit 31 1" by simp
    then show ?thesis by (simp only: bit_push_bit_iff bit_1_iff) auto
  qed
  have low: "bit (0x7FFF :: u32) n \<longleftrightarrow> n < 15" for n
  proof -
    have "(0x7FFF :: u32) = mask 15" by (simp add: mask_eq_exp_minus_1)
    then show ?thesis by (simp only: bit_mask_iff) auto
  qed
  have s: "GetSlot (h XOR 0x80000000) = GetSlot h"
    unfolding GetSlot_def
    by (rule bit_word_eqI) (simp only: bit_unsigned_iff bit_drop_bit_eq o_def bit_xor_iff top, auto)
  have g: "GetGeneration (h XOR 0x80000000) = GetGeneration h"
    unfolding GetGeneration_def
    by (rule bit_word_eqI) (simp only: bit_unsigned_iff bit_and_iff bit_xor_iff top low, auto)
  show ?thesis using s g by (simp add: handle_key_def IsValid_def)
qed

end
