(* ===== verification/CoreTiming.thy ===== *)
theory CoreTiming
  imports Prelude "HOL-Library.Signed_Division" "HOL-Library.Multiset" Complex_Main
begin

text \<open>
  The event scheduler, \<open>core/core_timing.cpp\<close> and \<open>core/core_timing.h\<close>: one timer per core
  with a queue of events, a slice of ticks the core may run before the next look at the
  queue, and a queue of events that other host threads or cores post.

  Tick counts are \<open>int\<close>: the \<open>s64\<close> and \<open>u64\<close> counters of the code would have to run for
  centuries to overflow. The conversions from time, where products do come near the
  width, are on 64-bit words. The heap \<open>event_queue\<close> (\<open>std::push_heap\<close>,
  \<open>std::pop_heap\<close> with \<open>std::greater\<close>) is the list of its events in the order of
  \<open>Event::operator<\<close>: what the code observes of it is its front and its elements. The
  scale of the guest clock, a \<open>double\<close>, is a rational number.
\<close>

section \<open>Time in cycles\<close>

definition BASE_CLOCK_RATE_ARM11 :: u64 where "BASE_CLOCK_RATE_ARM11 = 268111856"

definition MAX_VALUE_TO_MULTIPLY :: u64 where
  "MAX_VALUE_TO_MULTIPLY = 0x7FFFFFFFFFFFFFFF div BASE_CLOCK_RATE_ARM11"

definition MAX_SLICE_LENGTH :: int where
  "MAX_SLICE_LENGTH = uint (BASE_CLOCK_RATE_ARM11 div 234)"

lemma MAX_SLICE_LENGTH_eq [simp]: "MAX_SLICE_LENGTH = 1145777"
  by (simp add: MAX_SLICE_LENGTH_def BASE_CLOCK_RATE_ARM11_def)

lemma MAX_VALUE_TO_MULTIPLY_eq: "MAX_VALUE_TO_MULTIPLY = 34401209161"
  by (simp add: MAX_VALUE_TO_MULTIPLY_def BASE_CLOCK_RATE_ARM11_def)

text \<open>
  The clock rate is unsigned, so a product with it and a division of that product are
  unsigned whatever the sign of the other factor; the division of the argument itself
  in \<open>nsToCycles(s64)\<close> and \<open>usToCycles(s64)\<close> is signed and rounds towards zero.
\<close>

definition scaled_to_cycles_s64 :: "int \<Rightarrow> u64 \<Rightarrow> u64" where
  "scaled_to_cycles_s64 units x =
     (if sint MAX_VALUE_TO_MULTIPLY < sint x sdiv units then 0x7FFFFFFFFFFFFFFF
      else if sint MAX_VALUE_TO_MULTIPLY < sint x
      then BASE_CLOCK_RATE_ARM11 * word_of_int (sint x sdiv units)
      else (BASE_CLOCK_RATE_ARM11 * x) div word_of_int units)"

definition nsToCycles :: "u64 \<Rightarrow> u64" where
  "nsToCycles ns = scaled_to_cycles_s64 1000000000 ns"

definition usToCycles :: "u64 \<Rightarrow> u64" where
  "usToCycles us = scaled_to_cycles_s64 1000000 us"

definition scaled_to_cycles_u64 :: "int \<Rightarrow> u64 \<Rightarrow> u64" where
  "scaled_to_cycles_u64 units x =
     (if MAX_VALUE_TO_MULTIPLY < x div word_of_int units then 0x7FFFFFFFFFFFFFFF
      else if MAX_VALUE_TO_MULTIPLY < x
      then BASE_CLOCK_RATE_ARM11 * (x div word_of_int units)
      else (BASE_CLOCK_RATE_ARM11 * x) div word_of_int units)"

definition usToCycles_u64 :: "u64 \<Rightarrow> u64" where
  "usToCycles_u64 us = scaled_to_cycles_u64 1000000 us"

text \<open>\<open>nsToCycles(u64)\<close> divides a signed cast of its argument in its second branch.\<close>

definition nsToCycles_u64 :: "u64 \<Rightarrow> u64" where
  "nsToCycles_u64 ns =
     (if MAX_VALUE_TO_MULTIPLY < ns div 1000000000 then 0x7FFFFFFFFFFFFFFF
      else if MAX_VALUE_TO_MULTIPLY < ns
      then BASE_CLOCK_RATE_ARM11 * word_of_int (sint ns sdiv 1000000000)
      else (BASE_CLOCK_RATE_ARM11 * ns) div 1000000000)"

definition cyclesToNs :: "u64 \<Rightarrow> u64" where
  "cyclesToNs cycles = (cycles * 1000000000) div BASE_CLOCK_RATE_ARM11"

definition cyclesToUs :: "u64 \<Rightarrow> u64" where
  "cyclesToUs cycles = (cycles * 1000000) div BASE_CLOCK_RATE_ARM11"

definition cyclesToMs :: "u64 \<Rightarrow> u64" where
  "cyclesToMs cycles = (cycles * 1000) div BASE_CLOCK_RATE_ARM11"

text \<open>The overloads on \<open>int\<close>.\<close>

definition msToCycles :: "32 word \<Rightarrow> u64" where
  "msToCycles ms = BASE_CLOCK_RATE_ARM11 * scast ms div 1000"

definition usToCycles_int :: "32 word \<Rightarrow> u64" where
  "usToCycles_int us = BASE_CLOCK_RATE_ARM11 * scast us div 1000000"

definition nsToCycles_int :: "32 word \<Rightarrow> u64" where
  "nsToCycles_int ns = BASE_CLOCK_RATE_ARM11 * scast ns div 1000000000"

section \<open>Timers\<close>

text \<open>An event type is registered by its name, which stands for the pointer to it.\<close>

record event =
  ev_time :: int
  fifo_order :: nat
  user_data :: nat
  ev_type :: string

record timer =
  event_queue :: "event list"
  event_fifo_id :: nat
  ts_queue :: "event list"
  is_timer_sane :: bool
  slice_length :: int
  downcount :: int
  executed_ticks :: int
  idled_cycles :: int
  cpu_clock_scale :: rat

definition new_timer :: timer where
  "new_timer = \<lparr>event_queue = [], event_fifo_id = 0, ts_queue = [], is_timer_sane = True,
     slice_length = MAX_SLICE_LENGTH, downcount = MAX_SLICE_LENGTH, executed_ticks = 0,
     idled_cycles = 0, cpu_clock_scale = 1\<rparr>"

definition event_key :: "event \<Rightarrow> int \<times> nat" where
  "event_key e = (ev_time e, fifo_order e)"

definition push_event :: "event \<Rightarrow> event list \<Rightarrow> event list" where
  "push_event e q = insort_key event_key e q"

definition Timer_GetTicks :: "timer \<Rightarrow> int" where
  "Timer_GetTicks t =
     (if is_timer_sane t then executed_ticks t
      else executed_ticks t + (slice_length t - downcount t))"


definition GetIdleTicks :: "timer \<Rightarrow> int" where
  "GetIdleTicks t = idled_cycles t"

definition ForceExceptionCheck :: "int \<Rightarrow> timer \<Rightarrow> timer" where
  "ForceExceptionCheck cycles t =
     (let c = max 0 cycles in
      if downcount t > c
      then t\<lparr>slice_length := slice_length t - (downcount t - c), downcount := c\<rparr>
      else t)"

fun move_events :: "event list \<Rightarrow> timer \<Rightarrow> timer" where
  "move_events [] t = t"
| "move_events (ev # evs) t =
     move_events evs
       (t\<lparr>event_queue := push_event (ev\<lparr>fifo_order := event_fifo_id t\<rparr>) (event_queue t),
          event_fifo_id := Suc (event_fifo_id t)\<rparr>)"

definition MoveEvents :: "timer \<Rightarrow> timer" where
  "MoveEvents t = move_events (ts_queue t) (t\<lparr>ts_queue := []\<rparr>)"

text \<open>A front that is already due fails the assertion.\<close>

definition GetMaxSliceLength :: "timer \<Rightarrow> int run" where
  "GetMaxSliceLength t =
     (case event_queue t of
        [] \<Rightarrow> Some MAX_SLICE_LENGTH
      | e # _ \<Rightarrow> do { assert_that (ev_time e - executed_ticks t > 0); Some (ev_time e - executed_ticks t) })"

text \<open>\<open>static_cast<int>\<close> of a 64-bit value.\<close>

definition to_int32 :: "int \<Rightarrow> int" where
  "to_int32 x = sint (word_of_int x :: 32 word)"

definition SetNextSlice :: "int \<Rightarrow> timer \<Rightarrow> timer" where
  "SetNextSlice max_slice_length t =
     (let s = (case event_queue t of
                 [] \<Rightarrow> max_slice_length
               | e # _ \<Rightarrow> to_int32 (min (ev_time e - executed_ticks t) max_slice_length))
      in t\<lparr>slice_length := s, downcount := s\<rparr>)"


definition GetDowncount :: "timer \<Rightarrow> int" where
  "GetDowncount t = downcount t"

section \<open>The timing object\<close>

record timing =
  timers :: "timer list"
  current_timer :: nat
  event_queue_locked :: bool

definition upd_timer :: "nat \<Rightarrow> (timer \<Rightarrow> timer) \<Rightarrow> timing \<Rightarrow> timing" where
  "upd_timer i f T = T\<lparr>timers := (timers T)[i := f (timers T ! i)]\<rparr>"

definition UpdateClockSpeed :: "nat \<Rightarrow> timing \<Rightarrow> timing" where
  "UpdateClockSpeed percentage T =
     T\<lparr>timers := map (\<lambda>t. t\<lparr>cpu_clock_scale := 100 / of_nat percentage\<rparr>) (timers T)\<rparr>"

definition new_timing :: "nat \<Rightarrow> nat \<Rightarrow> timing" where
  "new_timing num_cores percentage =
     UpdateClockSpeed percentage
       \<lparr>timers = replicate num_cores new_timer, current_timer = 0, event_queue_locked = False\<rparr>"

definition enqueue :: "event \<Rightarrow> timer \<Rightarrow> timer" where
  "enqueue e t =
     t\<lparr>event_queue := push_event (e\<lparr>fifo_order := event_fifo_id t\<rparr>) (event_queue t),
       event_fifo_id := Suc (event_fifo_id t)\<rparr>"

text \<open>\<open>core_id\<close> is \<open>None\<close> for the default argument, the greatest \<open>std::size_t\<close>.\<close>

definition ScheduleEvent :: "int \<Rightarrow> string \<Rightarrow> nat \<Rightarrow> nat option \<Rightarrow> timing \<Rightarrow> timing run" where
  "ScheduleEvent cycles_into_future event_type data core_id T =
     (if event_queue_locked T then Some T
      else
        let i = (case core_id of None \<Rightarrow> current_timer T | Some c \<Rightarrow> c) in
        do {
          assert_that (case core_id of None \<Rightarrow> True | Some c \<Rightarrow> c < length (timers T));
          let t = timers T ! i;
          let ev = \<lparr>ev_time = Timer_GetTicks t + cycles_into_future, fifo_order = 0,
                    user_data = data, ev_type = event_type\<rparr>;
          Some (if current_timer T = i
                then upd_timer i (\<lambda>t. enqueue ev (if is_timer_sane t then t
                                                   else ForceExceptionCheck cycles_into_future t)) T
                else upd_timer i (\<lambda>t. t\<lparr>ts_queue := ts_queue t @ [ev]\<rparr>) T)
        })"

definition UnscheduleEvent :: "string \<Rightarrow> nat \<Rightarrow> timing \<Rightarrow> timing" where
  "UnscheduleEvent event_type data T =
     (if event_queue_locked T then T
      else T\<lparr>timers := map (\<lambda>t. t\<lparr>event_queue :=
             filter (\<lambda>e. \<not> (ev_type e = event_type \<and> user_data e = data)) (event_queue t)\<rparr>) (timers T)\<rparr>)"


definition SetCurrentTimer :: "nat \<Rightarrow> timing \<Rightarrow> timing" where
  "SetCurrentTimer core_id T = T\<lparr>current_timer := core_id\<rparr>"

definition Timing_GetTicks :: "timing \<Rightarrow> int" where
  "Timing_GetTicks T = Timer_GetTicks (timers T ! current_timer T)"

text \<open>\<open>std::max_element\<close> keeps the first of several equal maxima.\<close>

fun max_element :: "('a \<Rightarrow> int) \<Rightarrow> 'a \<Rightarrow> 'a list \<Rightarrow> 'a" where
  "max_element f best [] = best"
| "max_element f best (x # xs) = max_element f (if f best < f x then x else best) xs"

definition GetGlobalTicks :: "timing \<Rightarrow> int" where
  "GetGlobalTicks T = Timer_GetTicks (max_element Timer_GetTicks (hd (timers T)) (tl (timers T)))"

section \<open>Running due events\<close>

text \<open>
  The callback of an event type may do anything to the timing object and to the rest of
  the machine \<open>'w\<close>, so the registered callbacks are a parameter; \<open>None\<close> is a type with
  no callback, which is logged and skipped.
\<close>

type_synonym 'w callbacks = "string \<Rightarrow> (nat \<Rightarrow> int \<Rightarrow> timing \<times> 'w \<Rightarrow> timing \<times> 'w) option"

definition RegisterEvent ::
    "string \<Rightarrow> (nat \<Rightarrow> int \<Rightarrow> timing \<times> 'w \<Rightarrow> timing \<times> 'w) option \<Rightarrow> 'w callbacks \<Rightarrow> 'w callbacks" where
  "RegisterEvent name callback cbs =
     (case callback of None \<Rightarrow> cbs | Some c \<Rightarrow> cbs(name := Some c))"

definition due :: "timer \<Rightarrow> bool" where
  "due t \<longleftrightarrow> (case event_queue t of [] \<Rightarrow> False | e # _ \<Rightarrow> ev_time e \<le> executed_ticks t)"

definition fire_front :: "'w callbacks \<Rightarrow> nat \<Rightarrow> timing \<times> 'w \<Rightarrow> timing \<times> 'w" where
  "fire_front cbs i s =
     (let t = timers (fst s) ! i;
          e = hd (event_queue t);
          s' = (upd_timer i (\<lambda>t. t\<lparr>event_queue := tl (event_queue t)\<rparr>) (fst s), snd s)
      in case cbs (ev_type e) of
           None \<Rightarrow> s'
         | Some c \<Rightarrow> c (user_data e) (to_int32 (executed_ticks t - ev_time e)) s')"

partial_function (option) fire_due :: "'w callbacks \<Rightarrow> nat \<Rightarrow> timing \<times> 'w \<Rightarrow> (timing \<times> 'w) run" where
  "fire_due cbs i s =
     (if due (timers (fst s) ! i) then fire_due cbs i (fire_front cbs i s) else Some s)"

definition start_advance :: "timer \<Rightarrow> timer" where
  "start_advance t =
     (let t = MoveEvents t in
      t\<lparr>idled_cycles := 0,
        executed_ticks := executed_ticks t + (slice_length t - downcount t),
        slice_length := 0, downcount := 0, is_timer_sane := True\<rparr>)"

definition Advance :: "'w callbacks \<Rightarrow> nat \<Rightarrow> timing \<times> 'w \<Rightarrow> (timing \<times> 'w) run" where
  "Advance cbs i s =
     do {
       (T, w) \<leftarrow> fire_due cbs i (upd_timer i start_advance (fst s), snd s);
       Some (upd_timer i (\<lambda>t. t\<lparr>is_timer_sane := False\<rparr>) T, w)
     }"

section \<open>The event queue\<close>


definition queue_ok :: "timer \<Rightarrow> bool" where
  "queue_ok t \<longleftrightarrow> sorted (map event_key (event_queue t)) \<and>
     (\<forall>e \<in> set (event_queue t). fifo_order e < event_fifo_id t)"

lemma insort_key_split:
  "insort_key f x xs = takeWhile (\<lambda>y. f y < f x) xs @ x # dropWhile (\<lambda>y. f y < f x) xs"
  by (induction xs) auto

lemma set_push_event [simp]: "set (push_event e q) = insert e (set q)"
  by (simp add: push_event_def set_insort_key)

lemma sorted_push_event: "sorted (map event_key q) \<Longrightarrow> sorted (map event_key (push_event e q))"
  by (simp add: push_event_def sorted_insort_key)

lemma queue_ok_enqueue: "queue_ok t \<Longrightarrow> queue_ok (enqueue e t)"
  by (auto simp: queue_ok_def enqueue_def sorted_push_event less_Suc_eq)

lemma queue_ok_move: "queue_ok t \<Longrightarrow> queue_ok (move_events evs t)"
proof (induction evs arbitrary: t)
  case (Cons ev evs)
  have "queue_ok (enqueue ev t)" using Cons.prems by (rule queue_ok_enqueue)
  from Cons.IH [OF this] show ?case by (simp add: enqueue_def)
qed simp

lemma move_events_frame:
  "slice_length (move_events evs t) = slice_length t"
  "downcount (move_events evs t) = downcount t"
  "executed_ticks (move_events evs t) = executed_ticks t"
  "is_timer_sane (move_events evs t) = is_timer_sane t"
  "ts_queue (move_events evs t) = ts_queue t"
  by (induction evs arbitrary: t) auto

lemma MoveEvents_frame [simp]:
  "slice_length (MoveEvents t) = slice_length t" "downcount (MoveEvents t) = downcount t"
  "executed_ticks (MoveEvents t) = executed_ticks t" "is_timer_sane (MoveEvents t) = is_timer_sane t"
  "ts_queue (MoveEvents t) = []"
  by (simp_all add: MoveEvents_def move_events_frame)

lemma queue_ok_MoveEvents: "queue_ok t \<Longrightarrow> queue_ok (MoveEvents t)"
  unfolding MoveEvents_def by (rule queue_ok_move) (simp add: queue_ok_def)

lemma ForceExceptionCheck_frame [simp]:
  "event_queue (ForceExceptionCheck c t) = event_queue t"
  "event_fifo_id (ForceExceptionCheck c t) = event_fifo_id t"
  "executed_ticks (ForceExceptionCheck c t) = executed_ticks t"
  "is_timer_sane (ForceExceptionCheck c t) = is_timer_sane t"
  "Timer_GetTicks (ForceExceptionCheck c t) = Timer_GetTicks t"
  by (auto simp: ForceExceptionCheck_def Let_def Timer_GetTicks_def)

lemma enqueue_frame [simp]:
  "executed_ticks (enqueue e t) = executed_ticks t" "is_timer_sane (enqueue e t) = is_timer_sane t"
  "slice_length (enqueue e t) = slice_length t" "downcount (enqueue e t) = downcount t"
  "Timer_GetTicks (enqueue e t) = Timer_GetTicks t"
  by (simp_all add: enqueue_def Timer_GetTicks_def)

lemma timers_upd [simp]:
  "length (timers (upd_timer i f T)) = length (timers T)"
  "current_timer (upd_timer i f T) = current_timer T"
  "event_queue_locked (upd_timer i f T) = event_queue_locked T"
  "i < length (timers T) \<Longrightarrow> timers (upd_timer i f T) ! i = f (timers T ! i)"
  "j \<noteq> i \<Longrightarrow> timers (upd_timer i f T) ! j = timers T ! j"
  by (simp_all add: upd_timer_def)

text \<open>A new event goes behind every event that is not later: equal times fire in posting order.\<close>

lemma enqueue_stable:
  assumes "queue_ok t"
  shows "event_queue (enqueue e t) =
    takeWhile (\<lambda>y. ev_time y \<le> ev_time e) (event_queue t) @ e\<lparr>fifo_order := event_fifo_id t\<rparr> #
    dropWhile (\<lambda>y. ev_time y \<le> ev_time e) (event_queue t)"
proof -
  have "event_key y < event_key (e\<lparr>fifo_order := event_fifo_id t\<rparr>) \<longleftrightarrow> ev_time y \<le> ev_time e"
    if "y \<in> set (event_queue t)" for y
    using assms that by (auto simp: queue_ok_def event_key_def less_prod_def)
  then show ?thesis
    unfolding enqueue_def push_event_def insort_key_split
    by (simp cong: takeWhile_cong dropWhile_cong)
qed

lemma sorted_times: "sorted (map event_key q) \<Longrightarrow> sorted (map ev_time q)"
  by (induction q) (auto simp: event_key_def less_eq_prod_def)

section \<open>Advancing\<close>

text \<open>
  How far the due events of a timer lie in the past, one added for each: the measure that
  every round of the loop of \<open>Advance\<close> makes smaller, also when a callback posts its event
  again one period after the time it was due.
\<close>

definition backlog :: "timer \<Rightarrow> nat" where
  "backlog t = sum_list (map (\<lambda>e. nat (executed_ticks t + 1 - ev_time e)) (event_queue t))"

lemma sum_list_insort: "sum_list (map f (insort_key k x xs)) = (f x :: nat) + sum_list (map f xs)"
  by (induction xs) auto

lemma backlog_enqueue: "backlog (enqueue e t) = nat (executed_ticks t + 1 - ev_time e) + backlog t"
  by (simp add: backlog_def enqueue_def push_event_def sum_list_insort)

text \<open>
  A callback is polite to timer \<open>i\<close> when it leaves the executed ticks and the sanity flag
  of the timer alone, keeps its queue in order, and adds less to the backlog than firing its
  own event took off.
\<close>

definition polite :: "nat \<Rightarrow> 'w callbacks \<Rightarrow> bool" where
  "polite i cbs \<longleftrightarrow>
     (\<forall>ty c u l s. cbs ty = Some c \<longrightarrow> i < length (timers (fst s)) \<longrightarrow>
        is_timer_sane (timers (fst s) ! i) \<longrightarrow> queue_ok (timers (fst s) ! i) \<longrightarrow>
        (let t = timers (fst s) ! i; t' = timers (fst (c u l s)) ! i in
         length (timers (fst (c u l s))) = length (timers (fst s)) \<and>
         executed_ticks t' = executed_ticks t \<and> is_timer_sane t' \<and> queue_ok t' \<and>
         backlog t' \<le> backlog t + nat l))"

definition ready_timer :: "nat \<Rightarrow> timing \<Rightarrow> bool" where
  "ready_timer i T \<longleftrightarrow> i < length (timers T) \<and> is_timer_sane (timers T ! i) \<and> queue_ok (timers T ! i)"

lemma politeD:
  assumes "polite i cbs" "cbs ty = Some c" "ready_timer i (fst s)"
  shows "ready_timer i (fst (c u l s))"
    "executed_ticks (timers (fst (c u l s)) ! i) = executed_ticks (timers (fst s) ! i)"
    "backlog (timers (fst (c u l s)) ! i) \<le> backlog (timers (fst s) ! i) + nat l"
proof -
  from assms have "let t = timers (fst s) ! i; t' = timers (fst (c u l s)) ! i in
     length (timers (fst (c u l s))) = length (timers (fst s)) \<and>
     executed_ticks t' = executed_ticks t \<and> is_timer_sane t' \<and> queue_ok t' \<and>
     backlog t' \<le> backlog t + nat l"
    unfolding polite_def ready_timer_def by blast
  with assms(3) show "ready_timer i (fst (c u l s))"
    "executed_ticks (timers (fst (c u l s)) ! i) = executed_ticks (timers (fst s) ! i)"
    "backlog (timers (fst (c u l s)) ! i) \<le> backlog (timers (fst s) ! i) + nat l"
    by (auto simp: Let_def ready_timer_def)
qed

lemma to_int32_le: "0 \<le> x \<Longrightarrow> to_int32 x \<le> x"
  by (simp add: to_int32_def signed_of_int signed_take_bit_int_less_eq_self_iff)

lemma fire_front_polite:
  assumes p: "polite i cbs" and r: "ready_timer i (fst s)" and d: "due (timers (fst s) ! i)"
  shows "ready_timer i (fst (fire_front cbs i s))"
    "executed_ticks (timers (fst (fire_front cbs i s)) ! i) = executed_ticks (timers (fst s) ! i)"
    "backlog (timers (fst (fire_front cbs i s)) ! i) < backlog (timers (fst s) ! i)"
proof -
  let ?t = "timers (fst s) ! i"
  let ?pop = "\<lambda>t. t\<lparr>event_queue := tl (event_queue t)\<rparr>"
  obtain e es where q: "event_queue ?t = e # es" "ev_time e \<le> executed_ticks ?t"
    using d by (auto simp: due_def split: list.splits)
  let ?s = "(upd_timer i ?pop (fst s), snd s)"
  from r have i: "i < length (timers (fst s))" by (simp add: ready_timer_def)
  then have t': "timers (fst ?s) ! i = ?pop ?t" by simp
  have pop: "ready_timer i (fst ?s)"
    "backlog (?pop ?t) + Suc (nat (executed_ticks ?t - ev_time e)) = backlog ?t"
    using r q i by (auto simp: queue_ok_def backlog_def ready_timer_def)
  have "ready_timer i (fst (fire_front cbs i s)) \<and>
    executed_ticks (timers (fst (fire_front cbs i s)) ! i) = executed_ticks ?t \<and>
    backlog (timers (fst (fire_front cbs i s)) ! i) < backlog ?t"
  proof (cases "cbs (ev_type e)")
    case None
    then show ?thesis using q i pop by (simp add: fire_front_def Let_def)
  next
    case (Some c)
    let ?l = "to_int32 (executed_ticks ?t - ev_time e)"
    have f: "fire_front cbs i s = c (user_data e) ?l ?s"
      using q Some by (simp add: fire_front_def Let_def)
    note p' = politeD [OF p Some pop(1), where u = "user_data e" and l = ?l]
    have "?l \<le> executed_ticks ?t - ev_time e" using q(2) by (simp add: to_int32_le)
    then have l: "nat ?l \<le> nat (executed_ticks ?t - ev_time e)" by (rule nat_mono)
    show ?thesis unfolding f using p' pop(2) l i unfolding t' by simp
  qed
  then show "ready_timer i (fst (fire_front cbs i s))"
    "executed_ticks (timers (fst (fire_front cbs i s)) ! i) = executed_ticks ?t"
    "backlog (timers (fst (fire_front cbs i s)) ! i) < backlog ?t" by auto
qed

lemma fire_due_polite:
  assumes "polite i cbs" "ready_timer i (fst s)"
  shows "\<exists>s'. fire_due cbs i s = Some s' \<and> ready_timer i (fst s') \<and> \<not> due (timers (fst s') ! i) \<and>
    executed_ticks (timers (fst s') ! i) = executed_ticks (timers (fst s) ! i)"
  using assms(2)
proof (induction "backlog (timers (fst s) ! i)" arbitrary: s rule: less_induct)
  case less
  show ?case
  proof (cases "due (timers (fst s) ! i)")
    case True
    note f = fire_front_polite [OF assms(1) less.prems True]
    from less.hyps [OF f(3,1)] f(2) True show ?thesis by (simp add: fire_due.simps [of cbs i s])
  next
    case False
    with less.prems show ?thesis by (simp add: fire_due.simps [of cbs i s])
  qed
qed

lemma not_due_all:
  assumes "queue_ok t" "\<not> due t"
  shows "\<forall>e \<in> set (event_queue t). executed_ticks t < ev_time e"
proof (cases "event_queue t")
  case (Cons e es)
  have "sorted (map ev_time (event_queue t))" using assms(1) sorted_times by (auto simp: queue_ok_def)
  with Cons assms(2) show ?thesis by (auto simp: due_def)
qed simp

text \<open>The callback the header of the code recommends: post the event again, one period later.\<close>

definition periodic :: "int \<Rightarrow> string \<Rightarrow> nat \<Rightarrow> int \<Rightarrow> timing \<times> 'w \<Rightarrow> timing \<times> 'w" where
  "periodic period ty u l s =
     (case ScheduleEvent (period - l) ty u None (fst s) of None \<Rightarrow> s | Some T \<Rightarrow> (T, snd s))"

lemma queue_ok_frame [simp]:
  "queue_ok (t\<lparr>ts_queue := x\<rparr>) = queue_ok t" "queue_ok (t\<lparr>is_timer_sane := b\<rparr>) = queue_ok t"
  "queue_ok (ForceExceptionCheck c t) = queue_ok t"
  by (simp_all add: queue_ok_def)

lemma periodic_polite:
  assumes "0 < period"
  shows "polite i (Map.empty(ty \<mapsto> periodic period ty))"
proof -
  have "let t = timers T ! i; t' = timers (fst (periodic period ty u l (T, w))) ! i in
         length (timers (fst (periodic period ty u l (T, w)))) = length (timers T) \<and>
         executed_ticks t' = executed_ticks t \<and> is_timer_sane t' \<and> queue_ok t' \<and>
         backlog t' \<le> backlog t + nat l"
    if r: "i < length (timers T)" "is_timer_sane (timers T ! i)" "queue_ok (timers T ! i)" for u l T w
  proof (cases "i = current_timer T")
    case True
    with r assms show ?thesis
      by (auto simp: periodic_def ScheduleEvent_def Let_def backlog_enqueue queue_ok_enqueue
            Timer_GetTicks_def)
  next
    case False
    with r show ?thesis by (simp add: periodic_def ScheduleEvent_def Let_def)
  qed
  then show ?thesis unfolding polite_def by (auto split: if_splits)
qed

section \<open>The agenda of a core\<close>

text \<open>
  What the kernel relies on when it posts wake-ups and timeouts: a list of keys in the order of
  their times, in which an entry posted at the time of another goes behind it and a key can be
  taken out again.
\<close>

locale event_agenda =
  fixes inv :: "'s \<Rightarrow> bool" and pending :: "'s \<Rightarrow> (int \<times> 'k) list"
    and post :: "int \<Rightarrow> 'k \<Rightarrow> 's \<Rightarrow> 's" and cancel :: "'k \<Rightarrow> 's \<Rightarrow> 's"
  assumes inv_post: "inv s \<Longrightarrow> inv (post a k s)"
    and inv_cancel: "inv s \<Longrightarrow> inv (cancel k s)"
    and pending_sorted: "inv s \<Longrightarrow> sorted (map fst (pending s))"
    and pending_post: "inv s \<Longrightarrow> pending (post a k s) =
      takeWhile (\<lambda>x. fst x \<le> a) (pending s) @ (a, k) # dropWhile (\<lambda>x. fst x \<le> a) (pending s)"
    and pending_cancel: "inv s \<Longrightarrow> pending (cancel k s) = filter (\<lambda>x. snd x \<noteq> k) (pending s)"
begin

lemma mem_post: "inv s \<Longrightarrow> set (pending (post a k s)) = insert (a, k) (set (pending s))"
  by (simp add: pending_post) (metis Un_insert_right set_append takeWhile_dropWhile_id)

lemma repost_unique:
  assumes "inv s"
  shows "filter (\<lambda>x. snd x = k) (pending (post a k (cancel k s))) = [(a, k)]"
    "filter (\<lambda>x. snd x \<noteq> k) (pending (post a k (cancel k s))) = filter (\<lambda>x. snd x \<noteq> k) (pending s)"
proof -
  let ?q = "filter (\<lambda>x. snd x \<noteq> k) (pending s)"
  have q: "pending (post a k (cancel k s)) =
      takeWhile (\<lambda>x. fst x \<le> a) ?q @ (a, k) # dropWhile (\<lambda>x. fst x \<le> a) ?q"
    using assms by (simp add: pending_post pending_cancel inv_cancel)
  have f: "filter P (takeWhile R xs) @ filter P (dropWhile R xs) = filter P xs"
    for P R and xs :: "(int \<times> 'k) list" by (metis filter_append takeWhile_dropWhile_id)
  have "filter (\<lambda>x. snd x = k) (takeWhile R ?q) = []" "filter (\<lambda>x. snd x = k) (dropWhile R ?q) = []"
    for R using f [of "\<lambda>x. snd x = k" R ?q] by (simp_all add: filter_filter)
  then show "filter (\<lambda>x. snd x = k) (pending (post a k (cancel k s))) = [(a, k)]"
    by (simp add: q)
  show "filter (\<lambda>x. snd x \<noteq> k) (pending (post a k (cancel k s))) = ?q"
    using f [of "\<lambda>x. snd x \<noteq> k" "\<lambda>x. fst x \<le> a" ?q] by (simp add: q)
qed

lemma equal_times_in_order:
  assumes "inv s" "k \<noteq> l" "k \<notin> snd ` set (pending s)" "l \<notin> snd ` set (pending s)"
  shows "filter (\<lambda>x. snd x \<in> {k, l}) (pending (post a l (post a k s))) = [(a, k), (a, l)]"
proof -
  let ?q = "pending s" and ?R = "\<lambda>x :: int \<times> 'k. fst x \<le> a"
  have no: "filter (\<lambda>x. snd x \<in> {k, l}) xs = []" if "set xs \<subseteq> set ?q" for xs
    using that assms(3,4) by (force simp: filter_empty_conv)
  have dd: "dropWhile ?R (dropWhile ?R xs) = dropWhile ?R xs" for xs by (induction xs) auto
  have tt: "takeWhile ?R (dropWhile ?R xs) = []" for xs by (induction xs) auto
  have all: "\<forall>x \<in> set (takeWhile ?R ?q). ?R x" using set_takeWhileD by fastforce
  have q: "pending (post a l (post a k s)) =
      takeWhile ?R ?q @ [(a, k), (a, l)] @ dropWhile ?R ?q"
    using assms(1) all by (simp add: pending_post inv_post takeWhile_append2 dropWhile_append2 dd tt)
  have "set (takeWhile ?R ?q) \<subseteq> set ?q" "set (dropWhile ?R ?q) \<subseteq> set ?q"
    by (auto dest: set_takeWhileD set_dropWhileD)
  from no [OF this(1)] no [OF this(2)] show ?thesis by (simp only: q filter_append) simp
qed

end

definition core_inv :: "nat \<Rightarrow> timing \<Rightarrow> bool" where
  "core_inv i T \<longleftrightarrow> \<not> event_queue_locked T \<and> current_timer T = i \<and> i < length (timers T) \<and>
     queue_ok (timers T ! i)"

definition core_pending :: "nat \<Rightarrow> timing \<Rightarrow> (int \<times> string \<times> nat) list" where
  "core_pending i T = map (\<lambda>e. (ev_time e, ev_type e, user_data e)) (event_queue (timers T ! i))"

definition core_post :: "nat \<Rightarrow> int \<Rightarrow> string \<times> nat \<Rightarrow> timing \<Rightarrow> timing" where
  "core_post i a k T =
     (case ScheduleEvent (a - Timing_GetTicks T) (fst k) (snd k) (Some i) T of None \<Rightarrow> T | Some T' \<Rightarrow> T')"

definition core_cancel :: "string \<times> nat \<Rightarrow> timing \<Rightarrow> timing" where
  "core_cancel k T = UnscheduleEvent (fst k) (snd k) T"

lemma core_post_timer:
  assumes "core_inv i T"
  obtains t' where "core_post i a k T = upd_timer i (\<lambda>t. enqueue \<lparr>ev_time = a, fifo_order = 0,
      user_data = snd k, ev_type = fst k\<rparr> t') T"
    "event_queue t' = event_queue (timers T ! i)" "queue_ok t'"
proof
  let ?t = "timers T ! i"
  let ?t' = "if is_timer_sane ?t then ?t else ForceExceptionCheck (a - Timing_GetTicks T) ?t"
  show "core_post i a k T = upd_timer i (\<lambda>t. enqueue \<lparr>ev_time = a, fifo_order = 0,
      user_data = snd k, ev_type = fst k\<rparr> ?t') T"
    using assms by (simp add: core_post_def ScheduleEvent_def core_inv_def Let_def
        Timing_GetTicks_def upd_timer_def)
qed (use assms in \<open>auto simp: core_inv_def\<close>)

lemma queue_ok_filter: "queue_ok t \<Longrightarrow> queue_ok (t\<lparr>event_queue := filter P (event_queue t)\<rparr>)"
  by (auto simp: queue_ok_def sorted_filter)

interpretation ca: event_agenda "core_inv i" "core_pending i" "core_post i" core_cancel for i
proof
  fix s a k
  assume inv: "core_inv i s"
  note t = core_post_timer [OF this, of a k]
  show "core_inv i (core_post i a k s)"
    by (rule t) (use inv in \<open>auto simp: core_inv_def queue_ok_enqueue\<close>)
  show "core_inv i (core_cancel k s)"
    using inv by (simp add: core_inv_def core_cancel_def UnscheduleEvent_def queue_ok_filter)
  show "sorted (map fst (core_pending i s))"
    using inv by (simp add: core_pending_def core_inv_def queue_ok_def sorted_times o_def)
  show "core_pending i (core_post i a k s) =
      takeWhile (\<lambda>x. fst x \<le> a) (core_pending i s) @ (a, k) # dropWhile (\<lambda>x. fst x \<le> a) (core_pending i s)"
    by (rule t) (use inv in \<open>simp add: core_pending_def core_inv_def enqueue_stable takeWhile_map
      dropWhile_map o_def\<close>)
  show "core_pending i (core_cancel k s) = filter (\<lambda>x. snd x \<noteq> k) (core_pending i s)"
    using inv by (cases k) (simp add: core_pending_def core_cancel_def UnscheduleEvent_def
      core_inv_def filter_map o_def)
qed

section \<open>One slice\<close>








lemma SetNextSlice_frame [simp]:
  "event_queue (SetNextSlice m t) = event_queue t" "executed_ticks (SetNextSlice m t) = executed_ticks t"
  "is_timer_sane (SetNextSlice m t) = is_timer_sane t"
  by (simp_all add: SetNextSlice_def Let_def)

section \<open>Properties\<close>



text \<open>C27: With polite callbacks \<open>Advance\<close> returns, and when it does no event of the timer is due, the
  ticks executed so far are those \<open>GetTicks\<close> showed just before (time does not jump), and the queue
  is in order. A callback that posts its event again one period after the time it was due, as the
  header recommends, is polite however late it runs.\<close>

theorem Advance_catches_up:
  assumes "polite i cbs" "i < length (timers T)" "\<not> is_timer_sane (timers T ! i)"
    and "queue_ok (timers T ! i)"
  shows "\<exists>T' w'. Advance cbs i (T, w) = Some (T', w') \<and> queue_ok (timers T' ! i) \<and>
    executed_ticks (timers T' ! i) = Timer_GetTicks (timers T ! i) \<and>
    (\<forall>e \<in> set (event_queue (timers T' ! i)). executed_ticks (timers T' ! i) < ev_time e)"
proof -
  let ?S = "upd_timer i start_advance T"
  have r: "ready_timer i (fst (?S, w))"
    using assms by (simp add: ready_timer_def start_advance_def Let_def queue_ok_def)
      (use queue_ok_MoveEvents in \<open>auto simp: queue_ok_def\<close>)
  obtain s' where s': "fire_due cbs i (?S, w) = Some s'" "ready_timer i (fst s')"
    "\<not> due (timers (fst s') ! i)" "executed_ticks (timers (fst s') ! i) = executed_ticks (timers ?S ! i)"
    using fire_due_polite [OF assms(1) r] by auto
  let ?T' = "upd_timer i (\<lambda>t. t\<lparr>is_timer_sane := False\<rparr>) (fst s')"
  have "Advance cbs i (T, w) = Some (?T', snd s')"
    using s'(1) by (simp add: Advance_def split: prod.splits)
  moreover have "executed_ticks (timers ?S ! i) = Timer_GetTicks (timers T ! i)"
    using assms by (simp add: start_advance_def Let_def Timer_GetTicks_def)
  ultimately show ?thesis
    using s' not_due_all [of "timers (fst s') ! i"] by (auto simp: ready_timer_def)
qed

lemma Advance_catches_up_witness:
  "let T = upd_timer 0 (\<lambda>t. (enqueue \<lparr>ev_time = 100, fifo_order = 0, user_data = 7, ev_type = ''pad''\<rparr> t)
             \<lparr>is_timer_sane := False, downcount := -50\<rparr>) (new_timing 1 100)
   in \<exists>T' w'. Advance (Map.empty(''pad'' \<mapsto> periodic 1000 ''pad'')) 0 (T, ()) = Some (T', w') \<and>
      executed_ticks (timers T' ! 0) = 1145827 \<and>
      (\<forall>e \<in> set (event_queue (timers T' ! 0)). 1145827 < ev_time e)"
proof -
  let ?T = "upd_timer 0 (\<lambda>t. (enqueue \<lparr>ev_time = 100, fifo_order = 0, user_data = 7, ev_type = ''pad''\<rparr> t)
             \<lparr>is_timer_sane := False, downcount := -50\<rparr>) (new_timing 1 100)"
  have t: "Timer_GetTicks (timers ?T ! 0) = 1145827"
    by (simp add: new_timing_def UpdateClockSpeed_def new_timer_def upd_timer_def Timer_GetTicks_def
        enqueue_def)
  have "\<exists>T' w'. Advance (Map.empty(''pad'' \<mapsto> periodic 1000 ''pad'')) 0 (?T, ()) = Some (T', w') \<and>
      queue_ok (timers T' ! 0) \<and> executed_ticks (timers T' ! 0) = Timer_GetTicks (timers ?T ! 0) \<and>
      (\<forall>e \<in> set (event_queue (timers T' ! 0)). executed_ticks (timers T' ! 0) < ev_time e)"
    by (rule Advance_catches_up [OF periodic_polite])
      (simp_all add: new_timing_def UpdateClockSpeed_def new_timer_def upd_timer_def enqueue_def
        queue_ok_def push_event_def)
  then show ?thesis unfolding t Let_def by auto
qed









text \<open>Cancelling an event and posting it anew, as the kernel does when a timeout is set again,
  leaves exactly one entry for it on the core's queue, at the new time, and all other entries in
  their order.\<close>

theorem reschedule_unique:
  assumes "core_inv i T"
  shows "let q = core_pending i (core_post i a (ty, d) (core_cancel (ty, d) T)) in
    filter (\<lambda>x. snd x = (ty, d)) q = [(a, ty, d)] \<and>
    filter (\<lambda>x. snd x \<noteq> (ty, d)) q = filter (\<lambda>x. snd x \<noteq> (ty, d)) (core_pending i T)"
  using ca.repost_unique [OF assms, of "(ty, d)" a] by (simp add: Let_def)

lemma reschedule_unique_witness:
  "let T = core_post 0 9 (''wake'', 3) (core_post 0 5 (''vblank'', 1) (new_timing 1 100));
       q = core_pending 0 (core_post 0 2 (''wake'', 3) (core_cancel (''wake'', 3) T))
   in filter (\<lambda>x. snd x = (''wake'', 3)) q = [(2, ''wake'', 3)]"
proof -
  have inv: "core_inv 0 (core_post 0 9 (''wake'', 3) (core_post 0 5 (''vblank'', 1) (new_timing 1 100)))"
    by (intro ca.inv_post) (simp add: core_inv_def new_timing_def UpdateClockSpeed_def new_timer_def queue_ok_def)
  show ?thesis using reschedule_unique [OF inv, where a = 2 and ty = "''wake''" and d = 3] by (simp add: Let_def)
qed

text \<open>\<open>nsToCycles(s64)\<close> never overflows and never saturates on a time that is not negative: the
  result is never above the exact count and less than one second of cycles below it, and it is the
  exact count rounded down for every time up to 34 seconds.\<close>

theorem nsToCycles_bounds:
  assumes "0 \<le> sint ns"
  shows "let c = sint (nsToCycles ns); B = 268111856 in
    0 \<le> c \<and> 1000000000 * c \<le> B * sint ns \<and> B * sint ns < 1000000000 * (c + B) \<and>
    (sint ns \<le> sint MAX_VALUE_TO_MULTIPLY \<longrightarrow> c = B * sint ns div 1000000000)"
proof -
  define x where "x = sint ns"
  have x: "0 \<le> x" "x < 2 ^ 63" using assms sint_lt [of ns] by (simp_all add: x_def)
  have ns: "ns = word_of_int x" by (simp add: x_def)
  have M: "sint MAX_VALUE_TO_MULTIPLY = 34401209161"
    by (simp add: MAX_VALUE_TO_MULTIPLY_eq)
  have d: "x sdiv 1000000000 = x div 1000000000"
    using x by (cases "x = 0") (simp_all add: signed_divide_int_def sgn_if)
  have si: "sint (word_of_int y :: u64) = y" if "0 \<le> y" "y < 2 ^ 63" for y
    using that by (simp add: signed_of_int signed_take_bit_int_eq_self)
  have q: "x div 1000000000 \<le> 9223372036" using x by simp
  show ?thesis
  proof (cases "x \<le> 34401209161")
    case True
    have p: "BASE_CLOCK_RATE_ARM11 * ns = word_of_int (268111856 * x)"
      by (simp add: BASE_CLOCK_RATE_ARM11_def ns)
    have "uint (word_of_int (268111856 * x) :: u64) = 268111856 * x"
      unfolding uint_word_of_int using x True by simp
    then have "uint ((word_of_int (268111856 * x) :: u64) div 1000000000) = 268111856 * x div 1000000000"
      unfolding uint_div by (simp only:) simp
    then have "(word_of_int (268111856 * x) :: u64) div 1000000000 = word_of_int (268111856 * x div 1000000000)"
      by (metis word_of_int_uint)
    then have "nsToCycles ns = word_of_int (268111856 * x div 1000000000)"
      using True q p by (simp add: nsToCycles_def scaled_to_cycles_s64_def M d flip: x_def)
    moreover have "268111856 * x div 1000000000 < 2 ^ 63" "0 \<le> 268111856 * x div 1000000000"
      using x True by (auto simp: div_less_iff_less_mult)
    ultimately have c: "sint (nsToCycles ns) = 268111856 * x div 1000000000" by (simp add: si)
    show ?thesis unfolding c Let_def x_def [symmetric] using x by simp linarith
  next
    case False
    then have "nsToCycles ns = word_of_int (268111856 * (x div 1000000000))"
      using q by (simp add: nsToCycles_def scaled_to_cycles_s64_def M d BASE_CLOCK_RATE_ARM11_def flip: x_def)
    then have c: "sint (nsToCycles ns) = 268111856 * (x div 1000000000)"
      using si [of "268111856 * (x div 1000000000)"] x q by (simp add: pos_imp_zdiv_nonneg_iff)
    show ?thesis unfolding c Let_def x_def [symmetric] using x False M by simp linarith
  qed
qed

lemma nsToCycles_bounds_witness:
  "(let c = sint (nsToCycles 5000000000) in 0 \<le> c \<and> c = 268111856 * 5)"
  using nsToCycles_bounds [of 5000000000] by (simp add: Let_def MAX_VALUE_TO_MULTIPLY_eq)

text \<open>Because the clock rate is unsigned, a negative time does not give a negative count: every
  negative argument down to minus 34 seconds gives at least 34 seconds of cycles (a thread that
  sleeps for -2 ns sleeps for over a minute).\<close>

theorem nsToCycles_negative:
  assumes "- sint MAX_VALUE_TO_MULTIPLY \<le> sint ns" "sint ns < 0"
  shows "34 * 268111856 \<le> sint (nsToCycles ns)"
proof -
  define x where "x = sint ns"
  have M: "sint MAX_VALUE_TO_MULTIPLY = 34401209161"
    by (simp add: MAX_VALUE_TO_MULTIPLY_eq)
  have x: "-34401209161 \<le> x" "x < 0" using assms M by (simp_all add: x_def)
  have ns: "ns = word_of_int x" by (simp add: x_def)
  have d: "x sdiv 1000000000 \<le> 0"
    using x by (simp add: signed_divide_int_def sgn_if pos_imp_zdiv_nonneg_iff)
  have p: "BASE_CLOCK_RATE_ARM11 * ns = word_of_int (268111856 * x)"
    by (simp add: BASE_CLOCK_RATE_ARM11_def ns)
  have "uint (word_of_int (268111856 * x) :: u64) = 268111856 * x mod 2 ^ 64"
    unfolding uint_word_of_int by simp
  also have "\<dots> = (268111856 * x + 2 ^ 64) mod 2 ^ 64" by simp
  also have "\<dots> = 268111856 * x + 2 ^ 64" using x by (intro mod_pos_pos_trivial) auto
  finally have u: "uint (word_of_int (268111856 * x) :: u64) = 268111856 * x + 2 ^ 64" .
  have "nsToCycles ns = word_of_int (268111856 * x) div 1000000000"
    using x d unfolding p [symmetric] by (simp add: nsToCycles_def scaled_to_cycles_s64_def M flip: x_def)
  then have "uint (nsToCycles ns) = (268111856 * x + 2 ^ 64) div 1000000000" unfolding uint_div by (simp only: u uint_div) simp
  moreover have "9223372036 \<le> (268111856 * x + 2 ^ 64) div 1000000000"
    "(268111856 * x + 2 ^ 64) div 1000000000 < 2 ^ 63" using x by auto
  ultimately have "sint (nsToCycles ns) = (268111856 * x + 2 ^ 64) div 1000000000"
    by (simp add: sint_uint signed_take_bit_int_eq_self)
  with x show ?thesis by simp
qed

lemma nsToCycles_negative_witness: "34 * 268111856 \<le> sint (nsToCycles (-2))"
  by (rule nsToCycles_negative) (simp_all add: MAX_VALUE_TO_MULTIPLY_eq)

end
