(* ===== verification/MemoryMap.thy ===== *)
theory MemoryMap
  imports Prelude
begin

text \<open>
  The constants of \<open>core/memory.h\<close>: the size of a page, and the physical and virtual regions of the
  address spaces that the modelled code names.
\<close>

definition CITRA_PAGE_SIZE :: nat where "CITRA_PAGE_SIZE = 0x1000"
definition PAGE_TABLE_NUM_ENTRIES :: nat where "PAGE_TABLE_NUM_ENTRIES = 2 ^ 20"
definition IO_AREA_PADDR :: nat where "IO_AREA_PADDR = 0x10100000"
definition VRAM_PADDR :: nat where "VRAM_PADDR = 0x18000000"
definition VRAM_SIZE :: nat where "VRAM_SIZE = 0x00600000"
definition VRAM_PADDR_END :: nat where "VRAM_PADDR_END = VRAM_PADDR + VRAM_SIZE"
definition N3DS_EXTRA_RAM_PADDR :: nat where "N3DS_EXTRA_RAM_PADDR = 0x1F000000"
definition N3DS_EXTRA_RAM_SIZE :: nat where "N3DS_EXTRA_RAM_SIZE = 0x00400000"
definition DSP_RAM_PADDR :: nat where "DSP_RAM_PADDR = 0x1FF00000"
definition DSP_RAM_SIZE :: nat where "DSP_RAM_SIZE = 0x00080000"
definition FCRAM_PADDR :: nat where "FCRAM_PADDR = 0x20000000"
definition FCRAM_SIZE :: nat where "FCRAM_SIZE = 0x08000000"
definition FCRAM_N3DS_SIZE :: nat where "FCRAM_N3DS_SIZE = 0x10000000"
definition FCRAM_PADDR_END :: nat where "FCRAM_PADDR_END = FCRAM_PADDR + FCRAM_SIZE"
definition FCRAM_N3DS_PADDR_END :: nat where "FCRAM_N3DS_PADDR_END = FCRAM_PADDR + FCRAM_N3DS_SIZE"
definition LINEAR_HEAP_VADDR :: nat where "LINEAR_HEAP_VADDR = 0x14000000"
definition LINEAR_HEAP_SIZE :: nat where "LINEAR_HEAP_SIZE = 0x08000000"
definition LINEAR_HEAP_VADDR_END :: nat where "LINEAR_HEAP_VADDR_END = LINEAR_HEAP_VADDR + LINEAR_HEAP_SIZE"
definition VRAM_VADDR :: nat where "VRAM_VADDR = 0x1F000000"
definition VRAM_VADDR_END :: nat where "VRAM_VADDR_END = VRAM_VADDR + VRAM_SIZE"
definition NEW_LINEAR_HEAP_VADDR :: nat where "NEW_LINEAR_HEAP_VADDR = 0x30000000"
definition NEW_LINEAR_HEAP_SIZE :: nat where "NEW_LINEAR_HEAP_SIZE = 0x10000000"
definition NEW_LINEAR_HEAP_VADDR_END :: nat where
  "NEW_LINEAR_HEAP_VADDR_END = NEW_LINEAR_HEAP_VADDR + NEW_LINEAR_HEAP_SIZE"
definition PLUGIN_3GX_FB_VADDR :: nat where "PLUGIN_3GX_FB_VADDR = 0x06000000"
definition PLUGIN_3GX_FB_SIZE :: nat where "PLUGIN_3GX_FB_SIZE = 0x000A9000"
definition PLUGIN_3GX_FB_VADDR_END :: nat where
  "PLUGIN_3GX_FB_VADDR_END = PLUGIN_3GX_FB_VADDR + PLUGIN_3GX_FB_SIZE"

lemmas memory_map =
  CITRA_PAGE_SIZE_def PAGE_TABLE_NUM_ENTRIES_def IO_AREA_PADDR_def VRAM_PADDR_def VRAM_SIZE_def
  VRAM_PADDR_END_def N3DS_EXTRA_RAM_PADDR_def N3DS_EXTRA_RAM_SIZE_def DSP_RAM_PADDR_def
  DSP_RAM_SIZE_def FCRAM_PADDR_def FCRAM_SIZE_def FCRAM_N3DS_SIZE_def FCRAM_PADDR_END_def
  FCRAM_N3DS_PADDR_END_def LINEAR_HEAP_VADDR_def LINEAR_HEAP_SIZE_def LINEAR_HEAP_VADDR_END_def
  VRAM_VADDR_def VRAM_VADDR_END_def NEW_LINEAR_HEAP_VADDR_def NEW_LINEAR_HEAP_SIZE_def
  NEW_LINEAR_HEAP_VADDR_END_def PLUGIN_3GX_FB_VADDR_def PLUGIN_3GX_FB_SIZE_def
  PLUGIN_3GX_FB_VADDR_END_def

end
