(* ===== verification/MemoryRegion.thy ===== *)
theory MemoryRegion
  imports MemoryMap
begin

text \<open>
  The physical memory regions of the kernel, \<open>core/hle/kernel/memory.cpp\<close> and \<open>memory.h\<close>: the
  layout of FCRAM into the APPLICATION, SYSTEM and BASE regions, and the allocator of each region
  (\<open>MemoryRegionInfo\<close>).

  Offsets are natural numbers; \<open>add32\<close> is the addition of \<open>u32\<close>. The free blocks are a
  \<open>boost::icl::interval_set<u32>\<close>, which stands for a set of offsets and presents it as its
  maximal half-open intervals in ascending order: it is that list, and \<open>+=\<close>, \<open>-=\<close>, \<open>contains\<close> and
  \<open>intersects\<close> are shown to be union, difference, subset and meeting of the sets.
\<close>

section \<open>Interval sets\<close>

type_synonym interval = "nat \<times> nat"
type_synonym interval_set = "interval list"

definition elems :: "interval_set \<Rightarrow> nat set" where
  "elems s = (\<Union>(l, h) \<in> set s. {l..<h})"

fun iset_ok :: "interval_set \<Rightarrow> bool" where
  "iset_ok [] \<longleftrightarrow> True"
| "iset_ok [(l, h)] \<longleftrightarrow> l < h"
| "iset_ok ((l, h) # (l', h') # s) \<longleftrightarrow> l < h \<and> h < l' \<and> iset_ok ((l', h') # s)"

definition piece :: "nat \<Rightarrow> nat \<Rightarrow> interval_set" where
  "piece l h = (if l < h then [(l, h)] else [])"

text \<open>\<open>s += [a, b)\<close>, \<open>s -= [a, b)\<close>, \<open>s -= r\<close>, \<open>icl::contains\<close> and \<open>icl::intersects\<close>.\<close>

fun insert_joined :: "nat \<Rightarrow> nat \<Rightarrow> interval_set \<Rightarrow> interval_set" where
  "insert_joined a b [] = [(a, b)]"
| "insert_joined a b ((l, h) # s) =
     (if b < l then (a, b) # (l, h) # s
      else if h < a then (l, h) # insert_joined a b s
      else insert_joined (min a l) (max b h) s)"

definition iset_add :: "interval \<Rightarrow> interval_set \<Rightarrow> interval_set" where
  "iset_add i s = (if fst i < snd i then insert_joined (fst i) (snd i) s else s)"

definition iset_minus :: "interval \<Rightarrow> interval_set \<Rightarrow> interval_set" where
  "iset_minus i s =
     (if fst i < snd i
      then concat (map (\<lambda>(l, h). piece l (min h (fst i)) @ piece (max l (snd i)) h) s) else s)"

definition iset_diff :: "interval_set \<Rightarrow> interval_set \<Rightarrow> interval_set" where
  "iset_diff r s = fold iset_minus r s"

definition iset_contains :: "interval \<Rightarrow> interval_set \<Rightarrow> bool" where
  "iset_contains i s \<longleftrightarrow> fst i < snd i \<longrightarrow> (\<exists>(l, h) \<in> set s. l \<le> fst i \<and> snd i \<le> h)"

definition iset_intersects :: "interval \<Rightarrow> interval_set \<Rightarrow> bool" where
  "iset_intersects i s \<longleftrightarrow> (\<exists>(l, h) \<in> set s. max l (fst i) < min h (snd i))"

lemma elems_simps [simp]:
  "elems [] = {}" "elems ((l, h) # s) = {l..<h} \<union> elems s" "elems (s @ t) = elems s \<union> elems t"
  "elems (piece l h) = {l..<h}"
  by (auto simp: elems_def piece_def)

lemma iset_ok_Cons:
  "iset_ok ((l, h) # s) \<longleftrightarrow> l < h \<and> iset_ok s \<and> (\<forall>p \<in> set s. h < fst p)"
proof (induction s arbitrary: l h)
  case (Cons i s)
  then show ?case by (cases i) fastforce
qed simp

lemma iset_ok_mem: "iset_ok s \<Longrightarrow> (l, h) \<in> set s \<Longrightarrow> l < h"
  by (induction s) (auto simp: iset_ok_Cons)

lemma iset_ok_append:
  "iset_ok (s @ t) \<longleftrightarrow> iset_ok s \<and> iset_ok t \<and> (\<forall>p \<in> set s. \<forall>q \<in> set t. snd p < fst q)"
proof (induction s)
  case (Cons i s)
  then show ?case by (cases i) (auto simp add: iset_ok_Cons ball_Un)
qed simp

lemma elems_finite [simp]: "finite (elems s)"
  by (auto simp: elems_def)

lemma elems_above: "(\<forall>p \<in> set s. h < fst p) \<Longrightarrow> x \<in> elems s \<Longrightarrow> h < x"
  by (auto simp: elems_def)

lemma elems_insert_joined:
  "a < b \<Longrightarrow> iset_ok s \<Longrightarrow> elems (insert_joined a b s) = {a..<b} \<union> elems s"
proof (induction a b s rule: insert_joined.induct)
  case (2 a b l h s)
  then have ih: "\<not> b < l \<Longrightarrow> \<not> h < a \<Longrightarrow>
      elems (insert_joined (min a l) (max b h) s) = {min a l..<max b h} \<union> elems s"
    "\<not> b < l \<Longrightarrow> h < a \<Longrightarrow> elems (insert_joined a b s) = {a..<b} \<union> elems s"
    by (auto simp: iset_ok_Cons min_def max_def)
  have "{min a l..<max b h} = {a..<b} \<union> {l..<h}" if "\<not> b < l" "\<not> h < a"
    using that 2(3,4) by (auto simp: iset_ok_Cons)
  with ih show ?case by auto
qed simp

lemma insert_joined_lower:
  "(x, y) \<in> set (insert_joined a b s) \<Longrightarrow> x = a \<or> x \<in> fst ` set s"
  by (induction a b s rule: insert_joined.induct) (force simp: min_def split: if_splits)+

lemma iset_ok_insert_joined: "a < b \<Longrightarrow> iset_ok s \<Longrightarrow> iset_ok (insert_joined a b s)"
proof (induction a b s rule: insert_joined.induct)
  case (2 a b l h s)
  note ih = 2(1,2) and prems = 2(3,4)
  from prems have s: "iset_ok s" "l < h" "\<forall>p \<in> set s. h < fst p" by (auto simp: iset_ok_Cons)
  consider "b < l" | "\<not> b < l" "h < a" | "\<not> b < l" "\<not> h < a" by blast
  then show ?case
  proof cases
    case 1
    with s prems(1) show ?thesis by (auto simp: iset_ok_Cons)
  next
    case 2
    have "\<forall>p \<in> set (insert_joined a b s). h < fst p"
      using insert_joined_lower [of _ _ a b s] s(3) 2 by fastforce
    with 2 s ih(1) [OF 2 prems(1) s(1)] show ?thesis by (simp add: iset_ok_Cons)
  next
    case 3
    with ih(2) s prems(1) show ?thesis by simp
  qed
qed simp

lemma iset_add_spec [simp]:
  assumes "iset_ok s"
  shows "elems (iset_add (a, b) s) = {a..<b} \<union> elems s" "iset_ok (iset_add (a, b) s)"
  using assms by (simp_all add: iset_add_def elems_insert_joined iset_ok_insert_joined)

definition cut :: "nat \<Rightarrow> nat \<Rightarrow> interval \<Rightarrow> interval_set" where
  "cut a b i = piece (fst i) (min (snd i) a) @ piece (max (fst i) b) (snd i)"

lemma iset_minus_cut: "iset_minus (a, b) s = (if a < b then concat (map (cut a b) s) else s)"
proof -
  have "cut a b = (\<lambda>(l, h). piece l (min h a) @ piece (max l b) h)"
    by (auto simp: fun_eq_iff cut_def)
  then show ?thesis by (simp add: iset_minus_def)
qed

lemma cut_bounds: "p \<in> set (cut a b i) \<Longrightarrow> fst i \<le> fst p \<and> snd p \<le> snd i \<and> fst p < snd p"
  by (auto simp: cut_def piece_def split: if_splits)

lemma elems_cut: "a < b \<Longrightarrow> elems (cut a b (l, h)) = {l..<h} - {a..<b}"
  by (auto simp: cut_def)

lemma iset_ok_cut: "a < b \<Longrightarrow> iset_ok (cut a b i)"
  by (auto simp: cut_def piece_def)

lemma iset_minus_spec [simp]:
  assumes "iset_ok s"
  shows "elems (iset_minus (a, b) s) = elems s - {a..<b}" "iset_ok (iset_minus (a, b) s)"
proof -
  have "elems (concat (map (cut a b) s)) = elems s - {a..<b}" if "a < b"
  proof (induction s)
    case (Cons i s)
    then show ?case using that by (cases i) (simp add: elems_cut Un_Diff)
  qed simp
  then show "elems (iset_minus (a, b) s) = elems s - {a..<b}" by (simp add: iset_minus_cut)
  have "iset_ok (concat (map (cut a b) s))" if "a < b"
    using assms
  proof (induction s)
    case (Cons i s)
    obtain l h where i: "i = (l, h)" by (cases i)
    from Cons.prems i have s: "iset_ok s" "\<forall>q \<in> set s. snd i < fst q" by (auto simp: iset_ok_Cons)
    have "snd p < fst q" if p: "p \<in> set (cut a b i)" and q: "q \<in> set (concat (map (cut a b) s))" for p q
    proof -
      from q obtain j where "j \<in> set s" "q \<in> set (cut a b j)" by auto
      with cut_bounds [OF this(2)] s(2) cut_bounds [OF p] show ?thesis by fastforce
    qed
    with Cons.IH s(1) iset_ok_cut [OF that] show ?case by (simp add: iset_ok_append)
  qed simp
  then show "iset_ok (iset_minus (a, b) s)" using assms by (simp add: iset_minus_cut)
qed

lemma iset_diff_spec:
  "iset_ok s \<Longrightarrow> elems (iset_diff r s) = elems s - elems r \<and> iset_ok (iset_diff r s)"
  unfolding iset_diff_def by (induction r arbitrary: s) auto

lemma iset_contains_elems:
  assumes "iset_ok s" shows "iset_contains (a, b) s \<longleftrightarrow> {a..<b} \<subseteq> elems s"
proof (cases "a < b")
  case True
  have "(\<exists>(l, h) \<in> set s. l \<le> a \<and> b \<le> h) \<longleftrightarrow> {a..<b} \<subseteq> elems s" using assms
  proof (induction s)
    case Nil with True show ?case by auto
  next
    case (Cons i s)
    obtain l h where i: "i = (l, h)" by (cases i)
    with Cons.prems have s: "iset_ok s" "l < h" "\<forall>p \<in> set s. h < fst p" by (auto simp: iset_ok_Cons)
    note ih = Cons.IH [OF s(1)]
    have gap: "h \<notin> elems s" using elems_above [OF s(3), of h] by blast
    show ?case
    proof (cases "h \<le> a")
      case True
      then have "{a..<b} \<subseteq> {l..<h} \<union> elems s \<longleftrightarrow> {a..<b} \<subseteq> elems s" by auto
      with ih True \<open>a < b\<close> i show ?thesis by auto
    next
      case False
      have "{a..<b} \<subseteq> {l..<h} \<union> elems s \<longleftrightarrow> l \<le> a \<and> b \<le> h"
      proof
        assume sub: "{a..<b} \<subseteq> {l..<h} \<union> elems s"
        have "a \<in> {l..<h} \<union> elems s" using sub \<open>a < b\<close> by auto
        with False elems_above [OF s(3), of a] have "l \<le> a" by auto
        moreover have "b \<le> h"
        proof (rule ccontr)
          assume "\<not> b \<le> h"
          with False have "h \<in> {a..<b}" by auto
          with sub gap show False by auto
        qed
        ultimately show "l \<le> a \<and> b \<le> h" ..
      qed auto
      moreover have "\<not> (\<exists>(c, d) \<in> set s. c \<le> a \<and> b \<le> d)" using s(3) False by force
      ultimately show ?thesis using i by auto
    qed
  qed
  with True show ?thesis by (simp add: iset_contains_def)
qed (simp add: iset_contains_def)

lemma iset_intersects_elems:
  "iset_intersects (a, b) s \<longleftrightarrow> {a..<b} \<inter> elems s \<noteq> {}"
proof -
  have "max l a < min h b \<longleftrightarrow> {a..<b} \<inter> {l..<h} \<noteq> {}" for l h :: nat
  proof
    assume "max l a < min h b"
    then have "max l a \<in> {a..<b} \<inter> {l..<h}" by auto
    then show "{a..<b} \<inter> {l..<h} \<noteq> {}" by blast
  qed auto
  then have "iset_intersects (a, b) s \<longleftrightarrow> (\<exists>i \<in> set s. {a..<b} \<inter> {fst i..<snd i} \<noteq> {})"
    by (simp add: iset_intersects_def case_prod_unfold)
  also have "\<dots> \<longleftrightarrow> {a..<b} \<inter> (\<Union>i \<in> set s. {fst i..<snd i}) \<noteq> {}" by blast
  finally show ?thesis by (simp add: elems_def case_prod_unfold)
qed

lemma card_elems: "iset_ok s \<Longrightarrow> card (elems s) = (\<Sum>(l, h) \<leftarrow> s. h - l)"
proof (induction s)
  case (Cons i s)
  obtain l h where i: "i = (l, h)" by (cases i)
  with Cons.prems have s: "iset_ok s" "\<forall>p \<in> set s. h < fst p" by (auto simp: iset_ok_Cons)
  have "{l..<h} \<inter> elems s = {}" using elems_above [OF s(2)] by fastforce
  then show ?case using Cons.IH [OF s(1)] by (simp add: i card_Un_disjoint)
qed simp

section \<open>The allocator\<close>

record region =
  rg_base :: nat
  rg_size :: nat
  rg_used :: nat
  free_blocks :: interval_set
  rg_locked :: bool

definition new_region :: region where
  "new_region = \<lparr>rg_base = 0, rg_size = 0, rg_used = 0, free_blocks = [], rg_locked = False\<rparr>"

definition Reset_region :: "nat \<Rightarrow> nat \<Rightarrow> region \<Rightarrow> region run" where
  "Reset_region base sz r =
     do {
       assert_that (\<not> rg_locked r);
       Some (r\<lparr>rg_base := base, rg_size := sz, rg_used := 0,
               free_blocks := iset_add (base, add32 base sz) []\<rparr>)
     }"

text \<open>The loop of \<open>HeapAllocate\<close> over the free blocks from the highest down.\<close>

fun take_high :: "interval list \<Rightarrow> nat \<Rightarrow> interval_set \<Rightarrow> interval_set \<times> nat" where
  "take_high [] rest result = (result, rest)"
| "take_high ((l, h) # bs) rest result =
     (if h - l \<ge> rest then (iset_add (h - rest, h) result, 0)
      else take_high bs (rest - (h - l)) (iset_add (l, h) result))"

definition HeapAllocate :: "nat \<Rightarrow> region \<Rightarrow> (interval_set \<times> region) run" where
  "HeapAllocate sz r =
     do {
       assert_that (\<not> rg_locked r);
       let (result, rest) = take_high (rev (free_blocks r)) sz [];
       Some (if rest \<noteq> 0 then ([], r)
             else (result, r\<lparr>free_blocks := iset_diff result (free_blocks r),
                             rg_used := add32 (rg_used r) sz\<rparr>))
     }"

definition LinearAllocate_at :: "nat \<Rightarrow> nat \<Rightarrow> region \<Rightarrow> (bool \<times> region) run" where
  "LinearAllocate_at off sz r =
     do {
       assert_that (\<not> rg_locked r);
       let i = (off, add32 off sz);
       Some (if \<not> iset_contains i (free_blocks r) then (False, r)
             else (True, r\<lparr>free_blocks := iset_minus i (free_blocks r),
                           rg_used := add32 (rg_used r) sz\<rparr>))
     }"

definition LinearAllocate :: "nat \<Rightarrow> region \<Rightarrow> (nat option \<times> region) run" where
  "LinearAllocate sz r =
     do {
       assert_that (\<not> rg_locked r);
       Some (case find (\<lambda>(l, h). h - l \<ge> sz) (free_blocks r) of
               None \<Rightarrow> (None, r)
             | Some (l, h) \<Rightarrow> (Some l, r\<lparr>free_blocks := iset_minus (l, l + sz) (free_blocks r),
                                          rg_used := add32 (rg_used r) sz\<rparr>))
     }"

definition RLinearAllocate :: "nat \<Rightarrow> region \<Rightarrow> (nat option \<times> region) run" where
  "RLinearAllocate sz r =
     do {
       assert_that (\<not> rg_locked r);
       Some (case find (\<lambda>(l, h). h - l \<ge> sz) (rev (free_blocks r)) of
               None \<Rightarrow> (None, r)
             | Some (l, h) \<Rightarrow> (Some (h - sz), r\<lparr>free_blocks := iset_minus (h - sz, h) (free_blocks r),
                                                 rg_used := add32 (rg_used r) sz\<rparr>))
     }"

definition Free :: "nat \<Rightarrow> nat \<Rightarrow> region \<Rightarrow> region run" where
  "Free off sz r =
     (if rg_locked r then Some r
      else
        let i = (off, add32 off sz) in
        do {
          assert_that (\<not> iset_intersects i (free_blocks r));
          Some (r\<lparr>free_blocks := iset_add i (free_blocks r), rg_used := sub32 (rg_used r) sz\<rparr>)
        })"

definition Unlock_region :: "region \<Rightarrow> region" where
  "Unlock_region r = r\<lparr>rg_locked := False\<rparr>"

section \<open>What the allocator guarantees\<close>

definition avail :: "region \<Rightarrow> nat set" where
  "avail r = elems (free_blocks r)"

definition frames :: "region \<Rightarrow> nat set" where
  "frames r = {rg_base r..<rg_base r + rg_size r}"

definition region_inv :: "region \<Rightarrow> bool" where
  "region_inv r \<longleftrightarrow> \<not> rg_locked r \<and> rg_base r + rg_size r < 2 ^ 32 \<and> iset_ok (free_blocks r) \<and>
     avail r \<subseteq> frames r \<and> rg_used r + card (avail r) = rg_size r"

lemma take_high_spec:
  assumes "iset_ok (rev bs)" "iset_ok r"
  shows "\<exists>X. iset_ok (fst (take_high bs n r)) \<and> elems (fst (take_high bs n r)) = elems r \<union> X \<and>
    X \<subseteq> elems (rev bs) \<and> card X + snd (take_high bs n r) = n \<and>
    (\<forall>x \<in> X. \<forall>y \<in> elems (rev bs) - X. y < x) \<and> (snd (take_high bs n r) \<noteq> 0 \<longrightarrow> X = elems (rev bs))"
  using assms
proof (induction bs arbitrary: n r)
  case Nil
  show ?case by (rule exI [of _ "{}"]) (use Nil in simp)
next
  case (Cons i bs)
  obtain l h where i: "i = (l, h)" by (cases i)
  from Cons.prems i have b: "iset_ok (rev bs)" "l < h" "\<forall>p \<in> set bs. snd p < l"
    by (auto simp: iset_ok_append)
  have below: "\<forall>y \<in> elems (rev bs). y < l" using b(3) by (fastforce simp: elems_def)
  show ?case
  proof (cases "h - l \<ge> n")
    case True
    have "iset_ok (iset_add (h - n, h) r)" "elems (iset_add (h - n, h) r) = elems r \<union> {h - n..<h}"
      using Cons.prems(2) by auto
    moreover have "{h - n..<h} \<subseteq> elems (rev bs) \<union> {l..<h}" "card {h - n..<h} = n" using True b(2) by auto
    moreover have "\<forall>x \<in> {h - n..<h}. \<forall>y \<in> elems (rev bs) \<union> {l..<h} - {h - n..<h}. y < x"
      using True b(2) below by fastforce
    ultimately show ?thesis using True by (intro exI [of _ "{h - n..<h}"]) (simp add: i)
  next
    case False
    let ?r = "iset_add (l, h) r" and ?n = "n - (h - l)"
    have r: "iset_ok ?r" "elems ?r = {l..<h} \<union> elems r" using Cons.prems(2) by auto
    obtain X where X: "iset_ok (fst (take_high bs ?n ?r))"
      "elems (fst (take_high bs ?n ?r)) = elems ?r \<union> X" "X \<subseteq> elems (rev bs)"
      "card X + snd (take_high bs ?n ?r) = ?n" "\<forall>x \<in> X. \<forall>y \<in> elems (rev bs) - X. y < x"
      "snd (take_high bs ?n ?r) \<noteq> 0 \<longrightarrow> X = elems (rev bs)"
      using Cons.IH [OF b(1) r(1), of ?n] by blast
    have fin: "finite X" using X(3) by (rule finite_subset) simp
    have "X \<inter> {l..<h} = {}" using X(3) below by fastforce
    then have card: "card (X \<union> {l..<h}) = card X + (h - l)" using fin by (simp add: card_Un_disjoint)
    have above: "\<forall>x \<in> X \<union> {l..<h}. \<forall>y \<in> elems (rev bs) \<union> {l..<h} - (X \<union> {l..<h}). y < x"
      using X(5) below by fastforce
    have t: "take_high (i # bs) n r = take_high bs ?n ?r" "elems (rev (i # bs)) = elems (rev bs) \<union> {l..<h}"
      using False by (simp_all add: i)
    have c: "card (X \<union> {l..<h}) + snd (take_high bs ?n ?r) = n"
      using X(4) card False by linarith
    have e: "elems (fst (take_high bs ?n ?r)) = elems r \<union> (X \<union> {l..<h})"
      using X(2) r(2) by blast
    have s: "X \<union> {l..<h} \<subseteq> elems (rev bs) \<union> {l..<h}" using X(3) by blast
    have z: "snd (take_high bs ?n ?r) \<noteq> 0 \<longrightarrow> X \<union> {l..<h} = elems (rev bs) \<union> {l..<h}"
      using X(6) by blast
    show ?thesis
      unfolding t by (intro exI [of _ "X \<union> {l..<h}"] conjI X(1) c e s z above)
  qed
qed

lemma HeapAllocate_spec:
  assumes "region_inv r"
  obtains res r' where "HeapAllocate n r = Some (res, r')" "region_inv r'" "frames r' = frames r"
    "iset_ok res" "elems res \<subseteq> avail r" "avail r' = avail r - elems res"
    "\<forall>x \<in> elems res. \<forall>y \<in> avail r'. y < x"
    "card (elems res) = (if n \<le> card (avail r) then n else 0)"
    "card (avail r) < n \<Longrightarrow> res = [] \<and> r' = r"
proof -
  from assms have ok: "iset_ok (free_blocks r)" by (simp add: region_inv_def)
  define th where "th = take_high (rev (free_blocks r)) n []"
  from take_high_spec [of "rev (free_blocks r)" "[]" n] ok
  have th: "iset_ok (fst th)" "elems (fst th) \<subseteq> avail r" "card (elems (fst th)) + snd th = n"
    "\<forall>x \<in> elems (fst th). \<forall>y \<in> avail r - elems (fst th). y < x"
    "snd th \<noteq> 0 \<Longrightarrow> elems (fst th) = avail r"
    by (auto simp: th_def avail_def)
  have H: "HeapAllocate n r = Some (if snd th \<noteq> 0 then ([], r)
      else (fst th, r\<lparr>free_blocks := iset_diff (fst th) (free_blocks r), rg_used := add32 (rg_used r) n\<rparr>))"
    using assms by (simp add: HeapAllocate_def region_inv_def th_def case_prod_unfold Let_def)
  show ?thesis
  proof (cases "snd th = 0")
    case True
    let ?r = "r\<lparr>free_blocks := iset_diff (fst th) (free_blocks r), rg_used := add32 (rg_used r) n\<rparr>"
    note d = iset_diff_spec [OF ok, of "fst th"]
    have c: "n \<le> card (avail r)" "card (avail r - elems (fst th)) = card (avail r) - n"
      using th(2,3) True card_mono [of "avail r" "elems (fst th)"]
      by (auto simp: card_Diff_subset avail_def)
    then have "rg_used r + n < 2 ^ 32" using assms by (simp add: region_inv_def)
    then have inv: "region_inv ?r" using assms d c th(2)
      by (auto simp: region_inv_def avail_def frames_def add32_id)
    show ?thesis
      by (rule that [of "fst th" ?r]) (use H True th d inv c in \<open>auto simp: avail_def frames_def\<close>)
  next
    case False
    with th have "\<not> n \<le> card (avail r)" by auto
    with False H assms show ?thesis by (intro that [of "[]" r]) auto
  qed
qed

lemma find_split:
  "find P xs = Some x \<Longrightarrow> \<exists>ys zs. xs = ys @ x # zs \<and> P x \<and> (\<forall>y \<in> set ys. \<not> P y)"
proof (induction xs)
  case (Cons y xs)
  show ?case
  proof (cases "P y")
    case True
    with Cons.prems show ?thesis by (intro exI [of _ "[]"] exI [of _ xs]) auto
  next
    case False
    with Cons obtain ys zs where "xs = ys @ x # zs" "P x" "\<forall>y \<in> set ys. \<not> P y" by auto
    with False show ?thesis by (intro exI [of _ "y # ys"] exI [of _ zs]) simp
  qed
qed simp

lemma take_block:
  assumes "region_inv r" "l \<le> a" "a + n \<le> h" "(l, h) \<in> set (free_blocks r)"
  shows "{a..<a + n} \<subseteq> avail r"
    "region_inv (r\<lparr>free_blocks := iset_minus (a, a + n) (free_blocks r), rg_used := add32 (rg_used r) n\<rparr>)"
    "avail (r\<lparr>free_blocks := iset_minus (a, a + n) (free_blocks r), rg_used := add32 (rg_used r) n\<rparr>) =
      avail r - {a..<a + n}"
proof -
  from assms(1) have ok: "iset_ok (free_blocks r)" by (simp add: region_inv_def)
  show sub: "{a..<a + n} \<subseteq> avail r" 
  proof
    fix x assume "x \<in> {a..<a + n}"
    with assms(2,3) have "x \<in> {l..<h}" by auto
    with assms(4) show "x \<in> avail r" unfolding avail_def elems_def by blast
  qed
  show av: "avail (r\<lparr>free_blocks := iset_minus (a, a + n) (free_blocks r), rg_used := add32 (rg_used r) n\<rparr>) =
      avail r - {a..<a + n}" using ok by (simp add: avail_def)
  have "finite (avail r)" by (simp add: avail_def)
  with sub have c: "card (avail r - {a..<a + n}) = card (avail r) - n" "n \<le> card (avail r)"
    using card_mono [of "avail r" "{a..<a + n}"] by (auto simp: card_Diff_subset)
  then have "add32 (rg_used r) n = rg_used r + n"
    using assms(1) by (intro add32_id) (auto simp: region_inv_def)
  with assms(1) av ok c
  show "region_inv (r\<lparr>free_blocks := iset_minus (a, a + n) (free_blocks r), rg_used := add32 (rg_used r) n\<rparr>)"
    by (auto simp: region_inv_def frames_def)
qed

lemma block_of_range:
  assumes "region_inv r" "0 < n" "{a..<a + n} \<subseteq> avail r"
  obtains l h where "(l, h) \<in> set (free_blocks r)" "l \<le> a" "a + n \<le> h"
  using assms iset_contains_elems [of "free_blocks r" a "a + n"]
  by (auto simp: region_inv_def avail_def iset_contains_def)

lemma LinearAllocate_spec:
  assumes "region_inv r" "0 < n"
  obtains (none) "LinearAllocate n r = Some (None, r)" "\<And>a. \<not> {a..<a + n} \<subseteq> avail r"
  | (some) a r' where "LinearAllocate n r = Some (Some a, r')" "region_inv r'" "frames r' = frames r"
      "{a..<a + n} \<subseteq> avail r" "avail r' = avail r - {a..<a + n}" "\<And>b. {b..<b + n} \<subseteq> avail r \<Longrightarrow> a \<le> b"
proof (cases "find (\<lambda>(l, h). h - l \<ge> n) (free_blocks r)")
  case None
  then have no: "\<not> h - l \<ge> n" if "(l, h) \<in> set (free_blocks r)" for l h
    using that by (fastforce simp: find_None_iff)
  have "\<not> {a..<a + n} \<subseteq> avail r" for a
  proof
    assume "{a..<a + n} \<subseteq> avail r"
    from block_of_range [OF assms this] obtain l h where "(l, h) \<in> set (free_blocks r)" "l \<le> a" "a + n \<le> h" .
    with no [of l h] show False by simp
  qed
  with None assms none show ?thesis by (simp add: LinearAllocate_def region_inv_def)
next
  case (Some i)
  obtain l h where i: "i = (l, h)" by (cases i)
  from find_split [OF Some] i obtain ys zs where s: "free_blocks r = ys @ (l, h) # zs" "h - l \<ge> n"
    "\<forall>y \<in> set ys. \<not> snd y - fst y \<ge> n" by (auto simp: case_prod_beta)
  with assms(2) have lh: "l + n \<le> h" by linarith
  note t = take_block [OF assms(1) le_refl lh]
  have "l \<le> b" if b: "{b..<b + n} \<subseteq> avail r" for b
  proof -
    from block_of_range [OF assms b] obtain c d where c: "(c, d) \<in> set (free_blocks r)" "c \<le> b" "b + n \<le> d" .
    then have "(c, d) \<notin> set ys" using s(3) by fastforce
    with c(1) s(1) have "(c, d) = (l, h) \<or> (c, d) \<in> set zs" by auto
    moreover have "\<forall>p \<in> set zs. h < fst p" "l < h" using assms(1) s(1)
      by (auto simp: region_inv_def iset_ok_append iset_ok_Cons)
    ultimately show ?thesis using c(2) by fastforce
  qed
  with Some i s t assms some show ?thesis by (simp add: LinearAllocate_def region_inv_def frames_def)
qed

lemma RLinearAllocate_spec:
  assumes "region_inv r" "0 < n"
  obtains (none) "RLinearAllocate n r = Some (None, r)" "\<And>a. \<not> {a..<a + n} \<subseteq> avail r"
  | (some) a r' where "RLinearAllocate n r = Some (Some a, r')" "region_inv r'" "frames r' = frames r"
      "{a..<a + n} \<subseteq> avail r" "avail r' = avail r - {a..<a + n}" "\<And>b. {b..<b + n} \<subseteq> avail r \<Longrightarrow> b \<le> a"
proof (cases "find (\<lambda>(l, h). h - l \<ge> n) (rev (free_blocks r))")
  case None
  then have no: "\<not> h - l \<ge> n" if "(l, h) \<in> set (free_blocks r)" for l h
    using that by (fastforce simp: find_None_iff)
  have "\<not> {a..<a + n} \<subseteq> avail r" for a
  proof
    assume "{a..<a + n} \<subseteq> avail r"
    from block_of_range [OF assms this] obtain l h where "(l, h) \<in> set (free_blocks r)" "l \<le> a" "a + n \<le> h" .
    with no [of l h] show False by simp
  qed
  with None assms none show ?thesis by (simp add: RLinearAllocate_def region_inv_def)
next
  case (Some i)
  obtain l h where i: "i = (l, h)" by (cases i)
  from find_split [OF Some] i obtain ys zs where s: "rev (free_blocks r) = ys @ (l, h) # zs" "h - l \<ge> n"
    "\<forall>y \<in> set ys. \<not> snd y - fst y \<ge> n" by (auto simp: case_prod_beta)
  then have f: "free_blocks r = rev zs @ (l, h) # rev ys" by (metis append.assoc append_Cons append_Nil rev.simps(2) rev_append rev_rev_ident)
  from s assms(2) have lh: "l \<le> h - n" "h - n + n \<le> h" "h - n + n = h" by linarith+
  note t = take_block [OF assms(1) lh(1,2)]
  have "b \<le> h - n" if b: "{b..<b + n} \<subseteq> avail r" for b
  proof -
    from block_of_range [OF assms b] obtain c d where c: "(c, d) \<in> set (free_blocks r)" "c \<le> b" "b + n \<le> d" .
    then have "(c, d) \<notin> set ys" using s(3) by fastforce
    with c(1) f have "(c, d) = (l, h) \<or> (c, d) \<in> set zs" by auto
    moreover have "\<forall>p \<in> set zs. snd p < l" "l < h" using assms(1) f
      by (auto simp: region_inv_def iset_ok_append iset_ok_Cons)
    ultimately have "d \<le> h" by fastforce
    with c(3) show ?thesis by simp
  qed
  with Some i f t lh assms some show ?thesis by (simp add: RLinearAllocate_def region_inv_def frames_def)
qed

lemma LinearAllocate_at_spec:
  assumes "region_inv r" "a + n < 2 ^ 32"
  obtains r' where "LinearAllocate_at a n r = Some ({a..<a + n} \<subseteq> avail r, r')" "region_inv r'" "frames r' = frames r"
    "avail r' = (if {a..<a + n} \<subseteq> avail r then avail r - {a..<a + n} else avail r)"
proof -
  from assms(1) have ok: "iset_ok (free_blocks r)" by (simp add: region_inv_def)
  have c: "iset_contains (a, add32 a n) (free_blocks r) \<longleftrightarrow> {a..<a + n} \<subseteq> avail r"
    using assms(2) ok by (simp add: add32_id iset_contains_elems avail_def)
  show ?thesis
  proof (cases "{a..<a + n} \<subseteq> avail r")
    case True
    let ?r = "r\<lparr>free_blocks := iset_minus (a, a + n) (free_blocks r), rg_used := add32 (rg_used r) n\<rparr>"
    have "region_inv ?r \<and> avail ?r = avail r - {a..<a + n}"
    proof (cases "n = 0")
      case False
      from block_of_range [OF assms(1) _ True] False obtain l h
        where "(l, h) \<in> set (free_blocks r)" "l \<le> a" "a + n \<le> h" by blast
      with take_block [OF assms(1) this(2,3,1)] show ?thesis by simp
    next
      case True
      have "rg_used r < 2 ^ 32" using assms(1) by (simp add: region_inv_def)
      with True assms(1) show ?thesis by (simp add: iset_minus_def add32_def)
    qed
    with True c assms show ?thesis
      by (intro that [of ?r]) (simp_all add: LinearAllocate_at_def frames_def add32_id, simp add: region_inv_def)
  next
    case False
    with c assms show ?thesis by (intro that [of r]) (simp_all add: LinearAllocate_at_def region_inv_def)
  qed
qed

lemma Free_spec:
  assumes "region_inv r" "{a..<a + n} \<subseteq> frames r - avail r" "a + n < 2 ^ 32"
  obtains r' where "Free a n r = Some r'" "region_inv r'" "frames r' = frames r"
    "avail r' = avail r \<union> {a..<a + n}"
proof -
  from assms(1) have ok: "iset_ok (free_blocks r)" by (simp add: region_inv_def)
  let ?r = "r\<lparr>free_blocks := iset_add (a, a + n) (free_blocks r), rg_used := sub32 (rg_used r) n\<rparr>"
  have av: "avail ?r = avail r \<union> {a..<a + n}" using ok by (auto simp: avail_def)
  have fin: "finite (avail r)" "finite (frames r)" by (simp_all add: avail_def frames_def)
  have sub: "avail r \<subseteq> frames r" and u: "rg_used r + card (avail r) = rg_size r"
    using assms(1) by (simp_all add: region_inv_def)
  have "card {a..<a + n} \<le> card (frames r - avail r)" using assms(2) fin by (intro card_mono) auto
  also have "\<dots> = rg_used r" using u sub fin by (simp add: card_Diff_subset frames_def)
  finally have n: "n \<le> rg_used r" by simp
  have "rg_used r < 2 ^ 32" using assms(1) by (simp add: region_inv_def)
  with n have s: "sub32 (rg_used r) n = rg_used r - n" by (simp add: sub32_id)
  have "card (avail r \<union> {a..<a + n}) = card (avail r) + n"
    using assms(2) fin by (subst card_Un_disjoint) auto
  moreover have "avail r \<union> {a..<a + n} \<subseteq> frames r" using sub assms(2) by blast
  ultimately have "region_inv ?r"
    using n u s av assms(1) ok by (simp add: region_inv_def frames_def)
  moreover have "\<not> iset_intersects (a, a + n) (free_blocks r)"
    using assms(2) by (auto simp: iset_intersects_elems avail_def)
  ultimately show ?thesis using assms av
    by (intro that [of ?r]) (simp_all add: Free_def region_inv_def frames_def add32_id)
qed

section \<open>The allocator as its clients see it\<close>

text \<open>A client holds some blocks; it asks for more, or gives back one of those it holds.\<close>

fun release_all :: "(nat \<Rightarrow> nat \<Rightarrow> 's \<Rightarrow> 's option) \<Rightarrow> interval_set \<Rightarrow> 's \<Rightarrow> 's option" where
  "release_all rel [] s = Some s"
| "release_all rel ((l, h) # F) s = Option.bind (rel l (h - l) s) (release_all rel F)"

fun pool_run :: "('q \<Rightarrow> 's \<Rightarrow> (interval_set \<times> 's) option) \<Rightarrow> (nat \<Rightarrow> nat \<Rightarrow> 's \<Rightarrow> 's option)
    \<Rightarrow> ('q + nat) list \<Rightarrow> 's \<times> interval_set list \<Rightarrow> ('s \<times> interval_set list) option" where
  "pool_run alc rel [] st = Some st"
| "pool_run alc rel (Inl q # ops) (s, held) =
     Option.bind (alc q s) (\<lambda>(F, s'). pool_run alc rel ops (s', held @ [F]))"
| "pool_run alc rel (Inr i # ops) (s, held) =
     (if i < length held
      then Option.bind (release_all rel (held ! i) s) (\<lambda>s'. pool_run alc rel ops (s', held[i := []]))
      else pool_run alc rel ops (s, held))"

text \<open>
  A pool of frames: an allocation takes frames that are free, and frames that are in use can be
  given back. From this alone follows that no two allocations that are alive share a frame.
\<close>

locale frame_pool =
  fixes ok :: "'s \<Rightarrow> bool" and free :: "'s \<Rightarrow> nat set" and all :: "'s \<Rightarrow> nat set"
    and alloc :: "'q \<Rightarrow> 's \<Rightarrow> (interval_set \<times> 's) option"
    and release :: "nat \<Rightarrow> nat \<Rightarrow> 's \<Rightarrow> 's option"
    and request_ok :: "'q \<Rightarrow> bool"
  assumes alloc: "ok s \<Longrightarrow> request_ok q \<Longrightarrow> \<exists>F s'. alloc q s = Some (F, s') \<and> ok s' \<and> all s' = all s \<and>
      iset_ok F \<and> elems F \<subseteq> free s \<and> free s' = free s - elems F"
    and release: "ok s \<Longrightarrow> {a..<a + n} \<subseteq> all s - free s \<Longrightarrow> 0 < n \<Longrightarrow>
      \<exists>s'. release a n s = Some s' \<and> ok s' \<and> all s' = all s \<and> free s' = free s \<union> {a..<a + n}"
    and free_all: "ok s \<Longrightarrow> free s \<subseteq> all s"
begin

definition exclusive :: "'s \<times> interval_set list \<Rightarrow> bool" where
  "exclusive st \<longleftrightarrow> ok (fst st) \<and> (\<forall>F \<in> set (snd st). iset_ok F) \<and>
     all (fst st) = free (fst st) \<union> (\<Union>F \<in> set (snd st). elems F) \<and>
     (\<forall>F \<in> set (snd st). elems F \<inter> free (fst st) = {}) \<and>
     (\<forall>i j. i < j \<longrightarrow> j < length (snd st) \<longrightarrow> elems (snd st ! i) \<inter> elems (snd st ! j) = {})"

lemma release_all_spec:
  "ok s \<Longrightarrow> iset_ok F \<Longrightarrow> elems F \<subseteq> all s - free s \<Longrightarrow>
    \<exists>s'. release_all release F s = Some s' \<and> ok s' \<and> all s' = all s \<and> free s' = free s \<union> elems F"
proof (induction F arbitrary: s)
  case (Cons i F)
  obtain l h where i: "i = (l, h)" by (cases i)
  from Cons.prems(2) i have F: "iset_ok F" "l < h" "\<forall>p \<in> set F. h < fst p" by (auto simp: iset_ok_Cons)
  have "{l..<l + (h - l)} \<subseteq> all s - free s" "0 < h - l" using Cons.prems(3) F(2) by (auto simp: i)
  from release [OF Cons.prems(1) this] F(2) obtain s' where s': "release l (h - l) s = Some s'" "ok s'"
    "all s' = all s" "free s' = free s \<union> {l..<h}" by auto
  have "{l..<h} \<inter> elems F = {}" using elems_above [OF F(3)] by fastforce
  with Cons.prems(3) s' have "elems F \<subseteq> all s' - free s'" by (auto simp: i)
  from Cons.IH [OF s'(2) F(1) this] s' show ?case by (auto simp: i)
qed simp

lemma exclusive_alloc:
  assumes "exclusive (s, held)" "request_ok q"
  shows "\<exists>F s'. alloc q s = Some (F, s') \<and> all s' = all s \<and> exclusive (s', held @ [F])"
proof -
  from assms alloc [of s q] obtain F s' where F: "alloc q s = Some (F, s')" "ok s'" "all s' = all s"
    "iset_ok F" "elems F \<subseteq> free s" "free s' = free s - elems F" by (auto simp: exclusive_def)
  have "elems ((held @ [F]) ! i) \<inter> elems ((held @ [F]) ! j) = {}" if "i < j" "j < length (held @ [F])" for i j
  proof (cases "j = length held")
    case True
    with that have "held ! i \<in> set held" by simp
    with assms(1) have "elems (held ! i) \<inter> free s = {}" by (auto simp: exclusive_def)
    with F(5) True that show ?thesis by (auto simp: nth_append)
  qed (use assms(1) that in \<open>simp add: exclusive_def nth_append\<close>)
  moreover have "all s' = free s' \<union> (\<Union>F \<in> set (held @ [F]). elems F)"
    using assms(1) F(3,5,6) by (auto simp: exclusive_def)
  ultimately show ?thesis using assms(1) F by (auto simp: exclusive_def)
qed

lemma exclusive_release:
  assumes "exclusive (s, held)" "i < length held"
  shows "\<exists>s'. release_all release (held ! i) s = Some s' \<and> all s' = all s \<and> exclusive (s', held[i := []])"
proof -
  from assms have i: "held ! i \<in> set held" by simp
  with assms(1) have "ok s" "iset_ok (held ! i)" "elems (held ! i) \<subseteq> all s - free s"
    by (auto simp: exclusive_def)
  from release_all_spec [OF this] obtain s' where s': "release_all release (held ! i) s = Some s'" "ok s'"
    "all s' = all s" "free s' = free s \<union> elems (held ! i)" by blast
  have disj: "elems (held ! j) \<inter> elems (held ! k) = {}" if "j \<noteq> k" "j < length held" "k < length held" for j k
  proof -
    have "\<forall>i j. i < j \<longrightarrow> j < length held \<longrightarrow> elems (held ! i) \<inter> elems (held ! j) = {}"
      using assms(1) by (simp add: exclusive_def)
    with that show ?thesis by (metis Int_commute linorder_neqE_nat)
  qed
  have mem: "F = [] \<or> (\<exists>j < length held. j \<noteq> i \<and> F = held ! j)" if "F \<in> set (held[i := []])" for F
  proof -
    from that obtain j where "j < length held" "F = held[i := []] ! j" by (auto simp: in_set_conv_nth)
    then show ?thesis by (cases "j = i") auto
  qed
  have "\<forall>F \<in> set (held[i := []]). elems F \<inter> free s' = {}"
  proof
    fix F assume "F \<in> set (held[i := []])"
    from mem [OF this] consider "F = []" | j where "j < length held" "j \<noteq> i" "F = held ! j" by blast
    then show "elems F \<inter> free s' = {}"
    proof cases
      case 2
      then have "F \<in> set held" by simp
      with assms(1) have "elems F \<inter> free s = {}" by (auto simp: exclusive_def)
      with disj [OF 2(2,1) assms(2)] 2(3) s'(4) show ?thesis by blast
    qed simp
  qed
  moreover have "(\<Union>F \<in> set held. elems F) = elems (held ! i) \<union> (\<Union>F \<in> set (held[i := []]). elems F)"
  proof
    show "(\<Union>F \<in> set held. elems F) \<subseteq> elems (held ! i) \<union> (\<Union>F \<in> set (held[i := []]). elems F)"
    proof
      fix x assume "x \<in> (\<Union>F \<in> set held. elems F)"
      then obtain j where j: "j < length held" "x \<in> elems (held ! j)" by (auto simp: in_set_conv_nth)
      show "x \<in> elems (held ! i) \<union> (\<Union>F \<in> set (held[i := []]). elems F)"
      proof (cases "j = i")
        case False
        with j have "held[i := []] ! j = held ! j" "j < length (held[i := []])" by simp_all
        then have "held ! j \<in> set (held[i := []])" by (metis nth_mem)
        with j(2) show ?thesis by blast
      qed (use j in simp)
    qed
    show "elems (held ! i) \<union> (\<Union>F \<in> set (held[i := []]). elems F) \<subseteq> (\<Union>F \<in> set held. elems F)"
    proof
      fix x assume "x \<in> elems (held ! i) \<union> (\<Union>F \<in> set (held[i := []]). elems F)"
      then consider "x \<in> elems (held ! i)" | F where "F \<in> set (held[i := []])" "x \<in> elems F" by blast
      then show "x \<in> (\<Union>F \<in> set held. elems F)"
      proof cases
        case 2
        with mem [OF 2(1)] show ?thesis by auto
      qed (use i in blast)
    qed
  qed
  moreover have "iset_ok F" if "F \<in> set (held[i := []])" for F
    using mem [OF that] assms(1) by (auto simp: exclusive_def)
  moreover have "elems (held[i := []] ! j) \<inter> elems (held[i := []] ! k) = {}" if "j < k" "k < length held" for j k
    using that disj [of j k] by (cases "j = i"; cases "k = i") simp_all
  ultimately show ?thesis using assms(1) s' by (auto simp: exclusive_def)
qed

lemma pool_run_exclusive:
  "exclusive st \<Longrightarrow> \<forall>q. Inl q \<in> set ops \<longrightarrow> request_ok q \<Longrightarrow>
    \<exists>st'. pool_run alloc release ops st = Some st' \<and> exclusive st' \<and> all (fst st') = all (fst st)"
proof (induction ops arbitrary: st)
  case (Cons p ops)
  obtain s held where st: "st = (s, held)" by (cases st)
  show ?case
  proof (cases p)
    case (Inl q)
    with Cons.prems have "request_ok q" by auto
    with exclusive_alloc [of s held q] Cons.prems st obtain F s' where
      F: "alloc q s = Some (F, s')" "exclusive (s', held @ [F])" "all s' = all s" by auto
    then show ?thesis using Cons.IH [OF F(2)] Cons.prems Inl st by auto
  next
    case (Inr i)
    show ?thesis
    proof (cases "i < length held")
      case True
      with exclusive_release [of s held i] Cons.prems st obtain s' where
        s': "release_all release (held ! i) s = Some s'" "exclusive (s', held[i := []])" "all s' = all s" by auto
      then show ?thesis using Cons.IH [OF s'(2)] Cons.prems Inr st True by auto
    next
      case False
      with Cons.IH [OF Cons.prems(1)] Cons.prems(2) Inr st show ?thesis by auto
    qed
  qed
qed simp

end

datatype request = Heap nat | Linear nat | RLinear nat | LinearAt nat nat

fun region_alloc :: "request \<Rightarrow> region \<Rightarrow> (interval_set \<times> region) run" where
  "region_alloc (Heap n) r = HeapAllocate n r"
| "region_alloc (Linear n) r =
     map_option (\<lambda>(a, r'). (case a of None \<Rightarrow> [] | Some a \<Rightarrow> piece a (a + n), r')) (LinearAllocate n r)"
| "region_alloc (RLinear n) r =
     map_option (\<lambda>(a, r'). (case a of None \<Rightarrow> [] | Some a \<Rightarrow> piece a (a + n), r')) (RLinearAllocate n r)"
| "region_alloc (LinearAt a n) r =
     map_option (\<lambda>(done, r'). (if done then piece a (a + n) else [], r')) (LinearAllocate_at a n r)"

fun request_ok :: "request \<Rightarrow> bool" where
  "request_ok (Heap n) \<longleftrightarrow> True"
| "request_ok (Linear n) \<longleftrightarrow> 0 < n"
| "request_ok (RLinear n) \<longleftrightarrow> 0 < n"
| "request_ok (LinearAt a n) \<longleftrightarrow> a + n < 2 ^ 32"

lemma iset_ok_piece [simp]: "iset_ok (piece l h)"
  by (simp add: piece_def)

lemma region_alloc_spec:
  assumes "region_inv r" "request_ok q"
  shows "\<exists>F r'. region_alloc q r = Some (F, r') \<and> region_inv r' \<and> frames r' = frames r \<and>
    iset_ok F \<and> elems F \<subseteq> avail r \<and> avail r' = avail r - elems F"
proof (cases q)
  case (Heap n)
  show ?thesis
    by (rule HeapAllocate_spec [OF assms(1), of n], unfold Heap region_alloc.simps, intro exI conjI) assumption+
next
  case (Linear n)
  with assms(2) have n: "0 < n" by simp
  show ?thesis
  proof (rule LinearAllocate_spec [OF assms(1) n])
    fix a r' assume "LinearAllocate n r = Some (Some a, r')" "region_inv r'" "frames r' = frames r"
      "{a..<a + n} \<subseteq> avail r" "avail r' = avail r - {a..<a + n}"
    then show ?thesis by (simp add: Linear)
  qed (simp add: Linear assms(1))
next
  case (RLinear n)
  with assms(2) have n: "0 < n" by simp
  show ?thesis
  proof (rule RLinearAllocate_spec [OF assms(1) n])
    fix a r' assume "RLinearAllocate n r = Some (Some a, r')" "region_inv r'" "frames r' = frames r"
      "{a..<a + n} \<subseteq> avail r" "avail r' = avail r - {a..<a + n}"
    then show ?thesis by (simp add: RLinear)
  qed (simp add: RLinear assms(1))
next
  case (LinearAt a n)
  with assms(2) have n: "a + n < 2 ^ 32" by simp
  show ?thesis
  proof (rule LinearAllocate_at_spec [OF assms(1) n])
    fix r' assume "LinearAllocate_at a n r = Some ({a..<a + n} \<subseteq> avail r, r')" "region_inv r'"
      "frames r' = frames r" "avail r' = (if {a..<a + n} \<subseteq> avail r then avail r - {a..<a + n} else avail r)"
    then show ?thesis by (cases "{a..<a + n} \<subseteq> avail r") (simp_all add: LinearAt)
  qed
qed

interpretation rp: frame_pool region_inv avail frames region_alloc Free request_ok
proof
  fix r q assume "region_inv r" "request_ok q"
  then show "\<exists>F s'. region_alloc q r = Some (F, s') \<and> region_inv s' \<and> frames s' = frames r \<and>
      iset_ok F \<and> elems F \<subseteq> avail r \<and> avail s' = avail r - elems F" by (rule region_alloc_spec)
next
  fix r a n assume r: "region_inv r" and sub: "{a..<a + n} \<subseteq> frames r - avail r" and n: "0 < (n :: nat)"
  have "a + n - 1 \<in> {a..<a + n}" using n by auto
  with sub have "a + n - 1 \<in> frames r" by blast
  with r n have "a + n < 2 ^ 32" by (auto simp: frames_def region_inv_def)
  from Free_spec [OF r sub this] obtain r' where "Free a n r = Some r'" "region_inv r'"
    "frames r' = frames r" "avail r' = avail r \<union> {a..<a + n}" .
  then show "\<exists>s'. Free a n r = Some s' \<and> region_inv s' \<and> frames s' = frames r \<and>
      avail s' = avail r \<union> {a..<a + n}" by (intro exI [of _ r'] conjI)
qed (simp add: region_inv_def)

lemma region_inv_Reset:
  assumes "\<not> rg_locked r" "base + sz < 2 ^ 32"
  shows "\<exists>r'. Reset_region base sz r = Some r' \<and> region_inv r' \<and> avail r' = {base..<base + sz} \<and>
    frames r' = {base..<base + sz} \<and> rg_size r' = sz \<and> rg_base r' = base"
  using assms by (simp add: Reset_region_def region_inv_def avail_def frames_def add32_id)

section \<open>The layout of FCRAM\<close>

definition memory_region_sizes :: "nat list list" where
  "memory_region_sizes =
     [[0x04000000, 0x02C00000, 0x01400000],
      [0, 0, 0],
      [0x06000000, 0x00C00000, 0x01400000],
      [0x05000000, 0x01C00000, 0x01400000],
      [0x04800000, 0x02400000, 0x01400000],
      [0x02000000, 0x04C00000, 0x01400000],
      [0x07C00000, 0x06400000, 0x02000000],
      [0x0B200000, 0x02E00000, 0x02000000]]"

record config_mem =
  app_mem_type :: nat
  app_mem_alloc :: nat
  sys_mem_alloc :: nat
  base_mem_alloc :: nat

definition Mode6 :: nat where "Mode6 = 1"
definition Mode7 :: nat where "Mode7 = 2"
definition Mode6_2 :: nat where "Mode6_2 = 3"

fun lay_out :: "nat list \<Rightarrow> nat \<Rightarrow> region list \<Rightarrow> (region list \<times> nat) run" where
  "lay_out [] base rs = Some (rs, base)"
| "lay_out (sz # szs) base [] = None"
| "lay_out (sz # szs) base (r # rs) =
     do {
       r' \<leftarrow> Reset_region base sz r;
       (rs', base') \<leftarrow> lay_out szs (add32 base (rg_size r')) rs;
       Some (r' # rs', base')
     }"

text \<open>Reading the table outside its eight rows is no value.\<close>

definition MemoryInit ::
    "bool \<Rightarrow> nat \<Rightarrow> nat \<Rightarrow> region list \<Rightarrow> (region list \<times> config_mem) run" where
  "MemoryInit is_new_3ds mem_type n3ds_mode regions =
     do {
       assert_that (mem_type \<noteq> 1);
       let (actual, reported) =
         (if is_new_3ds
          then (if n3ds_mode = Mode6 \<or> n3ds_mode = Mode6_2 then (6, 6)
                else if n3ds_mode = Mode7 then (7, 7)
                else (6, mem_type))
          else (mem_type, mem_type));
       assert_that (actual < length memory_region_sizes);
       (rs, base) \<leftarrow> lay_out (memory_region_sizes ! actual) 0 regions;
       assert_that (base = (if is_new_3ds then FCRAM_N3DS_SIZE else FCRAM_SIZE));
       assert_that (reported < length memory_region_sizes);
       Some (rs, \<lparr>app_mem_type = reported,
                  app_mem_alloc = memory_region_sizes ! reported ! 0,
                  sys_mem_alloc = rg_size (rs ! 1),
                  base_mem_alloc = rg_size (rs ! 2)\<rparr>)
     }"

datatype MemoryRegion = APPLICATION_region | SYSTEM_region | BASE_region

fun GetMemoryRegion :: "MemoryRegion \<Rightarrow> region list \<Rightarrow> region" where
  "GetMemoryRegion APPLICATION_region rs = rs ! 0"
| "GetMemoryRegion SYSTEM_region rs = rs ! 1"
| "GetMemoryRegion BASE_region rs = rs ! 2"

lemma lay_out_three:
  assumes "length rs = 3" "\<forall>r \<in> set rs. \<not> rg_locked r" "a + b + c < 2 ^ 32"
  shows "\<exists>x y z. lay_out [a, b, c] 0 rs = Some ([x, y, z], a + b + c) \<and>
    region_inv x \<and> region_inv y \<and> region_inv z \<and>
    frames x = {0..<a} \<and> frames y = {a..<a + b} \<and> frames z = {a + b..<a + b + c} \<and>
    avail x = frames x \<and> avail y = frames y \<and> avail z = frames z \<and> rg_size y = b \<and> rg_size z = c"
proof -
  obtain r0 r1 r2 where rs: "rs = [r0, r1, r2]"
    using assms(1) by (auto simp: numeral_3_eq_3 length_Suc_conv)
  from region_inv_Reset [of r0 0 a] obtain x where x: "Reset_region 0 a r0 = Some x" "region_inv x"
    "avail x = {0..<a}" "frames x = {0..<a}" "rg_size x = a" using assms rs by auto
  from region_inv_Reset [of r1 a b] obtain y where y: "Reset_region a b r1 = Some y" "region_inv y"
    "avail y = {a..<a + b}" "frames y = {a..<a + b}" "rg_size y = b" using assms rs by auto
  from region_inv_Reset [of r2 "a + b" c] obtain z where z: "Reset_region (a + b) c r2 = Some z" "region_inv z"
    "avail z = {a + b..<a + b + c}" "frames z = {a + b..<a + b + c}" "rg_size z = c" using assms rs by auto
  show ?thesis using x y z assms(3) by (intro exI [of _ x] exI [of _ y] exI [of _ z]) (simp add: rs add32_id)
qed

section \<open>Properties\<close>

text \<open>C8: \<open>MemoryInit\<close> gives every memory type a layout: for each type an Old 3DS accepts, and for
  every type and mode on a New 3DS, no assertion fails, the three regions are fresh allocators that
  are disjoint and fill FCRAM without a gap, and the SYSTEM and BASE sizes reported to the guest are
  those of the regions.\<close>

theorem MemoryInit_partitions_FCRAM:
  assumes "mem_type \<noteq> 1" "mem_type < (if is_new then 8 else 6)"
    and "length rs = 3" "\<forall>r \<in> set rs. \<not> rg_locked r"
  shows "\<exists>app sys bas cm. MemoryInit is_new mem_type mode rs = Some ([app, sys, bas], cm) \<and>
    region_inv app \<and> region_inv sys \<and> region_inv bas \<and>
    frames app \<union> frames sys \<union> frames bas = {0..<if is_new then FCRAM_N3DS_SIZE else FCRAM_SIZE} \<and>
    frames app \<inter> frames sys = {} \<and> frames app \<inter> frames bas = {} \<and> frames sys \<inter> frames bas = {} \<and>
    avail app = frames app \<and> avail sys = frames sys \<and> avail bas = frames bas \<and>
    sys_mem_alloc cm = card (frames sys) \<and> base_mem_alloc cm = card (frames bas)"
proof -
  define actual where "actual =
    (if is_new then (if mode = Mode6 \<or> mode = Mode6_2 then 6 else if mode = Mode7 then 7 else 6) else mem_type)"
  define reported where "reported =
    (if is_new then (if mode = Mode6 \<or> mode = Mode6_2 then 6 else if mode = Mode7 then 7 else mem_type) else mem_type)"
  have ar: "(if is_new
          then (if mode = Mode6 \<or> mode = Mode6_2 then (6, 6)
                else if mode = Mode7 then (7, 7) else (6, mem_type))
          else (mem_type, mem_type)) = (actual, reported)"
    by (simp add: actual_def reported_def)
  have rep: "reported < 8" using assms(2) by (auto simp: reported_def split: if_splits)
  have "actual \<in> (if is_new then {6, 7} else {0, 2, 3, 4, 5})"
    using assms(1,2) by (auto simp: actual_def)
  then obtain a b c where t: "memory_region_sizes ! actual = [a, b, c]"
    "a + b + c = (if is_new then FCRAM_N3DS_SIZE else FCRAM_SIZE)" "actual < 8"
    by (auto simp: memory_region_sizes_def FCRAM_SIZE_def FCRAM_N3DS_SIZE_def split: if_splits)
  then have "a + b + c < 2 ^ 32" by (simp add: FCRAM_SIZE_def FCRAM_N3DS_SIZE_def)
  from lay_out_three [OF assms(3,4) this] obtain x y z where l: "lay_out [a, b, c] 0 rs = Some ([x, y, z], a + b + c)"
    "region_inv x" "region_inv y" "region_inv z"
    "frames x = {0..<a}" "frames y = {a..<a + b}" "frames z = {a + b..<a + b + c}"
    "avail x = frames x" "avail y = frames y" "avail z = frames z" "rg_size y = b" "rg_size z = c" by blast
  have len: "length memory_region_sizes = 8" by (simp add: memory_region_sizes_def)
  have "\<exists>cm. MemoryInit is_new mem_type mode rs = Some ([x, y, z], cm) \<and>
      sys_mem_alloc cm = b \<and> base_mem_alloc cm = c"
    using assms(1) t l(1,11,12) rep len unfolding MemoryInit_def ar by simp
  moreover have "frames x \<union> frames y \<union> frames z = {0..<a + b + c}" using l(5-7) by auto
  ultimately show ?thesis using l t(2) by auto
qed

lemma MemoryInit_partitions_FCRAM_witness:
  "\<exists>app sys bas cm. MemoryInit True 0 0 [new_region, new_region, new_region] = Some ([app, sys, bas], cm) \<and>
    frames app \<union> frames sys \<union> frames bas = {0..<FCRAM_N3DS_SIZE}"
  using MemoryInit_partitions_FCRAM [of 0 True "[new_region, new_region, new_region]" 0]
  by (auto simp: new_region_def)

text \<open>C1: The allocator never hands out memory that is in use: for any sequence of heap and linear
  allocations and releases of blocks obtained, on a region that was reset, no assertion fails, the
  blocks that are held are disjoint from each other and from the free memory, and together with it
  they are the whole region: nothing leaks.\<close>

theorem region_blocks_exclusive:
  assumes "base + sz < 2 ^ 32" "\<forall>q. Inl q \<in> set ops \<longrightarrow> request_ok q"
  shows "\<exists>r r' held. Reset_region base sz new_region = Some r \<and>
    pool_run region_alloc Free ops (r, []) = Some (r', held) \<and>
    (\<forall>i j. i < j \<longrightarrow> j < length held \<longrightarrow> elems (held ! i) \<inter> elems (held ! j) = {}) \<and>
    (\<forall>F \<in> set held. elems F \<inter> avail r' = {}) \<and>
    avail r' \<union> (\<Union>F \<in> set held. elems F) = {base..<base + sz} \<and>
    rg_used r' + card (avail r') = sz"
proof -
  from region_inv_Reset [of new_region base sz] assms(1) obtain r where
    r: "Reset_region base sz new_region = Some r" "region_inv r" "avail r = {base..<base + sz}"
      "frames r = {base..<base + sz}" by (auto simp: new_region_def)
  then have "rp.exclusive (r, [])" by (simp add: rp.exclusive_def)
  from rp.pool_run_exclusive [OF this assms(2)] obtain st where
    st: "pool_run region_alloc Free ops (r, []) = Some st" "rp.exclusive st" "frames (fst st) = frames r"
    by auto
  obtain r' held where eq: "st = (r', held)" by (cases st)
  have "card (frames r') = sz" using st(3) r(4) eq by simp
  then have "rg_used r' + card (avail r') = sz"
    using st(2) eq by (simp add: rp.exclusive_def region_inv_def frames_def)
  with r(1,4) st eq show ?thesis by (auto simp: rp.exclusive_def)
qed

lemma region_blocks_exclusive_witness:
  "\<exists>r r' held. Reset_region 0x4000 0x10000 new_region = Some r \<and>
    pool_run region_alloc Free [Inl (Heap 0x3000), Inl (Linear 0x1000), Inr 0, Inl (Heap 0xF000)] (r, [])
      = Some (r', held) \<and> rg_used r' + card (avail r') = 0x10000"
  using region_blocks_exclusive [where base = "0x4000" and sz = "0x10000" and
    ops = "[Inl (Heap 0x3000), Inl (Linear 0x1000), Inr 0, Inl (Heap 0xF000)]"] by fastforce

text \<open>\<open>HeapAllocate\<close> serves a request exactly when that much memory is free, however
  fragmented; it takes the highest free memory of the region and no more than was asked for, and a
  request it cannot serve changes nothing.\<close>

theorem HeapAllocate_takes_highest:
  assumes "region_inv r" "0 < n"
  shows "\<exists>res r'. HeapAllocate n r = Some (res, r') \<and>
    (res \<noteq> [] \<longleftrightarrow> n \<le> card (avail r)) \<and> (res = [] \<longrightarrow> r' = r) \<and>
    (res \<noteq> [] \<longrightarrow> card (elems res) = n \<and> avail r' = avail r - elems res \<and> elems res \<subseteq> avail r \<and>
       (\<forall>x \<in> elems res. \<forall>y \<in> avail r'. y < x))"
proof -
  obtain res r' where h: "HeapAllocate n r = Some (res, r')" "iset_ok res"
    "elems res \<subseteq> avail r" "avail r' = avail r - elems res" "\<forall>x \<in> elems res. \<forall>y \<in> avail r'. y < x"
    "card (elems res) = (if n \<le> card (avail r) then n else 0)"
    "card (avail r) < n \<Longrightarrow> res = [] \<and> r' = r"
    by (rule HeapAllocate_spec [OF assms(1), of n]) (rule that; assumption)
  have "res \<noteq> [] \<longleftrightarrow> n \<le> card (avail r)"
  proof
    assume "res \<noteq> []"
    then obtain l h' s where "res = (l, h') # s" by (cases res) auto
    with h(2) have "l \<in> elems res" by (auto simp: iset_ok_Cons)
    then have "card (elems res) \<noteq> 0" by (metis card_0_eq elems_finite empty_iff)
    with h(6) show "n \<le> card (avail r)" by (simp split: if_splits)
  next
    assume "n \<le> card (avail r)"
    with h(6) assms(2) show "res \<noteq> []" by auto
  qed
  moreover have "res = [] \<longrightarrow> r' = r"
  proof
    assume "res = []"
    with calculation assms(2) have "\<not> n \<le> card (avail r)" by simp
    with h(7) show "r' = r" by simp
  qed
  ultimately show ?thesis using h by auto
qed

lemma HeapAllocate_takes_highest_witness:
  "\<exists>res r'. HeapAllocate 0x3000 (new_region\<lparr>rg_size := 0x8000, free_blocks := [(0, 0x1000), (0x2000, 0x8000)],
      rg_used := 0x1000\<rparr>) = Some (res, r') \<and> res \<noteq> [] \<and> card (elems res) = 0x3000"
proof -
  let ?r = "new_region\<lparr>rg_size := 0x8000, free_blocks := [(0, 0x1000), (0x2000, 0x8000)], rg_used := 0x1000\<rparr>"
  have "card (avail ?r) = (\<Sum>(l, h) \<leftarrow> free_blocks ?r. h - l)"
    unfolding avail_def by (rule card_elems) simp
  then have c: "card (avail ?r) = 0x7000" by simp
  then have "region_inv ?r" by (auto simp: region_inv_def new_region_def frames_def avail_def)
  from HeapAllocate_takes_highest [OF this, of "0x3000"] c show ?thesis by fastforce
qed

text \<open>\<open>LinearAllocate(size)\<close> finds a block whenever there is one, and the lowest one:
  it fails only if no \<open>size\<close> consecutive bytes are free, and otherwise no lower address would do;
  \<open>RLinearAllocate\<close> likewise from the top.\<close>

theorem linear_first_fit:
  assumes "region_inv r" "0 < n"
  shows "\<exists>low r1 high r2. LinearAllocate n r = Some (low, r1) \<and> RLinearAllocate n r = Some (high, r2) \<and>
    (low = None \<longleftrightarrow> high = None) \<and> (low = None \<longleftrightarrow> \<not> (\<exists>a. {a..<a + n} \<subseteq> avail r)) \<and>
    (\<forall>a. low = Some a \<longrightarrow> {a..<a + n} \<subseteq> avail r \<and> avail r1 = avail r - {a..<a + n} \<and>
       (\<forall>b. {b..<b + n} \<subseteq> avail r \<longrightarrow> a \<le> b)) \<and>
    (\<forall>a. high = Some a \<longrightarrow> {a..<a + n} \<subseteq> avail r \<and> avail r2 = avail r - {a..<a + n} \<and>
       (\<forall>b. {b..<b + n} \<subseteq> avail r \<longrightarrow> b \<le> a))"
  by (rule LinearAllocate_spec [OF assms]; rule RLinearAllocate_spec [OF assms]) (simp_all, blast+)

lemma linear_first_fit_witness:
  "\<exists>low r1. LinearAllocate 0x2000 (new_region\<lparr>rg_size := 0x8000, free_blocks := [(0, 0x1000), (0x2000, 0x8000)],
      rg_used := 0x1000\<rparr>) = Some (low, r1) \<and> low \<noteq> None"
proof -
  let ?r = "new_region\<lparr>rg_size := 0x8000, free_blocks := [(0, 0x1000), (0x2000, 0x8000)], rg_used := 0x1000\<rparr>"
  have "card (avail ?r) = (\<Sum>(l, h) \<leftarrow> free_blocks ?r. h - l)"
    unfolding avail_def by (rule card_elems) simp
  then have c: "card (avail ?r) = 0x7000" by simp
  then have inv: "region_inv ?r" by (auto simp: region_inv_def new_region_def frames_def avail_def)
  have "{0x2000..<0x2000 + 0x2000} \<subseteq> avail ?r" by (auto simp: avail_def)
  with linear_first_fit [OF inv, of "0x2000"] show ?thesis by fastforce
qed

end
