(* ===== verification/TickCounts.thy ===== *)
theory TickCounts
  imports Prelude
begin

text \<open>
  The tick counts of instructions under the recompiler, \<open>core/arm/dynarmic/arm_tick_counts.cpp\<close>:
  a table of bit patterns, the masks derived from them at compile time, and the search for the
  first pattern that matches. A string literal is a \<open>string\<close>; the function a matcher holds is
  the constructor of \<open>cycles\<close> for it, evaluated by \<open>cost\<close>.
\<close>

section \<open>Bits of a pattern\<close>

fun GetMatchingBits :: "string \<Rightarrow> string \<Rightarrow> u32" where
  "GetMatchingBits [] needle = 0"
| "GetMatchingBits (c # haystack) needle =
     (if c \<in> set needle then push_bit (length haystack) 1 OR GetMatchingBits haystack needle
      else GetMatchingBits haystack needle)"

lemma clear_lowest_less: "(m :: u32) \<noteq> 0 \<Longrightarrow> unat (m AND (m - 1)) < unat m"
proof -
  assume m: "m \<noteq> 0"
  have "m AND (m - 1) \<le> m - 1" by (rule word_and_le1)
  then have "unat (m AND (m - 1)) \<le> unat (m - 1)" by (simp add: word_le_nat_alt)
  also have "\<dots> < unat m" using m by (simp add: unat_minus_one unat_gt_0)
  finally show ?thesis .
qed

text \<open>The loop of \<open>DepositBits\<close>: \<open>bb\<close> runs over the bits of the value, \<open>m\<close> loses its lowest bit.\<close>

function deposit_loop :: "u32 \<Rightarrow> u32 \<Rightarrow> u32 \<Rightarrow> u32 \<Rightarrow> u32" where
  "deposit_loop m bb val res =
     (if m = 0 then res
      else deposit_loop (m AND (m - 1)) (bb + bb) val
             (if val AND bb \<noteq> 0 then res OR (m AND (0 - m)) else res))"
  by auto
termination
  by (relation "measure (\<lambda>(m, _). unat m)") (auto simp: clear_lowest_less)

declare deposit_loop.simps [simp del]

definition DepositBits :: "u32 \<Rightarrow> u32 \<Rightarrow> u32" where
  "DepositBits msk val = deposit_loop msk 1 val 0"

definition Get :: "string \<Rightarrow> string \<Rightarrow> u32 \<Rightarrow> u32" where
  "Get haystack needle instruction = DepositBits (GetMatchingBits haystack needle) instruction"

definition popcount :: "u32 \<Rightarrow> nat" where
  "popcount w = length (filter (bit w) [0..<32])"

section \<open>Matchers\<close>

datatype cycles =
    Fixed nat
  | DataProcessing_imm
  | DataProcessing_reg
  | DataProcessing_rsr
  | LoadStoreSingle_imm
  | LoadStoreSingle_reg
  | LoadStoreMultiple
  | IfS nat nat
  | IfM1000 nat nat

fun cost :: "cycles \<Rightarrow> string \<Rightarrow> u32 \<Rightarrow> nat" where
  "cost (Fixed n) bs i = n"
| "cost DataProcessing_imm bs i = (if Get bs ''d'' i = 15 then 7 else 1)"
| "cost DataProcessing_reg bs i = (if Get bs ''d'' i = 15 then 7 else 1)"
| "cost DataProcessing_rsr bs i = (if Get bs ''d'' i = 15 then 8 else 2)"
| "cost LoadStoreSingle_imm bs i = 2"
| "cost LoadStoreSingle_reg bs i =
     (if Get bs ''u'' i = 1 \<and> Get bs ''r'' i = 0 \<and> (Get bs ''v'' i = 0 \<or> Get bs ''v'' i = 2)
      then 2 else 4)"
| "cost LoadStoreMultiple bs i = 1 + popcount (Get bs ''x'' i) div 2"
| "cost (IfS a b) bs i = (if Get bs ''S'' i \<noteq> 0 then a else b)"
| "cost (IfM1000 a b) bs i = (if Get bs ''m'' i = 8 then a else b)"

record matcher =
  m_name :: string
  pattern :: string
  m_mask :: u32
  expect :: u32
  fn :: cycles

definition INST :: "string \<Rightarrow> string \<Rightarrow> cycles \<Rightarrow> matcher" where
  "INST NAME BS CYCLES =
     \<lparr>m_name = NAME, pattern = BS, m_mask = GetMatchingBits BS ''01'',
      expect = GetMatchingBits BS ''1'', fn = CYCLES\<rparr>"

definition arm_matchers_0 :: "matcher list" where
  "arm_matchers_0 = [
    INST ''BLX (imm)'' ''1111101hvvvvvvvvvvvvvvvvvvvvvvvv'' (Fixed 5),
    INST ''BLX (reg)'' ''cccc000100101111111111110011mmmm'' (Fixed 6),
    INST ''B'' ''cccc1010vvvvvvvvvvvvvvvvvvvvvvvv'' (Fixed 4),
    INST ''BL'' ''cccc1011vvvvvvvvvvvvvvvvvvvvvvvv'' (Fixed 4),
    INST ''BX'' ''cccc000100101111111111110001mmmm'' (Fixed 5),
    INST ''BXJ'' ''cccc000100101111111111110010mmmm'' (Fixed 1),
    INST ''CDP'' ''cccc1110ooooNNNNDDDDppppooo0MMMM'' (Fixed 1),
    INST ''LDC'' ''cccc110pudw1nnnnDDDDppppvvvvvvvv'' (Fixed 1),
    INST ''MCR'' ''cccc1110ooo0NNNNttttppppooo1MMMM'' (Fixed 2),
    INST ''MCRR'' ''cccc11000100uuuuttttppppooooMMMM'' (Fixed 2),
    INST ''MRC'' ''cccc1110ooo1NNNNttttppppooo1MMMM'' (Fixed 2),
    INST ''MRRC'' ''cccc11000101uuuuttttppppooooMMMM'' (Fixed 2),
    INST ''STC'' ''cccc110pudw0nnnnDDDDppppvvvvvvvv'' (Fixed 1)]"

definition arm_matchers_1 :: "matcher list" where
  "arm_matchers_1 = [
    INST ''ADC (imm)'' ''cccc0010101Snnnnddddrrrrvvvvvvvv'' DataProcessing_imm,
    INST ''ADC (reg)'' ''cccc0000101Snnnnddddvvvvvrr0mmmm'' DataProcessing_reg,
    INST ''ADC (rsr)'' ''cccc0000101Snnnnddddssss0rr1mmmm'' DataProcessing_rsr,
    INST ''ADD (imm)'' ''cccc0010100Snnnnddddrrrrvvvvvvvv'' DataProcessing_imm,
    INST ''ADD (reg)'' ''cccc0000100Snnnnddddvvvvvrr0mmmm'' DataProcessing_reg,
    INST ''ADD (rsr)'' ''cccc0000100Snnnnddddssss0rr1mmmm'' DataProcessing_rsr,
    INST ''AND (imm)'' ''cccc0010000Snnnnddddrrrrvvvvvvvv'' DataProcessing_imm,
    INST ''AND (reg)'' ''cccc0000000Snnnnddddvvvvvrr0mmmm'' DataProcessing_reg,
    INST ''AND (rsr)'' ''cccc0000000Snnnnddddssss0rr1mmmm'' DataProcessing_rsr,
    INST ''BIC (imm)'' ''cccc0011110Snnnnddddrrrrvvvvvvvv'' DataProcessing_imm,
    INST ''BIC (reg)'' ''cccc0001110Snnnnddddvvvvvrr0mmmm'' DataProcessing_reg,
    INST ''BIC (rsr)'' ''cccc0001110Snnnnddddssss0rr1mmmm'' DataProcessing_rsr,
    INST ''CMN (imm)'' ''cccc00110111nnnn0000rrrrvvvvvvvv'' DataProcessing_imm,
    INST ''CMN (reg)'' ''cccc00010111nnnn0000vvvvvrr0mmmm'' DataProcessing_reg,
    INST ''CMN (rsr)'' ''cccc00010111nnnn0000ssss0rr1mmmm'' DataProcessing_rsr,
    INST ''CMP (imm)'' ''cccc00110101nnnn0000rrrrvvvvvvvv'' DataProcessing_imm,
    INST ''CMP (reg)'' ''cccc00010101nnnn0000vvvvvrr0mmmm'' DataProcessing_reg,
    INST ''CMP (rsr)'' ''cccc00010101nnnn0000ssss0rr1mmmm'' DataProcessing_rsr,
    INST ''EOR (imm)'' ''cccc0010001Snnnnddddrrrrvvvvvvvv'' DataProcessing_imm,
    INST ''EOR (reg)'' ''cccc0000001Snnnnddddvvvvvrr0mmmm'' DataProcessing_reg,
    INST ''EOR (rsr)'' ''cccc0000001Snnnnddddssss0rr1mmmm'' DataProcessing_rsr,
    INST ''MOV (imm)'' ''cccc0011101S0000ddddrrrrvvvvvvvv'' DataProcessing_imm,
    INST ''MOV (reg)'' ''cccc0001101S0000ddddvvvvvrr0mmmm'' DataProcessing_reg,
    INST ''MOV (rsr)'' ''cccc0001101S0000ddddssss0rr1mmmm'' DataProcessing_rsr,
    INST ''MVN (imm)'' ''cccc0011111S0000ddddrrrrvvvvvvvv'' DataProcessing_imm,
    INST ''MVN (reg)'' ''cccc0001111S0000ddddvvvvvrr0mmmm'' DataProcessing_reg,
    INST ''MVN (rsr)'' ''cccc0001111S0000ddddssss0rr1mmmm'' DataProcessing_rsr,
    INST ''ORR (imm)'' ''cccc0011100Snnnnddddrrrrvvvvvvvv'' DataProcessing_imm,
    INST ''ORR (reg)'' ''cccc0001100Snnnnddddvvvvvrr0mmmm'' DataProcessing_reg,
    INST ''ORR (rsr)'' ''cccc0001100Snnnnddddssss0rr1mmmm'' DataProcessing_rsr,
    INST ''RSB (imm)'' ''cccc0010011Snnnnddddrrrrvvvvvvvv'' DataProcessing_imm,
    INST ''RSB (reg)'' ''cccc0000011Snnnnddddvvvvvrr0mmmm'' DataProcessing_reg,
    INST ''RSB (rsr)'' ''cccc0000011Snnnnddddssss0rr1mmmm'' DataProcessing_rsr,
    INST ''RSC (imm)'' ''cccc0010111Snnnnddddrrrrvvvvvvvv'' DataProcessing_imm,
    INST ''RSC (reg)'' ''cccc0000111Snnnnddddvvvvvrr0mmmm'' DataProcessing_reg,
    INST ''RSC (rsr)'' ''cccc0000111Snnnnddddssss0rr1mmmm'' DataProcessing_rsr,
    INST ''SBC (imm)'' ''cccc0010110Snnnnddddrrrrvvvvvvvv'' DataProcessing_imm,
    INST ''SBC (reg)'' ''cccc0000110Snnnnddddvvvvvrr0mmmm'' DataProcessing_reg,
    INST ''SBC (rsr)'' ''cccc0000110Snnnnddddssss0rr1mmmm'' DataProcessing_rsr,
    INST ''SUB (imm)'' ''cccc0010010Snnnnddddrrrrvvvvvvvv'' DataProcessing_imm,
    INST ''SUB (reg)'' ''cccc0000010Snnnnddddvvvvvrr0mmmm'' DataProcessing_reg,
    INST ''SUB (rsr)'' ''cccc0000010Snnnnddddssss0rr1mmmm'' DataProcessing_rsr,
    INST ''TEQ (imm)'' ''cccc00110011nnnn0000rrrrvvvvvvvv'' DataProcessing_imm,
    INST ''TEQ (reg)'' ''cccc00010011nnnn0000vvvvvrr0mmmm'' DataProcessing_reg,
    INST ''TEQ (rsr)'' ''cccc00010011nnnn0000ssss0rr1mmmm'' DataProcessing_rsr,
    INST ''TST (imm)'' ''cccc00110001nnnn0000rrrrvvvvvvvv'' DataProcessing_imm,
    INST ''TST (reg)'' ''cccc00010001nnnn0000vvvvvrr0mmmm'' DataProcessing_reg,
    INST ''TST (rsr)'' ''cccc00010001nnnn0000ssss0rr1mmmm'' DataProcessing_rsr]"

definition arm_matchers_2 :: "matcher list" where
  "arm_matchers_2 = [
    INST ''BKPT'' ''cccc00010010vvvvvvvvvvvv0111vvvv'' (Fixed 8),
    INST ''SVC'' ''cccc1111vvvvvvvvvvvvvvvvvvvvvvvv'' (Fixed 8),
    INST ''UDF'' ''111001111111------------1111----'' (Fixed 8),
    INST ''SXTB'' ''cccc011010101111ddddrr000111mmmm'' (Fixed 1),
    INST ''SXTB16'' ''cccc011010001111ddddrr000111mmmm'' (Fixed 1),
    INST ''SXTH'' ''cccc011010111111ddddrr000111mmmm'' (Fixed 1),
    INST ''SXTAB'' ''cccc01101010nnnnddddrr000111mmmm'' (Fixed 1),
    INST ''SXTAB16'' ''cccc01101000nnnnddddrr000111mmmm'' (Fixed 1),
    INST ''SXTAH'' ''cccc01101011nnnnddddrr000111mmmm'' (Fixed 1),
    INST ''UXTB'' ''cccc011011101111ddddrr000111mmmm'' (Fixed 1),
    INST ''UXTB16'' ''cccc011011001111ddddrr000111mmmm'' (Fixed 1),
    INST ''UXTH'' ''cccc011011111111ddddrr000111mmmm'' (Fixed 1),
    INST ''UXTAB'' ''cccc01101110nnnnddddrr000111mmmm'' (Fixed 1),
    INST ''UXTAB16'' ''cccc01101100nnnnddddrr000111mmmm'' (Fixed 1),
    INST ''UXTAH'' ''cccc01101111nnnnddddrr000111mmmm'' (Fixed 1),
    INST ''PLD (imm)'' ''11110101uz01nnnn1111iiiiiiiiiiii'' (Fixed 1),
    INST ''PLD (reg)'' ''11110111uz01nnnn1111iiiiitt0mmmm'' (Fixed 1),
    INST ''SEV'' ''----0011001000001111000000000100'' (Fixed 1),
    INST ''WFE'' ''----0011001000001111000000000010'' (Fixed 1),
    INST ''WFI'' ''----0011001000001111000000000011'' (Fixed 1),
    INST ''YIELD'' ''----0011001000001111000000000001'' (Fixed 1),
    INST ''CLREX'' ''11110101011111111111000000011111'' (Fixed 1),
    INST ''SWP'' ''cccc00010000nnnntttt00001001uuuu'' (Fixed 4),
    INST ''SWPB'' ''cccc00010100nnnntttt00001001uuuu'' (Fixed 4),
    INST ''STREX'' ''cccc00011000nnnndddd11111001mmmm'' (Fixed 2),
    INST ''LDREX'' ''cccc00011001nnnndddd111110011111'' (Fixed 2),
    INST ''STREXD'' ''cccc00011010nnnndddd11111001mmmm'' (Fixed 2),
    INST ''LDREXD'' ''cccc00011011nnnndddd111110011111'' (Fixed 2),
    INST ''STREXB'' ''cccc00011100nnnndddd11111001mmmm'' (Fixed 2),
    INST ''LDREXB'' ''cccc00011101nnnndddd111110011111'' (Fixed 2),
    INST ''STREXH'' ''cccc00011110nnnndddd11111001mmmm'' (Fixed 2),
    INST ''LDREXH'' ''cccc00011111nnnndddd111110011111'' (Fixed 2),
    INST ''LDRBT (A1)'' ''----0100-111--------------------'' (Fixed 1),
    INST ''LDRBT (A2)'' ''----0110-111---------------0----'' (Fixed 1),
    INST ''LDRT (A1)'' ''----0100-011--------------------'' (Fixed 1),
    INST ''LDRT (A2)'' ''----0110-011---------------0----'' (Fixed 1),
    INST ''STRBT (A1)'' ''----0100-110--------------------'' (Fixed 1),
    INST ''STRBT (A2)'' ''----0110-110---------------0----'' (Fixed 1),
    INST ''STRT (A1)'' ''----0100-010--------------------'' (Fixed 1),
    INST ''STRT (A2)'' ''----0110-010---------------0----'' (Fixed 1),
    INST ''LDR (lit)'' ''cccc0101u0011111ttttvvvvvvvvvvvv'' LoadStoreSingle_imm,
    INST ''LDR (imm)'' ''cccc010pu0w1nnnnttttvvvvvvvvvvvv'' LoadStoreSingle_imm,
    INST ''LDR (reg)'' ''cccc011pu0w1nnnnttttvvvvvrr0mmmm'' LoadStoreSingle_reg,
    INST ''LDRB (lit)'' ''cccc0101u1011111ttttvvvvvvvvvvvv'' LoadStoreSingle_imm,
    INST ''LDRB (imm)'' ''cccc010pu1w1nnnnttttvvvvvvvvvvvv'' LoadStoreSingle_imm,
    INST ''LDRB (reg)'' ''cccc011pu1w1nnnnttttvvvvvrr0mmmm'' LoadStoreSingle_reg,
    INST ''LDRD (lit)'' ''cccc0001u1001111ttttvvvv1101vvvv'' LoadStoreSingle_imm,
    INST ''LDRD (imm)'' ''cccc000pu1w0nnnnttttvvvv1101vvvv'' LoadStoreSingle_imm,
    INST ''LDRD (reg)'' ''cccc000pu0w0nnnntttt00001101mmmm'' LoadStoreSingle_reg,
    INST ''LDRH (lit)'' ''cccc000pu1w11111ttttvvvv1011vvvv'' LoadStoreSingle_imm,
    INST ''LDRH (imm)'' ''cccc000pu1w1nnnnttttvvvv1011vvvv'' LoadStoreSingle_imm,
    INST ''LDRH (reg)'' ''cccc000pu0w1nnnntttt00001011mmmm'' LoadStoreSingle_reg,
    INST ''LDRSB (lit)'' ''cccc0001u1011111ttttvvvv1101vvvv'' LoadStoreSingle_imm,
    INST ''LDRSB (imm)'' ''cccc000pu1w1nnnnttttvvvv1101vvvv'' LoadStoreSingle_imm,
    INST ''LDRSB (reg)'' ''cccc000pu0w1nnnntttt00001101mmmm'' LoadStoreSingle_reg,
    INST ''LDRSH (lit)'' ''cccc0001u1011111ttttvvvv1111vvvv'' LoadStoreSingle_imm,
    INST ''LDRSH (imm)'' ''cccc000pu1w1nnnnttttvvvv1111vvvv'' LoadStoreSingle_imm,
    INST ''LDRSH (reg)'' ''cccc000pu0w1nnnntttt00001111mmmm'' LoadStoreSingle_reg,
    INST ''STR (imm)'' ''cccc010pu0w0nnnnttttvvvvvvvvvvvv'' LoadStoreSingle_imm,
    INST ''STR (reg)'' ''cccc011pu0w0nnnnttttvvvvvrr0mmmm'' LoadStoreSingle_reg,
    INST ''STRB (imm)'' ''cccc010pu1w0nnnnttttvvvvvvvvvvvv'' LoadStoreSingle_imm,
    INST ''STRB (reg)'' ''cccc011pu1w0nnnnttttvvvvvrr0mmmm'' LoadStoreSingle_reg,
    INST ''STRD (imm)'' ''cccc000pu1w0nnnnttttvvvv1111vvvv'' LoadStoreSingle_imm,
    INST ''STRD (reg)'' ''cccc000pu0w0nnnntttt00001111mmmm'' LoadStoreSingle_reg,
    INST ''STRH (imm)'' ''cccc000pu1w0nnnnttttvvvv1011vvvv'' LoadStoreSingle_imm,
    INST ''STRH (reg)'' ''cccc000pu0w0nnnntttt00001011mmmm'' LoadStoreSingle_reg,
    INST ''LDM'' ''cccc100010w1nnnnxxxxxxxxxxxxxxxx'' LoadStoreMultiple,
    INST ''LDMDA'' ''cccc100000w1nnnnxxxxxxxxxxxxxxxx'' LoadStoreMultiple,
    INST ''LDMDB'' ''cccc100100w1nnnnxxxxxxxxxxxxxxxx'' LoadStoreMultiple,
    INST ''LDMIB'' ''cccc100110w1nnnnxxxxxxxxxxxxxxxx'' LoadStoreMultiple,
    INST ''LDM (usr reg)'' ''----100--101--------------------'' (Fixed 1),
    INST ''LDM (exce ret)'' ''----100--1-1----1---------------'' (Fixed 1),
    INST ''STM'' ''cccc100010w0nnnnxxxxxxxxxxxxxxxx'' LoadStoreMultiple,
    INST ''STMDA'' ''cccc100000w0nnnnxxxxxxxxxxxxxxxx'' LoadStoreMultiple,
    INST ''STMDB'' ''cccc100100w0nnnnxxxxxxxxxxxxxxxx'' LoadStoreMultiple,
    INST ''STMIB'' ''cccc100110w0nnnnxxxxxxxxxxxxxxxx'' LoadStoreMultiple,
    INST ''STM (usr reg)'' ''----100--100--------------------'' (Fixed 1),
    INST ''CLZ'' ''cccc000101101111dddd11110001mmmm'' (Fixed 1),
    INST ''NOP'' ''----0011001000001111000000000000'' (Fixed 1),
    INST ''SEL'' ''cccc01101000nnnndddd11111011mmmm'' (Fixed 1),
    INST ''USAD8'' ''cccc01111000dddd1111mmmm0001nnnn'' (Fixed 1),
    INST ''USADA8'' ''cccc01111000ddddaaaammmm0001nnnn'' (Fixed 1),
    INST ''PKHBT'' ''cccc01101000nnnnddddvvvvv001mmmm'' (Fixed 1),
    INST ''PKHTB'' ''cccc01101000nnnnddddvvvvv101mmmm'' (Fixed 1),
    INST ''REV'' ''cccc011010111111dddd11110011mmmm'' (Fixed 1),
    INST ''REV16'' ''cccc011010111111dddd11111011mmmm'' (Fixed 1),
    INST ''REVSH'' ''cccc011011111111dddd11111011mmmm'' (Fixed 1)]"

definition arm_matchers_3 :: "matcher list" where
  "arm_matchers_3 = [
    INST ''SSAT'' ''cccc0110101vvvvvddddvvvvvr01nnnn'' (Fixed 1),
    INST ''SSAT16'' ''cccc01101010vvvvdddd11110011nnnn'' (Fixed 1),
    INST ''USAT'' ''cccc0110111vvvvvddddvvvvvr01nnnn'' (Fixed 1),
    INST ''USAT16'' ''cccc01101110vvvvdddd11110011nnnn'' (Fixed 1),
    INST ''MLA'' ''cccc0000001Sddddaaaammmm1001nnnn'' (IfS 5 2),
    INST ''MUL'' ''cccc0000000Sdddd0000mmmm1001nnnn'' (IfS 5 2),
    INST ''SMLAL'' ''cccc0000111Sddddaaaammmm1001nnnn'' (IfS 6 3),
    INST ''SMULL'' ''cccc0000110Sddddaaaammmm1001nnnn'' (IfS 6 3),
    INST ''UMAAL'' ''cccc00000100ddddaaaammmm1001nnnn'' (Fixed 3),
    INST ''UMLAL'' ''cccc0000101Sddddaaaammmm1001nnnn'' (IfS 6 3),
    INST ''UMULL'' ''cccc0000100Sddddaaaammmm1001nnnn'' (IfS 6 3),
    INST ''SMLALXY'' ''cccc00010100ddddaaaammmm1xy0nnnn'' (Fixed 2),
    INST ''SMLAXY'' ''cccc00010000ddddaaaammmm1xy0nnnn'' (Fixed 1),
    INST ''SMULXY'' ''cccc00010110dddd0000mmmm1xy0nnnn'' (Fixed 1),
    INST ''SMLAWY'' ''cccc00010010ddddaaaammmm1y00nnnn'' (Fixed 1),
    INST ''SMULWY'' ''cccc00010010dddd0000mmmm1y10nnnn'' (Fixed 1),
    INST ''SMMUL'' ''cccc01110101dddd1111mmmm00R1nnnn'' (Fixed 2),
    INST ''SMMLA'' ''cccc01110101ddddaaaammmm00R1nnnn'' (Fixed 2),
    INST ''SMMLS'' ''cccc01110101ddddaaaammmm11R1nnnn'' (Fixed 2),
    INST ''SMLAD'' ''cccc01110000ddddaaaammmm00M1nnnn'' (Fixed 2),
    INST ''SMLALD'' ''cccc01110100ddddaaaammmm00M1nnnn'' (Fixed 2),
    INST ''SMLSD'' ''cccc01110000ddddaaaammmm01M1nnnn'' (Fixed 2),
    INST ''SMLSLD'' ''cccc01110100ddddaaaammmm01M1nnnn'' (Fixed 2),
    INST ''SMUAD'' ''cccc01110000dddd1111mmmm00M1nnnn'' (Fixed 2),
    INST ''SMUSD'' ''cccc01110000dddd1111mmmm01M1nnnn'' (Fixed 2),
    INST ''SADD8'' ''cccc01100001nnnndddd11111001mmmm'' (Fixed 1),
    INST ''SADD16'' ''cccc01100001nnnndddd11110001mmmm'' (Fixed 1),
    INST ''SASX'' ''cccc01100001nnnndddd11110011mmmm'' (Fixed 1),
    INST ''SSAX'' ''cccc01100001nnnndddd11110101mmmm'' (Fixed 1),
    INST ''SSUB8'' ''cccc01100001nnnndddd11111111mmmm'' (Fixed 1),
    INST ''SSUB16'' ''cccc01100001nnnndddd11110111mmmm'' (Fixed 1),
    INST ''UADD8'' ''cccc01100101nnnndddd11111001mmmm'' (Fixed 1),
    INST ''UADD16'' ''cccc01100101nnnndddd11110001mmmm'' (Fixed 1),
    INST ''UASX'' ''cccc01100101nnnndddd11110011mmmm'' (Fixed 1),
    INST ''USAX'' ''cccc01100101nnnndddd11110101mmmm'' (Fixed 1),
    INST ''USUB8'' ''cccc01100101nnnndddd11111111mmmm'' (Fixed 1),
    INST ''USUB16'' ''cccc01100101nnnndddd11110111mmmm'' (Fixed 1),
    INST ''QADD8'' ''cccc01100010nnnndddd11111001mmmm'' (Fixed 1),
    INST ''QADD16'' ''cccc01100010nnnndddd11110001mmmm'' (Fixed 1),
    INST ''QASX'' ''cccc01100010nnnndddd11110011mmmm'' (Fixed 1),
    INST ''QSAX'' ''cccc01100010nnnndddd11110101mmmm'' (Fixed 1),
    INST ''QSUB8'' ''cccc01100010nnnndddd11111111mmmm'' (Fixed 1),
    INST ''QSUB16'' ''cccc01100010nnnndddd11110111mmmm'' (Fixed 1),
    INST ''UQADD8'' ''cccc01100110nnnndddd11111001mmmm'' (Fixed 1),
    INST ''UQADD16'' ''cccc01100110nnnndddd11110001mmmm'' (Fixed 1),
    INST ''UQASX'' ''cccc01100110nnnndddd11110011mmmm'' (Fixed 1),
    INST ''UQSAX'' ''cccc01100110nnnndddd11110101mmmm'' (Fixed 1),
    INST ''UQSUB8'' ''cccc01100110nnnndddd11111111mmmm'' (Fixed 1),
    INST ''UQSUB16'' ''cccc01100110nnnndddd11110111mmmm'' (Fixed 1),
    INST ''SHADD8'' ''cccc01100011nnnndddd11111001mmmm'' (Fixed 1),
    INST ''SHADD16'' ''cccc01100011nnnndddd11110001mmmm'' (Fixed 1),
    INST ''SHASX'' ''cccc01100011nnnndddd11110011mmmm'' (Fixed 1),
    INST ''SHSAX'' ''cccc01100011nnnndddd11110101mmmm'' (Fixed 1),
    INST ''SHSUB8'' ''cccc01100011nnnndddd11111111mmmm'' (Fixed 1),
    INST ''SHSUB16'' ''cccc01100011nnnndddd11110111mmmm'' (Fixed 1),
    INST ''UHADD8'' ''cccc01100111nnnndddd11111001mmmm'' (Fixed 1),
    INST ''UHADD16'' ''cccc01100111nnnndddd11110001mmmm'' (Fixed 1),
    INST ''UHASX'' ''cccc01100111nnnndddd11110011mmmm'' (Fixed 1),
    INST ''UHSAX'' ''cccc01100111nnnndddd11110101mmmm'' (Fixed 1),
    INST ''UHSUB8'' ''cccc01100111nnnndddd11111111mmmm'' (Fixed 1),
    INST ''UHSUB16'' ''cccc01100111nnnndddd11110111mmmm'' (Fixed 1),
    INST ''QADD'' ''cccc00010000nnnndddd00000101mmmm'' (Fixed 1),
    INST ''QSUB'' ''cccc00010010nnnndddd00000101mmmm'' (Fixed 1),
    INST ''QDADD'' ''cccc00010100nnnndddd00000101mmmm'' (Fixed 1),
    INST ''QDSUB'' ''cccc00010110nnnndddd00000101mmmm'' (Fixed 1),
    INST ''CPS'' ''111100010000---00000000---0-----'' (Fixed 1),
    INST ''SETEND'' ''1111000100000001000000e000000000'' (Fixed 1),
    INST ''MRS'' ''cccc000100001111dddd000000000000'' (Fixed 1),
    INST ''MSR (imm)'' ''cccc00110010mmmm1111rrrrvvvvvvvv'' (IfM1000 1 4),
    INST ''MSR (reg)'' ''cccc00010010mmmm111100000000nnnn'' (IfM1000 1 4),
    INST ''RFE'' ''1111100--0-1----0000101000000000'' (Fixed 9),
    INST ''SRS'' ''1111100--1-0110100000101000-----'' (Fixed 1)]"

definition thumb_matchers :: "matcher list" where
  "thumb_matchers = [
    INST ''LSL (imm)'' ''00000vvvvvmmmddd'' (Fixed 1),
    INST ''LSR (imm)'' ''00001vvvvvmmmddd'' (Fixed 1),
    INST ''ASR (imm)'' ''00010vvvvvmmmddd'' (Fixed 1),
    INST ''ADD (reg, T1)'' ''0001100mmmnnnddd'' (Fixed 1),
    INST ''SUB (reg)'' ''0001101mmmnnnddd'' (Fixed 1),
    INST ''ADD (imm, T1)'' ''0001110vvvnnnddd'' (Fixed 1),
    INST ''SUB (imm, T1)'' ''0001111vvvnnnddd'' (Fixed 1),
    INST ''MOV (imm)'' ''00100dddvvvvvvvv'' (Fixed 1),
    INST ''CMP (imm)'' ''00101nnnvvvvvvvv'' (Fixed 1),
    INST ''ADD (imm, T2)'' ''00110dddvvvvvvvv'' (Fixed 1),
    INST ''SUB (imm, T2)'' ''00111dddvvvvvvvv'' (Fixed 1),
    INST ''AND (reg)'' ''0100000000mmmddd'' (Fixed 1),
    INST ''EOR (reg)'' ''0100000001mmmddd'' (Fixed 1),
    INST ''LSL (reg)'' ''0100000010mmmddd'' (Fixed 1),
    INST ''LSR (reg)'' ''0100000011mmmddd'' (Fixed 1),
    INST ''ASR (reg)'' ''0100000100mmmddd'' (Fixed 1),
    INST ''ADC (reg)'' ''0100000101mmmddd'' (Fixed 1),
    INST ''SBC (reg)'' ''0100000110mmmddd'' (Fixed 1),
    INST ''ROR (reg)'' ''0100000111sssddd'' (Fixed 1),
    INST ''TST (reg)'' ''0100001000mmmnnn'' (Fixed 1),
    INST ''RSB (imm)'' ''0100001001nnnddd'' (Fixed 1),
    INST ''CMP (reg, T1)'' ''0100001010mmmnnn'' (Fixed 1),
    INST ''CMN (reg)'' ''0100001011mmmnnn'' (Fixed 1),
    INST ''ORR (reg)'' ''0100001100mmmddd'' (Fixed 1),
    INST ''MUL (reg)'' ''0100001101nnnddd'' (Fixed 1),
    INST ''BIC (reg)'' ''0100001110mmmddd'' (Fixed 1),
    INST ''MVN (reg)'' ''0100001111mmmddd'' (Fixed 1),
    INST ''ADD (reg, T2)'' ''01000100Dmmmmddd'' (Fixed 1),
    INST ''CMP (reg, T2)'' ''01000101Nmmmmnnn'' (Fixed 1),
    INST ''MOV (reg)'' ''01000110Dmmmmddd'' (Fixed 1),
    INST ''LDR (literal)'' ''01001tttvvvvvvvv'' (Fixed 2),
    INST ''STR (reg)'' ''0101000mmmnnnttt'' (Fixed 2),
    INST ''STRH (reg)'' ''0101001mmmnnnttt'' (Fixed 2),
    INST ''STRB (reg)'' ''0101010mmmnnnttt'' (Fixed 2),
    INST ''LDRSB (reg)'' ''0101011mmmnnnttt'' (Fixed 2),
    INST ''LDR (reg)'' ''0101100mmmnnnttt'' (Fixed 2),
    INST ''LDRH (reg)'' ''0101101mmmnnnttt'' (Fixed 2),
    INST ''LDRB (reg)'' ''0101110mmmnnnttt'' (Fixed 2),
    INST ''LDRSH (reg)'' ''0101111mmmnnnttt'' (Fixed 2),
    INST ''STR (imm, T1)'' ''01100vvvvvnnnttt'' (Fixed 2),
    INST ''LDR (imm, T1)'' ''01101vvvvvnnnttt'' (Fixed 2),
    INST ''STRB (imm)'' ''01110vvvvvnnnttt'' (Fixed 2),
    INST ''LDRB (imm)'' ''01111vvvvvnnnttt'' (Fixed 2),
    INST ''STRH (imm)'' ''10000vvvvvnnnttt'' (Fixed 2),
    INST ''LDRH (imm)'' ''10001vvvvvnnnttt'' (Fixed 2),
    INST ''STR (imm, T2)'' ''10010tttvvvvvvvv'' (Fixed 2),
    INST ''LDR (imm, T2)'' ''10011tttvvvvvvvv'' (Fixed 2),
    INST ''ADR'' ''10100dddvvvvvvvv'' (Fixed 1),
    INST ''ADD (SP plus imm, T1)'' ''10101dddvvvvvvvv'' (Fixed 1),
    INST ''ADD (SP plus imm, T2)'' ''101100000vvvvvvv'' (Fixed 1),
    INST ''SUB (SP minus imm)'' ''101100001vvvvvvv'' (Fixed 1),
    INST ''NOP'' ''10111111--------'' (Fixed 1),
    INST ''SXTH'' ''1011001000mmmddd'' (Fixed 1),
    INST ''SXTB'' ''1011001001mmmddd'' (Fixed 1),
    INST ''UXTH'' ''1011001010mmmddd'' (Fixed 1),
    INST ''UXTB'' ''1011001011mmmddd'' (Fixed 1),
    INST ''PUSH'' ''1011010xxxxxxxxx'' LoadStoreMultiple,
    INST ''POP'' ''1011110xxxxxxxxx'' LoadStoreMultiple,
    INST ''SETEND'' ''101101100101x000'' (Fixed 1),
    INST ''CPS'' ''10110110011m0aif'' (Fixed 1),
    INST ''REV'' ''1011101000mmmddd'' (Fixed 1),
    INST ''REV16'' ''1011101001mmmddd'' (Fixed 1),
    INST ''REVSH'' ''1011101011mmmddd'' (Fixed 1),
    INST ''BKPT'' ''10111110xxxxxxxx'' (Fixed 8),
    INST ''STMIA'' ''11000nnnxxxxxxxx'' LoadStoreMultiple,
    INST ''LDMIA'' ''11001nnnxxxxxxxx'' LoadStoreMultiple,
    INST ''BX'' ''010001110mmmm000'' (Fixed 5),
    INST ''BLX (reg)'' ''010001111mmmm000'' (Fixed 6),
    INST ''UDF'' ''11011110--------'' (Fixed 8),
    INST ''SVC'' ''11011111xxxxxxxx'' (Fixed 8),
    INST ''B (T1)'' ''1101ccccvvvvvvvv'' (Fixed 4),
    INST ''B (T2)'' ''11100vvvvvvvvvvv'' (Fixed 4),
    INST ''BL (imm)'' ''11110Svvvvvvvvvv11j1jvvvvvvvvvvv'' (Fixed 4),
    INST ''BLX (imm)'' ''11110Svvvvvvvvvv11j0jvvvvvvvvvvv'' (Fixed 5)]"

definition arm_matchers :: "matcher list" where
  "arm_matchers = arm_matchers_0 @ arm_matchers_1 @ arm_matchers_2 @ arm_matchers_3"

definition matches_instruction :: "u32 \<Rightarrow> matcher \<Rightarrow> bool" where
  "matches_instruction i m \<longleftrightarrow> i AND m_mask m = expect m"

definition TicksForInstruction :: "bool \<Rightarrow> u32 \<Rightarrow> nat" where
  "TicksForInstruction is_thumb i =
     (if is_thumb then 1
      else case find (matches_instruction i) arm_matchers of
             Some m \<Rightarrow> cost (fn m) (pattern m) i
           | None \<Rightarrow> 1)"

section \<open>What the deposit computes\<close>

lemma deposit_loop_subset:
  "m AND msk = m \<Longrightarrow> res AND msk = res \<Longrightarrow> deposit_loop m bb val res AND msk = deposit_loop m bb val res"
proof (induction m bb val res rule: deposit_loop.induct)
  case (1 m bb val res)
  show ?case
  proof (cases "m = 0")
    case False
    have s: "(m AND (m - 1)) AND msk = m AND (m - 1)" "(m AND (0 - m)) AND msk = m AND (0 - m)"
      using "1.prems"(1) by (metis and.assoc and.commute)+
    have r: "(if val AND bb \<noteq> 0 then res OR (m AND (0 - m)) else res) AND msk =
        (if val AND bb \<noteq> 0 then res OR (m AND (0 - m)) else res)"
      using "1.prems"(2) s(2) by (simp add: bit.conj_disj_distrib2)
    from "1.IH" [OF False s(1) r] False show ?thesis by (simp add: deposit_loop.simps [of m])
  qed (use "1.prems" in \<open>simp add: deposit_loop.simps [of 0]\<close>)
qed

lemma DepositBits_subset: "DepositBits msk val AND msk = DepositBits msk val"
  unfolding DepositBits_def by (rule deposit_loop_subset) simp_all

lemma DepositBits_bit: "bit (DepositBits msk val) n \<Longrightarrow> bit msk n"
  using DepositBits_subset [of msk val] by (metis bit_and_iff)

lemma Get_neq:
  assumes "bit v n" "\<not> bit (GetMatchingBits bs needle) n"
  shows "Get bs needle i \<noteq> v"
  using assms DepositBits_bit unfolding Get_def by metis

lemma DepositBits_single:
  "DepositBits (2 ^ n) val = (if bit val 0 then 2 ^ n else 0)" if "n < 32"
proof -
  have nz: "(2 :: u32) ^ n \<noteq> 0" using that by simp
  have "(2 :: u32) ^ n AND mask n = 0"
    by (intro bit_word_eqI) (simp only: bit_and_iff bit_mask_iff bit_exp_iff, simp)
  then have a: "(2 :: u32) ^ n AND (2 ^ n - 1) = 0" by (simp only: mask_eq_exp_minus_1)
  have b: "(2 :: u32) ^ n AND (0 - 2 ^ n) = 2 ^ n"
    using that unfolding diff_0
    by (intro bit_word_eqI) (simp only: bit_and_iff bit_exp_iff bit_minus_exp_iff, auto)
  have c: "val AND 1 \<noteq> 0 \<longleftrightarrow> bit val 0" by (simp add: bit_0 and_one_eq odd_iff_mod_2_eq_one)
  show ?thesis
    unfolding DepositBits_def deposit_loop.simps [of "2 ^ n"] using nz a b c
    by (simp add: deposit_loop.simps [of 0])
qed

section \<open>The table\<close>

text \<open>What the patterns have in common that their costs depend on.\<close>

fun pattern_ok :: "cycles \<Rightarrow> string \<Rightarrow> bool" where
  "pattern_ok DataProcessing_imm bs \<longleftrightarrow> bs ! 31 \<noteq> CHR ''d''"
| "pattern_ok DataProcessing_reg bs \<longleftrightarrow> bs ! 31 \<noteq> CHR ''d''"
| "pattern_ok DataProcessing_rsr bs \<longleftrightarrow> bs ! 31 \<noteq> CHR ''d''"
| "pattern_ok LoadStoreSingle_reg bs \<longleftrightarrow> bs ! 31 \<noteq> CHR ''u''"
| "pattern_ok LoadStoreMultiple bs \<longleftrightarrow>
     list_all (\<lambda>c. c \<noteq> CHR ''x'') (take 16 bs) \<and> list_all (\<lambda>c. c = CHR ''x'') (drop 16 bs)"
| "pattern_ok (IfS a b) bs \<longleftrightarrow>
     bs ! 11 = CHR ''S'' \<and> list_all (\<lambda>c. c \<noteq> CHR ''S'') (take 11 bs) \<and>
     list_all (\<lambda>c. c \<noteq> CHR ''S'') (drop 12 bs) \<and> a \<in> {1..9} \<and> b \<in> {1..9}"
| "pattern_ok (IfM1000 a b) bs \<longleftrightarrow> bs ! 28 \<noteq> CHR ''m'' \<and> a \<in> {1..9} \<and> b \<in> {1..9}"
| "pattern_ok (Fixed n) bs \<longleftrightarrow> n \<in> {1..9}"
| "pattern_ok _ bs \<longleftrightarrow> True"

definition entry_ok :: "matcher \<Rightarrow> bool" where
  "entry_ok m \<longleftrightarrow> length (pattern m) = 32 \<and> pattern_ok (fn m) (pattern m)"

lemma INST_sel [simp]: "pattern (INST a b c) = b" "fn (INST a b c) = c" "m_name (INST a b c) = a"
  by (simp_all add: INST_def)

lemma entry_ok_INST: "entry_ok (INST a b c) \<longleftrightarrow> length b = 32 \<and> pattern_ok c b"
  by (simp add: entry_ok_def)

lemma entries_ok_0: "list_all entry_ok arm_matchers_0"
  by (simp only: arm_matchers_0_def list.pred_inject entry_ok_INST, code_simp)

lemma entries_ok_1: "list_all entry_ok arm_matchers_1"
  by (simp only: arm_matchers_1_def list.pred_inject entry_ok_INST, code_simp)

lemma entries_ok_2: "list_all entry_ok arm_matchers_2"
  by (simp only: arm_matchers_2_def list.pred_inject entry_ok_INST, code_simp)

lemma entries_ok_3: "list_all entry_ok arm_matchers_3"
  by (simp only: arm_matchers_3_def list.pred_inject entry_ok_INST, code_simp)

lemma entries_ok: "m \<in> set arm_matchers \<Longrightarrow> length (pattern m) = 32 \<and> pattern_ok (fn m) (pattern m)"
  using entries_ok_0 entries_ok_1 entries_ok_2 entries_ok_3
  by (auto simp: arm_matchers_def list_all_iff entry_ok_def)

lemma bit_GetMatchingBits:
  "n < 32 \<Longrightarrow> bit (GetMatchingBits bs needle) n \<longleftrightarrow>
    n < length bs \<and> bs ! (length bs - 1 - n) \<in> set needle"
proof (induction bs)
  case (Cons c bs)
  consider "n = length bs" | "n < length bs" | "length bs < n" by linarith
  then show ?case
  proof cases
    case 1
    with Cons show ?thesis by (simp add: bit_simps)
  next
    case 2
    then have "(c # bs) ! (length (c # bs) - 1 - n) = bs ! (length bs - 1 - n)"
      by (simp add: nth_Cons')
    with 2 Cons show ?thesis by (auto simp: bit_simps)
  next
    case 3
    with Cons show ?thesis by (auto simp: bit_simps)
  qed
qed simp

lemma Get_neq_char:
  assumes "length bs = 32" "bs ! (31 - n) \<noteq> c" "n < 32" "bit v n"
  shows "Get bs [c] i \<noteq> v"
  by (rule Get_neq [OF assms(4)]) (use assms in \<open>simp add: bit_GetMatchingBits\<close>)

lemma S_mask:
  assumes "length bs = 32" "bs ! 11 = CHR ''S''"
    "list_all (\<lambda>c. c \<noteq> CHR ''S'') (take 11 bs)" "list_all (\<lambda>c. c \<noteq> CHR ''S'') (drop 12 bs)"
  shows "GetMatchingBits bs ''S'' = 2 ^ 20"
proof (rule bit_word_eqI)
  fix n assume "n < LENGTH(32)"
  then have n: "n < 32" by simp
  have "bs ! (31 - n) = CHR ''S'' \<longleftrightarrow> n = 20"
  proof
    assume S: "bs ! (31 - n) = CHR ''S''"
    show "n = 20"
    proof (rule ccontr)
      assume "n \<noteq> 20"
      then consider "31 - n < 11" | "12 \<le> 31 - n" using n by linarith
      then show False
      proof cases
        case 1
        then have "take 11 bs ! (31 - n) \<in> set (take 11 bs)" using assms(1) by (intro nth_mem) simp
        with 1 S assms(3) show False by (auto simp: list_all_iff)
      next
        case 2
        then have "drop 12 bs ! (31 - n - 12) \<in> set (drop 12 bs)" using assms(1) n by (intro nth_mem) simp
        with 2 S assms(1,4) n show False by (auto simp: list_all_iff)
      qed
    qed
  qed (simp add: assms(2))
  then show "bit (GetMatchingBits bs ''S'') n = bit ((2 :: u32) ^ 20) n"
    using n assms(1) unfolding bit_GetMatchingBits [OF n] bit_exp_iff by auto
qed

lemma x_mask:
  assumes "length bs = 32" "list_all (\<lambda>c. c \<noteq> CHR ''x'') (take 16 bs)"
    "list_all (\<lambda>c. c = CHR ''x'') (drop 16 bs)"
  shows "GetMatchingBits bs ''x'' = 65535"
proof -
  have "GetMatchingBits bs ''x'' = mask 16"
  proof (rule bit_word_eqI)
    fix n assume "n < LENGTH(32)"
    then have n: "n < 32" by simp
    have "bs ! (31 - n) = CHR ''x'' \<longleftrightarrow> n < 16"
    proof (cases "n < 16")
      case True
      then have "drop 16 bs ! (31 - n - 16) \<in> set (drop 16 bs)" using assms(1) by (intro nth_mem) simp
      with True assms(1,3) show ?thesis by (simp add: list_all_iff)
    next
      case False
      then have "take 16 bs ! (31 - n) \<in> set (take 16 bs)" using assms(1) n by (intro nth_mem) simp
      with False assms(2) n show ?thesis by (simp add: list_all_iff)
    qed
    then show "bit (GetMatchingBits bs ''x'') n = bit (mask 16 :: u32) n"
      using n assms(1) unfolding bit_GetMatchingBits [OF n] bit_mask_iff by auto
  qed
  then show ?thesis by (simp add: mask_eq_exp_minus_1)
qed

lemma deposit_step:
  "m \<noteq> 0 \<Longrightarrow> deposit_loop m bb val res =
    deposit_loop (m AND (m - 1)) (bb + bb) val (res OR (if val AND bb \<noteq> 0 then m AND (0 - m) else 0))"
  by (subst deposit_loop.simps) simp

lemma and_single: "(if val AND push_bit n 1 \<noteq> 0 then push_bit n 1 else 0) = val AND (push_bit n 1 :: u32)"
proof -
  have "val AND push_bit n 1 = (if bit val n then push_bit n 1 else 0)"
    by (intro bit_word_eqI) (auto simp: bit_simps)
  then show ?thesis by auto
qed

definition low_rest :: "nat \<Rightarrow> u32" where
  "low_rest j = mask 16 AND NOT (mask j)"

lemma low_rest_step:
  "\<forall>j \<in> set [0..<16]. low_rest j \<noteq> 0 \<and> low_rest j AND (low_rest j - 1) = low_rest (Suc j) \<and>
    low_rest j AND (0 - low_rest j) = push_bit j 1 \<and> push_bit j 1 + push_bit j 1 = (push_bit (Suc j) 1 :: u32) \<and>
    push_bit j 1 OR low_rest (Suc j) = low_rest j"
  by code_simp

lemma deposit_low:
  "j \<le> 16 \<Longrightarrow> deposit_loop (low_rest j) (push_bit j 1) val res = res OR (val AND low_rest j)"
proof (induction j arbitrary: res rule: inc_induct)
  case base
  have "low_rest 16 = 0" by (simp add: low_rest_def)
  then show ?case by (simp add: deposit_loop.simps [of 0])
next
  case (step j)
  then have "j \<in> set [0..<16]" by simp
  from bspec [OF low_rest_step this] have
    l: "low_rest j \<noteq> 0" "low_rest j AND (low_rest j - 1) = low_rest (Suc j)"
      "low_rest j AND (0 - low_rest j) = push_bit j 1" "push_bit j 1 + push_bit j 1 = (push_bit (Suc j) 1 :: u32)"
      "push_bit j 1 OR low_rest (Suc j) = low_rest j" by blast+
  have "deposit_loop (low_rest j) (push_bit j 1) val res =
      deposit_loop (low_rest (Suc j)) (push_bit (Suc j) 1) val (res OR (val AND push_bit j 1))"
    unfolding deposit_step [OF l(1)] l(2-4) and_single ..
  also have "\<dots> = res OR (val AND (push_bit j 1 OR low_rest (Suc j)))"
    unfolding step.IH by (simp add: bit.conj_disj_distrib or.assoc)
  finally show ?case by (simp only: l(5))
qed

lemma DepositBits_low: "DepositBits 65535 val = val AND 65535"
  using deposit_low [of 0 val 0] by (simp add: DepositBits_def low_rest_def mask_eq_exp_minus_1)

lemma cost_value:
  assumes "m \<in> set arm_matchers"
  shows "cost (fn m) (pattern m) i =
    (case fn m of
       Fixed n \<Rightarrow> n
     | DataProcessing_imm \<Rightarrow> 1
     | DataProcessing_reg \<Rightarrow> 1
     | DataProcessing_rsr \<Rightarrow> 2
     | LoadStoreSingle_imm \<Rightarrow> 2
     | LoadStoreSingle_reg \<Rightarrow> 4
     | LoadStoreMultiple \<Rightarrow> 1 + popcount (i AND 0xFFFF) div 2
     | IfS a b \<Rightarrow> if bit i 0 then a else b
     | IfM1000 a b \<Rightarrow> b)"
proof -
  from entries_ok [OF assms] have len: "length (pattern m) = 32" and ok: "pattern_ok (fn m) (pattern m)"
    by auto
  have b: "bit (15 :: u32) 0" "bit (1 :: u32) 0" "bit (8 :: u32) 3" by simp_all
  show ?thesis
  proof (cases "fn m")
    case (IfS x y)
    with ok len have "GetMatchingBits (pattern m) ''S'' = 2 ^ 20" by (intro S_mask) auto
    with IfS show ?thesis by (simp add: Get_def DepositBits_single [of 20, simplified])
  next
    case LoadStoreMultiple
    with ok len have "GetMatchingBits (pattern m) ''x'' = 65535" by (intro x_mask) auto
    with LoadStoreMultiple show ?thesis by (simp add: Get_def DepositBits_low)
  qed (use ok Get_neq_char [OF len _ _ b(1), of _ i] Get_neq_char [OF len _ _ b(2), of _ i]
    Get_neq_char [OF len _ _ b(3), of _ i] in auto)
qed

section \<open>Properties\<close>

text \<open>C40: What the table of the recompiler really charges. A deposit of the instruction is not an
  extraction of a field, so the costs that ask for a field mostly do not depend on it: data
  processing never costs the price of writing the program counter, a load or store with a register
  offset always costs the slow price, an \<open>MSR\<close> always the price of more than the flags, and a
  multiply is charged by the lowest bit of the instruction, not by its S bit. Load and store
  multiple cost one tick and one for two registers, as meant.\<close>

theorem tick_costs:
  assumes "m \<in> set arm_matchers"
  shows "cost (fn m) (pattern m) i =
    (case fn m of
       Fixed n \<Rightarrow> n
     | DataProcessing_imm \<Rightarrow> 1
     | DataProcessing_reg \<Rightarrow> 1
     | DataProcessing_rsr \<Rightarrow> 2
     | LoadStoreSingle_imm \<Rightarrow> 2
     | LoadStoreSingle_reg \<Rightarrow> 4
     | LoadStoreMultiple \<Rightarrow> 1 + popcount (i AND 0xFFFF) div 2
     | IfS a b \<Rightarrow> if bit i 0 then a else b
     | IfM1000 a b \<Rightarrow> b)"
  using assms by (rule cost_value)

lemma tick_costs_witness:
  "let m = INST ''MOV (imm)'' ''cccc0011101S0000ddddrrrrvvvvvvvv'' DataProcessing_imm
   in m \<in> set arm_matchers \<and> cost (fn m) (pattern m) 0xE3A0F000 = 1"
proof -
  let ?m = "INST ''MOV (imm)'' ''cccc0011101S0000ddddrrrrvvvvvvvv'' DataProcessing_imm"
  have "?m \<in> set arm_matchers" by (simp add: arm_matchers_def arm_matchers_1_def)
  with tick_costs [OF this, of "0xE3A0F000"] show ?thesis by (simp only: INST_sel cycles.case Let_def simp_thms)
qed

lemma popcount_low: "popcount (i AND 0xFFFF) \<le> 16"
proof -
  have m: "(0xFFFF :: u32) = mask 16" by (simp add: mask_eq_exp_minus_1)
  have "filter (bit (i AND 0xFFFF)) [16..<32] = []"
    unfolding m by (simp add: filter_empty_conv bit_and_iff bit_mask_iff)
  moreover have "[0..<32] = [0..<16] @ [16..<32]" using upt_add_eq_append [of 0 16 16] by simp
  ultimately have "popcount (i AND 0xFFFF) = length (filter (bit (i AND 0xFFFF)) [0..<16])"
    by (simp add: popcount_def)
  also have "\<dots> \<le> 16" by (rule order.trans [OF length_filter_le]) simp
  finally show ?thesis .
qed

text \<open>Guest time always advances, and by a bounded amount: every instruction, of either
  instruction set and whatever its bits, is charged between one and nine ticks.\<close>

theorem ticks_bounds: "1 \<le> TicksForInstruction t i \<and> TicksForInstruction t i \<le> 9"
proof (cases "find (matches_instruction i) arm_matchers")
  case (Some m)
  then have m: "m \<in> set arm_matchers" by (auto simp: find_Some_iff)
  have "1 \<le> cost (fn m) (pattern m) i \<and> cost (fn m) (pattern m) i \<le> 9"
    unfolding cost_value [OF m] using entries_ok [OF m] popcount_low [of i] by (cases "fn m") auto
  with Some show ?thesis by (simp add: TicksForInstruction_def)
qed (simp add: TicksForInstruction_def)

lemma no_match:
  assumes "i AND mm = em" "ea AND mm \<noteq> em AND ma"
  shows "i AND ma \<noteq> (ea :: u32)"
  using assms by (metis and.assoc and.commute)

lemma MRRC_entry:
  "list_all (\<lambda>m. m_name m = ''MRRC'' \<longrightarrow> m = INST ''MRRC'' ''cccc11000101uuuuttttppppooooMMMM'' (Fixed 2))
     arm_matchers_0"
  "list_all (\<lambda>m. m_name m \<noteq> ''MRRC'') arm_matchers_1"
  "list_all (\<lambda>m. m_name m \<noteq> ''MRRC'') arm_matchers_2"
  "list_all (\<lambda>m. m_name m \<noteq> ''MRRC'') arm_matchers_3"
  by (simp add: arm_matchers_0_def)
    (simp only: arm_matchers_1_def arm_matchers_2_def arm_matchers_3_def list.pred_inject INST_sel, code_simp)+

lemma coprocessor_masks:
  "map (\<lambda>m. (m_mask m, expect m)) (take 8 arm_matchers_0) =
    [(0xFE000000, 0xFA000000), (0x0FFFFFF0, 0x012FFF30), (0x0F000000, 0x0A000000),
     (0x0F000000, 0x0B000000), (0x0FFFFFF0, 0x012FFF10), (0x0FFFFFF0, 0x012FFF20),
     (0x0F000010, 0x0E000000), (0x0E100000, 0x0C100000)]"
  "GetMatchingBits ''cccc11000101uuuuttttppppooooMMMM'' ''01'' = 0x0FF00000"
  "GetMatchingBits ''cccc11000101uuuuttttppppooooMMMM'' ''1'' = 0x0C500000"
  by (simp_all add: arm_matchers_0_def INST_def)

lemma find_first_eight:
  assumes "i AND 0x0FF00000 = 0x0C500000"
  shows "\<exists>m. find (matches_instruction i) arm_matchers = Some m \<and> fn m = Fixed 1"
proof -
  have fx: "fn (take 8 arm_matchers_0 ! 7) = Fixed 1" by (simp add: arm_matchers_0_def)
  obtain a0 a1 a2 a3 a4 a5 a6 a7 where q: "take 8 arm_matchers_0 = [a0, a1, a2, a3, a4, a5, a6, a7]"
    and e: "m_mask a0 = 0xFE000000" "expect a0 = 0xFA000000" "m_mask a1 = 0x0FFFFFF0" "expect a1 = 0x012FFF30"
      "m_mask a2 = 0x0F000000" "expect a2 = 0x0A000000" "m_mask a3 = 0x0F000000" "expect a3 = 0x0B000000"
      "m_mask a4 = 0x0FFFFFF0" "expect a4 = 0x012FFF10" "m_mask a5 = 0x0FFFFFF0" "expect a5 = 0x012FFF20"
      "m_mask a6 = 0x0F000010" "expect a6 = 0x0E000000" "m_mask a7 = 0x0E100000" "expect a7 = 0x0C100000"
    using coprocessor_masks(1) unfolding map_eq_Cons_conv by auto
  note no = no_match [OF assms]
  have n: "\<not> matches_instruction i a" if "a \<in> {a0, a1, a2, a3, a4, a5, a6}" for a
    using that unfolding matches_instruction_def by (elim insertE emptyE) (simp_all add: e no)
  have "i AND 0x0E100000 = (i AND 0x0FF00000) AND 0x0E100000" by (simp add: and.assoc)
  also have "\<dots> = 0x0C100000" unfolding assms by simp
  finally have y: "matches_instruction i a7" by (simp add: matches_instruction_def e)
  have eq: "arm_matchers = [a0, a1, a2, a3, a4, a5, a6, a7] @ drop 8 arm_matchers_0 @
      arm_matchers_1 @ arm_matchers_2 @ arm_matchers_3"
    unfolding arm_matchers_def q [symmetric] by simp
  have "find (matches_instruction i) arm_matchers = Some a7"
    unfolding eq using n y by simp
  moreover have "fn a7 = Fixed 1" using fx by (simp add: q)
  ultimately show ?thesis by blast
qed

text \<open>The table is searched in the order it is written and not by how specific the patterns are:
  the entry of \<open>LDC\<close> comes before the entry of \<open>MRRC\<close> and covers all of it, so the entry of
  \<open>MRRC\<close>, which charges two ticks, is never reached and every \<open>MRRC\<close> costs one.\<close>

theorem MRRC_shadowed:
  assumes "m \<in> set arm_matchers" "m_name m = ''MRRC''" "matches_instruction i m"
  shows "fn m = Fixed 2 \<and> TicksForInstruction False i = 1"
proof -
  have m: "m = INST ''MRRC'' ''cccc11000101uuuuttttppppooooMMMM'' (Fixed 2)"
    using assms(1,2) MRRC_entry by (auto simp: arm_matchers_def list_all_iff)
  then have "i AND 0x0FF00000 = 0x0C500000"
    using assms(3) coprocessor_masks(2,3) by (simp add: matches_instruction_def INST_def)
  from find_first_eight [OF this] m show ?thesis by (auto simp: TicksForInstruction_def)
qed

lemma MRRC_shadowed_witness:
  "TicksForInstruction False 0xEC510F42 = 1"
proof -
  let ?m = "INST ''MRRC'' ''cccc11000101uuuuttttppppooooMMMM'' (Fixed 2)"
  have "?m \<in> set arm_matchers" by (simp add: arm_matchers_def arm_matchers_0_def)
  moreover have "matches_instruction 0xEC510F42 ?m"
    using coprocessor_masks(2,3) by (simp add: matches_instruction_def INST_def)
  ultimately show ?thesis using MRRC_shadowed [of ?m] by simp
qed

end
