(* ===== verification/ThumbDecode.thy ===== *)
theory ThumbDecode
  imports Prelude
begin

text \<open>
  The Thumb decoder of the interpreter: \<open>core/arm/dyncom/arm_dyncom_thumb.cpp\<close> translates a
  16-bit instruction into the ARM instruction that does the same, and
  \<open>DecodeThumbInstruction\<close> of \<open>arm_dyncom_interpreter.cpp\<close> picks the translation routine of
  the branches, which have no ARM equivalent. An instruction is a \<open>u32\<close>; \<open>BITS\<close> and \<open>BIT\<close> are
  the macros of \<open>skyeye_common/armsupp.h\<close>. The tables of opcodes are lists.
\<close>

definition BITS :: "u32 \<Rightarrow> nat \<Rightarrow> nat \<Rightarrow> u32" where
  "BITS s a b = drop_bit (32 - b + a - 1) (push_bit (31 - b) s)"

definition BIT :: "u32 \<Rightarrow> nat \<Rightarrow> u32" where
  "BIT s n = drop_bit n s AND 1"

datatype ThumbDecodeStatus = UNDEFINED | DECODED | BRANCH | UNINITIALIZED


section \<open>Data processing\<close>

definition shift_imm :: "u32 \<Rightarrow> u32" where
  "shift_imm t = 0xE1B00000 OR drop_bit 6 (t AND 0x1800) OR push_bit 1 (t AND 0x07C0)
     OR drop_bit 3 (t AND 0x0038) OR push_bit 12 (t AND 0x0007)"

definition add_sub_ops :: "u32 list" where
  "add_sub_ops = [0xE0900000, 0xE0500000, 0xE2900000, 0xE2500000]"

definition add_sub :: "u32 \<Rightarrow> u32" where
  "add_sub t = add_sub_ops ! unat (drop_bit 9 (t AND 0x0600)) OR drop_bit 6 (t AND 0x01C0)
     OR push_bit 13 (t AND 0x0038) OR push_bit 12 (t AND 0x0007)"

definition imm8_ops :: "u32 list" where
  "imm8_ops = [0xE3B00000, 0xE3500000, 0xE2900000, 0xE2500000]"

definition alu_imm8 :: "u32 \<Rightarrow> u32" where
  "alu_imm8 t = imm8_ops ! unat (drop_bit 11 (t AND 0x1800)) OR (t AND 0x00FF)
     OR push_bit 8 (t AND 0x0700) OR push_bit 4 (t AND 0x0700)"

datatype otype = t_norm | t_shift | t_neg | t_mul

definition alu_ops :: "(u32 \<times> otype) list" where
  "alu_ops =
     [(0xE0100000, t_norm), (0xE0300000, t_norm), (0xE1B00010, t_shift), (0xE1B00030, t_shift),
      (0xE1B00050, t_shift), (0xE0B00000, t_norm), (0xE0D00000, t_norm), (0xE1B00070, t_shift),
      (0xE1100000, t_norm), (0xE2700000, t_neg), (0xE1500000, t_norm), (0xE1700000, t_norm),
      (0xE1900000, t_norm), (0xE0100090, t_mul), (0xE1D00000, t_norm), (0xE1F00000, t_norm)]"

definition alu_reg :: "u32 \<Rightarrow> u32" where
  "alu_reg t =
     (let (opcode, ty) = alu_ops ! unat (drop_bit 6 (t AND 0x03C0))
      in case ty of
           t_norm \<Rightarrow> opcode OR push_bit 16 (t AND 0x0007) OR push_bit 12 (t AND 0x0007)
                      OR drop_bit 3 (t AND 0x0038)
         | t_shift \<Rightarrow> opcode OR push_bit 12 (t AND 0x0007) OR (t AND 0x0007)
                       OR push_bit 5 (t AND 0x0038)
         | t_neg \<Rightarrow> opcode OR push_bit 12 (t AND 0x0007) OR push_bit 13 (t AND 0x0038)
         | t_mul \<Rightarrow> opcode OR push_bit 16 (t AND 0x0007) OR push_bit 8 (t AND 0x0007)
                     OR drop_bit 3 (t AND 0x0038))"

text \<open>The switch over bits 6 to 9 goes by its high two bits: the low two only choose high registers.\<close>

definition high_reg :: "u32 \<Rightarrow> u32" where
  "high_reg t =
     (let Rd = (if t AND push_bit 7 1 \<noteq> 0 then (t AND 0x0007) + 8 else t AND 0x0007);
          Rs = drop_bit 3 (t AND 0x0078);
          op = drop_bit 6 (t AND 0x03C0)
      in if op \<in> {0x0, 0x1, 0x2, 0x3} then 0xE0800000 OR push_bit 16 Rd OR push_bit 12 Rd OR Rs
         else if op \<in> {0x4, 0x5, 0x6, 0x7} then 0xE1500000 OR push_bit 16 Rd OR Rs
         else if op \<in> {0x8, 0x9, 0xA, 0xB} then 0xE1A00000 OR push_bit 12 Rd OR Rs
         else if op \<in> {0xC, 0xD} then 0xE12FFF10 OR drop_bit 3 (t AND 0x0078)
         else 0xE1200030 OR Rs)"

section \<open>Loads and stores\<close>

definition ldr_pc :: "u32 \<Rightarrow> u32" where
  "ldr_pc t = 0xE59F0000 OR push_bit 4 (t AND 0x0700) OR push_bit 2 (t AND 0x00FF)"

definition ldst_reg_ops :: "u32 list" where
  "ldst_reg_ops = [0xE7800000, 0xE18000B0, 0xE7C00000, 0xE19000D0,
                   0xE7900000, 0xE19000B0, 0xE7D00000, 0xE19000F0]"

definition ldst_reg :: "u32 \<Rightarrow> u32" where
  "ldst_reg t = ldst_reg_ops ! unat (drop_bit 9 (t AND 0xE00)) OR push_bit 12 (t AND 0x0007)
     OR push_bit 13 (t AND 0x0038) OR drop_bit 6 (t AND 0x01C0)"

definition ldst_imm5_ops :: "u32 list" where
  "ldst_imm5_ops = [0xE5800000, 0xE5900000, 0xE5C00000, 0xE5D00000]"

definition ldst_imm5 :: "u32 \<Rightarrow> u32" where
  "ldst_imm5 t = ldst_imm5_ops ! unat (drop_bit 11 (t AND 0x1800)) OR push_bit 12 (t AND 0x0007)
     OR push_bit 13 (t AND 0x0038)
     OR drop_bit (6 - (if t AND push_bit 12 1 \<noteq> 0 then 0 else 2)) (t AND 0x07C0)"

definition ldst_half :: "u32 \<Rightarrow> u32" where
  "ldst_half t = (if t AND push_bit 11 1 \<noteq> 0 then 0xE1D000B0 else 0xE1C000B0)
     OR push_bit 12 (t AND 0x0007) OR push_bit 13 (t AND 0x0038)
     OR drop_bit 5 (t AND 0x01C0) OR drop_bit 1 (t AND 0x0600)"

definition ldst_sp :: "u32 \<Rightarrow> u32" where
  "ldst_sp t = (if t AND push_bit 11 1 \<noteq> 0 then 0xE59D0000 else 0xE58D0000)
     OR push_bit 4 (t AND 0x0700) OR push_bit 2 (t AND 0x00FF)"

definition add_pc_sp :: "u32 \<Rightarrow> u32" where
  "add_pc_sp t =
     (if t AND push_bit 11 1 = 0 then 0xE28F0F00 OR push_bit 4 (t AND 0x0700) OR (t AND 0x00FF)
      else 0xE28D0F00 OR push_bit 4 (t AND 0x0700) OR (t AND 0x00FF))"

definition ldm_stm :: "u32 \<Rightarrow> u32" where
  "ldm_stm t =
     (if t AND push_bit 11 1 \<noteq> 0
      then let rn = BITS t 8 10;
               base = (if t AND push_bit (unat rn) 1 = 0 then 0xE8900000 OR push_bit 21 1 else 0xE8900000)
           in base OR push_bit 16 rn OR (t AND 0x00FF)
      else 0xE8A00000 OR push_bit 16 (BITS t 8 10) OR (t AND 0x00FF))"

section \<open>Miscellaneous instructions\<close>

definition extend_ops :: "u32 list" where
  "extend_ops = [0xE6BF0070, 0xE6AF0070, 0xE6FF0070, 0xE6EF0070]"

definition rev_ops :: "u32 list" where
  "rev_ops = [0xE6BF0F30, 0xE6BF0FB0, 0, 0xE6FF0FB0]"

definition push_pop_ops :: "u32 list" where
  "push_pop_ops = [0xE92D0000, 0xE92D4000, 0xE8BD0000, 0xE8BD8000]"

definition push_pop :: "u32 \<Rightarrow> u32" where
  "push_pop t =
     push_pop_ops ! unat (drop_bit 10 (t AND push_bit 11 1) OR drop_bit 8 (t AND push_bit 8 1))
       OR (t AND 0x00FF)"

text \<open>The second component of a result says what became of the status, which starts as
  \<open>UNINITIALIZED\<close>; the first what was written to \<open>*ainstr\<close>, which starts as \<open>0xDEADC0DE\<close>.\<close>

definition misc :: "u32 \<Rightarrow> u32 \<times> ThumbDecodeStatus" where
  "misc t =
     (if t AND 0x0F00 = 0x0000
      then ((if t AND push_bit 7 1 \<noteq> 0 then 0xE24DDF00 else 0xE28DDF00) OR (t AND 0x007F), UNINITIALIZED)
      else if t AND 0x0F00 = 0x0e00
      then (0xEF000000 OR BITS t 0 3 OR push_bit 8 (BITS t 4 7), UNINITIALIZED)
      else if t AND 0x0F00 = 0x0200
      then (extend_ops ! unat (BITS t 6 7) OR push_bit 12 (BITS t 0 2) OR BITS t 3 5, UNINITIALIZED)
      else if t AND 0x0F00 = 0x600
      then (if BIT t 5 = 0 then 0xF1010000 OR push_bit 9 (BIT t 3)
            else 0xF1080000 OR push_bit 6 (BIT t 0) OR push_bit 7 (BIT t 1) OR push_bit 8 (BIT t 2)
                   OR push_bit 18 (BIT t 4), UNINITIALIZED)
      else if t AND 0x0F00 = 0x0a00
      then (if BITS t 6 7 = 2 then (0xDEADC0DE, UNDEFINED)
            else (rev_ops ! unat (BITS t 6 7) OR push_bit 12 (BITS t 0 2) OR BITS t 3 5, UNINITIALIZED))
      else (push_pop t, UNINITIALIZED))"

definition cond_branch_swi :: "u32 \<Rightarrow> u32 \<times> ThumbDecodeStatus" where
  "cond_branch_swi t =
     (if t AND 0x0F00 = 0x0F00
      then (if t AND 0x00FF = 0x18 then 0xEF000000 OR push_bit 16 (t AND 0x00FF)
            else if t AND 0x00FF = 0xFE then 0xEF000000 OR 0x180000
            else 0xEF000000 OR (t AND 0x00FF), UNINITIALIZED)
      else if t AND 0x0F00 \<noteq> 0x0E00 then (0xDEADC0DE, BRANCH)
      else (0xDEADC0DE, UNDEFINED))"

section \<open>The decoder\<close>

definition translate_thumb :: "u32 \<Rightarrow> u32 \<times> ThumbDecodeStatus" where
  "translate_thumb t =
     (let c = unat (drop_bit 11 (t AND 0xF800)) in
      if c \<le> 2 then (shift_imm t, UNINITIALIZED)
      else if c = 3 then (add_sub t, UNINITIALIZED)
      else if c \<le> 7 then (alu_imm8 t, UNINITIALIZED)
      else if c = 8 then (if t AND push_bit 10 1 = 0 then alu_reg t else high_reg t, UNINITIALIZED)
      else if c = 9 then (ldr_pc t, UNINITIALIZED)
      else if c \<le> 11 then (ldst_reg t, UNINITIALIZED)
      else if c \<le> 15 then (ldst_imm5 t, UNINITIALIZED)
      else if c \<le> 17 then (ldst_half t, UNINITIALIZED)
      else if c \<le> 19 then (ldst_sp t, UNINITIALIZED)
      else if c \<le> 21 then (add_pc_sp t, UNINITIALIZED)
      else if c \<le> 23 then misc t
      else if c \<le> 25 then (ldm_stm t, UNINITIALIZED)
      else if c \<le> 27 then cond_branch_swi t
      else if c = 28 then (0xDEADC0DE, BRANCH)
      else if c = 29 then (0xDEADC0DE, if t AND 1 \<noteq> 0 then UNDEFINED else BRANCH)
      else (0xDEADC0DE, BRANCH))"



section \<open>Bits of the translation\<close>

lemma upto32:
  "n < 32 \<Longrightarrow> n \<in> set [0, 1, 2, 3, 4, 5, 6, 7, 8, 9, 10, 11, 12, 13, 14, 15, 16, 17, 18, 19, 20, 21, 22,
    23, 24, 25, 26, 27, 28, 29, 30, 31 :: nat]"
  by simp presburger

lemma word32_eqI:
  assumes "\<And>n. n \<in> {0, 1, 2, 3, 4, 5, 6, 7, 8, 9, 10, 11, 12, 13, 14, 15, 16, 17, 18, 19, 20, 21, 22, 23, 24,
    25, 26, 27, 28, 29, 30, 31} \<Longrightarrow> bit a n = bit b n"
  shows "a = (b :: u32)"
proof (rule bit_word_eqI)
  fix n assume "n < LENGTH(32)"
  then show "bit a n = bit b n" using assms [of n] upto32 [of n] by simp
qed

lemma unat_field: "x AND mask n = x \<Longrightarrow> unat (x :: u32) < 2 ^ n"
proof -
  assume "x AND mask n = x"
  then have "take_bit n x = x" by (simp add: take_bit_eq_mask)
  then have "unat x = take_bit n (unat x)" by (metis unsigned_take_bit_eq)
  then show ?thesis by (metis take_bit_nat_less_exp)
qed

lemma index_bounds:
  "unat (drop_bit 9 (t AND 0x0600) :: u32) < 4" "unat (drop_bit 11 (t AND 0x1800) :: u32) < 4"
  "unat (drop_bit 6 (t AND 0x03C0) :: u32) < 16" "unat (drop_bit 9 (t AND 0xE00) :: u32) < 8"
  "unat (BITS t 6 7) < 4" "unat (drop_bit 11 (t AND 0xF800) :: u32) < 32"
  "unat (drop_bit 10 (t AND push_bit 11 1) OR drop_bit 8 (t AND push_bit 8 1) :: u32) < 4"
proof -
  have "drop_bit 9 (t AND 0x0600) AND mask 2 = drop_bit 9 (t AND 0x0600)"
    "drop_bit 11 (t AND 0x1800) AND mask 2 = drop_bit 11 (t AND 0x1800)"
    "drop_bit 6 (t AND 0x03C0) AND mask 4 = drop_bit 6 (t AND 0x03C0)"
    "drop_bit 9 (t AND 0xE00) AND mask 3 = drop_bit 9 (t AND 0xE00)"
    "BITS t 6 7 AND mask 2 = BITS t 6 7"
    "drop_bit 11 (t AND 0xF800) AND mask 5 = drop_bit 11 (t AND 0xF800)"
    "(drop_bit 10 (t AND push_bit 11 1) OR drop_bit 8 (t AND push_bit 8 1)) AND mask 2 =
      drop_bit 10 (t AND push_bit 11 1) OR drop_bit 8 (t AND push_bit 8 1)"
    by (rule word32_eqI, elim insertE emptyE, simp_all add: bit_simps BITS_def)+
  from this [THEN unat_field] show
    "unat (drop_bit 9 (t AND 0x0600) :: u32) < 4" "unat (drop_bit 11 (t AND 0x1800) :: u32) < 4"
    "unat (drop_bit 6 (t AND 0x03C0) :: u32) < 16" "unat (drop_bit 9 (t AND 0xE00) :: u32) < 8"
    "unat (BITS t 6 7) < 4" "unat (drop_bit 11 (t AND 0xF800) :: u32) < 32"
    "unat (drop_bit 10 (t AND push_bit 11 1) OR drop_bit 8 (t AND push_bit 8 1) :: u32) < 4"
    by simp_all
qed

lemma all_nth: "list_all P xs \<Longrightarrow> i < length xs \<Longrightarrow> P (xs ! i)"
  by (simp add: list_all_length)





















section \<open>Properties\<close>


text \<open>The opcode class of an instruction: its highest five bits.\<close>

definition thumb_class :: "u32 \<Rightarrow> nat" where
  "thumb_class t = unat (drop_bit 11 (t AND 0xF800))"

definition off5 :: "u32 \<Rightarrow> u32" where "off5 t = drop_bit 6 t AND 0x1F"

lemma low_bits_or: "a AND m = 0 \<Longrightarrow> (a OR r) AND m = (r :: u32) AND m"
  by (simp add: bit.conj_disj_distrib2)

lemma ldst_imm5_low: "ldst_imm5 t AND 0xFFF = (if bit t 12 then off5 t else push_bit 2 (off5 t))"
proof -
  have "list_all (\<lambda>a. a AND 0xFFF = 0) ldst_imm5_ops" by code_simp
  moreover have "unat (drop_bit 11 (t AND 0x1800)) < length ldst_imm5_ops"
    using index_bounds(2) [of t] by (simp add: ldst_imm5_ops_def)
  ultimately have "ldst_imm5_ops ! unat (drop_bit 11 (t AND 0x1800)) AND 0xFFF = 0" by (rule all_nth)
  then have "ldst_imm5 t AND 0xFFF = (push_bit 12 (t AND 0x0007)
     OR push_bit 13 (t AND 0x0038)
     OR drop_bit (6 - (if t AND push_bit 12 1 \<noteq> 0 then 0 else 2)) (t AND 0x07C0)) AND 0xFFF"
    unfolding ldst_imm5_def or.assoc by (rule low_bits_or)
  also have "\<dots> = (if bit t 12 then off5 t else push_bit 2 (off5 t))"
  proof -
    have "t AND push_bit 12 1 \<noteq> 0 \<longleftrightarrow> bit t 12"
      by (metis and.commute bit_0_eq bit_and_iff bit_iff_and_push_bit_not_eq_0 bot_apply)
    then show ?thesis
      by (rule_tac word32_eqI, elim insertE emptyE, simp_all add: off5_def bit_simps)
  qed
  finally show ?thesis .
qed

lemma bit_times_2: "bit (x * 2 :: u32) n \<longleftrightarrow> 0 < n \<and> n < 32 \<and> bit x (n - 1)"
  using bit_double_iff [of x n] by (auto simp: mult.commute)

lemma ldst_half_low: "(ldst_half t AND 0xF) OR drop_bit 4 (ldst_half t AND 0xF00) = push_bit 1 (off5 t)"
  by (rule word32_eqI, elim insertE emptyE, simp_all add: ldst_half_def off5_def bit_simps bit_times_2)

lemma ldst_sp_low: "ldst_sp t AND 0xFFF = push_bit 2 (t AND 0xFF)"
  by (rule word32_eqI, elim insertE emptyE, simp_all add: ldst_sp_def bit_simps)

lemma ldr_pc_low: "ldr_pc t AND 0xFFF = push_bit 2 (t AND 0xFF)"
  by (rule word32_eqI, elim insertE emptyE, simp_all add: ldr_pc_def bit_simps)

text \<open>Offsets of loads and stores are scaled by the size of what is moved, as the Thumb encoding
  asks: the immediate of a word access is four times the five or eight bits of the instruction, of
  a halfword access (whose ARM immediate is split in two nibbles) twice, of a byte access once.\<close>

theorem thumb_offset_scaling:
  "(thumb_class t \<in> {12, 13, 14, 15} \<longrightarrow>
     fst (translate_thumb t) AND 0xFFF = (if bit t 12 then off5 t else push_bit 2 (off5 t))) \<and>
   (thumb_class t \<in> {16, 17} \<longrightarrow>
     (fst (translate_thumb t) AND 0xF) OR drop_bit 4 (fst (translate_thumb t) AND 0xF00) = push_bit 1 (off5 t)) \<and>
   (thumb_class t \<in> {9, 18, 19} \<longrightarrow>
     fst (translate_thumb t) AND 0xFFF = push_bit 2 (t AND 0xFF))"
  unfolding translate_thumb_def Let_def thumb_class_def [symmetric]
  using ldst_imm5_low ldst_half_low ldst_sp_low ldr_pc_low by auto

lemma thumb_offset_scaling_witness:
  "fst (translate_thumb 0x6848) AND 0xFFF = 4"
proof -
  have "thumb_class 0x6848 \<in> {12, 13, 14, 15}" by (simp add: thumb_class_def)
  with thumb_offset_scaling [of "0x6848"]
  have "fst (translate_thumb 0x6848) AND 0xFFF =
    (if bit (0x6848 :: u32) 12 then off5 0x6848 else push_bit 2 (off5 0x6848))" by blast
  then show ?thesis by (simp add: off5_def)
qed

text \<open>Two encodings are not what the decoder's comments say. \<open>BKPT\<close> becomes a supervisor call
  (opcode \<open>0xEF\<close>), not the ARM breakpoint; and the hint space \<open>0xBFxx\<close> (\<open>NOP\<close> and \<open>IT\<close>) is not
  told apart from \<open>POP\<close>: a hint is executed as a pop of the program counter.\<close>

theorem thumb_bkpt_and_hints:
  "(t AND 0xFF00 = 0xBE00 \<longrightarrow> drop_bit 24 (fst (translate_thumb t)) = 0xEF) \<and>
   (t AND 0xFF00 = 0xBF00 \<longrightarrow> translate_thumb t = (0xE8BD8000 OR (t AND 0xFF), UNINITIALIZED))"
proof -
  have sub: "t AND m = h AND m" if "t AND 0xFF00 = h" "0xFF00 AND m = m" for h m
    using that by (metis and.assoc)
  have bkpt: "translate_thumb t = (0xEF000000 OR BITS t 0 3 OR push_bit 8 (BITS t 4 7), UNINITIALIZED)"
    if h: "t AND 0xFF00 = 0xBE00"
    using sub [OF h, of "0xF800"] sub [OF h, of "0x0F00"] by (simp add: translate_thumb_def misc_def)
  have "drop_bit 24 (0xEF000000 OR BITS t 0 3 OR push_bit 8 (BITS t 4 7)) = 0xEF"
    by (rule word32_eqI, elim insertE emptyE, simp_all add: BITS_def bit_simps)
  moreover have "translate_thumb t = (0xE8BD8000 OR (t AND 0xFF), UNINITIALIZED)"
    if h: "t AND 0xFF00 = 0xBF00"
    using sub [OF h, of "0xF800"] sub [OF h, of "0x0F00"] sub [OF h, of "push_bit 11 1"]
      sub [OF h, of "push_bit 8 1"]
    by (simp add: translate_thumb_def misc_def push_pop_def push_pop_ops_def)
  ultimately show ?thesis using bkpt by auto
qed

lemma thumb_bkpt_and_hints_witness: "translate_thumb 0xBF00 = (0xE8BD8000, UNINITIALIZED)"
  using thumb_bkpt_and_hints [of "0xBF00"] by simp

end
