(* ===== verification/ArmSupp.thy ===== *)
theory ArmSupp
  imports Prelude
begin

text \<open>
  The arithmetic of the interpreter, \<open>core/arm/skyeye_common/armsupp.cpp\<close>: additions with carry
  and overflow, and the saturating operations of the media instructions. Results that the code
  returns through pointers are components of a tuple.
\<close>

definition ARMul_UnsignedAbsoluteDifference :: "u8 \<Rightarrow> u8 \<Rightarrow> u8" where
  "ARMul_UnsignedAbsoluteDifference left right = (if left > right then left - right else right - left)"

text \<open>The result, whether a carry left bit 31, whether the signed sum overflowed.\<close>

definition AddWithCarry :: "u32 \<Rightarrow> u32 \<Rightarrow> u32 \<Rightarrow> u32 \<times> bool \<times> bool" where
  "AddWithCarry left right carry_in =
     (let unsigned_sum = ucast left + ucast right + ucast carry_in :: u64;
          signed_sum = scast left + scast right + ucast carry_in :: u64;
          result = unsigned_sum AND 0xFFFFFFFF
      in (ucast result, result \<noteq> unsigned_sum, scast (ucast result :: u32) \<noteq> signed_sum))"

definition NEG :: "u32 \<Rightarrow> bool" where "NEG i \<longleftrightarrow> drop_bit 31 i \<noteq> 0"
definition POS :: "u32 \<Rightarrow> bool" where "POS i \<longleftrightarrow> drop_bit 31 (NOT i) \<noteq> 0"

definition AddOverflow :: "u32 \<Rightarrow> u32 \<Rightarrow> u32 \<Rightarrow> bool" where
  "AddOverflow a b result \<longleftrightarrow> NEG a \<and> NEG b \<and> POS result \<or> POS a \<and> POS b \<and> NEG result"

definition SubOverflow :: "u32 \<Rightarrow> u32 \<Rightarrow> u32 \<Rightarrow> bool" where
  "SubOverflow a b result \<longleftrightarrow> NEG a \<and> POS b \<and> POS result \<or> POS a \<and> NEG b \<and> NEG result"

definition ARMul_AddOverflowQ :: "u32 \<Rightarrow> u32 \<Rightarrow> bool" where
  "ARMul_AddOverflowQ a b \<longleftrightarrow>
     (let result = a + b in (result XOR a) AND 0x80000000 \<noteq> 0 \<and> (a XOR b) AND 0x80000000 = 0)"

definition ARMul_SignedSaturatedAdd8 :: "u8 \<Rightarrow> u8 \<Rightarrow> u8" where
  "ARMul_SignedSaturatedAdd8 left right =
     (let result = left + right in
      if (result XOR left) AND 0x80 \<noteq> 0 \<and> (left XOR right) AND 0x80 = 0
      then (if left AND 0x80 \<noteq> 0 then 0x80 else 0x7F) else result)"

definition ARMul_SignedSaturatedSub8 :: "u8 \<Rightarrow> u8 \<Rightarrow> u8" where
  "ARMul_SignedSaturatedSub8 left right =
     (let result = left - right in
      if (result XOR left) AND 0x80 \<noteq> 0 \<and> (left XOR right) AND 0x80 \<noteq> 0
      then (if left AND 0x80 \<noteq> 0 then 0x80 else 0x7F) else result)"

definition ARMul_SignedSaturatedAdd16 :: "u16 \<Rightarrow> u16 \<Rightarrow> u16" where
  "ARMul_SignedSaturatedAdd16 left right =
     (let result = left + right in
      if (result XOR left) AND 0x8000 \<noteq> 0 \<and> (left XOR right) AND 0x8000 = 0
      then (if left AND 0x8000 \<noteq> 0 then 0x8000 else 0x7FFF) else result)"

definition ARMul_SignedSaturatedSub16 :: "u16 \<Rightarrow> u16 \<Rightarrow> u16" where
  "ARMul_SignedSaturatedSub16 left right =
     (let result = left - right in
      if (result XOR left) AND 0x8000 \<noteq> 0 \<and> (left XOR right) AND 0x8000 \<noteq> 0
      then (if left AND 0x8000 \<noteq> 0 then 0x8000 else 0x7FFF) else result)"

definition ARMul_UnsignedSaturatedAdd8 :: "u8 \<Rightarrow> u8 \<Rightarrow> u8" where
  "ARMul_UnsignedSaturatedAdd8 left right =
     (let result = left + right in if result < left then 0xFF else result)"

definition ARMul_UnsignedSaturatedAdd16 :: "u16 \<Rightarrow> u16 \<Rightarrow> u16" where
  "ARMul_UnsignedSaturatedAdd16 left right =
     (let result = left + right in if result < left then 0xFFFF else result)"

definition ARMul_UnsignedSaturatedSub8 :: "u8 \<Rightarrow> u8 \<Rightarrow> u8" where
  "ARMul_UnsignedSaturatedSub8 left right = (if left \<le> right then 0 else left - right)"

definition ARMul_UnsignedSaturatedSub16 :: "u16 \<Rightarrow> u16 \<Rightarrow> u16" where
  "ARMul_UnsignedSaturatedSub16 left right = (if left \<le> right then 0 else left - right)"

definition ARMul_SignedSatQ :: "u32 \<Rightarrow> nat \<Rightarrow> u32 \<times> bool" where
  "ARMul_SignedSatQ val shift =
     (let mx = push_bit shift 1 - 1 :: u32; top = sint (signed_drop_bit shift val) in
      if top > 0 then (mx, True)
      else if top < -1 then (NOT mx, True)
      else (val, False))"

definition ARMul_UnsignedSatQ :: "u32 \<Rightarrow> nat \<Rightarrow> u32 \<times> bool" where
  "ARMul_UnsignedSatQ val shift =
     (let mx = push_bit shift 1 - 1 :: u32 in
      if sint val < 0 then (0, True)
      else if val > mx then (mx, True)
      else (val, False))"

section \<open>Signs and wrap-around\<close>

definition clamp :: "int \<Rightarrow> int \<Rightarrow> int \<Rightarrow> int" where
  "clamp lo hi x = max lo (min hi x)"

lemma sign8: "(w AND 0x80 = 0) = (\<not> sint (w :: u8) < 0)"
  using bit_last_iff [of w] bit_iff_and_push_bit_not_eq_0 [of w 7] by (simp, blast)

lemma sign16: "(w AND 0x8000 = 0) = (\<not> sint (w :: u16) < 0)"
  using bit_last_iff [of w] bit_iff_and_push_bit_not_eq_0 [of w 15] by (simp, blast)

lemma sign32: "(w AND 0x80000000 = 0) = (\<not> sint (w :: u32) < 0)"
  using bit_last_iff [of w] bit_iff_and_push_bit_not_eq_0 [of w 31] by (simp, blast)

lemma sint_xor_neg: "sint ((a :: 'a :: len word) XOR b) < 0 \<longleftrightarrow> (sint a < 0) \<noteq> (sint b < 0)"
  unfolding bit_last_iff [symmetric] by (simp add: bit_simps)

lemma mod_wrap:
  fixes x :: int
  assumes "- m \<le> x" "x < 2 * m"
  shows "x mod m = (if x < 0 then x + m else if x < m then x else x - m)"
proof -
  have "0 < m" using assms by linarith
  have a: "x mod m = (x + m) mod m" by simp
  have b: "x mod m = (x - m) mod m" by (simp only: minus_mod_self2)
  consider "x < 0" | "0 \<le> x" "x < m" | "m \<le> x" by linarith
  then show ?thesis
  proof cases
    case 1 then show ?thesis unfolding a using assms by (simp only: if_True, intro mod_pos_pos_trivial) linarith+
  next
    case 2 then show ?thesis by simp
  next
    case 3 then show ?thesis unfolding b using assms \<open>0 < m\<close> by (subst mod_pos_pos_trivial) auto
  qed
qed

lemma sint_wrap8:
  "sint (a + b :: u8) = (sint a + sint b + 128) mod 256 - 128"
  "sint (a - b :: u8) = (sint a - sint b + 128) mod 256 - 128"
  by (simp_all only: sint_word_ariths signed_take_bit_eq_take_bit_shift take_bit_eq_mod) simp_all

lemma sint_wrap16:
  "sint (a + b :: u16) = (sint a + sint b + 32768) mod 65536 - 32768"
  "sint (a - b :: u16) = (sint a - sint b + 32768) mod 65536 - 32768"
  by (simp_all only: sint_word_ariths signed_take_bit_eq_take_bit_shift take_bit_eq_mod) simp_all

lemma sint_bounds8: "- 128 \<le> sint (w :: u8)" "sint w < 128"
  using sint_greater_eq [of w] sint_lt [of w] by simp_all

lemma sint_bounds16: "- 32768 \<le> sint (w :: u16)" "sint w < 32768"
  using sint_greater_eq [of w] sint_lt [of w] by simp_all

lemma wrap_add8: "sint (l + r :: u8) = (if 127 < sint l + sint r then sint l + sint r - 256
      else if sint l + sint r < - 128 then sint l + sint r + 256 else sint l + sint r)"
  unfolding sint_wrap8 using sint_bounds8 [of l] sint_bounds8 [of r] by (simp add: mod_wrap)

lemma sat_add8: "sint (ARMul_SignedSaturatedAdd8 l r) = clamp (- 128) 127 (sint l + sint r)"
proof -
  note b = sint_bounds8 [of l] sint_bounds8 [of r]
  have over: "((l + r) XOR l) AND 0x80 \<noteq> 0 \<and> (l XOR r) AND 0x80 = 0 \<longleftrightarrow>
      127 < sint l + sint r \<or> sint l + sint r < - 128"
    unfolding sign8 sint_xor_neg wrap_add8 not_not using b by (auto split: if_splits)
  have neg: "l AND 0x80 \<noteq> 0 \<longleftrightarrow> sint l < 0" unfolding sign8 by simp
  show ?thesis
  proof (cases "127 < sint l + sint r \<or> sint l + sint r < - 128")
    case True
    with b have "sint l < 0 \<longleftrightarrow> sint l + sint r < - 128" by auto
    with True show ?thesis unfolding ARMul_SignedSaturatedAdd8_def Let_def over neg clamp_def by auto
  next
    case False
    then show ?thesis unfolding ARMul_SignedSaturatedAdd8_def Let_def over clamp_def
      by (simp add: wrap_add8)
  qed
qed

lemma wrap_sub8: "sint (l - r :: u8) = (if 127 < sint l - sint r then sint l - sint r - 256
      else if sint l - sint r < - 128 then sint l - sint r + 256 else sint l - sint r)"
  unfolding sint_wrap8 using sint_bounds8 [of l] sint_bounds8 [of r] by (simp add: mod_wrap)

lemma sat_sub8: "sint (ARMul_SignedSaturatedSub8 l r) = clamp (- 128) 127 (sint l - sint r)"
proof -
  note b = sint_bounds8 [of l] sint_bounds8 [of r]
  have over: "((l - r) XOR l) AND 0x80 \<noteq> 0 \<and> (l XOR r) AND 0x80 \<noteq> 0 \<longleftrightarrow>
      127 < sint l - sint r \<or> sint l - sint r < - 128"
    unfolding sign8 sint_xor_neg wrap_sub8 not_not using b by (auto split: if_splits)
  have neg: "l AND 0x80 \<noteq> 0 \<longleftrightarrow> sint l < 0" unfolding sign8 by simp
  show ?thesis
  proof (cases "127 < sint l - sint r \<or> sint l - sint r < - 128")
    case True
    with b have "sint l < 0 \<longleftrightarrow> sint l - sint r < - 128" by auto
    with True show ?thesis unfolding ARMul_SignedSaturatedSub8_def Let_def over neg clamp_def by auto
  next
    case False
    then show ?thesis unfolding ARMul_SignedSaturatedSub8_def Let_def over clamp_def
      by (simp add: wrap_sub8)
  qed
qed

lemma wrap_add16: "sint (l + r :: u16) = (if 32767 < sint l + sint r then sint l + sint r - 65536
      else if sint l + sint r < - 32768 then sint l + sint r + 65536 else sint l + sint r)"
  unfolding sint_wrap16 using sint_bounds16 [of l] sint_bounds16 [of r] by (simp add: mod_wrap)

lemma sat_add16: "sint (ARMul_SignedSaturatedAdd16 l r) = clamp (- 32768) 32767 (sint l + sint r)"
proof -
  note b = sint_bounds16 [of l] sint_bounds16 [of r]
  have over: "((l + r) XOR l) AND 0x8000 \<noteq> 0 \<and> (l XOR r) AND 0x8000 = 0 \<longleftrightarrow>
      32767 < sint l + sint r \<or> sint l + sint r < - 32768"
    unfolding sign16 sint_xor_neg wrap_add16 not_not using b by (auto split: if_splits)
  have neg: "l AND 0x8000 \<noteq> 0 \<longleftrightarrow> sint l < 0" unfolding sign16 by simp
  show ?thesis
  proof (cases "32767 < sint l + sint r \<or> sint l + sint r < - 32768")
    case True
    with b have "sint l < 0 \<longleftrightarrow> sint l + sint r < - 32768" by auto
    with True show ?thesis unfolding ARMul_SignedSaturatedAdd16_def Let_def over neg clamp_def by auto
  next
    case False
    then show ?thesis unfolding ARMul_SignedSaturatedAdd16_def Let_def over clamp_def
      by (simp add: wrap_add16)
  qed
qed

lemma wrap_sub16: "sint (l - r :: u16) = (if 32767 < sint l - sint r then sint l - sint r - 65536
      else if sint l - sint r < - 32768 then sint l - sint r + 65536 else sint l - sint r)"
  unfolding sint_wrap16 using sint_bounds16 [of l] sint_bounds16 [of r] by (simp add: mod_wrap)

lemma sat_sub16: "sint (ARMul_SignedSaturatedSub16 l r) = clamp (- 32768) 32767 (sint l - sint r)"
proof -
  note b = sint_bounds16 [of l] sint_bounds16 [of r]
  have over: "((l - r) XOR l) AND 0x8000 \<noteq> 0 \<and> (l XOR r) AND 0x8000 \<noteq> 0 \<longleftrightarrow>
      32767 < sint l - sint r \<or> sint l - sint r < - 32768"
    unfolding sign16 sint_xor_neg wrap_sub16 not_not using b by (auto split: if_splits)
  have neg: "l AND 0x8000 \<noteq> 0 \<longleftrightarrow> sint l < 0" unfolding sign16 by simp
  show ?thesis
  proof (cases "32767 < sint l - sint r \<or> sint l - sint r < - 32768")
    case True
    with b have "sint l < 0 \<longleftrightarrow> sint l - sint r < - 32768" by auto
    with True show ?thesis unfolding ARMul_SignedSaturatedSub16_def Let_def over neg clamp_def by auto
  next
    case False
    then show ?thesis unfolding ARMul_SignedSaturatedSub16_def Let_def over clamp_def
      by (simp add: wrap_sub16)
  qed
qed

lemma uint_minus: "uint b \<le> uint a \<Longrightarrow> uint (a - b :: 'a :: len word) = uint a - uint b"
  by (simp add: word_le_def flip: uint_sub_lem)

lemma sat_unsigned8:
  "uint (ARMul_UnsignedSaturatedAdd8 l r) = clamp 0 255 (uint l + uint r)"
  "uint (ARMul_UnsignedSaturatedSub8 l r) = clamp 0 255 (uint l - uint r)"
proof -
  have b: "0 \<le> uint l" "uint l < 256" "0 \<le> uint r" "uint r < 256"
    using uint_lt2p [of l] uint_lt2p [of r] by simp_all
  then have w: "uint (l + r) = (if uint l + uint r < 256 then uint l + uint r else uint l + uint r - 256)"
    by (simp add: uint_word_arith_bintrs take_bit_eq_mod mod_wrap)
  show "uint (ARMul_UnsignedSaturatedAdd8 l r) = clamp 0 255 (uint l + uint r)"
    using b unfolding ARMul_UnsignedSaturatedAdd8_def Let_def clamp_def word_less_def w
    by (simp add: w)
  show "uint (ARMul_UnsignedSaturatedSub8 l r) = clamp 0 255 (uint l - uint r)"
  proof (cases "uint l \<le> uint r")
    case False
    moreover have "min 255 (uint l - uint r) = uint l - uint r" using b by linarith
    ultimately show ?thesis using uint_minus [of r l]
      by (simp add: ARMul_UnsignedSaturatedSub8_def clamp_def word_le_def)
  qed (simp add: ARMul_UnsignedSaturatedSub8_def clamp_def word_le_def)
qed

lemma sat_unsigned16:
  "uint (ARMul_UnsignedSaturatedAdd16 l r) = clamp 0 65535 (uint l + uint r)"
  "uint (ARMul_UnsignedSaturatedSub16 l r) = clamp 0 65535 (uint l - uint r)"
proof -
  have b: "0 \<le> uint l" "uint l < 65536" "0 \<le> uint r" "uint r < 65536"
    using uint_lt2p [of l] uint_lt2p [of r] by simp_all
  then have w: "uint (l + r) = (if uint l + uint r < 65536 then uint l + uint r else uint l + uint r - 65536)"
    by (simp add: uint_word_arith_bintrs take_bit_eq_mod mod_wrap)
  show "uint (ARMul_UnsignedSaturatedAdd16 l r) = clamp 0 65535 (uint l + uint r)"
    using b unfolding ARMul_UnsignedSaturatedAdd16_def Let_def clamp_def word_less_def w
    by (simp add: w)
  show "uint (ARMul_UnsignedSaturatedSub16 l r) = clamp 0 65535 (uint l - uint r)"
  proof (cases "uint l \<le> uint r")
    case False
    moreover have "min 65535 (uint l - uint r) = uint l - uint r" using b by linarith
    ultimately show ?thesis using uint_minus [of r l]
      by (simp add: ARMul_UnsignedSaturatedSub16_def clamp_def word_le_def)
  qed (simp add: ARMul_UnsignedSaturatedSub16_def clamp_def word_le_def)
qed

lemma abs_difference: "uint (ARMul_UnsignedAbsoluteDifference a b) = \<bar>uint a - uint b\<bar>"
  by (simp add: ARMul_UnsignedAbsoluteDifference_def word_less_def uint_minus)

section \<open>The carry and the saturations to a number of bits\<close>

lemma sint32_b: "- (2^31) \<le> sint (w :: u32)" "sint w < 2^31" "uint w < 2^32"
  using sint_greater_eq [of w] sint_lt [of w] uint_lt2p [of w] by simp_all

lemma uint_ucast_up: "uint (ucast (w :: u32) :: u64) = uint w"
  by (simp add: unsigned_ucast_eq take_bit_int_eq_self_iff order_less_trans [OF uint_lt2p])

lemma sint_scast_up: "sint (scast (w :: u32) :: u64) = sint w"
  using sint_greater_eq [of w] sint_lt [of w] by (simp add: signed_scast_eq signed_take_bit_int_eq_self_iff)

lemma pow31: "(2 :: int) ^ 31 = 2147483648" and pow63: "(2 :: int) ^ 63 = 9223372036854775808"
  by simp_all

lemma sint_small64: "- (2^63) \<le> x \<Longrightarrow> x < 2^63 \<Longrightarrow> sint (word_of_int x :: u64) = x"
  by (simp add: signed_of_int signed_take_bit_int_eq_self)

lemma AddWithCarry_sum:
  assumes "carry_in \<le> 1" "AddWithCarry l r carry_in = (res, carry, overflow)"
  shows "uint l + uint r + uint carry_in = uint res + (if carry then 2 ^ 32 else 0)"
    "overflow \<longleftrightarrow> sint l + sint r + uint carry_in \<noteq> sint res"
proof -
  have c: "uint carry_in \<le> 1" using assms(1) by (simp add: word_le_def)
  define U :: u64 where "U = ucast l + ucast r + ucast carry_in"
  have U: "uint U = uint l + uint r + uint carry_in"
    unfolding U_def using c sint32_b(3) [of l] sint32_b(3) [of r]
    by (simp add: uint_word_arith_bintrs uint_ucast_up take_bit_int_eq_self)
  have R: "uint (U AND 0xFFFFFFFF) = uint U mod 2^32"
    using take_bit_eq_mask [of 32 "uint U"] by (simp add: uint_and take_bit_eq_mod mask_eq_exp_minus_1)
  define S :: u64 where "S = scast l + scast r + ucast carry_in"
  have S: "sint S = sint l + sint r + uint carry_in"
  proof -
    have "S = word_of_int (sint l + sint r + uint carry_in)"
      unfolding S_def by (simp only: scast_eq ucast_eq of_int_add)
    moreover have "- (2^63) \<le> sint l + sint r + uint carry_in" "sint l + sint r + uint carry_in < 2^63"
      using c sint32_b(1,2) [of l] sint32_b(1,2) [of r] uint_ge_0 [of carry_in]
      unfolding pow31 pow63 by (linarith, linarith)
    ultimately show ?thesis by (simp only: sint_small64)
  qed
  have *: "res = ucast (U AND 0xFFFFFFFF)" "carry \<longleftrightarrow> U AND 0xFFFFFFFF \<noteq> U" "overflow \<longleftrightarrow> scast res \<noteq> S"
    using assms(2) unfolding AddWithCarry_def Let_def U_def [symmetric] S_def [symmetric] by auto
  have res: "uint res = uint U mod 2^32" unfolding *(1) by (simp add: unsigned_ucast_eq R take_bit_eq_mod)
  have "carry \<longleftrightarrow> uint U mod 2^32 \<noteq> uint U" unfolding *(2) R [symmetric] by (simp only: word_uint_eq_iff)
  moreover have "0 \<le> uint U" "uint U < 2 * 2 ^ 32"
    using c sint32_b(3) [of l] sint32_b(3) [of r] unfolding U by (simp, linarith)
  ultimately show "uint l + uint r + uint carry_in = uint res + (if carry then 2 ^ 32 else 0)"
    using mod_wrap [OF order_trans [OF _ \<open>0 \<le> uint U\<close>], of "2 ^ 32"] unfolding res U [symmetric]
    by (simp split: if_splits)
  show "overflow \<longleftrightarrow> sint l + sint r + uint carry_in \<noteq> sint res"
    unfolding *(3) S [symmetric] sint_scast_up [of res, symmetric] by (metis signed_word_eqI)
qed

text \<open>The three overflow predicates on the wrapped sum or difference.\<close>

lemma NEG_iff: "NEG w \<longleftrightarrow> sint w < 0" and POS_iff: "POS w \<longleftrightarrow> 0 \<le> sint w"
proof -
  have n: "drop_bit 31 v \<noteq> 0 \<longleftrightarrow> bit v 31" for v :: u32
  proof -
    have "bit (drop_bit 31 v) n = bit (of_bool (bit v 31) :: u32) n" for n
      by (cases n) (auto simp: bit_simps dest: bit_imp_le_length)
    then have "drop_bit 31 v = of_bool (bit v 31)" by (intro bit_word_eqI)
    then show ?thesis by simp
  qed
  show "NEG w \<longleftrightarrow> sint w < 0" unfolding NEG_def n using bit_last_iff [of w] by simp
  show "POS w \<longleftrightarrow> 0 \<le> sint w" unfolding POS_def n using bit_last_iff [of w] by (simp add: bit_simps not_less)
qed

lemma sint_wrap32:
  "sint (a + b :: u32) = (sint a + sint b + 2147483648) mod 4294967296 - 2147483648"
  "sint (a - b :: u32) = (sint a - sint b + 2147483648) mod 4294967296 - 2147483648"
  by (simp_all only: sint_word_ariths signed_take_bit_eq_take_bit_shift take_bit_eq_mod) simp_all

lemma AddOverflow_iff:
  "AddOverflow a b (a + b) \<longleftrightarrow> sint a + sint b < - (2 ^ 31) \<or> 2 ^ 31 \<le> sint a + sint b"
  unfolding AddOverflow_def NEG_iff POS_iff sint_wrap32 pow31
  using sint32_b(1,2) [of a] sint32_b(1,2) [of b] by (auto simp: mod_wrap)

lemma SubOverflow_iff:
  "SubOverflow a b (a - b) \<longleftrightarrow> sint a - sint b < - (2 ^ 31) \<or> 2 ^ 31 \<le> sint a - sint b"
  unfolding SubOverflow_def NEG_iff POS_iff sint_wrap32 pow31
  using sint32_b(1,2) [of a] sint32_b(1,2) [of b] by (auto simp: mod_wrap)

lemma AddOverflowQ_iff: "ARMul_AddOverflowQ a b \<longleftrightarrow> AddOverflow a b (a + b)"
  unfolding ARMul_AddOverflowQ_def AddOverflow_def Let_def sign32 sint_xor_neg NEG_iff POS_iff by auto

lemma max_word:
  assumes "shift \<le> 31"
  shows "uint (push_bit shift 1 - 1 :: u32) = 2 ^ shift - 1"
    "sint (push_bit shift 1 - 1 :: u32) = 2 ^ shift - 1"
    "sint (NOT (push_bit shift 1 - 1 :: u32)) = - (2 ^ shift)"
proof -
  have le: "(2::int) ^ shift \<le> 2 ^ 31" by (rule power_increasing) (use assms in auto)
  have ge: "(1::int) \<le> 2 ^ shift" by simp
  have "push_bit shift 1 - 1 = (mask shift :: u32)" by (simp add: mask_eq_exp_minus_1 push_bit_eq_mult)
  then have "(push_bit shift 1 - 1 :: u32) = word_of_int (2 ^ shift - 1)" 
    by (simp add: mask_eq_exp_minus_1)
  then show u: "uint (push_bit shift 1 - 1 :: u32) = 2 ^ shift - 1"
    using le by (simp only: uint_word_of_int) (simp add: mod_pos_pos_trivial take_bit_int_eq_self)
  show s: "sint (push_bit shift 1 - 1 :: u32) = 2 ^ shift - 1"
    unfolding sint_uint u using le ge by (intro signed_take_bit_int_eq_self; simp; linarith)
  show "sint (NOT (push_bit shift 1 - 1 :: u32)) = - (2 ^ shift)"
    proof -
    have "sint (NOT (push_bit shift 1 - 1 :: u32)) = signed_take_bit 32 (- (2 ^ shift))"
      unfolding signed_not_eq s by (simp add: not_int_def)
    also have "\<dots> = - (2 ^ shift)"
    proof (rule signed_take_bit_int_eq_self)
      have e: "(2 :: int) ^ 32 = 2 * 2 ^ 31" by simp
      show "- (2 ^ 32) \<le> - ((2 :: int) ^ shift)" "- ((2 :: int) ^ shift) < 2 ^ 32"
        using le ge unfolding e by (linarith, linarith)
    qed
    finally show ?thesis .
  qed
qed

lemma SatQ_signed:
  assumes "shift \<le> 31" "ARMul_SignedSatQ v shift = (s, sat)"
  shows "sint s = clamp (- (2 ^ shift)) (2 ^ shift - 1) (sint v)" "sat \<longleftrightarrow> s \<noteq> v"
proof -
  define p :: int where "p = 2 ^ shift"
  have p: "0 < p" by (simp add: p_def)
  have top: "sint (signed_drop_bit shift v) = sint v div p"
    by (simp add: sint_signed_drop_bit_eq drop_bit_eq_div p_def)
  define mx :: u32 where "mx = push_bit shift 1 - 1"
  have m: "sint mx = p - 1" "sint (NOT mx) = - p"
    using max_word [OF assms(1)] by (simp_all add: p_def mx_def)
  have hi: "0 < sint v div p \<longleftrightarrow> p \<le> sint v" using p by (rule pos_imp_zdiv_pos_iff)
  have lo: "sint v div p < - 1 \<longleftrightarrow> sint v < - p"
    using pos_imp_zdiv_nonneg_iff [OF p, of "sint v + p"] p by (simp add: div_add_self2) linarith
  show "sint s = clamp (- (2 ^ shift)) (2 ^ shift - 1) (sint v)"
    using assms(2) p unfolding ARMul_SignedSatQ_def Let_def mx_def [symmetric] top hi lo p_def [symmetric] clamp_def
    using m by (auto split: if_splits)
  show "sat \<longleftrightarrow> s \<noteq> v"
    using assms(2) p m unfolding ARMul_SignedSatQ_def Let_def mx_def [symmetric] top hi lo
    by (auto split: if_splits)
qed

lemma SatQ_unsigned:
  assumes "shift \<le> 31" "ARMul_UnsignedSatQ v shift = (u, sat)"
  shows "uint u = clamp 0 (2 ^ shift - 1) (sint v)" "sat \<longleftrightarrow> u \<noteq> v"
proof -
  define p :: int where "p = 2 ^ shift"
  have p: "0 < p" by (simp add: p_def)
  define mx :: u32 where "mx = push_bit shift 1 - 1"
  have m: "uint mx = p - 1"
    using max_word [OF assms(1)] by (simp add: p_def mx_def)
  have v: "uint v = sint v" if "0 \<le> sint v"
    using that sint32_b [of v] by (simp only: uint_sint) (simp add: take_bit_int_eq_self)
  show "uint u = clamp 0 (2 ^ shift - 1) (sint v)"
    using assms(2) p v unfolding ARMul_UnsignedSatQ_def Let_def mx_def [symmetric] word_less_def m p_def [symmetric] clamp_def
    using m by (auto split: if_splits)
  show "sat \<longleftrightarrow> u \<noteq> v"
    using assms(2) p v unfolding ARMul_UnsignedSatQ_def Let_def mx_def [symmetric] word_less_def m
    using m by (auto split: if_splits)
qed
section \<open>Properties\<close>

text \<open>C35: The saturating operations of the media instructions compute the exact sum or difference and
  clamp it to the range of the type, with and without sign, on bytes and halfwords; the operation for
  absolute differences never wraps.\<close>

theorem saturating_is_clamping:
  "sint (ARMul_SignedSaturatedAdd8 a b) = clamp (-128) 127 (sint a + sint b) \<and>
   sint (ARMul_SignedSaturatedSub8 a b) = clamp (-128) 127 (sint a - sint b) \<and>
   sint (ARMul_SignedSaturatedAdd16 c d) = clamp (-32768) 32767 (sint c + sint d) \<and>
   sint (ARMul_SignedSaturatedSub16 c d) = clamp (-32768) 32767 (sint c - sint d) \<and>
   uint (ARMul_UnsignedSaturatedAdd8 a b) = clamp 0 255 (uint a + uint b) \<and>
   uint (ARMul_UnsignedSaturatedSub8 a b) = clamp 0 255 (uint a - uint b) \<and>
   uint (ARMul_UnsignedSaturatedAdd16 c d) = clamp 0 65535 (uint c + uint d) \<and>
   uint (ARMul_UnsignedSaturatedSub16 c d) = clamp 0 65535 (uint c - uint d) \<and>
   uint (ARMul_UnsignedAbsoluteDifference a b) = \<bar>uint a - uint b\<bar>"
  by (intro conjI sat_add8 sat_sub8 sat_add16 sat_sub16 sat_unsigned8 sat_unsigned16 abs_difference)

text \<open>C37: \<open>AddWithCarry\<close> is exact: its result and its carry are the sum of the operands and the carry
  in as a 33-bit number, and its overflow flag says whether the signed sum left 32 bits.\<close>

theorem AddWithCarry_exact:
  assumes "carry_in \<le> 1" "AddWithCarry l r carry_in = (res, carry, overflow)"
  shows "uint l + uint r + uint carry_in = uint res + (if carry then 2 ^ 32 else 0) \<and>
    (overflow \<longleftrightarrow> sint l + sint r + uint carry_in \<noteq> sint res)"
  using AddWithCarry_sum [OF assms] by (rule conjI)

theorem AddWithCarry_exact_witness:
  "uint (0x7FFFFFFF :: u32) + uint (1 :: u32) + uint (0 :: u32) =
     uint (0x80000000 :: u32) + (if False then 2 ^ 32 else 0) \<and>
   (True \<longleftrightarrow> sint (0x7FFFFFFF :: u32) + sint (1 :: u32) + uint (0 :: u32) \<noteq> sint (0x80000000 :: u32))"
  by (rule AddWithCarry_exact) (simp, code_simp)

text \<open>The saturations to a number of bits clamp too, and report exactly when they changed the value.\<close>

theorem SatQ_clamps:
  assumes "shift \<le> 31" "ARMul_SignedSatQ v shift = (s, sat)" "ARMul_UnsignedSatQ v shift = (u, usat)"
  shows "sint s = clamp (- (2 ^ shift)) (2 ^ shift - 1) (sint v) \<and> (sat \<longleftrightarrow> s \<noteq> v) \<and>
      uint u = clamp 0 (2 ^ shift - 1) (sint v) \<and> (usat \<longleftrightarrow> u \<noteq> v)"
  using SatQ_signed [OF assms(1,2)] SatQ_unsigned [OF assms(1,3)] by blast

theorem SatQ_clamps_witness:
  "sint (0xFFFFFF80 :: u32) = clamp (- (2 ^ 7)) (2 ^ 7 - 1) (sint (0xFFFFFF00 :: u32)) \<and>
   (True \<longleftrightarrow> 0xFFFFFF80 \<noteq> (0xFFFFFF00 :: u32)) \<and>
   uint (0 :: u32) = clamp 0 (2 ^ 7 - 1) (sint (0xFFFFFF00 :: u32)) \<and>
   (True \<longleftrightarrow> 0 \<noteq> (0xFFFFFF00 :: u32))"
  by (rule SatQ_clamps) (simp, code_simp, code_simp)

end
