(* ===== verification/MemorySystem.thy ===== *)
theory MemorySystem
  imports MemoryMap
begin

text \<open>
  The memory system, \<open>core/memory.cpp\<close> and \<open>memory.h\<close>: page tables, accesses of the guest through
  them, block transfers, the physical address map and the pages that the rasterizer caches.

  Host memory is a function from addresses to bytes, a host pointer is a number and 0 is the null
  pointer; a \<open>MemoryRef\<close> is its pointer and the bytes that its backing memory has from there on.
  Page tables are in a store and named by numbers, since processes share them with the memory system.
  Code that lies elsewhere is a field of \<open>memory_env\<close>: the rasterizer (\<open>None\<close> is a renderer that is
  not there), the devices behind memory-mapped regions, and the registers of the \<open>HW\<close> namespace.
\<close>

section \<open>Data\<close>

record memory_ref =
  GetPtr :: nat
  ref_size :: nat

definition null_ref :: memory_ref where "null_ref = \<lparr>GetPtr = 0, ref_size = 0\<rparr>"

definition ref_plus :: "memory_ref \<Rightarrow> nat \<Rightarrow> memory_ref run" where
  "ref_plus r n = (if n < ref_size r then Some \<lparr>GetPtr = GetPtr r + n, ref_size = ref_size r - n\<rparr> else None)"

datatype PageType = Unmapped | Memory | RasterizerCachedMemory | Special

datatype Region = FCRAM | VRAM | DSP | N3DS

datatype FlushMode = Flush | Invalidate | FlushAndInvalidate

text \<open>The handler of a memory-mapped region is an object elsewhere; it is named by a number.\<close>

type_synonym mmio_handler = nat

record special_region =
  sr_base :: nat
  sr_size :: nat
  sr_handler :: mmio_handler

record page_table =
  pointers :: "nat \<Rightarrow> memory_ref"
  special_regions :: "special_region list"
  attributes :: "nat \<Rightarrow> PageType"

text \<open>One flag of the rasterizer cache marker: the array and the index in it.\<close>

datatype marker_slot = vram_flag nat | linear_heap_flag nat | new_linear_heap_flag nat | plugin_fb_flag nat

record 'd memory_system =
  host :: "nat \<Rightarrow> u8"
  region_ptr :: "Region \<Rightarrow> nat"
  cache_marker :: "marker_slot \<Rightarrow> bool"
  tables :: "nat \<Rightarrow> page_table"
  page_table_list :: "nat list"
  current_page_table :: nat
  plugin_fb_addr :: nat
  devices :: 'd

text \<open>The environment: accesses to devices give and take as many bytes as the access has.\<close>

record 'd memory_env =
  rasterizer :: "(FlushMode \<Rightarrow> nat \<Rightarrow> nat \<Rightarrow> 'd memory_system \<Rightarrow> 'd memory_system) option"
  mmio_read :: "mmio_handler \<Rightarrow> nat \<Rightarrow> nat \<Rightarrow> 'd memory_system \<Rightarrow> u8 list \<times> 'd memory_system"
  mmio_write :: "mmio_handler \<Rightarrow> nat \<Rightarrow> u8 list \<Rightarrow> 'd memory_system \<Rightarrow> 'd memory_system"
  mmio_valid :: "mmio_handler \<Rightarrow> nat \<Rightarrow> 'd memory_system \<Rightarrow> bool"
  hw_read :: "nat \<Rightarrow> nat \<Rightarrow> 'd memory_system \<Rightarrow> u8 list \<times> 'd memory_system"
  hw_write :: "nat \<Rightarrow> u8 list \<Rightarrow> 'd memory_system \<Rightarrow> 'd memory_system"

definition PageTable_Clear :: "page_table \<Rightarrow> page_table" where
  "PageTable_Clear pt = pt\<lparr>pointers := (\<lambda>_. null_ref), attributes := (\<lambda>_. Unmapped)\<rparr>"

section \<open>The rasterizer cache marker\<close>

definition At :: "nat \<Rightarrow> marker_slot option" where
  "At addr =
     (if addr \<ge> VRAM_VADDR \<and> addr < VRAM_VADDR_END
      then Some (vram_flag ((addr - VRAM_VADDR) div CITRA_PAGE_SIZE))
      else if addr \<ge> LINEAR_HEAP_VADDR \<and> addr < LINEAR_HEAP_VADDR_END
      then Some (linear_heap_flag ((addr - LINEAR_HEAP_VADDR) div CITRA_PAGE_SIZE))
      else if addr \<ge> NEW_LINEAR_HEAP_VADDR \<and> addr < NEW_LINEAR_HEAP_VADDR_END
      then Some (new_linear_heap_flag ((addr - NEW_LINEAR_HEAP_VADDR) div CITRA_PAGE_SIZE))
      else if addr \<ge> PLUGIN_3GX_FB_VADDR \<and> addr < PLUGIN_3GX_FB_VADDR_END
      then Some (plugin_fb_flag ((addr - PLUGIN_3GX_FB_VADDR) div CITRA_PAGE_SIZE))
      else None)"

definition Mark :: "nat \<Rightarrow> bool \<Rightarrow> 'd memory_system \<Rightarrow> 'd memory_system" where
  "Mark addr cached ms =
     (case At addr of None \<Rightarrow> ms | Some p \<Rightarrow> ms\<lparr>cache_marker := (cache_marker ms)(p := cached)\<rparr>)"

definition IsCached :: "nat \<Rightarrow> 'd memory_system \<Rightarrow> bool" where
  "IsCached addr ms = (case At addr of None \<Rightarrow> False | Some p \<Rightarrow> cache_marker ms p)"

section \<open>Backing memory\<close>

definition GetSize :: "Region \<Rightarrow> nat" where
  "GetSize r = (case r of VRAM \<Rightarrow> VRAM_SIZE | DSP \<Rightarrow> DSP_RAM_SIZE | FCRAM \<Rightarrow> FCRAM_N3DS_SIZE
                        | N3DS \<Rightarrow> N3DS_EXTRA_RAM_SIZE)"

text \<open>\<open>MemoryRef\<close> with an offset into one of the four regions.\<close>

definition region_ref :: "Region \<Rightarrow> nat \<Rightarrow> 'd memory_system \<Rightarrow> memory_ref run" where
  "region_ref r offset ms =
     (if offset \<le> GetSize r
      then Some \<lparr>GetPtr = region_ptr ms r + offset, ref_size = GetSize r - offset\<rparr> else None)"

definition GetMMIOHandler :: "page_table \<Rightarrow> nat \<Rightarrow> mmio_handler run" where
  "GetMMIOHandler pt vaddr =
     map_option sr_handler
       (List.find (\<lambda>r. vaddr \<ge> sr_base r \<and> vaddr < add32 (sr_base r) (sr_size r)) (special_regions pt))"

definition GetPointerForRasterizerCache :: "nat \<Rightarrow> 'd memory_system \<Rightarrow> memory_ref run" where
  "GetPointerForRasterizerCache addr ms =
     (if addr \<ge> LINEAR_HEAP_VADDR \<and> addr < LINEAR_HEAP_VADDR_END
      then region_ref FCRAM (addr - LINEAR_HEAP_VADDR) ms
      else if addr \<ge> NEW_LINEAR_HEAP_VADDR \<and> addr < NEW_LINEAR_HEAP_VADDR_END
      then region_ref FCRAM (addr - NEW_LINEAR_HEAP_VADDR) ms
      else if addr \<ge> VRAM_VADDR \<and> addr < VRAM_VADDR_END
      then region_ref VRAM (addr - VRAM_VADDR) ms
      else if addr \<ge> PLUGIN_3GX_FB_VADDR \<and> addr < PLUGIN_3GX_FB_VADDR_END
      then region_ref FCRAM (sub32 (add32 (addr - PLUGIN_3GX_FB_VADDR) (plugin_fb_addr ms)) FCRAM_PADDR) ms
      else None)"

definition GetFCRAMOffset :: "nat \<Rightarrow> 'd memory_system \<Rightarrow> nat run" where
  "GetFCRAMOffset p ms =
     (if p \<ge> region_ptr ms FCRAM \<and> p \<le> region_ptr ms FCRAM + FCRAM_N3DS_SIZE
      then Some (p - region_ptr ms FCRAM) else None)"

definition GetFCRAMPointer :: "nat \<Rightarrow> 'd memory_system \<Rightarrow> nat run" where
  "GetFCRAMPointer offset ms =
     (if offset \<le> FCRAM_N3DS_SIZE then Some (region_ptr ms FCRAM + offset) else None)"

definition GetFCRAMRef :: "nat \<Rightarrow> 'd memory_system \<Rightarrow> memory_ref run" where
  "GetFCRAMRef offset ms =
     do { assert_that (offset \<le> FCRAM_N3DS_SIZE); region_ref FCRAM offset ms }"

section \<open>Flushing what the rasterizer caches\<close>

text \<open>\<open>CheckRegion\<close>, the closure inside \<open>RasterizerFlushVirtualRegion\<close>.\<close>

definition CheckRegion ::
  "(FlushMode \<Rightarrow> nat \<Rightarrow> nat \<Rightarrow> 'd memory_system \<Rightarrow> 'd memory_system) \<Rightarrow> FlushMode \<Rightarrow> nat \<Rightarrow> nat \<Rightarrow>
   nat \<Rightarrow> nat \<Rightarrow> nat \<Rightarrow> 'd memory_system \<Rightarrow> 'd memory_system" where
  "CheckRegion rast mode start fin region_start region_end paddr_region_start ms =
     (if start \<ge> region_end \<or> fin \<le> region_start then ms
      else
        let overlap_start = max start region_start;
            overlap_end = min fin region_end;
            physical_start = add32 paddr_region_start (overlap_start - region_start);
            overlap_size = sub32 overlap_end overlap_start
        in rast mode physical_start overlap_size ms)"

definition RasterizerFlushVirtualRegion ::
  "'d memory_env \<Rightarrow> nat \<Rightarrow> nat \<Rightarrow> FlushMode \<Rightarrow> 'd memory_system \<Rightarrow> 'd memory_system" where
  "RasterizerFlushVirtualRegion env start sz mode ms =
     (case rasterizer env of
        None \<Rightarrow> ms
      | Some rast \<Rightarrow>
          let fin = add32 start sz;
              check = CheckRegion rast mode start fin;
              ms1 = check LINEAR_HEAP_VADDR LINEAR_HEAP_VADDR_END FCRAM_PADDR ms;
              ms2 = check NEW_LINEAR_HEAP_VADDR NEW_LINEAR_HEAP_VADDR_END FCRAM_PADDR ms1;
              ms3 = check VRAM_VADDR VRAM_VADDR_END VRAM_PADDR ms2
          in if plugin_fb_addr ms3 \<noteq> 0
             then check PLUGIN_3GX_FB_VADDR PLUGIN_3GX_FB_VADDR_END (plugin_fb_addr ms3) ms3
             else ms3)"

section \<open>Mapping\<close>

definition upd_table :: "nat \<Rightarrow> (page_table \<Rightarrow> page_table) \<Rightarrow> 'd memory_system \<Rightarrow> 'd memory_system" where
  "upd_table i f ms = ms\<lparr>tables := (tables ms)(i := f (tables ms i))\<rparr>"

definition set_page :: "nat \<Rightarrow> PageType \<Rightarrow> memory_ref \<Rightarrow> page_table \<Rightarrow> page_table" where
  "set_page page type r pt =
     pt\<lparr>attributes := (attributes pt)(page := type), pointers := (pointers pt)(page := r)\<rparr>"

text \<open>The loop of \<open>MapPages\<close>: it runs as many times as \<open>end - base\<close>, which is the size.\<close>

primrec map_pages :: "nat \<Rightarrow> nat \<Rightarrow> nat \<Rightarrow> memory_ref \<Rightarrow> PageType \<Rightarrow> 'd memory_system \<Rightarrow> 'd memory_system run" where
  "map_pages t base 0 memory type ms = Some ms"
| "map_pages t base (Suc n) memory type ms =
     do {
       assert_that (base < PAGE_TABLE_NUM_ENTRIES);
       let ms' =
         (if type = Memory \<and> IsCached (base * CITRA_PAGE_SIZE) ms
          then upd_table t (set_page base RasterizerCachedMemory null_ref) ms
          else upd_table t (set_page base type memory) ms);
       memory' \<leftarrow> (if GetPtr memory \<noteq> 0 \<and> ref_size memory > CITRA_PAGE_SIZE
                  then ref_plus memory CITRA_PAGE_SIZE else Some memory);
       map_pages t (add32 base 1) n memory' type ms'
     }"

definition MapPages ::
  "'d memory_env \<Rightarrow> nat \<Rightarrow> nat \<Rightarrow> nat \<Rightarrow> memory_ref \<Rightarrow> PageType \<Rightarrow> 'd memory_system \<Rightarrow> 'd memory_system run" where
  "MapPages env t base sz memory type ms =
     map_pages t base sz memory type
       (RasterizerFlushVirtualRegion env (base * CITRA_PAGE_SIZE mod 2 ^ 32)
          (sz * CITRA_PAGE_SIZE mod 2 ^ 32) FlushAndInvalidate ms)"

definition page_aligned :: "nat \<Rightarrow> bool" where
  "page_aligned a \<longleftrightarrow> a mod CITRA_PAGE_SIZE = 0"

definition MapMemoryRegion ::
  "'d memory_env \<Rightarrow> nat \<Rightarrow> nat \<Rightarrow> nat \<Rightarrow> memory_ref \<Rightarrow> 'd memory_system \<Rightarrow> 'd memory_system run" where
  "MapMemoryRegion env t base sz target ms =
     do {
       assert_that (page_aligned sz);
       assert_that (page_aligned base);
       MapPages env t (base div CITRA_PAGE_SIZE) (sz div CITRA_PAGE_SIZE) target Memory ms
     }"

definition MapIoRegion ::
  "'d memory_env \<Rightarrow> nat \<Rightarrow> nat \<Rightarrow> nat \<Rightarrow> mmio_handler \<Rightarrow> 'd memory_system \<Rightarrow> 'd memory_system run" where
  "MapIoRegion env t base sz handler ms =
     do {
       assert_that (page_aligned sz);
       assert_that (page_aligned base);
       ms' \<leftarrow> MapPages env t (base div CITRA_PAGE_SIZE) (sz div CITRA_PAGE_SIZE) null_ref Special ms;
       Some (upd_table t (\<lambda>pt. pt\<lparr>special_regions := special_regions pt @
               [\<lparr>sr_base = base, sr_size = sz, sr_handler = handler\<rparr>]\<rparr>) ms')
     }"

definition UnmapRegion :: "'d memory_env \<Rightarrow> nat \<Rightarrow> nat \<Rightarrow> nat \<Rightarrow> 'd memory_system \<Rightarrow> 'd memory_system run" where
  "UnmapRegion env t base sz ms =
     do {
       assert_that (page_aligned sz);
       assert_that (page_aligned base);
       MapPages env t (base div CITRA_PAGE_SIZE) (sz div CITRA_PAGE_SIZE) null_ref Unmapped ms
     }"

definition SetCurrentPageTable :: "nat \<Rightarrow> 'd memory_system \<Rightarrow> 'd memory_system" where
  "SetCurrentPageTable t ms = ms\<lparr>current_page_table := t\<rparr>"

definition RegisterPageTable :: "nat \<Rightarrow> 'd memory_system \<Rightarrow> 'd memory_system" where
  "RegisterPageTable t ms = ms\<lparr>page_table_list := page_table_list ms @ [t]\<rparr>"

definition UnregisterPageTable :: "nat \<Rightarrow> 'd memory_system \<Rightarrow> 'd memory_system" where
  "UnregisterPageTable t ms = ms\<lparr>page_table_list := remove1 t (page_table_list ms)\<rparr>"

section \<open>Accesses of the guest\<close>

text \<open>\<open>n\<close> bytes of host memory, and their update.\<close>

definition fetch :: "nat \<Rightarrow> nat \<Rightarrow> 'd memory_system \<Rightarrow> u8 list" where
  "fetch p n ms = map (\<lambda>i. host ms (p + i)) [0..<n]"

definition store :: "nat \<Rightarrow> u8 list \<Rightarrow> 'd memory_system \<Rightarrow> 'd memory_system" where
  "store p bs ms = ms\<lparr>host := (\<lambda>a. if p \<le> a \<and> a < p + length bs then bs ! (a - p) else host ms a)\<rparr>"

definition current_table :: "'d memory_system \<Rightarrow> page_table" where
  "current_table ms = tables ms (current_page_table ms)"

definition page_of :: "nat \<Rightarrow> nat" where "page_of vaddr = vaddr div CITRA_PAGE_SIZE"
definition page_offset :: "nat \<Rightarrow> nat" where "page_offset vaddr = vaddr mod CITRA_PAGE_SIZE"

text \<open>\<open>Read<T>\<close> for a type of \<open>n\<close> bytes; the result is the bytes of the value in memory order.\<close>

definition Read :: "'d memory_env \<Rightarrow> nat \<Rightarrow> nat \<Rightarrow> 'd memory_system \<Rightarrow> (u8 list \<times> 'd memory_system) run" where
  "Read env n vaddr ms =
     (let pt = current_table ms; p = GetPtr (pointers pt (page_of vaddr)); paddr = vaddr - 2 ^ 31 in
      if p \<noteq> 0 then Some (fetch (p + page_offset vaddr) n ms, ms)
      else if vaddr \<ge> 2 ^ 31 \<and> paddr div 2 ^ 28 = FCRAM_PADDR div 2 ^ 28
      then do { q \<leftarrow> GetFCRAMPointer (paddr - FCRAM_PADDR) ms; Some (fetch q n ms, ms) }
      else if vaddr \<ge> 2 ^ 31 \<and> paddr div 2 ^ 28 = 1 \<and> paddr \<ge> IO_AREA_PADDR
      then Some (hw_read env (paddr - IO_AREA_PADDR + 0x1EC00000) n ms)
      else case attributes pt (page_of vaddr) of
        Unmapped \<Rightarrow> Some (replicate n 0, ms)
      | Memory \<Rightarrow> None
      | RasterizerCachedMemory \<Rightarrow>
          (let ms' = RasterizerFlushVirtualRegion env vaddr n Flush ms in
           do { r \<leftarrow> GetPointerForRasterizerCache vaddr ms'; Some (fetch (GetPtr r) n ms', ms') })
      | Special \<Rightarrow> do { h \<leftarrow> GetMMIOHandler pt vaddr; Some (mmio_read env h vaddr n ms) })"

definition Write :: "'d memory_env \<Rightarrow> nat \<Rightarrow> u8 list \<Rightarrow> 'd memory_system \<Rightarrow> 'd memory_system run" where
  "Write env vaddr data ms =
     (let pt = current_table ms; p = GetPtr (pointers pt (page_of vaddr)); paddr = vaddr - 2 ^ 31 in
      if p \<noteq> 0 then Some (store (p + page_offset vaddr) data ms)
      else if vaddr \<ge> 2 ^ 31 \<and> paddr div 2 ^ 28 = FCRAM_PADDR div 2 ^ 28
      then do { q \<leftarrow> GetFCRAMPointer (paddr - FCRAM_PADDR) ms; Some (store q data ms) }
      else if vaddr \<ge> 2 ^ 31 \<and> paddr div 2 ^ 28 = 1 \<and> paddr \<ge> IO_AREA_PADDR
      then Some (hw_write env (paddr - IO_AREA_PADDR + 0x1EC00000) data ms)
      else case attributes pt (page_of vaddr) of
        Unmapped \<Rightarrow> Some ms
      | Memory \<Rightarrow> None
      | RasterizerCachedMemory \<Rightarrow>
          (let ms' = RasterizerFlushVirtualRegion env vaddr (length data) Invalidate ms in
           do { r \<leftarrow> GetPointerForRasterizerCache vaddr ms'; Some (store (GetPtr r) data ms') })
      | Special \<Rightarrow> do { h \<leftarrow> GetMMIOHandler pt vaddr; Some (mmio_write env h vaddr data ms) })"

text \<open>\<open>AtomicCompareAndSwap\<close>: stores if memory holds the expected bytes, and says whether it did.\<close>

definition compare_and_swap :: "nat \<Rightarrow> u8 list \<Rightarrow> u8 list \<Rightarrow> 'd memory_system \<Rightarrow> bool \<times> 'd memory_system" where
  "compare_and_swap p data expected ms =
     (if fetch p (length expected) ms = expected then (True, store p data ms) else (False, ms))"

definition WriteExclusive ::
  "'d memory_env \<Rightarrow> nat \<Rightarrow> u8 list \<Rightarrow> u8 list \<Rightarrow> 'd memory_system \<Rightarrow> (bool \<times> 'd memory_system) run" where
  "WriteExclusive env vaddr data expected ms =
     (let pt = current_table ms; p = GetPtr (pointers pt (page_of vaddr)) in
      if p \<noteq> 0 then Some (compare_and_swap (p + page_offset vaddr) data expected ms)
      else case attributes pt (page_of vaddr) of
        Unmapped \<Rightarrow> Some (True, ms)
      | Memory \<Rightarrow> None
      | RasterizerCachedMemory \<Rightarrow>
          (let ms' = RasterizerFlushVirtualRegion env vaddr (length data) Invalidate ms in
           do { r \<leftarrow> GetPointerForRasterizerCache vaddr ms';
                Some (compare_and_swap (GetPtr r) data expected ms') })
      | Special \<Rightarrow> do { h \<leftarrow> GetMMIOHandler pt vaddr; Some (False, mmio_write env h vaddr data ms) })"

text \<open>The value of the bytes of a little-endian integer, and the accesses of a given width.\<close>

definition le_nat :: "u8 list \<Rightarrow> nat" where
  "le_nat bs = foldr (\<lambda>b v. unat b + 256 * v) bs 0"

definition le_bytes :: "nat \<Rightarrow> nat \<Rightarrow> u8 list" where
  "le_bytes n v = map (\<lambda>i. word_of_nat (v div 256 ^ i)) [0..<n]"

definition read_value :: "'d memory_env \<Rightarrow> nat \<Rightarrow> nat \<Rightarrow> 'd memory_system \<Rightarrow> (nat \<times> 'd memory_system) run" where
  "read_value env n addr ms = map_option (\<lambda>(bs, ms'). (le_nat bs, ms')) (Read env n addr ms)"

definition Read8 :: "'d memory_env \<Rightarrow> nat \<Rightarrow> 'd memory_system \<Rightarrow> (nat \<times> 'd memory_system) run" where
  "Read8 env = read_value env 1"
definition Read16 :: "'d memory_env \<Rightarrow> nat \<Rightarrow> 'd memory_system \<Rightarrow> (nat \<times> 'd memory_system) run" where
  "Read16 env = read_value env 2"
definition Read32 :: "'d memory_env \<Rightarrow> nat \<Rightarrow> 'd memory_system \<Rightarrow> (nat \<times> 'd memory_system) run" where
  "Read32 env = read_value env 4"
definition Read64 :: "'d memory_env \<Rightarrow> nat \<Rightarrow> 'd memory_system \<Rightarrow> (nat \<times> 'd memory_system) run" where
  "Read64 env = read_value env 8"
definition Write8 :: "'d memory_env \<Rightarrow> nat \<Rightarrow> nat \<Rightarrow> 'd memory_system \<Rightarrow> 'd memory_system run" where
  "Write8 env addr v = Write env addr (le_bytes 1 v)"
definition Write16 :: "'d memory_env \<Rightarrow> nat \<Rightarrow> nat \<Rightarrow> 'd memory_system \<Rightarrow> 'd memory_system run" where
  "Write16 env addr v = Write env addr (le_bytes 2 v)"
definition Write32 :: "'d memory_env \<Rightarrow> nat \<Rightarrow> nat \<Rightarrow> 'd memory_system \<Rightarrow> 'd memory_system run" where
  "Write32 env addr v = Write env addr (le_bytes 4 v)"
definition Write64 :: "'d memory_env \<Rightarrow> nat \<Rightarrow> nat \<Rightarrow> 'd memory_system \<Rightarrow> 'd memory_system run" where
  "Write64 env addr v = Write env addr (le_bytes 8 v)"

definition IsValidVirtualAddress :: "'d memory_env \<Rightarrow> nat \<Rightarrow> nat \<Rightarrow> 'd memory_system \<Rightarrow> bool run" where
  "IsValidVirtualAddress env t vaddr ms =
     (let pt = tables ms t; a = attributes pt (page_of vaddr) in
      if GetPtr (pointers pt (page_of vaddr)) \<noteq> 0 then Some True
      else if a = RasterizerCachedMemory then Some True
      else if a \<noteq> Special then Some False
      else do { h \<leftarrow> GetMMIOHandler pt vaddr; Some (mmio_valid env h vaddr ms) })"

definition GetPointer :: "nat \<Rightarrow> 'd memory_system \<Rightarrow> nat run" where
  "GetPointer vaddr ms =
     (let pt = current_table ms; p = GetPtr (pointers pt (page_of vaddr)) in
      if p \<noteq> 0 then Some (p + page_offset vaddr)
      else if attributes pt (page_of vaddr) = RasterizerCachedMemory
      then map_option GetPtr (GetPointerForRasterizerCache vaddr ms)
      else Some 0)"

primrec ReadCString ::
  "'d memory_env \<Rightarrow> nat \<Rightarrow> nat \<Rightarrow> 'd memory_system \<Rightarrow> (nat list \<times> 'd memory_system) run" where
  "ReadCString env vaddr 0 ms = Some ([], ms)"
| "ReadCString env vaddr (Suc max_length) ms =
     do {
       (c, ms') \<leftarrow> Read8 env vaddr ms;
       if c = 0 then Some ([], ms')
       else do { (cs, ms'') \<leftarrow> ReadCString env (add32 vaddr 1) max_length ms'; Some (c # cs, ms'') }
     }"

section \<open>The physical address map\<close>

definition memory_areas :: "(nat \<times> nat \<times> Region) list" where
  "memory_areas =
     [(VRAM_PADDR, VRAM_SIZE, VRAM), (DSP_RAM_PADDR, DSP_RAM_SIZE, DSP),
      (FCRAM_PADDR, FCRAM_N3DS_SIZE, FCRAM), (N3DS_EXTRA_RAM_PADDR, N3DS_EXTRA_RAM_SIZE, N3DS)]"

definition GetPhysicalRef :: "nat \<Rightarrow> 'd memory_system \<Rightarrow> memory_ref run" where
  "GetPhysicalRef address ms =
     (case List.find (\<lambda>(start, sz, r). address \<ge> start \<and> address \<le> start + sz) memory_areas of
        None \<Rightarrow> Some null_ref
      | Some (start, sz, r) \<Rightarrow>
          (let offset_into_region = address - start in
           if offset_into_region > GetSize r then Some null_ref
           else region_ref r offset_into_region ms))"

definition IsValidPhysicalAddress :: "nat \<Rightarrow> 'd memory_system \<Rightarrow> bool run" where
  "IsValidPhysicalAddress paddr ms = map_option (\<lambda>r. GetPtr r \<noteq> 0) (GetPhysicalRef paddr ms)"

definition PhysicalToVirtualAddressForRasterizer :: "nat \<Rightarrow> 'd memory_system \<Rightarrow> nat list" where
  "PhysicalToVirtualAddressForRasterizer addr ms =
     (if addr \<ge> VRAM_PADDR \<and> addr < VRAM_PADDR_END then [addr - VRAM_PADDR + VRAM_VADDR]
      else if addr \<ge> plugin_fb_addr ms \<and> addr < add32 (plugin_fb_addr ms) PLUGIN_3GX_FB_SIZE
      then [addr - plugin_fb_addr ms + PLUGIN_3GX_FB_VADDR]
      else if addr \<ge> FCRAM_PADDR \<and> addr < FCRAM_PADDR_END
      then [addr - FCRAM_PADDR + LINEAR_HEAP_VADDR, addr - FCRAM_PADDR + NEW_LINEAR_HEAP_VADDR]
      else if addr \<ge> FCRAM_PADDR_END \<and> addr < FCRAM_N3DS_PADDR_END
      then [addr - FCRAM_PADDR + NEW_LINEAR_HEAP_VADDR]
      else [])"

text \<open>What \<open>RasterizerMarkRegionCached\<close> does to one page of one table.\<close>

definition mark_page :: "nat \<Rightarrow> bool \<Rightarrow> nat \<Rightarrow> 'd memory_system \<Rightarrow> 'd memory_system run" where
  "mark_page vaddr cached t ms =
     (let page = page_of vaddr; page_type = attributes (tables ms t) page in
      if cached
      then case page_type of
             Unmapped \<Rightarrow> Some ms
           | Memory \<Rightarrow> Some (upd_table t (set_page page RasterizerCachedMemory null_ref) ms)
           | _ \<Rightarrow> None
      else case page_type of
             Unmapped \<Rightarrow> Some ms
           | RasterizerCachedMemory \<Rightarrow>
               do { r \<leftarrow> GetPointerForRasterizerCache (vaddr - page_offset vaddr) ms;
                    Some (upd_table t (set_page page Memory r) ms) }
           | _ \<Rightarrow> None)"

primrec iterate :: "('a \<Rightarrow> 's \<Rightarrow> 's run) \<Rightarrow> 'a list \<Rightarrow> 's \<Rightarrow> 's run" where
  "iterate f [] s = Some s"
| "iterate f (x # xs) s = do { s' \<leftarrow> f x s; iterate f xs s' }"

definition mark_vaddr :: "bool \<Rightarrow> nat \<Rightarrow> 'd memory_system \<Rightarrow> 'd memory_system run" where
  "mark_vaddr cached vaddr ms =
     (let ms' = Mark vaddr cached ms in iterate (mark_page vaddr cached) (page_table_list ms') ms')"

primrec mark_region :: "bool \<Rightarrow> nat \<Rightarrow> nat \<Rightarrow> 'd memory_system \<Rightarrow> 'd memory_system run" where
  "mark_region cached paddr 0 ms = Some ms"
| "mark_region cached paddr (Suc n) ms =
     do {
       ms' \<leftarrow> iterate (mark_vaddr cached) (PhysicalToVirtualAddressForRasterizer paddr ms) ms;
       mark_region cached (add32 paddr CITRA_PAGE_SIZE) n ms'
     }"

definition RasterizerMarkRegionCached :: "nat \<Rightarrow> nat \<Rightarrow> bool \<Rightarrow> 'd memory_system \<Rightarrow> 'd memory_system run" where
  "RasterizerMarkRegionCached start sz cached ms =
     (if start = 0 then Some ms
      else
        let num_pages = add32 (sub32 (page_of (sub32 (add32 start sz) 1)) (page_of start)) 1
        in mark_region cached start num_pages ms)"

section \<open>Block transfers\<close>

text \<open>
  The loop that the four block operations share: it visits the pieces of a range that lie in one page.
  The counter of pages and the offset in the page are kept as one address; it is a \<open>size_t\<close> and does
  not wrap, so a range beyond the last page indexes the page table out of its bounds.
\<close>

function each_page :: "(nat \<Rightarrow> nat \<Rightarrow> 's \<Rightarrow> 's run) \<Rightarrow> nat \<Rightarrow> nat \<Rightarrow> 's \<Rightarrow> 's run" where
  "each_page body addr remaining_size s =
     (if remaining_size = 0 then Some s
      else
        let copy_amount = min (CITRA_PAGE_SIZE - page_offset addr) remaining_size in
        do {
          s' \<leftarrow> body addr copy_amount s;
          each_page body (addr + copy_amount) (remaining_size - copy_amount) s'
        })"
  by pat_completeness auto
termination
  by (relation "measure (\<lambda>(body, addr, remaining_size, s). remaining_size)")
    (simp_all add: page_offset_def CITRA_PAGE_SIZE_def)

declare each_page.simps [simp del]

definition ReadBlock_page ::
  "'d memory_env \<Rightarrow> bool \<Rightarrow> nat \<Rightarrow> nat \<Rightarrow> nat \<Rightarrow> u8 list \<times> 'd memory_system \<Rightarrow>
   (u8 list \<times> 'd memory_system) run" where
  "ReadBlock_page env unsafe t current_vaddr copy_amount = (\<lambda>(dest, ms).
     let pt = tables ms t; page = page_of current_vaddr in
     do {
       assert_that (page < PAGE_TABLE_NUM_ENTRIES);
       case attributes pt page of
         Unmapped \<Rightarrow> Some (dest @ replicate copy_amount 0, ms)
       | Memory \<Rightarrow>
           do {
             assert_that (GetPtr (pointers pt page) \<noteq> 0);
             Some (dest @ fetch (GetPtr (pointers pt page) + page_offset current_vaddr) copy_amount ms, ms)
           }
       | Special \<Rightarrow>
           do {
             handler \<leftarrow> GetMMIOHandler pt current_vaddr;
             let (bs, ms') = mmio_read env handler current_vaddr copy_amount ms;
             Some (dest @ bs, ms')
           }
       | RasterizerCachedMemory \<Rightarrow>
           (let ms' = if unsafe then ms
                      else RasterizerFlushVirtualRegion env current_vaddr copy_amount Flush ms in
            do {
              r \<leftarrow> GetPointerForRasterizerCache current_vaddr ms';
              Some (dest @ fetch (GetPtr r) copy_amount ms', ms')
            })
     })"

definition ReadBlock ::
  "'d memory_env \<Rightarrow> bool \<Rightarrow> nat \<Rightarrow> nat \<Rightarrow> nat \<Rightarrow> 'd memory_system \<Rightarrow> (u8 list \<times> 'd memory_system) run" where
  "ReadBlock env unsafe t src_addr sz ms =
     each_page (ReadBlock_page env unsafe t) src_addr sz ([], ms)"

text \<open>The source of a write: a buffer, or host memory, which is read when it is copied.\<close>

datatype data_source = Buffer "u8 list" | HostPtr nat

definition take_source :: "data_source \<Rightarrow> nat \<Rightarrow> 'd memory_system \<Rightarrow> u8 list" where
  "take_source src n ms = (case src of Buffer bs \<Rightarrow> take n bs | HostPtr p \<Rightarrow> fetch p n ms)"

definition drop_source :: "data_source \<Rightarrow> nat \<Rightarrow> data_source" where
  "drop_source src n = (case src of Buffer bs \<Rightarrow> Buffer (drop n bs) | HostPtr p \<Rightarrow> HostPtr (p + n))"

definition WriteBlock_page ::
  "'d memory_env \<Rightarrow> bool \<Rightarrow> nat \<Rightarrow> nat \<Rightarrow> nat \<Rightarrow> data_source \<times> 'd memory_system \<Rightarrow>
   (data_source \<times> 'd memory_system) run" where
  "WriteBlock_page env unsafe t current_vaddr copy_amount = (\<lambda>(src, ms).
     let pt = tables ms t; page = page_of current_vaddr; src' = drop_source src copy_amount in
     do {
       assert_that (page < PAGE_TABLE_NUM_ENTRIES);
       case attributes pt page of
         Unmapped \<Rightarrow> Some (src', ms)
       | Memory \<Rightarrow>
           do {
             assert_that (GetPtr (pointers pt page) \<noteq> 0);
             Some (src', store (GetPtr (pointers pt page) + page_offset current_vaddr)
                           (take_source src copy_amount ms) ms)
           }
       | Special \<Rightarrow>
           do {
             handler \<leftarrow> GetMMIOHandler pt current_vaddr;
             Some (src', mmio_write env handler current_vaddr (take_source src copy_amount ms) ms)
           }
       | RasterizerCachedMemory \<Rightarrow>
           (let ms' = if unsafe then ms
                      else RasterizerFlushVirtualRegion env current_vaddr copy_amount Invalidate ms in
            do {
              r \<leftarrow> GetPointerForRasterizerCache current_vaddr ms';
              Some (src', store (GetPtr r) (take_source src copy_amount ms') ms')
            })
     })"

definition WriteBlock ::
  "'d memory_env \<Rightarrow> bool \<Rightarrow> nat \<Rightarrow> nat \<Rightarrow> data_source \<Rightarrow> nat \<Rightarrow> 'd memory_system \<Rightarrow> 'd memory_system run" where
  "WriteBlock env unsafe t dest_addr src sz ms =
     map_option snd (each_page (WriteBlock_page env unsafe t) dest_addr sz (src, ms))"

definition ZeroBlock_page ::
  "'d memory_env \<Rightarrow> nat \<Rightarrow> nat \<Rightarrow> nat \<Rightarrow> 'd memory_system \<Rightarrow> 'd memory_system run" where
  "ZeroBlock_page env t current_vaddr copy_amount ms =
     (let pt = tables ms t; page = page_of current_vaddr in
     do {
       assert_that (page < PAGE_TABLE_NUM_ENTRIES);
       case attributes pt page of
         Unmapped \<Rightarrow> Some ms
       | Memory \<Rightarrow>
           do {
             assert_that (GetPtr (pointers pt page) \<noteq> 0);
             Some (store (GetPtr (pointers pt page) + page_offset current_vaddr) (replicate copy_amount 0) ms)
           }
       | Special \<Rightarrow>
           do {
             handler \<leftarrow> GetMMIOHandler pt current_vaddr;
             Some (mmio_write env handler current_vaddr (replicate copy_amount 0) ms)
           }
       | RasterizerCachedMemory \<Rightarrow>
           (let ms' = RasterizerFlushVirtualRegion env current_vaddr copy_amount Invalidate ms in
            do {
              r \<leftarrow> GetPointerForRasterizerCache current_vaddr ms';
              Some (store (GetPtr r) (replicate copy_amount 0) ms')
            })
     })"

definition ZeroBlock :: "'d memory_env \<Rightarrow> nat \<Rightarrow> nat \<Rightarrow> nat \<Rightarrow> 'd memory_system \<Rightarrow> 'd memory_system run" where
  "ZeroBlock env t = each_page (ZeroBlock_page env t)"

definition CopyBlock_page ::
  "'d memory_env \<Rightarrow> nat \<Rightarrow> nat \<Rightarrow> nat \<Rightarrow> nat \<Rightarrow> nat \<times> 'd memory_system \<Rightarrow>
   (nat \<times> 'd memory_system) run" where
  "CopyBlock_page env dest_t src_t current_vaddr copy_amount = (\<lambda>(dest_addr, ms).
     let pt = tables ms src_t; page = page_of current_vaddr; dest' = add32 dest_addr copy_amount in
     do {
       assert_that (page < PAGE_TABLE_NUM_ENTRIES);
       ms' \<leftarrow>
         (case attributes pt page of
            Unmapped \<Rightarrow> ZeroBlock env dest_t dest_addr copy_amount ms
          | Memory \<Rightarrow>
              do {
                assert_that (GetPtr (pointers pt page) \<noteq> 0);
                WriteBlock env False dest_t dest_addr
                  (HostPtr (GetPtr (pointers pt page) + page_offset current_vaddr)) copy_amount ms
              }
          | Special \<Rightarrow>
              do {
                handler \<leftarrow> GetMMIOHandler pt current_vaddr;
                let (buffer, ms1) = mmio_read env handler current_vaddr copy_amount ms;
                WriteBlock env False dest_t dest_addr (Buffer buffer) copy_amount ms1
              }
          | RasterizerCachedMemory \<Rightarrow>
              (let ms1 = RasterizerFlushVirtualRegion env current_vaddr copy_amount Flush ms in
               do {
                 r \<leftarrow> GetPointerForRasterizerCache current_vaddr ms1;
                 WriteBlock env False dest_t dest_addr (HostPtr (GetPtr r)) copy_amount ms1
               }));
       Some (dest', ms')
     })"

definition CopyBlock ::
  "'d memory_env \<Rightarrow> nat \<Rightarrow> nat \<Rightarrow> nat \<Rightarrow> nat \<Rightarrow> nat \<Rightarrow> 'd memory_system \<Rightarrow> 'd memory_system run" where
  "CopyBlock env dest_t src_t dest_addr src_addr sz ms =
     map_option snd (each_page (CopyBlock_page env dest_t src_t) src_addr sz (dest_addr, ms))"

section \<open>What the mapping operations may do to a page table\<close>

text \<open>The pointer of a page is set exactly when its attribute is \<open>Memory\<close>.\<close>

definition table_ok :: "page_table \<Rightarrow> bool" where
  "table_ok pt \<longleftrightarrow> (\<forall>page. GetPtr (pointers pt page) \<noteq> 0 \<longleftrightarrow> attributes pt page = Memory)"

definition tables_ok :: "'d memory_system \<Rightarrow> bool" where
  "tables_ok ms \<longleftrightarrow> (\<forall>t. table_ok (tables ms t)) \<and> (\<forall>r. region_ptr ms r \<noteq> 0)"

lemma tables_okI:
  "(\<And>t. table_ok (tables ms t)) \<Longrightarrow> (\<And>r. region_ptr ms r \<noteq> 0) \<Longrightarrow> tables_ok ms"
  by (simp add: tables_ok_def)

lemma table_ok_set_page:
  assumes "table_ok pt" "GetPtr r \<noteq> 0 \<longleftrightarrow> type = Memory"
  shows "table_ok (set_page page type r pt)"
  using assms by (simp add: table_ok_def set_page_def)

lemma upd_table_simps [simp]:
  "host (upd_table t f ms) = host ms" "region_ptr (upd_table t f ms) = region_ptr ms"
  "cache_marker (upd_table t f ms) = cache_marker ms" "plugin_fb_addr (upd_table t f ms) = plugin_fb_addr ms"
  "page_table_list (upd_table t f ms) = page_table_list ms" "devices (upd_table t f ms) = devices ms"
  "current_page_table (upd_table t f ms) = current_page_table ms"
  "tables (upd_table t f ms) u = (if u = t then f (tables ms t) else tables ms u)"
  by (simp_all add: upd_table_def)

lemma tables_ok_upd:
  "tables_ok ms \<Longrightarrow> (\<And>pt. table_ok pt \<Longrightarrow> table_ok (f pt)) \<Longrightarrow> tables_ok (upd_table t f ms)"
  by (simp add: tables_ok_def)

lemma null_ref_simps [simp]: "GetPtr null_ref = 0" "ref_size null_ref = 0"
  by (simp_all add: null_ref_def)

lemma ref_plus_GetPtr: "ref_plus r n = Some r' \<Longrightarrow> GetPtr r' = GetPtr r + n"
  by (auto simp: ref_plus_def split: if_splits)

lemma map_pages_tables_ok:
  "map_pages t base n r type ms = Some ms' \<Longrightarrow> tables_ok ms \<Longrightarrow>
   GetPtr r \<noteq> 0 \<longleftrightarrow> type = Memory \<Longrightarrow> type \<noteq> RasterizerCachedMemory \<Longrightarrow> tables_ok ms'"
proof (induction n arbitrary: base r ms)
  case (Suc n)
  let ?ms = "if type = Memory \<and> IsCached (base * CITRA_PAGE_SIZE) ms
          then upd_table t (set_page base RasterizerCachedMemory null_ref) ms
          else upd_table t (set_page base type r) ms"
  from Suc.prems(1) obtain r' where r': "map_pages t (add32 base 1) n r' type ?ms = Some ms'"
      "r' = r \<or> ref_plus r CITRA_PAGE_SIZE = Some r' \<and> GetPtr r \<noteq> 0"
    by (auto simp: Let_def bind_eq_Some_conv split: if_splits)
  have "tables_ok ?ms" using Suc.prems(2,3)
    by (auto intro!: tables_ok_upd table_ok_set_page)
  moreover have "GetPtr r' \<noteq> 0 \<longleftrightarrow> type = Memory"
    using r'(2) Suc.prems(3) by (auto dest: ref_plus_GetPtr)
  ultimately show ?case using Suc.IH [OF r'(1)] Suc.prems(4) by blast
qed simp

lemma iterate_invariant:
  assumes "iterate f xs s = Some s'" "P s" "\<And>x s s'. f x s = Some s' \<Longrightarrow> P s \<Longrightarrow> P s'"
  shows "P s'"
  using assms(1,2)
proof (induction xs arbitrary: s)
  case (Cons x xs)
  then obtain s1 where "f x s = Some s1" "iterate f xs s1 = Some s'"
    by (auto simp: bind_eq_Some_conv)
  with Cons.IH [of s1] Cons.prems(2) assms(3) show ?case by blast
qed simp

lemma region_ref_nonnull:
  "region_ref g a ms = Some r \<Longrightarrow> \<forall>r. region_ptr ms r \<noteq> 0 \<Longrightarrow> GetPtr r \<noteq> 0"
  by (auto simp: region_ref_def split: if_splits)

lemma GetPointerForRasterizerCache_nonnull:
  assumes "GetPointerForRasterizerCache a ms = Some r" "\<forall>r. region_ptr ms r \<noteq> 0"
  shows "GetPtr r \<noteq> 0"
  using assms(1) unfolding GetPointerForRasterizerCache_def
  by (simp only: split: if_splits) (blast dest: region_ref_nonnull [OF _ assms(2)])+

lemma mark_page_tables_ok: "mark_page v c t ms = Some ms' \<Longrightarrow> tables_ok ms \<Longrightarrow> tables_ok ms'"
  by (auto simp: mark_page_def Let_def bind_eq_Some_conv split: if_splits PageType.splits
      intro!: tables_ok_upd table_ok_set_page)
    (auto dest!: GetPointerForRasterizerCache_nonnull simp: tables_ok_def)

lemma tables_ok_Mark [simp]: "tables_ok (Mark v c ms) = tables_ok ms"
  by (simp add: Mark_def tables_ok_def split: option.splits)

lemma mark_region_tables_ok: "mark_region c p n ms = Some ms' \<Longrightarrow> tables_ok ms \<Longrightarrow> tables_ok ms'"
proof (induction n arbitrary: p ms)
  case (Suc n)
  then obtain ms1 where ms1: "iterate (mark_vaddr c) (PhysicalToVirtualAddressForRasterizer p ms) ms = Some ms1"
      "mark_region c (add32 p CITRA_PAGE_SIZE) n ms1 = Some ms'"
    by (auto simp: bind_eq_Some_conv)
  have "tables_ok ms1"
    using ms1(1) Suc.prems(2)
    by (rule iterate_invariant)
      (auto simp: mark_vaddr_def Let_def elim!: iterate_invariant [where P = tables_ok] intro: mark_page_tables_ok)
  with Suc.IH [OF ms1(2)] show ?case by blast
qed simp

lemma RasterizerMarkRegionCached_tables_ok:
  "RasterizerMarkRegionCached a n c ms = Some ms' \<Longrightarrow> tables_ok ms \<Longrightarrow> tables_ok ms'"
  by (auto simp: RasterizerMarkRegionCached_def Let_def split: if_splits intro: mark_region_tables_ok)

text \<open>
  What a rasterizer may do when it is told to flush: it writes back surfaces to host memory and it
  changes what is marked as cached, through \<open>RasterizerMarkRegionCached\<close>.
\<close>

inductive rasterizer_effect :: "'d memory_system \<Rightarrow> 'd memory_system \<Rightarrow> bool" where
  nothing: "rasterizer_effect ms ms"
| write_back: "rasterizer_effect ms ms' \<Longrightarrow> rasterizer_effect ms (ms'\<lparr>host := h\<rparr>)"
| mark: "rasterizer_effect ms ms' \<Longrightarrow> RasterizerMarkRegionCached a n c ms' = Some ms'' \<Longrightarrow>
    rasterizer_effect ms ms''"

definition rasterizer_ok :: "'d memory_env \<Rightarrow> bool" where
  "rasterizer_ok env \<longleftrightarrow>
     (\<forall>rast mode a n ms. rasterizer env = Some rast \<longrightarrow> rasterizer_effect ms (rast mode a n ms))"

lemma rasterizer_effect_invariant:
  assumes "rasterizer_effect ms ms'" "P ms"
    and "\<And>ms h. P ms \<Longrightarrow> P (ms\<lparr>host := h\<rparr>)"
    and "\<And>ms ms' a n c. P ms \<Longrightarrow> RasterizerMarkRegionCached a n c ms = Some ms' \<Longrightarrow> P ms'"
  shows "P ms'"
  using assms by (induction rule: rasterizer_effect.induct) blast+

lemma flush_invariant:
  assumes "rasterizer_ok env" "P ms"
    and "\<And>ms h. P ms \<Longrightarrow> P (ms\<lparr>host := h\<rparr>)"
    and "\<And>ms ms' a n c. P ms \<Longrightarrow> RasterizerMarkRegionCached a n c ms = Some ms' \<Longrightarrow> P ms'"
  shows "P (RasterizerFlushVirtualRegion env start sz mode ms)"
proof (cases "rasterizer env")
  case (Some rast)
  have step: "P ms \<Longrightarrow> P (CheckRegion rast mode a b c d e ms)" for a b c d e ms
    using rasterizer_effect_invariant [of ms _ P] assms(1,3,4) Some
    by (auto simp: CheckRegion_def Let_def rasterizer_ok_def)
  show ?thesis unfolding RasterizerFlushVirtualRegion_def Some
    using assms(2) by (simp add: Let_def step)
qed (simp add: RasterizerFlushVirtualRegion_def assms(2))

lemma tables_ok_host [simp]: "tables_ok (ms\<lparr>host := h\<rparr>) = tables_ok ms"
  by (simp add: tables_ok_def)

lemma flush_tables_ok:
  "rasterizer_ok env \<Longrightarrow> tables_ok ms \<Longrightarrow> tables_ok (RasterizerFlushVirtualRegion env start sz mode ms)"
  by (rule flush_invariant) (auto intro: RasterizerMarkRegionCached_tables_ok)

lemma MapPages_tables_ok:
  "MapPages env t b n r type ms = Some ms' \<Longrightarrow> rasterizer_ok env \<Longrightarrow> tables_ok ms \<Longrightarrow>
   GetPtr r \<noteq> 0 \<longleftrightarrow> type = Memory \<Longrightarrow> type \<noteq> RasterizerCachedMemory \<Longrightarrow> tables_ok ms'"
  unfolding MapPages_def by (erule map_pages_tables_ok) (auto intro: flush_tables_ok)

text \<open>The operations that change page tables, as the steps of a state machine.\<close>

inductive map_step :: "'d memory_env \<Rightarrow> 'd memory_system \<Rightarrow> 'd memory_system \<Rightarrow> bool" for env where
  map_memory: "GetPtr r \<noteq> 0 \<Longrightarrow> MapMemoryRegion env t base sz r ms = Some ms' \<Longrightarrow> map_step env ms ms'"
| map_io: "MapIoRegion env t base sz h ms = Some ms' \<Longrightarrow> map_step env ms ms'"
| unmap: "UnmapRegion env t base sz ms = Some ms' \<Longrightarrow> map_step env ms ms'"
| mark_cached: "RasterizerMarkRegionCached start sz cached ms = Some ms' \<Longrightarrow> map_step env ms ms'"
| clear: "map_step env ms (upd_table t PageTable_Clear ms)"
| register_table: "map_step env ms (RegisterPageTable t ms)"
| unregister_table: "map_step env ms (UnregisterPageTable t ms)"
| set_current: "map_step env ms (SetCurrentPageTable t ms)"
| host_write: "map_step env ms (ms\<lparr>host := h\<rparr>)"

lemma map_step_tables_ok:
  assumes "map_step env ms ms'" "rasterizer_ok env" "tables_ok ms"
  shows "tables_ok ms'"
  using assms(1)
proof cases
  case (map_memory r t base sz)
  then show ?thesis using assms(2,3)
    by (auto simp: MapMemoryRegion_def split: if_splits elim!: MapPages_tables_ok)
next
  case (map_io t base sz h)
  then obtain ms1 where "MapPages env t (base div CITRA_PAGE_SIZE) (sz div CITRA_PAGE_SIZE) null_ref Special ms = Some ms1"
      "ms' = upd_table t (\<lambda>pt. pt\<lparr>special_regions := special_regions pt @
               [\<lparr>sr_base = base, sr_size = sz, sr_handler = h\<rparr>]\<rparr>) ms1"
    by (auto simp: MapIoRegion_def bind_eq_Some_conv split: if_splits)
  moreover from this(1) have "tables_ok ms1"
    using assms(2,3) by (rule MapPages_tables_ok) simp_all
  ultimately show ?thesis by (auto intro!: tables_ok_upd simp: table_ok_def)
next
  case (unmap t base sz)
  then show ?thesis using assms(2,3)
    by (auto simp: UnmapRegion_def split: if_splits elim!: MapPages_tables_ok)
next
  case (mark_cached start sz cached)
  then show ?thesis using assms(3) by (blast intro: RasterizerMarkRegionCached_tables_ok)
next
  case (clear t)
  then show ?thesis using assms(3) by (auto intro!: tables_ok_upd simp: table_ok_def PageTable_Clear_def)
next
  case (register_table t)
  then show ?thesis using assms(3) by (simp add: tables_ok_def RegisterPageTable_def)
next
  case (unregister_table t)
  then show ?thesis using assms(3) by (simp add: tables_ok_def UnregisterPageTable_def)
next
  case (set_current t)
  then show ?thesis using assms(3) by (simp add: tables_ok_def SetCurrentPageTable_def)
next
  case (host_write h)
  then show ?thesis using assms(3) by (simp add: tables_ok_def)
qed

lemma map_steps_tables_ok:
  "(map_step env)\<^sup>*\<^sup>* ms ms' \<Longrightarrow> rasterizer_ok env \<Longrightarrow> tables_ok ms \<Longrightarrow> tables_ok ms'"
  by (induction rule: rtranclp_induct) (auto intro: map_step_tables_ok)

section \<open>Properties\<close>

text \<open>C21: In every memory system that the mapping operations, the marking of cached pages, writes and
  the creation and selection of page tables lead to, a page has a pointer exactly when its attribute is
  \<open>Memory\<close>, in every table: the comment on \<open>PageTable\<close> holds, and the assertions of \<open>Read\<close>, \<open>Write\<close> and
  the block transfers against a memory page without a pointer never fail. The rasterizer may write to
  memory and mark pages whenever it is flushed.\<close>

theorem pointers_iff_Memory:
  assumes "(map_step env)\<^sup>*\<^sup>* ms ms'" "rasterizer_ok env" "tables_ok ms"
  shows "GetPtr (pointers (tables ms' t) page) \<noteq> 0 \<longleftrightarrow> attributes (tables ms' t) page = Memory"
  using map_steps_tables_ok [OF assms] by (simp add: tables_ok_def table_ok_def)

text \<open>No process yet, and no renderer.\<close>

definition boot_memory :: "unit memory_system" where
  "boot_memory = \<lparr>
     host = (\<lambda>_. 0), region_ptr = (\<lambda>r. case r of FCRAM \<Rightarrow> 0x10000000 | VRAM \<Rightarrow> 0x20000000 | DSP \<Rightarrow> 0x30000000
                                                | N3DS \<Rightarrow> 0x40000000),
     cache_marker = (\<lambda>s. s = vram_flag 1),
     tables = (\<lambda>_. \<lparr>pointers = (\<lambda>_. null_ref), special_regions = [], attributes = (\<lambda>_. Unmapped)\<rparr>),
     page_table_list = [], current_page_table = 0, plugin_fb_addr = 0, devices = ()\<rparr>"

definition no_devices :: "unit memory_env" where
  "no_devices = \<lparr>rasterizer = None, mmio_read = (\<lambda>_ _ n ms. (replicate n 0, ms)), mmio_write = (\<lambda>_ _ _ ms. ms),
     mmio_valid = (\<lambda>_ _ _. False), hw_read = (\<lambda>_ n ms. (replicate n 0, ms)), hw_write = (\<lambda>_ _ ms. ms)\<rparr>"

theorem pointers_iff_Memory_witness:
  "\<exists>ms'. MapMemoryRegion no_devices 0 0x1F000000 0x2000 \<lparr>GetPtr = 0x20000000, ref_size = 0x600000\<rparr> boot_memory = Some ms' \<and>
     attributes (tables ms' 0) 0x1F001 = RasterizerCachedMemory \<and>
     (GetPtr (pointers (tables ms' 0) 0x1F001) \<noteq> 0 \<longleftrightarrow> attributes (tables ms' 0) 0x1F001 = Memory)"
proof -
  let ?r = "\<lparr>GetPtr = 0x20000000, ref_size = 0x600000\<rparr>"
  have two: "map_pages t b 2 = map_pages t b (Suc (Suc 0))" for t b
    by (simp add: numeral_2_eq_2)
  have "\<exists>ms'. MapMemoryRegion no_devices 0 0x1F000000 0x2000 ?r boot_memory = Some ms' \<and>
      attributes (tables ms' 0) 0x1F001 = RasterizerCachedMemory"
    by (simp add: MapMemoryRegion_def MapPages_def page_aligned_def memory_map RasterizerFlushVirtualRegion_def
        no_devices_def two ref_plus_def IsCached_def At_def add32_def Let_def set_page_def
        upd_table_def boot_memory_def)
  then obtain ms' where ms': "MapMemoryRegion no_devices 0 0x1F000000 0x2000 ?r boot_memory = Some ms'"
      "attributes (tables ms' 0) 0x1F001 = RasterizerCachedMemory" by blast
  have "(map_step no_devices)\<^sup>*\<^sup>* boot_memory ms'"
    by (rule r_into_rtranclp, rule map_memory [OF _ ms'(1)]) simp
  from pointers_iff_Memory [OF this] ms' show ?thesis
    by (intro exI [of _ ms']) (simp add: rasterizer_ok_def no_devices_def tables_ok_def table_ok_def
        boot_memory_def split: Region.splits)
qed

end
