(* ===== verification/BlockTransfer.thy ===== *)
theory BlockTransfer
  imports MemorySystem
begin

text \<open>
  What the block transfers of the memory system do, stated byte by byte: \<open>ReadBlock\<close> and \<open>WriteBlock\<close>
  on ranges of plain pages, their round trip, and how a single access relates to them.
\<close>

section \<open>Block transfers byte by byte\<close>

text \<open>The host address behind an address of the guest, and what is read there.\<close>

definition host_addr :: "page_table \<Rightarrow> nat \<Rightarrow> nat" where
  "host_addr pt a = GetPtr (pointers pt (page_of a)) + page_offset a"

definition read_byte :: "page_table \<Rightarrow> 'd memory_system \<Rightarrow> nat \<Rightarrow> u8" where
  "read_byte pt ms a = (if attributes pt (page_of a) = Memory then host ms (host_addr pt a) else 0)"

primrec write_bytes :: "page_table \<Rightarrow> nat \<Rightarrow> u8 list \<Rightarrow> (nat \<Rightarrow> u8) \<Rightarrow> nat \<Rightarrow> u8" where
  "write_bytes pt a [] h = h"
| "write_bytes pt a (b # bs) h =
     write_bytes pt (a + 1) bs (if attributes pt (page_of a) = Memory then h(host_addr pt a := b) else h)"

text \<open>A range in which every page is plain memory or unmapped.\<close>

definition plain_page :: "page_table \<Rightarrow> nat \<Rightarrow> bool" where
  "plain_page pt page \<longleftrightarrow> page < PAGE_TABLE_NUM_ENTRIES \<and>
     (attributes pt page = Unmapped \<or> attributes pt page = Memory \<and> GetPtr (pointers pt page) \<noteq> 0)"

definition plain :: "page_table \<Rightarrow> nat \<Rightarrow> nat \<Rightarrow> bool" where
  "plain pt a n \<longleftrightarrow> (\<forall>i < n. plain_page pt (page_of (a + i)))"

lemma within_page:
  assumes "i < CITRA_PAGE_SIZE - page_offset a"
  shows "page_of (a + i) = page_of a" "page_offset (a + i) = page_offset a + i"
proof -
  define q r where "q = a div 4096" and "r = a mod 4096"
  have r: "r + i < 4096" using assms by (simp add: page_offset_def CITRA_PAGE_SIZE_def r_def)
  have "a + i = r + i + q * 4096" by (simp add: q_def r_def)
  then have "(a + i) div 4096 = q" "(a + i) mod 4096 = r + i"
    using r by (simp_all only: div_mult_self3 mod_mult_self1 mod_less div_less)
  then show "page_of (a + i) = page_of a" "page_offset (a + i) = page_offset a + i"
    by (simp_all add: page_of_def page_offset_def CITRA_PAGE_SIZE_def q_def r_def)
qed

lemma page_offset_less: "page_offset a < CITRA_PAGE_SIZE"
  by (simp add: page_offset_def CITRA_PAGE_SIZE_def)

lemma plain_drop: "plain pt a n \<Longrightarrow> k \<le> n \<Longrightarrow> plain pt (a + k) (n - k)"
  unfolding plain_def by (metis add.assoc less_diff_conv add.commute)

lemma plain_hd: "plain pt a n \<Longrightarrow> 0 < n \<Longrightarrow> plain_page pt (page_of a)"
  unfolding plain_def by (metis add_0_right)

lemma upt_split: "k \<le> n \<Longrightarrow> map f [0..<n] = map f [0..<k] @ map (\<lambda>i. f (k + i)) [0..<n - k]"
  by (rule nth_equalityI) (auto simp: nth_append)

lemma ReadBlock_loop:
  "plain (tables ms t) a n \<Longrightarrow>
   each_page (ReadBlock_page env unsafe t) a n (d, ms) =
     Some (d @ map (\<lambda>i. read_byte (tables ms t) ms (a + i)) [0..<n], ms)"
proof (induction n arbitrary: a d rule: less_induct)
  case (less n)
  show ?case
  proof (cases "n = 0")
    case False
    define k where "k = min (CITRA_PAGE_SIZE - page_offset a) n"
    have k: "0 < k" "k \<le> n" "k \<le> CITRA_PAGE_SIZE - page_offset a"
      using False page_offset_less [of a] by (auto simp: k_def)
    let ?pt = "tables ms t"
    let ?f = "\<lambda>i. read_byte ?pt ms (a + i)"
    have pp: "plain_page ?pt (page_of a)" using less.prems False by (intro plain_hd) auto
    have "?f i = (if attributes ?pt (page_of a) = Memory then host ms (host_addr ?pt a + i) else 0)"
      if "i < k" for i
      using within_page [of i a] that k(3) by (simp add: read_byte_def host_addr_def add.assoc)
    then have "map ?f [0..<k] =
        map (\<lambda>i. if attributes ?pt (page_of a) = Memory then host ms (host_addr ?pt a + i) else 0) [0..<k]"
      by (intro map_cong) auto
    moreover have "ReadBlock_page env unsafe t a k (d, ms) =
        Some (d @ map (\<lambda>i. if attributes ?pt (page_of a) = Memory
                           then host ms (host_addr ?pt a + i) else 0) [0..<k], ms)"
      using pp by (auto simp: ReadBlock_page_def plain_page_def Let_def fetch_def host_addr_def
          map_replicate_const)
    ultimately have "ReadBlock_page env unsafe t a k (d, ms) = Some (d @ map ?f [0..<k], ms)"
      by simp
    with False have "each_page (ReadBlock_page env unsafe t) a n (d, ms) =
        each_page (ReadBlock_page env unsafe t) (a + k) (n - k) (d @ map ?f [0..<k], ms)"
      by (subst each_page.simps) (simp add: Let_def k_def [symmetric])
    also have "\<dots> = Some ((d @ map ?f [0..<k]) @ map (\<lambda>i. read_byte ?pt ms (a + k + i)) [0..<n - k], ms)"
      using k less.prems by (intro less.IH) (auto intro: plain_drop)
    also have "(d @ map ?f [0..<k]) @ map (\<lambda>i. read_byte ?pt ms (a + k + i)) [0..<n - k] =
        d @ map ?f [0..<n]"
      using upt_split [OF k(2), of ?f] by (simp add: add.assoc)
    finally show ?thesis .
  qed (simp add: each_page.simps)
qed

lemma write_bytes_append:
  "write_bytes pt a (xs @ ys) h = write_bytes pt (a + length xs) ys (write_bytes pt a xs h)"
  by (induction xs arbitrary: a h) simp_all

lemma write_bytes_page:
  assumes "length xs \<le> CITRA_PAGE_SIZE - page_offset a"
  shows "write_bytes pt a xs h =
    (if attributes pt (page_of a) = Memory
     then (\<lambda>x. if host_addr pt a \<le> x \<and> x < host_addr pt a + length xs then xs ! (x - host_addr pt a) else h x)
     else h)"
  using assms
proof (induction xs rule: rev_induct)
  case (snoc b xs)
  then have "length xs < CITRA_PAGE_SIZE - page_offset a" by simp
  from within_page [OF this] snoc show ?case
    by (auto simp: write_bytes_append host_addr_def nth_append fun_eq_iff)
qed (auto simp: fun_eq_iff)

lemma take_source_Buffer [simp]: "take_source (Buffer bs) n ms = take n bs"
  and drop_source_Buffer [simp]: "drop_source (Buffer bs) n = Buffer (drop n bs)"
  by (simp_all add: take_source_def drop_source_def)

lemma WriteBlock_loop:
  "plain (tables ms t) a (length bs) \<Longrightarrow>
   each_page (WriteBlock_page env unsafe t) a (length bs) (Buffer bs, ms) =
     Some (Buffer [], ms\<lparr>host := write_bytes (tables ms t) a bs (host ms)\<rparr>)"
proof (induction "length bs" arbitrary: a bs ms rule: less_induct)
  case less
  show ?case
  proof (cases "bs = []")
    case False
    define k where "k = min (CITRA_PAGE_SIZE - page_offset a) (length bs)"
    have k: "0 < k" "k \<le> length bs" "k \<le> CITRA_PAGE_SIZE - page_offset a"
      using False page_offset_less [of a] by (auto simp: k_def)
    let ?pt = "tables ms t"
    have pp: "plain_page ?pt (page_of a)" using less.prems False by (intro plain_hd) auto
    define h where "h = write_bytes ?pt a (take k bs) (host ms)"
    have h: "h = (if attributes ?pt (page_of a) = Memory
        then host (store (host_addr ?pt a) (take k bs) ms) else host ms)"
      unfolding h_def using k by (subst write_bytes_page) (auto simp: store_def)
    have "WriteBlock_page env unsafe t a k (Buffer bs, ms) = Some (Buffer (drop k bs), ms\<lparr>host := h\<rparr>)"
      using pp unfolding h by (auto simp: WriteBlock_page_def plain_page_def Let_def host_addr_def store_def)
    with False have "each_page (WriteBlock_page env unsafe t) a (length bs) (Buffer bs, ms) =
        each_page (WriteBlock_page env unsafe t) (a + k) (length (drop k bs)) (Buffer (drop k bs), ms\<lparr>host := h\<rparr>)"
      by (subst each_page.simps) (simp add: Let_def k_def [symmetric])
    also have "\<dots> = Some (Buffer [], ms\<lparr>host := write_bytes ?pt (a + k) (drop k bs) h\<rparr>)"
      using k less.prems less.hyps [of "drop k bs" "ms\<lparr>host := h\<rparr>" "a + k"]
      by (simp add: plain_drop)
    also have "write_bytes ?pt (a + k) (drop k bs) h = write_bytes ?pt a bs (host ms)"
      using write_bytes_append [of ?pt a "take k bs" "drop k bs" "host ms"] k by (simp add: h_def)
    finally show ?thesis .
  qed (simp add: each_page.simps)
qed

lemma write_bytes_outside:
  "(\<And>i. i < length bs \<Longrightarrow> x \<noteq> host_addr pt (a + i)) \<Longrightarrow> write_bytes pt a bs h x = h x"
proof (induction bs arbitrary: a h)
  case (Cons b bs)
  have "x \<noteq> host_addr pt (a + 1 + i)" if "i < length bs" for i
    using Cons.prems [of "Suc i"] that by simp
  moreover have "x \<noteq> host_addr pt a" using Cons.prems [of 0] by simp
  ultimately show ?case using Cons.IH [of "a + 1"] by simp
qed simp

lemma write_bytes_inside:
  assumes "inj_on (host_addr pt) {a..<a + length bs}" "i < length bs"
    "\<And>i. i < length bs \<Longrightarrow> attributes pt (page_of (a + i)) = Memory"
  shows "write_bytes pt a bs h (host_addr pt (a + i)) = bs ! i"
  using assms
proof (induction bs arbitrary: a h i)
  case (Cons b bs)
  show ?case
  proof (cases i)
    case 0
    have "host_addr pt a \<noteq> host_addr pt (a + 1 + j)" if "j < length bs" for j
      using inj_onD [OF Cons.prems(1), of a "a + 1 + j"] that by auto
    then show ?thesis using 0 Cons.prems(3) [of 0] by (simp add: write_bytes_outside)
  next
    case (Suc j)
    have "inj_on (host_addr pt) {a + 1..<a + 1 + length bs}"
      using Cons.prems(1) by (rule inj_on_subset) auto
    moreover have "attributes pt (page_of (a + 1 + m)) = Memory" if "m < length bs" for m
      using Cons.prems(3) [of "Suc m"] that by simp
    ultimately show ?thesis using Cons.IH [of "a + 1" j] Cons.prems(2) Suc by simp
  qed
qed simp

text \<open>Memory behind every address of the range, no two addresses sharing a byte.\<close>

definition backed :: "page_table \<Rightarrow> nat \<Rightarrow> nat \<Rightarrow> bool" where
  "backed pt a n \<longleftrightarrow> plain pt a n \<and> (\<forall>i < n. attributes pt (page_of (a + i)) = Memory) \<and>
     inj_on (host_addr pt) {a..<a + n}"

lemma block_write_read:
  assumes "backed (tables ms t) a (length bs)"
    "WriteBlock env u t a (Buffer bs) (length bs) ms = Some ms'"
  shows "ReadBlock env u' t a (length bs) ms' = Some (bs, ms')"
proof -
  have p: "plain (tables ms t) a (length bs)" using assms(1) by (simp add: backed_def)
  have ms': "ms' = ms\<lparr>host := write_bytes (tables ms t) a bs (host ms)\<rparr>"
    using assms(2) unfolding WriteBlock_def WriteBlock_loop [OF p] by simp
  have "map (\<lambda>i. read_byte (tables ms t) ms' (a + i)) [0..<length bs] = bs"
    using assms(1) by (intro nth_equalityI) (auto simp: ms' read_byte_def backed_def write_bytes_inside)
  with p show ?thesis unfolding ReadBlock_def by (subst ReadBlock_loop) (simp_all add: ms')
qed

text \<open>A single access agrees with a block of its size exactly as long as it stays in its page.\<close>

lemma Read_in_page:
  assumes "plain (current_table ms) a n" "attributes (current_table ms) (page_of a) = Memory"
    "n \<le> CITRA_PAGE_SIZE - page_offset a" "0 < n"
  shows "Read env n a ms = ReadBlock env u (current_page_table ms) a n ms"
proof -
  let ?pt = "current_table ms"
  have "plain_page ?pt (page_of a)" using assms(1,4) by (intro plain_hd) auto
  then have "Read env n a ms = Some (fetch (host_addr ?pt a) n ms, ms)"
    using assms(2) by (simp add: Read_def Let_def plain_page_def host_addr_def)
  moreover have "read_byte ?pt ms (a + i) = host ms (host_addr ?pt a + i)" if "i < n" for i
    using within_page [of i a] that assms(2,3) by (simp add: read_byte_def host_addr_def add.assoc)
  ultimately show ?thesis
    using assms(1) by (simp add: ReadBlock_def ReadBlock_loop current_table_def fetch_def)
qed

lemma ReadBlock_bytes:
  "plain (tables ms t) a n \<Longrightarrow>
   ReadBlock env u t a n ms = Some (map (\<lambda>i. read_byte (tables ms t) ms (a + i)) [0..<n], ms)"
  by (simp add: ReadBlock_def ReadBlock_loop)

lemma WriteBlock_bytes:
  "plain (tables ms t) a (length bs) \<Longrightarrow>
   WriteBlock env u t a (Buffer bs) (length bs) ms =
     Some (ms\<lparr>host := write_bytes (tables ms t) a bs (host ms)\<rparr>)"
  by (simp add: WriteBlock_def WriteBlock_loop)

lemma ZeroBlock_page_Write:
  "plain_page (tables ms t) (page_of a) \<Longrightarrow>
   ZeroBlock_page env t a n ms = map_option snd (WriteBlock_page env u t a n (Buffer (replicate n 0), ms))"
  by (auto simp: ZeroBlock_page_def WriteBlock_page_def plain_page_def Let_def)

section \<open>Values\<close>

lemma le_nat_Cons: "le_nat (b # bs) = unat b + 256 * le_nat bs"
  by (simp add: le_nat_def)

lemma le_bytes_Suc: "le_bytes (Suc n) v = word_of_nat v # le_bytes n (v div 256)"
proof -
  have "v div (256 * 256 ^ i) = v div 256 div 256 ^ i" for i by (simp add: div_mult2_eq)
  then show ?thesis
    by (simp add: le_bytes_def upt_rec [of 0] map_Suc_upt [symmetric] del: upt_Suc)
qed

lemma le_nat_bytes: "le_nat (le_bytes n v) = v mod 256 ^ n"
proof (induction n arbitrary: v)
  case (Suc n)
  have "v mod (256 * 256 ^ n) = 256 * (v div 256 mod 256 ^ n) + v mod 256"
    by (rule mod_mult2_eq)
  then show ?case
    by (simp add: le_bytes_Suc le_nat_Cons Suc.IH unat_of_nat)
qed (simp add: le_bytes_def le_nat_def)

lemma length_le_bytes [simp]: "length (le_bytes n v) = n"
  by (simp add: le_bytes_def)

lemma fetch_store [simp]: "length bs = n \<Longrightarrow> fetch p n (store p bs ms) = bs"
  by (auto simp: fetch_def store_def intro: nth_equalityI)

lemma store_frame [simp]:
  "tables (store p bs ms) = tables ms" "current_page_table (store p bs ms) = current_page_table ms"
  "current_table (store p bs ms) = current_table ms"
  by (simp_all add: store_def current_table_def)

lemma value_write_read:
  assumes "GetPtr (pointers (current_table ms) (page_of a)) \<noteq> 0" "Write env a (le_bytes n v) ms = Some ms'"
  shows "read_value env n a ms' = Some (v mod 256 ^ n, ms')"
  using assms by (auto simp: Write_def Let_def read_value_def Read_def le_nat_bytes)

section \<open>Properties\<close>

text \<open>C23: The page-by-page loops of \<open>ReadBlock\<close> and \<open>WriteBlock\<close> do what a loop over the single bytes of
  the range would do: on pages that are plain memory or unmapped, reading gives the byte behind each
  address, zero where nothing is mapped, and writing sets the byte behind each mapped address in turn
  and changes nothing else.\<close>

theorem blocks_are_bytewise:
  assumes "plain (tables ms t) a (length bs)"
  shows "ReadBlock env u t a (length bs) ms =
      Some (map (\<lambda>i. read_byte (tables ms t) ms (a + i)) [0..<length bs], ms) \<and>
    WriteBlock env u t a (Buffer bs) (length bs) ms =
      Some (ms\<lparr>host := write_bytes (tables ms t) a bs (host ms)\<rparr>)"
  using assms by (simp add: ReadBlock_bytes WriteBlock_bytes)

text \<open>Two pages of guest memory, next to each other but not so in host memory, and one that is not mapped.\<close>

definition sample_table :: page_table where
  "sample_table = \<lparr>
     pointers = (\<lambda>page. if page = 1 then \<lparr>GetPtr = 0x9000, ref_size = 0x1000\<rparr>
                        else if page = 2 then \<lparr>GetPtr = 0x3000, ref_size = 0x1000\<rparr> else null_ref),
     special_regions = [],
     attributes = (\<lambda>page. if page = 1 \<or> page = 2 then Memory else Unmapped)\<rparr>"

definition sample_memory :: "unit memory_system" where
  "sample_memory = \<lparr>
     host = (\<lambda>_. 7), region_ptr = (\<lambda>r. case r of FCRAM \<Rightarrow> 0x10000000 | VRAM \<Rightarrow> 0x20000000 | DSP \<Rightarrow> 0x30000000
                                                | N3DS \<Rightarrow> 0x40000000),
     cache_marker = (\<lambda>_. False), tables = (\<lambda>_. sample_table), page_table_list = [0],
     current_page_table = 0, plugin_fb_addr = 0, devices = ()\<rparr>"

lemma sample_memory_simps:
  "tables sample_memory t = sample_table" "host sample_memory = (\<lambda>_. 7)"
  by (simp_all add: sample_memory_def)

lemma length_four: "length [a, b, c, d] = 4"
  by simp

lemma less_four: "(i :: nat) < 4 \<longleftrightarrow> i = 0 \<or> i = 1 \<or> i = 2 \<or> i = 3"
  by arith

lemma sample_plain: "plain sample_table 0x1FFE 4" "plain sample_table 0x2FFE 4"
  by (auto simp: plain_def plain_page_def less_four sample_table_def page_of_def memory_map)

theorem blocks_are_bytewise_witness:
  "ReadBlock no_devices False 0 0x2FFE 4 sample_memory =
      Some (map (\<lambda>i. read_byte sample_table sample_memory (0x2FFE + i)) [0..<4], sample_memory) \<and>
   WriteBlock no_devices False 0 0x2FFE (Buffer [1, 2, 3, 4]) 4 sample_memory =
      Some (sample_memory\<lparr>host := write_bytes sample_table 0x2FFE [1, 2, 3, 4] (\<lambda>_. 7)\<rparr>)"
  using blocks_are_bytewise [of sample_memory 0 "0x2FFE" "[1, 2, 3, 4]" no_devices False] sample_plain
  unfolding length_four sample_memory_simps by blast

text \<open>C29: What \<open>WriteBlock\<close> wrote is what \<open>ReadBlock\<close> of the same range returns, across the ends of pages
  too, when memory is behind every address of the range and no two of them share a byte.\<close>

theorem block_roundtrip:
  assumes "backed (tables ms t) a (length bs)"
  shows "\<exists>ms'. WriteBlock env u t a (Buffer bs) (length bs) ms = Some ms' \<and>
    ReadBlock env u' t a (length bs) ms' = Some (bs, ms')"
  using assms by (metis WriteBlock_bytes backed_def block_write_read)

lemma sample_backed: "backed sample_table 0x1FFE 4"
proof -
  have "{0x1FFE..<0x1FFE + 4} = {0x1FFE, 0x1FFF, 0x2000, 0x2001 :: nat}" by auto
  then have "inj_on (host_addr sample_table) {0x1FFE..<0x1FFE + 4}"
    by (simp add: host_addr_def sample_table_def page_of_def page_offset_def memory_map)
  moreover have "\<forall>i < 4. attributes sample_table (page_of (0x1FFE + i)) = Memory"
    by (auto simp: less_four sample_table_def page_of_def memory_map)
  ultimately show ?thesis unfolding backed_def using sample_plain(1) by blast
qed

theorem block_roundtrip_witness:
  "\<exists>ms'. WriteBlock no_devices False 0 0x1FFE (Buffer [1, 2, 3, 4]) 4 sample_memory = Some ms' \<and>
     ReadBlock no_devices True 0 0x1FFE 4 ms' = Some ([1, 2, 3, 4], ms')"
  using block_roundtrip [of sample_memory 0 "0x1FFE" "[1, 2, 3, 4]" no_devices False True] sample_backed
  unfolding length_four sample_memory_simps by blast

text \<open>A value of 8, 16, 32 or 64 bits that the guest writes to memory is read back as it was, taken
  modulo its width, with the bytes in little-endian order.\<close>

theorem value_roundtrip:
  assumes "GetPtr (pointers (current_table ms) (page_of a)) \<noteq> 0"
  shows "Option.bind (Write8 env a v ms) (Read8 env a) = map_option (Pair (v mod 2 ^ 8)) (Write8 env a v ms) \<and>
    Option.bind (Write16 env a v ms) (Read16 env a) = map_option (Pair (v mod 2 ^ 16)) (Write16 env a v ms) \<and>
    Option.bind (Write32 env a v ms) (Read32 env a) = map_option (Pair (v mod 2 ^ 32)) (Write32 env a v ms) \<and>
    Option.bind (Write64 env a v ms) (Read64 env a) = map_option (Pair (v mod 2 ^ 64)) (Write64 env a v ms) \<and>
    Write64 env a v ms \<noteq> None"
proof -
  have *: "Option.bind (Write env a (le_bytes n v) ms) (read_value env n a) =
      map_option (Pair (v mod 256 ^ n)) (Write env a (le_bytes n v) ms)" for n
    using value_write_read [OF assms] by (cases "Write env a (le_bytes n v) ms") simp_all
  show ?thesis using *[of 1] *[of 2] *[of 4] *[of 8] assms
    by (simp add: Write8_def Read8_def Write16_def Read16_def Write32_def Read32_def Write64_def Read64_def)
      (simp add: Write_def Let_def)
qed

theorem value_roundtrip_witness:
  "Option.bind (Write32 no_devices 0x1004 0x12345678 sample_memory) (Read32 no_devices 0x1004) =
     map_option (Pair 0x12345678) (Write32 no_devices 0x1004 0x12345678 sample_memory)"
  using value_roundtrip [of sample_memory "0x1004" no_devices "0x12345678"]
  by (simp add: sample_memory_def sample_table_def current_table_def page_of_def memory_map)

text \<open>A single access looks up one page only: where the bytes cross its end they are those after the
  page in host memory, whatever the next page of the guest is; a block transfer looks up both pages.\<close>

theorem Read_ignores_next_page:
  assumes "GetPtr (pointers (current_table ms) (page_of a)) = p" "p \<noteq> 0"
  shows "Read env n a ms = Some (map (\<lambda>i. host ms (p + page_offset a + i)) [0..<n], ms)"
  using assms by (simp add: Read_def Let_def fetch_def)

theorem Read_ignores_next_page_witness:
  "Read no_devices 4 0x1FFE sample_memory =
     Some (map (\<lambda>i. host sample_memory (0x9000 + page_offset 0x1FFE + i)) [0..<4], sample_memory)"
  by (rule Read_ignores_next_page)
    (simp_all add: sample_memory_def sample_table_def current_table_def page_of_def memory_map)

end
