(* ===== verification/RasterizerCache.thy ===== *)
theory RasterizerCache
  imports MemorySystem
begin

text \<open>
  What \<open>RasterizerMarkRegionCached\<close> does to the page tables: which guest pages belong to a physical
  range, when every one of them can be marked, and that unmarking gives the tables back.
\<close>

section \<open>Marking pages as cached\<close>

text \<open>The guest addresses of the pages of a physical range, in the order of the loop.\<close>

primrec region_vaddrs :: "nat \<Rightarrow> nat \<Rightarrow> 'd memory_system \<Rightarrow> nat list" where
  "region_vaddrs paddr 0 ms = []"
| "region_vaddrs paddr (Suc n) ms =
     PhysicalToVirtualAddressForRasterizer paddr ms @ region_vaddrs (add32 paddr CITRA_PAGE_SIZE) n ms"

definition num_pages :: "nat \<Rightarrow> nat \<Rightarrow> nat" where
  "num_pages start sz = add32 (sub32 (page_of (sub32 (add32 start sz) 1)) (page_of start)) 1"

lemma iterate_append: "iterate f (xs @ ys) s = Option.bind (iterate f xs s) (iterate f ys)"
  by (induction xs arbitrary: s) (simp_all add: Option.bind_assoc)

text \<open>Marking leaves alone what decides which pages are marked.\<close>

definition same_setup :: "'d memory_system \<Rightarrow> 'd memory_system \<Rightarrow> bool" where
  "same_setup ms ms' \<longleftrightarrow>
     plugin_fb_addr ms' = plugin_fb_addr ms \<and> page_table_list ms' = page_table_list ms \<and>
     region_ptr ms' = region_ptr ms"

lemma same_setup_refl: "same_setup ms ms"
  by (simp add: same_setup_def)

lemma same_setup_trans: "same_setup a b \<Longrightarrow> same_setup b c \<Longrightarrow> same_setup a c"
  by (simp add: same_setup_def)

lemma iterate_same_setup:
  assumes "iterate f xs s = Some s'" "\<And>x s s'. f x s = Some s' \<Longrightarrow> same_setup s s'"
  shows "same_setup s s'"
  using assms(1) by (rule iterate_invariant [where P = "same_setup s"])
    (rule same_setup_refl, erule same_setup_trans [OF _ assms(2)])

lemma same_setup_upd: "same_setup ms (upd_table t f ms)"
  by (simp add: same_setup_def)

lemma mark_page_frame: "mark_page v c t ms = Some ms' \<Longrightarrow> same_setup ms ms'"
  by (auto simp: mark_page_def Let_def bind_eq_Some_conv split: if_splits PageType.splits
      intro: same_setup_refl same_setup_upd)

lemma mark_vaddr_frame: "mark_vaddr c v ms = Some ms' \<Longrightarrow> same_setup ms ms'"
  unfolding mark_vaddr_def Let_def
  by (drule iterate_same_setup [OF _ mark_page_frame]) (simp_all add: same_setup_def Mark_def split: option.splits)

lemmas iterate_mark_frame = iterate_same_setup [OF _ mark_vaddr_frame]

lemma PhysicalToVirtual_cong:
  "plugin_fb_addr ms' = plugin_fb_addr ms \<Longrightarrow>
   PhysicalToVirtualAddressForRasterizer p ms' = PhysicalToVirtualAddressForRasterizer p ms"
  by (simp add: PhysicalToVirtualAddressForRasterizer_def)

lemma region_vaddrs_cong:
  assumes "plugin_fb_addr ms' = plugin_fb_addr ms"
  shows "region_vaddrs p n ms' = region_vaddrs p n ms"
  by (induction n arbitrary: p) (simp_all add: PhysicalToVirtual_cong [OF assms])

lemma mark_region_iterate: "mark_region c p n ms = iterate (mark_vaddr c) (region_vaddrs p n ms) ms"
proof (induction n arbitrary: p ms)
  case (Suc n)
  let ?vs = "PhysicalToVirtualAddressForRasterizer p ms"
  have "mark_region c (add32 p CITRA_PAGE_SIZE) n ms1 =
      iterate (mark_vaddr c) (region_vaddrs (add32 p CITRA_PAGE_SIZE) n ms) ms1"
    if "iterate (mark_vaddr c) ?vs ms = Some ms1" for ms1
  proof -
    have "plugin_fb_addr ms1 = plugin_fb_addr ms" using iterate_mark_frame [OF that] by (simp add: same_setup_def)
    then show ?thesis by (simp only: Suc.IH region_vaddrs_cong [of ms1 ms])
  qed
  then show ?case by (cases "iterate (mark_vaddr c) ?vs ms") (simp_all add: iterate_append)
qed simp

lemma RasterizerMarkRegionCached_iterate:
  "start \<noteq> 0 \<Longrightarrow> RasterizerMarkRegionCached start sz c ms =
     iterate (mark_vaddr c) (region_vaddrs start (num_pages start sz) ms) ms"
  by (simp add: RasterizerMarkRegionCached_def num_pages_def mark_region_iterate)

subsection \<open>The pages of a region are distinct\<close>

lemma page_shift:
  assumes "c \<le> p" "4096 dvd c" "4096 dvd d"
  shows "page_of (p - c + d) = page_of p - c div 4096 + d div 4096"
proof -
  from assms obtain x y where xy: "c = x * 4096" "d = y * 4096" by (metis dvd_def mult.commute)
  then have "p = (p - c) + x * 4096" using assms(1) by simp
  then have "p div 4096 = ((p - c) + x * 4096) div 4096" by (rule arg_cong)
  also have "\<dots> = (p - c) div 4096 + x" by simp
  finally have "p div 4096 = (p - c) div 4096 + x" .
  then show ?thesis unfolding page_of_def CITRA_PAGE_SIZE_def xy by simp
qed

text \<open>A page determines the physical page that it belongs to.\<close>

definition phys_page :: "nat \<Rightarrow> nat \<Rightarrow> nat" where
  "phys_page fb page =
     (if 0x1F000 \<le> page \<and> page < 0x1F600 then page - 0x1F000 + 0x18000
      else if 0x6000 \<le> page \<and> page < 0x60A9 then page - 0x6000 + fb div 4096
      else if 0x14000 \<le> page \<and> page < 0x1C000 then page - 0x14000 + 0x20000
      else page - 0x30000 + 0x20000)"

lemma phys_page:
  assumes "v \<in> set (PhysicalToVirtualAddressForRasterizer p ms)" "4096 dvd plugin_fb_addr ms"
  shows "phys_page (plugin_fb_addr ms) (page_of v) = page_of p"
proof -
  let ?fb = "plugin_fb_addr ms"
  have le: "a \<le> p \<Longrightarrow> 4096 dvd a \<Longrightarrow> a div 4096 \<le> page_of p" for a
    by (simp add: page_of_def CITRA_PAGE_SIZE_def div_le_mono)
  have lt: "p < b \<Longrightarrow> 4096 dvd b \<Longrightarrow> page_of p < b div 4096" for b
    by (auto simp: page_of_def CITRA_PAGE_SIZE_def elim!: dvdE intro: less_mult_imp_div_less)
  consider "v = p - 0x18000000 + 0x1F000000" "0x18000000 \<le> p" "p < 0x18600000"
    | "v = p - ?fb + 0x06000000" "?fb \<le> p" "p < add32 ?fb 0xA9000"
    | "v = p - 0x20000000 + 0x14000000" "0x20000000 \<le> p" "p < 0x28000000"
    | "v = p - 0x20000000 + 0x30000000" "0x20000000 \<le> p" "p < 0x30000000"
    using assms(1) unfolding PhysicalToVirtualAddressForRasterizer_def memory_map
    by (simp split: if_splits) linarith+
  then show ?thesis
  proof cases
    case 1
    from page_shift [OF 1(2), of "0x1F000000"] le [OF 1(2)] lt [OF 1(3)] show ?thesis
      unfolding 1(1) phys_page_def by simp
  next
    case 2
    have "p < ?fb + 0xA9000" using 2(3) unfolding add32_def
      by (meson mod_less_eq_dividend order_less_le_trans)
    from page_shift [OF 2(2) assms(2), of "0x06000000"] le [OF 2(2) assms(2)] lt [OF this]
    show ?thesis using assms(2) unfolding 2(1) phys_page_def by (simp add: div_add) arith
  next
    case 3
    from page_shift [OF 3(2), of "0x14000000"] le [OF 3(2)] lt [OF 3(3)] show ?thesis
      unfolding 3(1) phys_page_def by simp arith
  next
    case 4
    from page_shift [OF 4(2), of "0x30000000"] le [OF 4(2)] lt [OF 4(3)] show ?thesis
      unfolding 4(1) phys_page_def by simp
  qed
qed


lemma PhysicalToVirtual_distinct:
  "distinct (map page_of (PhysicalToVirtualAddressForRasterizer p ms))"
proof -
  have "page_of (p - 0x20000000 + 0x14000000) \<noteq> page_of (p - 0x20000000 + 0x30000000)" if "0x20000000 \<le> p"
    using page_shift [OF that, of "0x14000000"] page_shift [OF that, of "0x30000000"] by simp
  then show ?thesis unfolding PhysicalToVirtualAddressForRasterizer_def memory_map by simp
qed

lemma region_vaddrs_distinct:
  assumes "4096 dvd plugin_fb_addr ms" "p + n * 4096 < 2 ^ 32 + 4096"
  shows "distinct (map page_of (region_vaddrs p n ms)) \<and>
    (\<forall>v \<in> set (region_vaddrs p n ms). page_of p \<le> phys_page (plugin_fb_addr ms) (page_of v))"
  using assms(2)
proof (induction n arbitrary: p)
  case (Suc n)
  let ?vs = "PhysicalToVirtualAddressForRasterizer p ms"
  show ?case
  proof (cases "n = 0")
    case True
    then show ?thesis using phys_page [OF _ assms(1)] by (simp add: PhysicalToVirtual_distinct)
  next
    case False
    then have p: "add32 p CITRA_PAGE_SIZE = p + 4096"
      using Suc.prems by (auto simp: CITRA_PAGE_SIZE_def intro!: add32_id)
    have s: "page_of (p + 4096) = Suc (page_of p)" by (simp add: page_of_def CITRA_PAGE_SIZE_def)
    have IH: "distinct (map page_of (region_vaddrs (p + 4096) n ms))"
      "\<forall>v \<in> set (region_vaddrs (p + 4096) n ms). Suc (page_of p) \<le> phys_page (plugin_fb_addr ms) (page_of v)"
      using Suc.IH [of "p + 4096"] Suc.prems by (simp_all add: s)
    have "page_of v \<noteq> page_of w" if "v \<in> set ?vs" "w \<in> set (region_vaddrs (p + 4096) n ms)" for v w
      using phys_page [OF that(1) assms(1)] IH(2) that(2) by auto
    then have "set (map page_of ?vs) \<inter> set (map page_of (region_vaddrs (p + 4096) n ms)) = {}"
      by auto
    then show ?thesis using IH phys_page [OF _ assms(1)] PhysicalToVirtual_distinct [of p ms]
      by (auto simp: p Suc_le_eq less_imp_le simp del: set_map)
  qed
qed simp

subsection \<open>What marking does\<close>

text \<open>The page that a table must have for the mark, and what becomes of a set of pages.\<close>

definition markable :: "bool \<Rightarrow> page_table \<Rightarrow> nat \<Rightarrow> bool" where
  "markable cached pt page \<longleftrightarrow>
     attributes pt page = Unmapped \<or> attributes pt page = (if cached then Memory else RasterizerCachedMemory)"

definition cache_ref :: "'d memory_system \<Rightarrow> nat \<Rightarrow> memory_ref" where
  "cache_ref ms page = the (GetPointerForRasterizerCache (page * CITRA_PAGE_SIZE) ms)"

definition mark_table :: "bool \<Rightarrow> (nat \<Rightarrow> memory_ref) \<Rightarrow> nat set \<Rightarrow> page_table \<Rightarrow> page_table" where
  "mark_table cached ref pages pt = pt\<lparr>
     attributes := (\<lambda>p. if p \<in> pages \<and> attributes pt p \<noteq> Unmapped
                        then (if cached then RasterizerCachedMemory else Memory) else attributes pt p),
     pointers := (\<lambda>p. if p \<in> pages \<and> attributes pt p \<noteq> Unmapped
                      then (if cached then null_ref else ref p) else pointers pt p)\<rparr>"

lemma mark_table_insert:
  "mark_table c ref (insert p P) pt = mark_table c ref P (mark_table c ref {p} pt)"
  by (rule page_table.equality) (auto simp: mark_table_def fun_eq_iff)

lemma mark_table_empty [simp]: "mark_table c ref {} pt = pt"
  by (simp add: mark_table_def)

lemma attributes_mark_other: "p \<notin> P \<Longrightarrow> attributes (mark_table c ref P pt) p = attributes pt p"
  by (simp add: mark_table_def)

lemma page_start: "v - page_offset v = page_of v * CITRA_PAGE_SIZE"
  by (simp add: page_offset_def page_of_def minus_mod_eq_div_mult)

lemma mark_page_eq:
  assumes "GetPointerForRasterizerCache (page_of v * CITRA_PAGE_SIZE) ms \<noteq> None"
  shows "mark_page v c t ms =
    (if markable c (tables ms t) (page_of v)
     then Some (upd_table t (mark_table c (cache_ref ms) {page_of v}) ms) else None)"
proof -
  have "GetPointerForRasterizerCache (page_of v * CITRA_PAGE_SIZE) ms = Some (cache_ref ms (page_of v))"
    using assms by (auto simp: cache_ref_def)
  then show ?thesis
    by (cases "attributes (tables ms t) (page_of v)")
      (auto simp: mark_page_def markable_def mark_table_def set_page_def upd_table_def page_start
        Let_def fun_eq_iff intro!: memory_system.equality page_table.equality)
qed

lemma GetPointerForRasterizerCache_cong:
  assumes "same_setup ms ms'"
  shows "GetPointerForRasterizerCache a ms' = GetPointerForRasterizerCache a ms"
  using assms by (simp add: GetPointerForRasterizerCache_def region_ref_def same_setup_def)

lemma cache_ref_cong: "same_setup ms ms' \<Longrightarrow> cache_ref ms' = cache_ref ms"
  by (simp add: cache_ref_def GetPointerForRasterizerCache_cong fun_eq_iff)

definition mark_tables :: "bool \<Rightarrow> nat set \<Rightarrow> 'd memory_system \<Rightarrow> nat set \<Rightarrow> nat \<Rightarrow> page_table" where
  "mark_tables c pages ms ts t =
     (if t \<in> ts then mark_table c (cache_ref ms) pages (tables ms t) else tables ms t)"

lemma mark_tables_none [simp]: "mark_tables c P ms {} = tables ms" "mark_tables c {} ms ts = tables ms"
  by (simp_all add: mark_tables_def fun_eq_iff)

lemma iterate_mark_page:
  assumes "GetPointerForRasterizerCache (page_of v * CITRA_PAGE_SIZE) ms \<noteq> None" "distinct ts"
    "\<forall>t \<in> set ts. markable c (tables ms t) (page_of v)"
  shows "iterate (mark_page v c) ts ms = Some (ms\<lparr>tables := mark_tables c {page_of v} ms (set ts)\<rparr>)"
  using assms
proof (induction ts arbitrary: ms)
  case (Cons t ts)
  let ?ms = "upd_table t (mark_table c (cache_ref ms) {page_of v}) ms"
  note su = same_setup_upd [of ms t "mark_table c (cache_ref ms) {page_of v}"]
  have "tables ?ms u = tables ms u" if "u \<in> set ts" for u using that Cons.prems(2) by auto
  then have "iterate (mark_page v c) ts ?ms = Some (?ms\<lparr>tables := mark_tables c {page_of v} ?ms (set ts)\<rparr>)"
    using Cons.prems by (intro Cons.IH) (auto simp: GetPointerForRasterizerCache_cong [OF su])
  moreover have "mark_tables c {page_of v} ?ms (set ts) = mark_tables c {page_of v} ms (set (t # ts))"
    using Cons.prems(2) by (auto simp: mark_tables_def fun_eq_iff cache_ref_cong [OF su])
  ultimately show ?case using Cons.prems by (simp add: mark_page_eq upd_table_def)
qed simp

lemma iterate_mark_page_fails:
  assumes "GetPointerForRasterizerCache (page_of v * CITRA_PAGE_SIZE) ms \<noteq> None" "distinct ts"
    "t \<in> set ts" "\<not> markable c (tables ms t) (page_of v)"
  shows "iterate (mark_page v c) ts ms = None"
  using assms
proof (induction ts arbitrary: ms)
  case (Cons u ts)
  let ?ms = "upd_table u (mark_table c (cache_ref ms) {page_of v}) ms"
  note su = same_setup_upd [of ms u "mark_table c (cache_ref ms) {page_of v}"]
  show ?case
  proof (cases "u = t \<or> \<not> markable c (tables ms u) (page_of v)")
    case False
    then have "iterate (mark_page v c) ts ?ms = None"
      using Cons.prems by (intro Cons.IH) (auto simp: GetPointerForRasterizerCache_cong [OF su])
    then show ?thesis using Cons.prems(1) False by (simp add: mark_page_eq)
  qed (use Cons.prems in \<open>auto simp: mark_page_eq\<close>)
qed simp

definition mark_all :: "bool \<Rightarrow> nat list \<Rightarrow> 'd memory_system \<Rightarrow> 'd memory_system" where
  "mark_all c vs ms = fold (\<lambda>v. Mark v c) vs
     (ms\<lparr>tables := mark_tables c (page_of ` set vs) ms (set (page_table_list ms))\<rparr>)"

lemma same_setup_Mark: "same_setup ms (Mark v c ms)"
  by (simp add: Mark_def same_setup_def split: option.splits)

lemma Mark_frame [simp]:
  "tables (Mark v c ms) = tables ms" "page_table_list (Mark v c ms) = page_table_list ms"
  "host (Mark v c ms) = host ms"
  by (simp_all add: Mark_def split: option.splits)

lemma Mark_tables: "Mark v c (ms\<lparr>tables := x\<rparr>) = (Mark v c ms)\<lparr>tables := x\<rparr>"
  by (simp add: Mark_def split: option.splits)

lemma fold_Mark_tables: "fold (\<lambda>v. Mark v c) vs (ms\<lparr>tables := x\<rparr>) = (fold (\<lambda>v. Mark v c) vs ms)\<lparr>tables := x\<rparr>"
  by (induction vs arbitrary: ms) (simp_all add: Mark_tables)

lemma iterate_mark_vaddr:
  assumes "\<forall>v \<in> set vs. GetPointerForRasterizerCache (page_of v * CITRA_PAGE_SIZE) ms \<noteq> None"
    "distinct (page_table_list ms)" "distinct (map page_of vs)"
    "\<forall>t \<in> set (page_table_list ms). \<forall>v \<in> set vs. markable c (tables ms t) (page_of v)"
  shows "iterate (mark_vaddr c) vs ms = Some (mark_all c vs ms)"
  using assms
proof (induction vs arbitrary: ms)
  case (Cons v vs)
  let ?ts = "page_table_list ms"
  let ?ms = "Mark v c ms"
  let ?ms1 = "?ms\<lparr>tables := mark_tables c {page_of v} ?ms (set ?ts)\<rparr>"
  have su: "same_setup ms ?ms1" using same_setup_Mark [of ms v c] by (simp add: same_setup_def)
  have step: "mark_vaddr c v ms = Some ?ms1"
    unfolding mark_vaddr_def Let_def using Cons.prems
    by (subst iterate_mark_page) (auto simp: GetPointerForRasterizerCache_cong [OF same_setup_Mark])
  have "markable c (tables ?ms1 t) (page_of w)" if "t \<in> set ?ts" "w \<in> set vs" for t w
  proof -
    have "page_of v \<notin> page_of ` set vs" using Cons.prems(3) by simp
    then have "page_of w \<noteq> page_of v" using that(2) by (metis imageI)
    then show ?thesis using Cons.prems(4) that
      by (simp add: mark_tables_def markable_def attributes_mark_other)
  qed
  then have "iterate (mark_vaddr c) vs ?ms1 = Some (mark_all c vs ?ms1)"
    using Cons.prems by (intro Cons.IH) (auto simp: GetPointerForRasterizerCache_cong [OF su])
  moreover have "mark_all c vs ?ms1 = mark_all c (v # vs) ms"
  proof -
    have "mark_tables c (page_of ` set vs) ?ms1 (set ?ts) = mark_tables c (page_of ` set (v # vs)) ms (set ?ts)"
      by (auto simp: mark_tables_def fun_eq_iff cache_ref_cong [OF su]
          cache_ref_cong [OF same_setup_Mark] mark_table_insert [of c _ "page_of v" "page_of ` set vs"])
    then show ?thesis by (simp add: mark_all_def fold_Mark_tables Mark_tables)
  qed
  ultimately show ?case by (simp add: step)
qed (simp add: mark_all_def mark_tables_def)


lemma cache_marker_fold:
  "cache_marker (fold (\<lambda>v. Mark v c) vs m) s = (if \<exists>v \<in> set vs. At v = Some s then c else cache_marker m s)"
  by (induction vs arbitrary: m) (auto simp: Mark_def split: option.splits)

lemma Mark_marker: "Mark v c m = m\<lparr>cache_marker := cache_marker (Mark v c m)\<rparr>"
  by (simp add: Mark_def split: option.splits)

lemma fold_Mark_frame:
  "\<exists>k. fold (\<lambda>v. Mark v c) vs m = m\<lparr>cache_marker := k\<rparr>"
proof (induction vs arbitrary: m)
  case Nil
  show ?case by (rule exI [of _ "cache_marker m"]) simp
next
  case (Cons v vs)
  obtain k where "fold (\<lambda>v. Mark v c) vs (Mark v c m) = (Mark v c m)\<lparr>cache_marker := k\<rparr>"
    using Cons.IH by blast
  also have "\<dots> = m\<lparr>cache_marker := k\<rparr>" by (subst Mark_marker) simp
  finally show ?case by auto
qed

lemma mark_all_marker:
  obtains k where "mark_all c vs ms =
    ms\<lparr>tables := mark_tables c (page_of ` set vs) ms (set (page_table_list ms)), cache_marker := k\<rparr>"
  using fold_Mark_frame [of c vs "ms\<lparr>tables := mark_tables c (page_of ` set vs) ms (set (page_table_list ms))\<rparr>"]
  unfolding mark_all_def by auto

lemma same_setup_mark_all: "same_setup ms (mark_all c vs ms)"
  by (rule mark_all_marker [of c vs ms]) (simp add: same_setup_def)

lemma tables_mark_all:
  "tables (mark_all c vs ms) = mark_tables c (page_of ` set vs) ms (set (page_table_list ms))"
  by (rule mark_all_marker [of c vs ms]) simp

lemma page_table_list_mark_all [simp]: "page_table_list (mark_all c vs ms) = page_table_list ms"
  using same_setup_mark_all [of ms c vs] by (simp add: same_setup_def)

text \<open>A page of a table that is not mapped, or mapped to the memory that the cache expects there.\<close>

definition identity_mapped :: "'d memory_system \<Rightarrow> page_table \<Rightarrow> nat \<Rightarrow> bool" where
  "identity_mapped ms pt page \<longleftrightarrow>
     attributes pt page = Unmapped \<or>
     attributes pt page = Memory \<and>
       GetPointerForRasterizerCache (page * CITRA_PAGE_SIZE) ms = Some (pointers pt page)"

lemma mark_table_restores:
  assumes "\<forall>page \<in> P. identity_mapped ms pt page"
  shows "mark_table False (cache_ref ms) P (mark_table True (cache_ref ms) P pt) = pt"
proof (rule page_table.equality)
  show "attributes (mark_table False (cache_ref ms) P (mark_table True (cache_ref ms) P pt)) = attributes pt"
    using assms by (auto simp: mark_table_def fun_eq_iff identity_mapped_def)
  show "pointers (mark_table False (cache_ref ms) P (mark_table True (cache_ref ms) P pt)) = pointers pt"
    using assms by (auto simp: mark_table_def fun_eq_iff identity_mapped_def cache_ref_def)
qed (simp_all add: mark_table_def)

lemma mark_restores:
  assumes "\<forall>v \<in> set vs. \<not> IsCached v ms"
    "\<forall>t \<in> set (page_table_list ms). \<forall>v \<in> set vs. identity_mapped ms (tables ms t) (page_of v)"
  shows "mark_all False vs (mark_all True vs ms) = ms"
proof -
  let ?m1 = "mark_all True vs ms"
  have "cache_marker (mark_all False vs ?m1) = cache_marker ms"
    using assms(1) unfolding mark_all_def by (auto simp: cache_marker_fold fun_eq_iff IsCached_def)
  moreover have "tables (mark_all False vs ?m1) t = tables ms t" for t
    using mark_table_restores [of "page_of ` set vs" ms "tables ms t"] assms(2)
    by (simp add: tables_mark_all mark_tables_def cache_ref_cong [OF same_setup_mark_all])
  then have "tables (mark_all False vs ?m1) = tables ms" by blast
  moreover obtain k1 k2 x1 x2 where "?m1 = ms\<lparr>tables := x1, cache_marker := k1\<rparr>"
      "mark_all False vs ?m1 = ?m1\<lparr>tables := x2, cache_marker := k2\<rparr>"
    by (rule mark_all_marker [of True vs ms], rule mark_all_marker [of False vs ?m1])
  ultimately show ?thesis by simp
qed

lemma mark_unmark:
  assumes "distinct (page_table_list ms)" "distinct (map page_of vs)"
    and "\<forall>v \<in> set vs. \<not> IsCached v ms \<and> GetPointerForRasterizerCache (page_of v * CITRA_PAGE_SIZE) ms \<noteq> None"
    and "\<forall>t \<in> set (page_table_list ms). \<forall>v \<in> set vs. identity_mapped ms (tables ms t) (page_of v)"
  shows "iterate (mark_vaddr True) vs ms = Some (mark_all True vs ms)"
    "iterate (mark_vaddr False) vs (mark_all True vs ms) = Some ms"
proof -
  have "markable True (tables ms t) (page_of v)" if "t \<in> set (page_table_list ms)" "v \<in> set vs" for t v
    using assms(4) that by (auto simp: markable_def identity_mapped_def)
  then show "iterate (mark_vaddr True) vs ms = Some (mark_all True vs ms)"
    using assms by (intro iterate_mark_vaddr) auto
  have "markable False (tables (mark_all True vs ms) t) (page_of v)"
    if "t \<in> set (page_table_list ms)" "v \<in> set vs" for t v
    using that by (simp add: markable_def tables_mark_all mark_tables_def mark_table_def)
  then have "iterate (mark_vaddr False) vs (mark_all True vs ms) =
      Some (mark_all False vs (mark_all True vs ms))"
    using assms by (intro iterate_mark_vaddr)
      (auto simp: GetPointerForRasterizerCache_cong [OF same_setup_mark_all])
  then show "iterate (mark_vaddr False) vs (mark_all True vs ms) = Some ms"
    using assms by (simp add: mark_restores)
qed

section \<open>Properties\<close>

text \<open>C30: Marking a physical range as cached and then as not cached gives back the memory system as it
  was, page tables and marks, when the range was not cached and every process has the pages of the
  range unmapped or mapped to the memory that belongs there; and both calls return.\<close>

theorem mark_then_unmark_restores:
  assumes "start \<noteq> 0" "distinct (page_table_list ms)" "4096 dvd plugin_fb_addr ms"
    and "start + num_pages start sz * 4096 < 2 ^ 32 + 4096"
    and "\<forall>v \<in> set (region_vaddrs start (num_pages start sz) ms).
      \<not> IsCached v ms \<and> GetPointerForRasterizerCache (page_of v * CITRA_PAGE_SIZE) ms \<noteq> None"
    and "\<forall>t \<in> set (page_table_list ms). \<forall>v \<in> set (region_vaddrs start (num_pages start sz) ms).
      identity_mapped ms (tables ms t) (page_of v)"
  shows "Option.bind (RasterizerMarkRegionCached start sz True ms) (RasterizerMarkRegionCached start sz False) = Some ms"
proof -
  let ?vs = "region_vaddrs start (num_pages start sz) ms"
  have d: "distinct (map page_of ?vs)" using region_vaddrs_distinct assms(3,4) by blast
  have "region_vaddrs start (num_pages start sz) (mark_all True ?vs ms) = ?vs"
    using same_setup_mark_all [of ms True ?vs] by (intro region_vaddrs_cong) (simp add: same_setup_def)
  with mark_unmark [OF assms(2) d assms(5,6)] show ?thesis
    by (simp add: RasterizerMarkRegionCached_iterate assms(1))
qed

text \<open>Video memory mapped for one process, and its second page not mapped.\<close>

definition vram_memory :: "unit memory_system" where
  "vram_memory = \<lparr>
     host = (\<lambda>_. 0), region_ptr = (\<lambda>r. case r of FCRAM \<Rightarrow> 0x10000000 | VRAM \<Rightarrow> 0x20000000 | DSP \<Rightarrow> 0x30000000
                                                | N3DS \<Rightarrow> 0x40000000),
     cache_marker = (\<lambda>_. False),
     tables = (\<lambda>_. \<lparr>
       pointers = (\<lambda>page. if page = 0x1F000 then \<lparr>GetPtr = 0x20000000, ref_size = 0x600000\<rparr> else null_ref),
       special_regions = [],
       attributes = (\<lambda>page. if page = 0x1F000 then Memory else Unmapped)\<rparr>),
     page_table_list = [0, 1], current_page_table = 0, plugin_fb_addr = 0, devices = ()\<rparr>"

theorem mark_then_unmark_restores_witness:
  "Option.bind (RasterizerMarkRegionCached 0x18000010 0x1100 True vram_memory)
     (RasterizerMarkRegionCached 0x18000010 0x1100 False) = Some vram_memory"
proof -
  have n: "num_pages 0x18000010 0x1100 = 2"
    by (simp add: num_pages_def add32_def sub32_def page_of_def memory_map)
  have v: "region_vaddrs 0x18000010 (Suc (Suc 0)) vram_memory = [0x1F000010, 0x1F001010]"
    by (simp add: PhysicalToVirtualAddressForRasterizer_def memory_map add32_def vram_memory_def)
  have v': "region_vaddrs 0x18000010 (num_pages 0x18000010 0x1100) vram_memory = [0x1F000010, 0x1F001010]"
    unfolding n numeral_2_eq_2 by (rule v)
  show ?thesis
    by (rule mark_then_unmark_restores, simp_all only: v')
      (auto simp: n vram_memory_def IsCached_def At_def identity_mapped_def memory_map page_of_def
        GetPointerForRasterizerCache_def region_ref_def GetSize_def)
qed

end
