(* ===== verification/VMManager.thy ===== *)
theory VMManager
  imports MemorySystem
begin

text \<open>
  The address space of a process, \<open>core/hle/kernel/vm_manager.cpp\<close> and \<open>vm_manager.h\<close>: the map of
  virtual memory areas, how it is split and merged, and the operations of the kernel on it.

  \<open>vma_map\<close> is a \<open>std::map\<close> keyed by the base of each area: it is the list of its values in the order of
  the keys. An iterator stays at its element while others come and go, so it is the key of its element,
  and \<open>None\<close> is \<open>end()\<close>. Addresses and sizes are natural numbers with the wrap-around of \<open>u32\<close> written
  out. The page table is the one with number \<open>page_table\<close> in the memory system, which the operations
  update too. What \<open>UpdatePageTableForVMA\<close> tells the plugin loader is left out: it signals an event.
\<close>

section \<open>Data\<close>

datatype VMAType = Free | BackingMemory | MMIO

datatype MemoryState =
  State_Free | Reserved | IO | Static | Code | Private | Shared | Continuous | Aliased | Alias | AliasCode | Locked

text \<open>The permissions are the bits of the enumeration: 1 reads, 2 writes, 4 executes.\<close>

type_synonym VMAPermission = nat

definition ReadWrite :: VMAPermission where "ReadWrite = 3"

datatype vm_error = ERR_INVALID_ADDRESS | ERR_INVALID_ADDRESS_STATE | ERR_OUT_OF_MEMORY

record vma =
  vma_base :: nat
  vma_size :: nat
  vma_type :: VMAType
  permissions :: VMAPermission
  meminfo_state :: MemoryState
  backing_memory :: memory_ref
  paddr :: nat
  vma_handler :: mmio_handler

definition new_vma :: vma where
  "new_vma = \<lparr>vma_base = 0, vma_size = 0, vma_type = Free, permissions = 0, meminfo_state = State_Free,
              backing_memory = null_ref, paddr = 0, vma_handler = 0\<rparr>"

definition CanBeMergedWith :: "vma \<Rightarrow> vma \<Rightarrow> bool run" where
  "CanBeMergedWith v nxt =
     do {
       assert_that (add32 (vma_base v) (vma_size v) = vma_base nxt);
       Some (\<not> (permissions v \<noteq> permissions nxt \<or> meminfo_state v \<noteq> meminfo_state nxt \<or>
               vma_type v \<noteq> vma_type nxt) \<and>
             \<not> (vma_type v = BackingMemory \<and>
               GetPtr (backing_memory v) + vma_size v \<noteq> GetPtr (backing_memory nxt)) \<and>
             \<not> (vma_type v = MMIO \<and> add32 (paddr v) (vma_size v) \<noteq> paddr nxt))
     }"

definition MAX_ADDRESS :: nat where "MAX_ADDRESS = 0x40000000"

record vm_manager =
  vma_map :: "vma list"
  page_table :: nat
  is_locked :: bool

section \<open>The map and its iterators\<close>

type_synonym vma_iter = "nat option"

definition at_key :: "nat \<Rightarrow> vma list \<Rightarrow> vma run" where
  "at_key k xs = List.find (\<lambda>v. vma_base v = k) xs"

definition update_key :: "nat \<Rightarrow> (vma \<Rightarrow> vma) \<Rightarrow> vma list \<Rightarrow> vma list" where
  "update_key k f xs = map (\<lambda>v. if vma_base v = k then f v else v) xs"

fun emplace :: "vma \<Rightarrow> vma list \<Rightarrow> vma list" where
  "emplace v [] = [v]"
| "emplace v (w # ws) =
     (if vma_base v < vma_base w then v # w # ws
      else if vma_base v = vma_base w then w # ws
      else w # emplace v ws)"

definition erase_key :: "nat \<Rightarrow> vma list \<Rightarrow> vma list" where
  "erase_key k xs = filter (\<lambda>v. vma_base v \<noteq> k) xs"

definition next_iter :: "nat \<Rightarrow> vma list \<Rightarrow> vma_iter" where
  "next_iter k xs = (case filter (\<lambda>v. vma_base v > k) xs of [] \<Rightarrow> None | v # _ \<Rightarrow> Some (vma_base v))"

definition prev_iter :: "nat \<Rightarrow> vma list \<Rightarrow> vma_iter" where
  "prev_iter k xs =
     (let ws = filter (\<lambda>v. vma_base v < k) xs in if ws = [] then None else Some (vma_base (last ws)))"

text \<open>\<open>std::prev\<close> of the first element is undefined: no element starts at or before the target.\<close>

definition FindVMA :: "nat \<Rightarrow> vma list \<Rightarrow> vma_iter run" where
  "FindVMA target xs =
     (if target \<ge> MAX_ADDRESS then Some None
      else let ws = filter (\<lambda>v. vma_base v \<le> target) xs in
           if ws = [] then None else Some (Some (vma_base (last ws))))"

section \<open>Splitting and merging\<close>

definition SplitVMA :: "nat \<Rightarrow> nat \<Rightarrow> vma list \<Rightarrow> (nat \<times> vma list) run" where
  "SplitVMA k offset_in_vma xs =
     do {
       v \<leftarrow> at_key k xs;
       assert_that (offset_in_vma < vma_size v);
       assert_that (offset_in_vma > 0);
       let old = v\<lparr>vma_size := offset_in_vma\<rparr>;
       let new0 = v\<lparr>vma_base := add32 (vma_base v) offset_in_vma, vma_size := vma_size v - offset_in_vma\<rparr>;
       new \<leftarrow> (case vma_type new0 of
                Free \<Rightarrow> Some new0
              | BackingMemory \<Rightarrow>
                  do { r \<leftarrow> ref_plus (backing_memory new0) offset_in_vma; Some (new0\<lparr>backing_memory := r\<rparr>) }
              | MMIO \<Rightarrow> Some (new0\<lparr>paddr := add32 (paddr new0) offset_in_vma\<rparr>));
       mergeable \<leftarrow> CanBeMergedWith old new;
       assert_that mergeable;
       Some (vma_base new, emplace new (update_key k (\<lambda>_. old) xs))
     }"

text \<open>\<open>MergeAdjacent\<close> first takes in the area after its own, then it is taken in by the one before.\<close>

definition merge_next :: "nat \<Rightarrow> vma list \<Rightarrow> vma list run" where
  "merge_next iter xs =
     do {
       v \<leftarrow> at_key iter xs;
       case next_iter iter xs of
         None \<Rightarrow> Some xs
       | Some next_vma \<Rightarrow>
           do {
             w \<leftarrow> at_key next_vma xs;
             mergeable \<leftarrow> CanBeMergedWith v w;
             Some (if mergeable
                   then erase_key next_vma
                          (update_key iter (\<lambda>v. v\<lparr>vma_size := add32 (vma_size v) (vma_size w)\<rparr>) xs)
                   else xs)
           }
     }"

definition merge_prev :: "nat \<Rightarrow> vma list \<Rightarrow> (nat \<times> vma list) run" where
  "merge_prev iter xs =
     (case prev_iter iter xs of
        None \<Rightarrow> Some (iter, xs)
      | Some prev_vma \<Rightarrow>
          do {
            u \<leftarrow> at_key prev_vma xs;
            v \<leftarrow> at_key iter xs;
            mergeable \<leftarrow> CanBeMergedWith u v;
            Some (if mergeable
                  then (prev_vma, erase_key iter
                         (update_key prev_vma (\<lambda>u. u\<lparr>vma_size := add32 (vma_size u) (vma_size v)\<rparr>) xs))
                  else (iter, xs))
          })"

definition MergeAdjacent :: "nat \<Rightarrow> vma list \<Rightarrow> (nat \<times> vma list) run" where
  "MergeAdjacent iter xs = do { xs' \<leftarrow> merge_next iter xs; merge_prev iter xs' }"

definition CarveVMA :: "nat \<Rightarrow> nat \<Rightarrow> vma list \<Rightarrow> (vm_error + nat \<times> vma list) run" where
  "CarveVMA base sz xs =
     do {
       assert_that (page_aligned sz);
       assert_that (page_aligned base);
       it \<leftarrow> FindVMA base xs;
       case it of
         None \<Rightarrow> Some (Inl ERR_INVALID_ADDRESS)
       | Some k \<Rightarrow>
           do {
             v \<leftarrow> at_key k xs;
             if vma_type v \<noteq> Free then Some (Inl ERR_INVALID_ADDRESS_STATE)
             else
               let start_in_vma = sub32 base (vma_base v); end_in_vma = add32 start_in_vma sz in
               if end_in_vma > vma_size v then Some (Inl ERR_INVALID_ADDRESS_STATE)
               else
                 do {
                   xs1 \<leftarrow> (if end_in_vma \<noteq> vma_size v then map_option snd (SplitVMA k end_in_vma xs) else Some xs);
                   (k', xs2) \<leftarrow> (if start_in_vma \<noteq> 0 then SplitVMA k start_in_vma xs1 else Some (k, xs1));
                   Some (Inr (k', xs2))
                 }
           }
     }"

text \<open>The range of iterators from the area of the target up to \<open>lower_bound\<close> of the end: the areas that
  start at or after the area of the target and before the end.\<close>

definition areas_between :: "nat \<Rightarrow> nat \<Rightarrow> vma list \<Rightarrow> vma list" where
  "areas_between k target_end xs = filter (\<lambda>v. k \<le> vma_base v \<and> vma_base v < target_end) xs"

definition CarveVMARange :: "nat \<Rightarrow> nat \<Rightarrow> vma list \<Rightarrow> (vm_error + nat \<times> vma list) run" where
  "CarveVMARange target sz xs =
     do {
       assert_that (page_aligned sz);
       assert_that (page_aligned target);
       let target_end = add32 target sz;
       assert_that (target_end \<ge> target);
       assert_that (target_end \<le> MAX_ADDRESS);
       assert_that (sz > 0);
       it \<leftarrow> FindVMA target xs;
       begin_vma \<leftarrow> it;
       if \<exists>v \<in> set (areas_between begin_vma target_end xs). vma_type v = Free
       then Some (Inl ERR_INVALID_ADDRESS_STATE)
       else
         do {
           (begin_vma', xs1) \<leftarrow> (if target \<noteq> begin_vma
                                 then SplitVMA begin_vma (target - begin_vma) xs else Some (begin_vma, xs));
           end_vma \<leftarrow> FindVMA target_end xs1;
           case end_vma of
             None \<Rightarrow> Some (Inr (begin_vma', xs1))
           | Some e \<Rightarrow>
               if target_end \<noteq> e
               then do { (_, xs2) \<leftarrow> SplitVMA e (target_end - e) xs1; Some (Inr (begin_vma', xs2)) }
               else Some (Inr (begin_vma', xs1))
         }
     }"

section \<open>The operations of the kernel\<close>

definition UpdatePageTableForVMA ::
  "'d memory_env \<Rightarrow> nat \<Rightarrow> vma \<Rightarrow> 'd memory_system \<Rightarrow> 'd memory_system run" where
  "UpdatePageTableForVMA env t v ms =
     (case vma_type v of
        Free \<Rightarrow> UnmapRegion env t (vma_base v) (vma_size v) ms
      | BackingMemory \<Rightarrow> MapMemoryRegion env t (vma_base v) (vma_size v) (backing_memory v) ms
      | MMIO \<Rightarrow> MapIoRegion env t (vma_base v) (vma_size v) (vma_handler v) ms)"

definition Reset :: "'d memory_env \<Rightarrow> vm_manager \<Rightarrow> 'd memory_system \<Rightarrow> (vm_manager \<times> 'd memory_system) run" where
  "Reset env vm ms =
     do {
       assert_that (\<not> is_locked vm);
       let initial_vma = new_vma\<lparr>vma_size := MAX_ADDRESS\<rparr>;
       ms' \<leftarrow> UpdatePageTableForVMA env (page_table vm) initial_vma
                (upd_table (page_table vm) PageTable_Clear ms);
       Some (vm\<lparr>vma_map := [initial_vma]\<rparr>, ms')
     }"

text \<open>What the operations do with one area: change it, update the page table, merge it.\<close>

definition modify_vma ::
  "'d memory_env \<Rightarrow> (vma \<Rightarrow> vma) \<Rightarrow> nat \<Rightarrow> vm_manager \<times> 'd memory_system \<Rightarrow>
   (nat \<times> vm_manager \<times> 'd memory_system) run" where
  "modify_vma env f k = (\<lambda>(vm, ms).
     do {
       v \<leftarrow> at_key k (vma_map vm);
       ms' \<leftarrow> UpdatePageTableForVMA env (page_table vm) (f v) ms;
       (k', xs) \<leftarrow> MergeAdjacent k (update_key k f (vma_map vm));
       Some (k', vm\<lparr>vma_map := xs\<rparr>, ms')
     })"

definition to_backing :: "memory_ref \<Rightarrow> MemoryState \<Rightarrow> vma \<Rightarrow> vma" where
  "to_backing memory state v =
     v\<lparr>vma_type := BackingMemory, permissions := ReadWrite, meminfo_state := state, backing_memory := memory\<rparr>"

definition MapBackingMemory ::
  "'d memory_env \<Rightarrow> nat \<Rightarrow> memory_ref \<Rightarrow> nat \<Rightarrow> MemoryState \<Rightarrow> vm_manager \<times> 'd memory_system \<Rightarrow>
   ((vm_error + nat) \<times> vm_manager \<times> 'd memory_system) run" where
  "MapBackingMemory env target memory sz state = (\<lambda>(vm, ms).
     do {
       assert_that (\<not> is_locked vm);
       assert_that (GetPtr memory \<noteq> 0);
       carved \<leftarrow> CarveVMA target sz (vma_map vm);
       case carved of
         Inl e \<Rightarrow> Some (Inl e, vm, ms)
       | Inr (k, xs) \<Rightarrow>
           do {
             final_vma \<leftarrow> at_key k xs;
             assert_that (vma_size final_vma = sz);
             (k', s) \<leftarrow> modify_vma env (to_backing memory state) k (vm\<lparr>vma_map := xs\<rparr>, ms);
             Some (Inr k', s)
           }
     })"

definition to_mmio :: "nat \<Rightarrow> MemoryState \<Rightarrow> mmio_handler \<Rightarrow> vma \<Rightarrow> vma" where
  "to_mmio pa state handler v =
     v\<lparr>vma_type := MMIO, permissions := ReadWrite, meminfo_state := state, paddr := pa, vma_handler := handler\<rparr>"

definition MapMMIO ::
  "'d memory_env \<Rightarrow> nat \<Rightarrow> nat \<Rightarrow> nat \<Rightarrow> MemoryState \<Rightarrow> mmio_handler \<Rightarrow> vm_manager \<times> 'd memory_system \<Rightarrow>
   ((vm_error + nat) \<times> vm_manager \<times> 'd memory_system) run" where
  "MapMMIO env target pa sz state handler = (\<lambda>(vm, ms).
     do {
       assert_that (\<not> is_locked vm);
       carved \<leftarrow> CarveVMA target sz (vma_map vm);
       case carved of
         Inl e \<Rightarrow> Some (Inl e, vm, ms)
       | Inr (k, xs) \<Rightarrow>
           do {
             final_vma \<leftarrow> at_key k xs;
             assert_that (vma_size final_vma = sz);
             (k', s) \<leftarrow> modify_vma env (to_mmio pa state handler) k (vm\<lparr>vma_map := xs\<rparr>, ms);
             Some (Inr k', s)
           }
     })"

text \<open>\<open>find_if\<close> looks for the first free area that has room; the code reads the base of what it found
  before it compares it with \<open>end()\<close>.\<close>

definition MapBackingMemoryToBase ::
  "'d memory_env \<Rightarrow> nat \<Rightarrow> nat \<Rightarrow> memory_ref \<Rightarrow> nat \<Rightarrow> MemoryState \<Rightarrow> vm_manager \<times> 'd memory_system \<Rightarrow>
   ((vm_error + nat) \<times> vm_manager \<times> 'd memory_system) run" where
  "MapBackingMemoryToBase env base region_size memory sz state = (\<lambda>(vm, ms).
     do {
       assert_that (\<not> is_locked vm);
       v \<leftarrow> List.find (\<lambda>v. vma_type v = Free \<and>
                          (let vma_end = add32 (vma_base v) (vma_size v)
                           in vma_end > base \<and> vma_end \<ge> add32 base sz)) (vma_map vm);
       let target = max base (vma_base v);
       if add32 target sz > add32 base region_size then Some (Inl ERR_OUT_OF_MEMORY, vm, ms)
       else
         do {
           (result, s) \<leftarrow> MapBackingMemory env target memory sz state (vm, ms);
           Some (case result of Inl e \<Rightarrow> Inl e | Inr _ \<Rightarrow> Inr target, s)
         }
     })"

text \<open>The loop over a carved range: it goes on with the area after the one that merging left.\<close>

partial_function (option) range_loop ::
  "'d memory_env \<Rightarrow> (vma \<Rightarrow> vma) \<Rightarrow> nat \<Rightarrow> vma_iter \<Rightarrow> vm_manager \<times> 'd memory_system \<Rightarrow>
   (vm_manager \<times> 'd memory_system) option" where
  "range_loop env f target_end it s =
     (case it of
        None \<Rightarrow> Some s
      | Some k \<Rightarrow>
          if k < target_end
          then Option.bind (modify_vma env f k s)
                 (\<lambda>(k', s'). range_loop env f target_end (next_iter k' (vma_map (fst s'))) s')
          else Some s)"

definition to_free :: "vma \<Rightarrow> vma" where
  "to_free v = v\<lparr>vma_type := Free, permissions := 0, meminfo_state := State_Free,
                 backing_memory := null_ref, paddr := 0\<rparr>"

definition Unmap ::
  "'d memory_env \<Rightarrow> nat \<Rightarrow> vm_manager \<times> 'd memory_system \<Rightarrow> (nat \<times> vm_manager \<times> 'd memory_system) run" where
  "Unmap env k s = do { assert_that (\<not> is_locked (fst s)); modify_vma env to_free k s }"

definition UnmapRange ::
  "'d memory_env \<Rightarrow> nat \<Rightarrow> nat \<Rightarrow> vm_manager \<times> 'd memory_system \<Rightarrow>
   ((vm_error + unit) \<times> vm_manager \<times> 'd memory_system) run" where
  "UnmapRange env target sz = (\<lambda>(vm, ms).
     do {
       assert_that (\<not> is_locked vm);
       carved \<leftarrow> CarveVMARange target sz (vma_map vm);
       case carved of
         Inl e \<Rightarrow> Some (Inl e, vm, ms)
       | Inr (k, xs) \<Rightarrow>
           do {
             (vm', ms') \<leftarrow> range_loop env to_free (add32 target sz) (Some k) (vm\<lparr>vma_map := xs\<rparr>, ms);
             it \<leftarrow> FindVMA target (vma_map vm');
             k' \<leftarrow> it;
             v \<leftarrow> at_key k' (vma_map vm');
             assert_that (vma_size v \<ge> sz);
             Some (Inr (), vm', ms')
           }
     })"

definition with_perms :: "VMAPermission \<Rightarrow> vma \<Rightarrow> vma" where
  "with_perms new_perms v = v\<lparr>permissions := new_perms\<rparr>"

definition Reprotect ::
  "'d memory_env \<Rightarrow> VMAPermission \<Rightarrow> nat \<Rightarrow> vm_manager \<times> 'd memory_system \<Rightarrow>
   (nat \<times> vm_manager \<times> 'd memory_system) run" where
  "Reprotect env new_perms k s =
     do { assert_that (\<not> is_locked (fst s)); modify_vma env (with_perms new_perms) k s }"

definition ReprotectRange ::
  "'d memory_env \<Rightarrow> nat \<Rightarrow> nat \<Rightarrow> VMAPermission \<Rightarrow> vm_manager \<times> 'd memory_system \<Rightarrow>
   ((vm_error + unit) \<times> vm_manager \<times> 'd memory_system) run" where
  "ReprotectRange env target sz new_perms = (\<lambda>(vm, ms).
     do {
       assert_that (\<not> is_locked vm);
       carved \<leftarrow> CarveVMARange target sz (vma_map vm);
       case carved of
         Inl e \<Rightarrow> Some (Inl e, vm, ms)
       | Inr (k, xs) \<Rightarrow>
           do {
             s \<leftarrow> range_loop env (with_perms new_perms) (add32 target sz) (Some k) (vm\<lparr>vma_map := xs\<rparr>, ms);
             Some (Inr (), s)
           }
     })"

definition with_state :: "MemoryState \<Rightarrow> VMAPermission \<Rightarrow> vma \<Rightarrow> vma" where
  "with_state new_state new_perms v = v\<lparr>permissions := new_perms, meminfo_state := new_state\<rparr>"

text \<open>The check of \<open>ChangeMemoryState\<close> on one area: its state, and that it has all expected permissions.\<close>

definition as_expected :: "MemoryState \<Rightarrow> VMAPermission \<Rightarrow> vma \<Rightarrow> bool" where
  "as_expected expected_state expected_perms v \<longleftrightarrow>
     meminfo_state v = expected_state \<and> (permissions v AND expected_perms) = expected_perms"

text \<open>The loop over the areas from one up to \<open>lower_bound\<close> of the end. Where the end has wrapped around
  and its bound lies before the first area, the loop runs off the map unless an area fails the check.\<close>

definition lower_bound :: "nat \<Rightarrow> vma list \<Rightarrow> vma_iter" where
  "lower_bound a xs = (case filter (\<lambda>v. vma_base v \<ge> a) xs of [] \<Rightarrow> None | v # _ \<Rightarrow> Some (vma_base v))"

definition all_areas :: "(vma \<Rightarrow> bool) \<Rightarrow> nat \<Rightarrow> nat \<Rightarrow> vma list \<Rightarrow> bool run" where
  "all_areas P k target_end xs =
     (let i_end = lower_bound target_end xs; ws = filter (\<lambda>v. k \<le> vma_base v) xs in
      case i_end of
        None \<Rightarrow> Some (list_all P ws)
      | Some e \<Rightarrow>
          if e < k then (if list_all P ws then None else Some False)
          else Some (list_all P (areas_between k e xs)))"

definition ChangeMemoryState ::
  "'d memory_env \<Rightarrow> nat \<Rightarrow> nat \<Rightarrow> MemoryState \<Rightarrow> VMAPermission \<Rightarrow> MemoryState \<Rightarrow> VMAPermission \<Rightarrow>
   vm_manager \<times> 'd memory_system \<Rightarrow> ((vm_error + unit) \<times> vm_manager \<times> 'd memory_system) run" where
  "ChangeMemoryState env target sz expected_state expected_perms new_state new_perms = (\<lambda>(vm, ms).
     if is_locked vm then Some (Inr (), vm, ms)
     else
       do {
         let target_end = add32 target sz;
         it \<leftarrow> FindVMA target (vma_map vm);
         case it of
           None \<Rightarrow> Some (Inl ERR_INVALID_ADDRESS, vm, ms)
         | Some k \<Rightarrow>
             do {
               ok \<leftarrow> all_areas (as_expected expected_state expected_perms) k target_end (vma_map vm);
               if \<not> ok then Some (Inl ERR_INVALID_ADDRESS_STATE, vm, ms)
               else do {
                 carved \<leftarrow> CarveVMARange target sz (vma_map vm);
                 case carved of
                   Inl e \<Rightarrow> Some (Inl e, vm, ms)
                 | Inr (k, xs) \<Rightarrow>
                     do {
                       s \<leftarrow> range_loop env (with_state new_state new_perms) target_end (Some k)
                              (vm\<lparr>vma_map := xs\<rparr>, ms);
                       Some (Inr (), s)
                     }
               }
             }
       })"

definition Unlock :: "vm_manager \<Rightarrow> vm_manager" where
  "Unlock vm = vm\<lparr>is_locked := False\<rparr>"

partial_function (option) backing_blocks ::
  "vma list \<Rightarrow> nat \<Rightarrow> nat \<Rightarrow> (memory_ref \<times> nat) list \<Rightarrow> (vm_error + (memory_ref \<times> nat) list) option" where
  "backing_blocks xs range_end interval_target blocks =
     (if interval_target = range_end then Some (Inr blocks)
      else
        Option.bind (FindVMA interval_target xs) (\<lambda>it.
        Option.bind it (\<lambda>k.
        Option.bind (at_key k xs) (\<lambda>v.
        if vma_type v \<noteq> BackingMemory then Some (Inl ERR_INVALID_ADDRESS_STATE)
        else
          let interval_end = min range_end (add32 (vma_base v) (vma_size v));
              interval_size = sub32 interval_end interval_target
          in Option.bind (ref_plus (backing_memory v) (interval_target - vma_base v)) (\<lambda>r.
             backing_blocks xs range_end (add32 interval_target interval_size)
               (blocks @ [(r, interval_size)]))))))"

definition GetBackingBlocksForRange ::
  "nat \<Rightarrow> nat \<Rightarrow> vm_manager \<Rightarrow> (vm_error + (memory_ref \<times> nat) list) run" where
  "GetBackingBlocksForRange address sz vm = backing_blocks (vma_map vm) (add32 address sz) address []"

end
