(* ===== verification/AddressSpace.thy ===== *)
theory AddressSpace
  imports VMManager
begin

text \<open>
  What the operations of \<open>VMManager\<close> do to an address space, seen as a map from addresses to what is
  mapped there (\<open>view\<close>): the areas tile the address space, splitting and merging leave the map of
  addresses alone, and each operation changes it on its range only.
\<close>

section \<open>Tilings of an address range\<close>

text \<open>The areas of a list follow each other without a gap, and none is empty.\<close>

fun tiles :: "nat \<Rightarrow> vma list \<Rightarrow> nat \<Rightarrow> bool" where
  "tiles lo [] hi \<longleftrightarrow> lo = hi"
| "tiles lo (v # vs) hi \<longleftrightarrow>
     vma_base v = lo \<and> 0 < vma_size v \<and> page_aligned (vma_size v) \<and> tiles (lo + vma_size v) vs hi"

lemma tiles_append: "tiles lo (xs @ ys) hi \<longleftrightarrow> (\<exists>m. tiles lo xs m \<and> tiles m ys hi)"
  by (induction xs arbitrary: lo) auto

lemma tiles_le: "tiles lo xs hi \<Longrightarrow> lo \<le> hi"
  by (induction xs arbitrary: lo) force+

lemma tiles_bases: "tiles lo xs hi \<Longrightarrow> v \<in> set xs \<Longrightarrow> lo \<le> vma_base v \<and> vma_base v + vma_size v \<le> hi \<and> 0 < vma_size v"
proof (induction xs arbitrary: lo)
  case (Cons w ws)
  then show ?case using tiles_le [of "lo + vma_size w" ws hi] by fastforce
qed simp

text \<open>A list cut at one of its areas.\<close>

lemma tiles_cut:
  assumes "tiles lo (as @ v # bs) hi"
  shows "\<forall>u \<in> set as. vma_base u < vma_base v \<and> vma_base u + vma_size u \<le> vma_base v"
    "\<forall>w \<in> set bs. vma_base v < vma_base w \<and> vma_base v + vma_size v \<le> vma_base w"
    "0 < vma_size v" "page_aligned (vma_size v)" "tiles lo as (vma_base v)"
    "tiles (vma_base v + vma_size v) bs hi"
proof -
  from assms have a: "tiles lo as (vma_base v)" and b: "tiles (vma_base v + vma_size v) bs hi"
    and v: "0 < vma_size v" "page_aligned (vma_size v)" by (auto simp: tiles_append)
  show "tiles lo as (vma_base v)" "tiles (vma_base v + vma_size v) bs hi"
    "0 < vma_size v" "page_aligned (vma_size v)" using a b v by simp_all
  show "\<forall>u \<in> set as. vma_base u < vma_base v \<and> vma_base u + vma_size u \<le> vma_base v"
    using tiles_bases [OF a] by fastforce
  show "\<forall>w \<in> set bs. vma_base v < vma_base w \<and> vma_base v + vma_size v \<le> vma_base w"
    using tiles_bases [OF b] v by fastforce
qed

lemma tiles_find:
  assumes "tiles lo xs hi" "lo \<le> a" "a < hi"
  obtains as v bs where "xs = as @ v # bs" "vma_base v \<le> a" "a < vma_base v + vma_size v"
  using assms
proof (induction xs arbitrary: lo thesis)
  case (Cons w ws)
  show ?case
  proof (cases "a < lo + vma_size w")
    case True
    with Cons.prems(1) [of "[]" w ws] Cons.prems(2,3) show thesis by simp
  next
    case False
    with Cons.prems obtain as v bs where "ws = as @ v # bs" "vma_base v \<le> a" "a < vma_base v + vma_size v"
      by (metis Cons.IH leI tiles.simps(2))
    with Cons.prems(1) [of "w # as" v bs] show thesis by simp
  qed
qed simp

text \<open>What the accesses to the map do at an area of a tiling.\<close>

lemma find_skip: "(\<And>u. u \<in> set xs \<Longrightarrow> \<not> P u) \<Longrightarrow> List.find P (xs @ ys) = List.find P ys"
  by (induction xs) auto

lemma filter_none: "(\<And>u. u \<in> set xs \<Longrightarrow> \<not> P u) \<Longrightarrow> filter P xs = []"
  by (simp add: filter_empty_conv)

lemma filter_all: "(\<And>u. u \<in> set xs \<Longrightarrow> P u) \<Longrightarrow> filter P xs = xs"
  by (simp add: filter_id_conv)

lemma at_key_cut:
  assumes "tiles lo (as @ v # bs) hi"
  shows "at_key (vma_base v) (as @ v # bs) = Some v"
  using tiles_cut(1) [OF assms] unfolding at_key_def by (subst find_skip) auto

lemma update_key_cut:
  assumes "tiles lo (as @ v # bs) hi"
  shows "update_key (vma_base v) f (as @ v # bs) = as @ f v # bs"
proof -
  have "map (\<lambda>u. if vma_base u = vma_base v then f u else u) as = as"
    "map (\<lambda>u. if vma_base u = vma_base v then f u else u) bs = bs"
    using tiles_cut(1,2) [OF assms] by (force intro: map_idI)+
  then show ?thesis by (simp add: update_key_def)
qed

lemma erase_key_cut:
  assumes "tiles lo (as @ v # bs) hi"
  shows "erase_key (vma_base v) (as @ v # bs) = as @ bs"
proof -
  have "filter (\<lambda>u. vma_base u \<noteq> vma_base v) as = as" "filter (\<lambda>u. vma_base u \<noteq> vma_base v) bs = bs"
    using tiles_cut(1,2) [OF assms] by (force intro!: filter_all)+
  then show ?thesis by (simp add: erase_key_def)
qed

lemma next_iter_cut:
  assumes "tiles lo (as @ v # bs) hi"
  shows "next_iter (vma_base v) (as @ v # bs) = (case bs of [] \<Rightarrow> None | w # _ \<Rightarrow> Some (vma_base w))"
proof -
  have "filter (\<lambda>u. vma_base v < vma_base u) as = []" "filter (\<lambda>u. vma_base v < vma_base u) bs = bs"
    using tiles_cut(1,2) [OF assms] by (auto intro!: filter_none filter_all dest: less_imp_not_less)
  then show ?thesis by (simp add: next_iter_def)
qed

lemma prev_iter_cut:
  assumes "tiles lo (as @ v # bs) hi"
  shows "prev_iter (vma_base v) (as @ v # bs) = (if as = [] then None else Some (vma_base (last as)))"
proof -
  have "filter (\<lambda>u. vma_base u < vma_base v) as = as" "filter (\<lambda>u. vma_base u < vma_base v) bs = []"
    using tiles_cut(1,2) [OF assms] by (auto intro!: filter_none filter_all dest: less_imp_not_less)
  then show ?thesis by (simp add: prev_iter_def Let_def)
qed

lemma FindVMA_cut:
  assumes "tiles lo (as @ v # bs) hi" "vma_base v \<le> a" "a < vma_base v + vma_size v" "a < MAX_ADDRESS"
  shows "FindVMA a (as @ v # bs) = Some (Some (vma_base v))"
proof -
  have "filter (\<lambda>u. vma_base u \<le> a) as = as" "filter (\<lambda>u. vma_base u \<le> a) bs = []"
    using tiles_cut(1,2) [OF assms(1)] assms(2,3) by (fastforce intro!: filter_none filter_all)+
  then show ?thesis using assms(2,4) by (simp add: FindVMA_def Let_def)
qed

lemma emplace_cut:
  assumes "\<forall>u \<in> set as. vma_base u < vma_base w" "\<forall>u \<in> set bs. vma_base w < vma_base u"
  shows "emplace w (as @ bs) = as @ w # bs"
  using assms
proof (induction as)
  case Nil
  then show ?case by (cases bs) auto
next
  case (Cons u us)
  then show ?case by auto
qed

section \<open>The address space as a map from addresses\<close>

text \<open>What is at an address: nothing, host memory or a device register, with permissions and state.\<close>

datatype area =
  Free_area
| Backed VMAPermission MemoryState nat
| Device VMAPermission MemoryState nat

definition area_at :: "vma \<Rightarrow> nat \<Rightarrow> area" where
  "area_at v a =
     (case vma_type v of
        Free \<Rightarrow> Free_area
      | BackingMemory \<Rightarrow> Backed (permissions v) (meminfo_state v) (GetPtr (backing_memory v) + (a - vma_base v))
      | MMIO \<Rightarrow> Device (permissions v) (meminfo_state v) (add32 (paddr v) (a - vma_base v)))"

definition inside :: "vma \<Rightarrow> nat \<Rightarrow> bool" where
  "inside v a \<longleftrightarrow> vma_base v \<le> a \<and> a < vma_base v + vma_size v"

definition view :: "vma list \<Rightarrow> nat \<Rightarrow> area" where
  "view xs a = (case List.find (\<lambda>v. inside v a) xs of None \<Rightarrow> Free_area | Some v \<Rightarrow> area_at v a)"

lemma view_Cons: "view (v # vs) a = (if inside v a then area_at v a else view vs a)"
  by (simp add: view_def)

lemma view_skip: "(\<And>u. u \<in> set xs \<Longrightarrow> \<not> inside u a) \<Longrightarrow> view (xs @ ys) a = view ys a"
  by (simp add: view_def find_skip)

lemma view_append: "view (xs @ ys) a = (if \<exists>u \<in> set xs. inside u a then view xs a else view ys a)"
  by (induction xs) (auto simp: view_Cons)

lemma view_inside:
  assumes "tiles lo (as @ v # bs) hi" "inside v a"
  shows "view (as @ v # bs) a = area_at v a"
proof -
  have "\<not> inside u a" if "u \<in> set as" for u
    using tiles_cut(1) [OF assms(1)] that assms(2) by (auto simp: inside_def)
  then show ?thesis using assms(2) by (subst view_skip) (simp_all add: view_Cons)
qed

text \<open>Where the host allocation of an address ends. Allocations do not touch each other.\<close>

definition separated :: "(nat \<Rightarrow> nat) \<Rightarrow> bool" where
  "separated alloc_end \<longleftrightarrow>
     (\<forall>p q. p \<le> q \<longrightarrow> q < alloc_end p \<longrightarrow> alloc_end q = alloc_end p) \<and>
     (\<forall>p. p < alloc_end p \<longrightarrow> alloc_end (alloc_end p) \<le> alloc_end p)"

definition ref_ok :: "(nat \<Rightarrow> nat) \<Rightarrow> memory_ref \<Rightarrow> nat \<Rightarrow> bool" where
  "ref_ok alloc_end r n \<longleftrightarrow> 0 < GetPtr r \<and> 0 < n \<and> n \<le> ref_size r \<and> GetPtr r + ref_size r = alloc_end (GetPtr r)"

definition vma_ok :: "(nat \<Rightarrow> nat) \<Rightarrow> vma \<Rightarrow> bool" where
  "vma_ok e v \<longleftrightarrow>
     (case vma_type v of
        Free \<Rightarrow> permissions v = 0 \<and> meminfo_state v = State_Free
      | BackingMemory \<Rightarrow> ref_ok e (backing_memory v) (vma_size v)
      | MMIO \<Rightarrow> True)"

text \<open>The areas cover the address space, each is well formed and no two free ones are neighbours.\<close>

abbreviation not_both_free :: "vma \<Rightarrow> vma \<Rightarrow> bool" where
  "not_both_free u v \<equiv> \<not> (vma_type u = Free \<and> vma_type v = Free)"

definition space_ok :: "(nat \<Rightarrow> nat) \<Rightarrow> vma list \<Rightarrow> bool" where
  "space_ok e xs \<longleftrightarrow> tiles 0 xs MAX_ADDRESS \<and> list_all (vma_ok e) xs \<and> successively not_both_free xs"

section \<open>Splitting\<close>

definition split_right :: "vma \<Rightarrow> nat \<Rightarrow> vma" where
  "split_right v n = v\<lparr>vma_base := vma_base v + n, vma_size := vma_size v - n,
     backing_memory := (if vma_type v = BackingMemory
        then \<lparr>GetPtr = GetPtr (backing_memory v) + n, ref_size = ref_size (backing_memory v) - n\<rparr>
        else backing_memory v),
     paddr := (if vma_type v = MMIO then add32 (paddr v) n else paddr v)\<rparr>"

lemma SplitVMA_cut:
  assumes t: "tiles 0 (as @ v # bs) MAX_ADDRESS" and "vma_ok e v" "0 < n" "n < vma_size v"
  shows "SplitVMA (vma_base v) n (as @ v # bs) =
    Some (vma_base v + n, as @ v\<lparr>vma_size := n\<rparr> # split_right v n # bs)"
proof -
  note c = tiles_cut [OF t]
  have "vma_base v + vma_size v \<le> MAX_ADDRESS" using tiles_le [OF c(6)] .
  then have s: "vma_base v + n < 2 ^ 32" using assms(4) by (simp add: MAX_ADDRESS_def)
  then have b: "add32 (vma_base v) n = vma_base v + n" by (rule add32_id)
  have "n < ref_size (backing_memory v)" if "vma_type v = BackingMemory"
    using assms(2,4) that by (simp add: vma_ok_def ref_ok_def)
  moreover have "emplace (split_right v n) (as @ v\<lparr>vma_size := n\<rparr> # bs) =
      as @ v\<lparr>vma_size := n\<rparr> # split_right v n # bs"
    using emplace_cut [of "as @ [v\<lparr>vma_size := n\<rparr>]" "split_right v n" bs] c(1,2) assms(3,4)
    by (force simp: split_right_def)
  ultimately show ?thesis
    using assms(3,4) unfolding SplitVMA_def at_key_cut [OF t] update_key_cut [OF t]
    by (cases "vma_type v") (auto simp: b CanBeMergedWith_def ref_plus_def split_right_def Let_def)
qed

lemma tiles_split:
  assumes "tiles lo (as @ v # bs) hi" "0 < n" "n < vma_size v" "page_aligned n"
  shows "tiles lo (as @ v\<lparr>vma_size := n\<rparr> # split_right v n # bs) hi"
  using assms by (auto simp: tiles_append split_right_def page_aligned_def CITRA_PAGE_SIZE_def
      intro!: exI [of _ "vma_base v"])

section \<open>Merging\<close>

definition mergeable :: "vma \<Rightarrow> vma \<Rightarrow> bool" where
  "mergeable v w \<longleftrightarrow>
     permissions v = permissions w \<and> meminfo_state v = meminfo_state w \<and> vma_type v = vma_type w \<and>
     (vma_type v = BackingMemory \<longrightarrow> GetPtr (backing_memory v) + vma_size v = GetPtr (backing_memory w)) \<and>
     (vma_type v = MMIO \<longrightarrow> add32 (paddr v) (vma_size v) = paddr w)"

lemma CanBeMergedWith_eq:
  "vma_base v + vma_size v = vma_base w \<Longrightarrow> vma_base w < 2 ^ 32 \<Longrightarrow>
   CanBeMergedWith v w = Some (mergeable v w)"
  by (auto simp: CanBeMergedWith_def mergeable_def add32_id)

definition grow :: "vma \<Rightarrow> vma \<Rightarrow> vma" where
  "grow v w = v\<lparr>vma_size := vma_size v + vma_size w\<rparr>"

lemma grow_simps [simp]:
  "vma_base (grow v w) = vma_base v" "vma_size (grow v w) = vma_size v + vma_size w"
  "vma_type (grow v w) = vma_type v" "permissions (grow v w) = permissions v"
  "meminfo_state (grow v w) = meminfo_state v" "area_at (grow v w) = area_at v"
  by (simp_all add: grow_def area_at_def fun_eq_iff split: VMAType.splits)

text \<open>What merging gives: the area with a neighbour on either side, or without.\<close>

definition merge_right :: "vma \<Rightarrow> vma list \<Rightarrow> vma \<times> vma list" where
  "merge_right v bs =
     (case bs of [] \<Rightarrow> (v, []) | w # ws \<Rightarrow> if mergeable v w then (grow v w, ws) else (v, bs))"

definition merge_left :: "vma list \<Rightarrow> vma \<Rightarrow> vma list \<times> vma" where
  "merge_left as v =
     (if as \<noteq> [] \<and> mergeable (last as) v then (butlast as, grow (last as) v) else (as, v))"

lemma tiles_bound:
  assumes "tiles 0 (as @ v # bs) MAX_ADDRESS"
  shows "vma_base v + vma_size v \<le> MAX_ADDRESS"
  using tiles_le [OF tiles_cut(6) [OF assms]] .

lemma merge_prev_cut:
  assumes t: "tiles 0 (as @ v # bs) MAX_ADDRESS"
  shows "merge_prev (vma_base v) (as @ v # bs) =
    Some (vma_base (snd (merge_left as v)), fst (merge_left as v) @ snd (merge_left as v) # bs)"
proof (cases "as = []")
  case True
  then show ?thesis using prev_iter_cut [OF t] by (simp add: merge_left_def merge_prev_def)
next
  case False
  then obtain us u where as: "as = us @ [u]" by (metis append_butlast_last_id)
  have tu: "tiles 0 (us @ u # v # bs) MAX_ADDRESS" using t by (simp add: as)
  have uv: "vma_base u + vma_size u = vma_base v" using tiles_cut(6) [OF tu] by simp
  have bound: "vma_base v + vma_size v < 2 ^ 32" using tiles_bound [OF t] by (simp add: MAX_ADDRESS_def)
  have c: "CanBeMergedWith u v = Some (mergeable u v)"
    using uv bound by (intro CanBeMergedWith_eq) simp_all
  have s: "add32 (vma_size u) (vma_size v) = vma_size u + vma_size v"
    using uv bound by (intro add32_id) simp
  have p: "prev_iter (vma_base v) (us @ u # v # bs) = Some (vma_base u)"
    using prev_iter_cut [of 0 "us @ [u]" v bs MAX_ADDRESS] t by (simp add: as)
  have av: "at_key (vma_base v) (us @ u # v # bs) = Some v"
    using at_key_cut [OF t] by (simp add: as)
  have e: "erase_key (vma_base v) (us @ u' # v # bs) = us @ u' # bs" if "vma_base u' = vma_base u" for u'
  proof -
    have "\<forall>x \<in> set us. vma_base x \<noteq> vma_base v" "vma_base u \<noteq> vma_base v" "\<forall>x \<in> set bs. vma_base x \<noteq> vma_base v"
      using tiles_cut(1,2) [OF t] by (fastforce simp: as)+
    then show ?thesis using that unfolding erase_key_def by (auto simp: filter_id_conv)
  qed
  show ?thesis
    by (simp add: merge_prev_def as p at_key_cut [OF tu] av c update_key_cut [OF tu] s e merge_left_def grow_def)
qed

lemma merge_next_cut:
  assumes t: "tiles 0 (as @ v # bs) MAX_ADDRESS"
  shows "merge_next (vma_base v) (as @ v # bs) = Some (as @ fst (merge_right v bs) # snd (merge_right v bs))"
proof (cases bs)
  case Nil
  then show ?thesis using at_key_cut [OF t] next_iter_cut [OF t] by (simp add: merge_next_def merge_right_def)
next
  case (Cons w ws)
  note t' = t [unfolded Cons]
  have vw: "vma_base v + vma_size v = vma_base w" using tiles_cut(6) [OF t'] by simp
  have tw: "tiles 0 ((as @ [v]) @ w # ws) MAX_ADDRESS" using t' by simp
  have b2: "vma_base w + vma_size w < 2 ^ 32" using tiles_bound [OF tw] by (simp add: MAX_ADDRESS_def)
  have c: "CanBeMergedWith v w = Some (mergeable v w)"
    using vw b2 by (intro CanBeMergedWith_eq) simp_all
  have s: "add32 (vma_size v) (vma_size w) = vma_size v + vma_size w"
    using vw b2 by (intro add32_id) simp
  have aw: "at_key (vma_base w) (as @ v # w # ws) = Some w" using at_key_cut [OF tw] by simp
  have e: "erase_key (vma_base w) (as @ v' # w # ws) = as @ v' # ws" if "vma_base v' = vma_base v" for v'
  proof -
    have "\<forall>x \<in> set as. vma_base x \<noteq> vma_base w" "vma_base v \<noteq> vma_base w" "\<forall>x \<in> set ws. vma_base x \<noteq> vma_base w"
      using tiles_cut(1,2) [OF tw] by fastforce+
    then show ?thesis using that unfolding erase_key_def by (auto simp: filter_id_conv)
  qed
  show ?thesis
    by (simp add: merge_next_def Cons at_key_cut [OF t'] next_iter_cut [OF t'] aw c update_key_cut [OF t'] s e
        merge_right_def grow_def)
qed

lemma tiles_grow:
  assumes "tiles lo (as @ v # w # bs) hi"
  shows "tiles lo (as @ grow v w # bs) hi"
  using assms by (auto simp: tiles_append grow_def page_aligned_def add.assoc mod_add_eq [symmetric])

lemma tiles_merge_right:
  "tiles lo (as @ v # bs) hi \<Longrightarrow> tiles lo (as @ fst (merge_right v bs) # snd (merge_right v bs)) hi"
  unfolding merge_right_def by (cases bs) (auto simp del: tiles.simps intro: tiles_grow)

lemma tiles_merge_left:
  assumes "tiles lo (as @ v # bs) hi"
  shows "tiles lo (fst (merge_left as v) @ snd (merge_left as v) # bs) hi"
proof (cases "as = []")
  case False
  then have "as @ v # bs = butlast as @ last as # v # bs" by simp
  with assms have "tiles lo (butlast as @ last as # v # bs) hi" by metis
  from tiles_grow [OF this] show ?thesis using assms by (simp add: merge_left_def)
qed (use assms in \<open>simp add: merge_left_def\<close>)

lemma MergeAdjacent_cut:
  assumes t: "tiles 0 (as @ v # bs) MAX_ADDRESS"
  defines "v' \<equiv> fst (merge_right v bs)" and "bs' \<equiv> snd (merge_right v bs)"
  shows "MergeAdjacent (vma_base v) (as @ v # bs) =
    Some (vma_base (snd (merge_left as v')), fst (merge_left as v') @ snd (merge_left as v') # bs')"
proof -
  have "vma_base v = vma_base v'" by (simp add: v'_def merge_right_def split: list.splits)
  moreover have "tiles 0 (as @ v' # bs') MAX_ADDRESS"
    unfolding v'_def bs'_def by (rule tiles_merge_right [OF t])
  ultimately show ?thesis
    unfolding MergeAdjacent_def merge_next_cut [OF t] v'_def [symmetric] bs'_def [symmetric]
    by (simp add: merge_prev_cut)
qed

text \<open>Merging keeps the tiling, what is at each address, and the areas well formed.\<close>

lemma area_at_mergeable:
  assumes "mergeable v w" "vma_base v + vma_size v = vma_base w" "vma_base w \<le> a" "a < 2 ^ 32"
  shows "area_at v a = area_at w a"
proof -
  have a: "a - vma_base v = vma_size v + (a - vma_base w)" using assms(2,3) by simp
  have "add32 (paddr v) (a - vma_base v) = add32 (add32 (paddr v) (vma_size v)) (a - vma_base w)"
    unfolding add32_def a by (simp add: mod_add_left_eq add.assoc)
  moreover note a
  ultimately show ?thesis
    using assms(1) by (auto simp: mergeable_def area_at_def split: VMAType.splits)
qed

lemma view_grow:
  assumes "tiles lo (as @ v # w # bs) hi" "mergeable v w" "a < 2 ^ 32"
  shows "view (as @ grow v w # bs) a = view (as @ v # w # bs) a"
proof -
  have "vma_base v + vma_size v = vma_base w" using tiles_cut(6) [OF assms(1)] by simp
  then have "view (grow v w # bs) a = view (v # w # bs) a"
    using area_at_mergeable [OF assms(2)] assms(3) by (auto simp: view_Cons inside_def)
  then show ?thesis by (simp add: view_append)
qed

lemma vma_ok_grow:
  assumes "separated e" "vma_ok e v" "vma_ok e w" "mergeable v w"
  shows "vma_ok e (grow v w)"
proof (cases "vma_type v")
  case BackingMemory
  let ?p = "GetPtr (backing_memory v)" and ?n = "ref_size (backing_memory v)"
  from BackingMemory assms(2-4) have o: "ref_ok e (backing_memory v) (vma_size v)" "ref_ok e (backing_memory w) (vma_size w)"
    "GetPtr (backing_memory w) = ?p + vma_size v"
    by (auto simp: vma_ok_def mergeable_def)
  then have n: "vma_size v \<le> ?n" "?p + ?n = e ?p" and w: "vma_size w \<le> ref_size (backing_memory w)" "0 < vma_size w"
      "?p + vma_size v + ref_size (backing_memory w) = e (?p + vma_size v)" "0 < vma_size v"
    by (auto simp: ref_ok_def)
  have "vma_size v \<noteq> ?n"
  proof
    assume "vma_size v = ?n"
    then have "e (e ?p) \<le> e ?p" "?p + vma_size v = e ?p"
      using assms(1) n w(4) unfolding separated_def by (metis less_add_same_cancel1, simp)
    with w show False by simp
  qed
  then have "e (?p + vma_size v) = e ?p"
    using assms(1) n unfolding separated_def by (metis le_add1 le_neq_implies_less nat_add_left_cancel_less)
  with n w o(1) show ?thesis by (auto simp: vma_ok_def BackingMemory ref_ok_def grow_def)
qed (use assms(2) in \<open>auto simp: vma_ok_def\<close>)

lemma mergeable_free:
  "vma_ok e v \<Longrightarrow> vma_ok e w \<Longrightarrow> vma_type v = Free \<Longrightarrow> vma_type w = Free \<Longrightarrow> mergeable v w"
  by (auto simp: vma_ok_def mergeable_def)

lemma merge_right_free:
  assumes "vma_ok e v" "list_all (vma_ok e) bs" "successively not_both_free bs"
  shows "successively not_both_free (fst (merge_right v bs) # snd (merge_right v bs))"
proof (cases bs)
  case (Cons w ws)
  then show ?thesis using assms mergeable_free [OF assms(1), of w]
    by (cases ws) (auto simp: merge_right_def mergeable_def)
qed (simp add: merge_right_def)

lemma merge_left_free:
  assumes "vma_ok e v" "list_all (vma_ok e) as" "successively not_both_free as" "successively not_both_free (v # bs)"
  shows "successively not_both_free (fst (merge_left as v) @ snd (merge_left as v) # bs)"
proof (cases "as = []")
  case False
  then obtain us u where as: "as = us @ [u]" by (metis append_butlast_last_id)
  have "mergeable u v" if "vma_type u = Free" "vma_type v = Free"
    using mergeable_free [OF _ assms(1)] that assms(2) by (simp add: as)
  then show ?thesis using assms(3,4)
    by (cases bs) (auto simp: as merge_left_def mergeable_def successively_append_iff)
qed (use assms(4) in \<open>simp add: merge_left_def\<close>)

lemma merge_right_ok:
  assumes "separated e" "vma_ok e v" "list_all (vma_ok e) bs"
  shows "vma_ok e (fst (merge_right v bs))" "list_all (vma_ok e) (snd (merge_right v bs))"
  using assms vma_ok_grow [OF assms(1,2)] by (auto simp: merge_right_def split: list.splits)

lemma merge_left_ok:
  assumes "separated e" "vma_ok e v" "list_all (vma_ok e) as"
  shows "vma_ok e (snd (merge_left as v))" "list_all (vma_ok e) (fst (merge_left as v))"
proof -
  have "vma_ok e (snd (merge_left as v)) \<and> list_all (vma_ok e) (fst (merge_left as v))"
  proof (cases as rule: rev_cases)
    case (snoc us u)
    then show ?thesis using assms vma_ok_grow [OF assms(1) _ assms(2), of u] by (auto simp: merge_left_def)
  qed (use assms in \<open>simp add: merge_left_def\<close>)
  then show "vma_ok e (snd (merge_left as v))" "list_all (vma_ok e) (fst (merge_left as v))" by blast+
qed

lemma view_merge_right:
  assumes "tiles lo (as @ v # bs) hi" "a < 2 ^ 32"
  shows "view (as @ fst (merge_right v bs) # snd (merge_right v bs)) a = view (as @ v # bs) a"
  using assms view_grow by (auto simp: merge_right_def split: list.splits)

lemma view_merge_left:
  assumes "tiles lo (as @ v # bs) hi" "a < 2 ^ 32"
  shows "view (fst (merge_left as v) @ snd (merge_left as v) # bs) a = view (as @ v # bs) a"
proof (cases as rule: rev_cases)
  case (snoc us u)
  then show ?thesis using assms view_grow [of lo us u v bs hi a] by (auto simp: merge_left_def)
qed (simp add: merge_left_def)

lemma merge_right_covers:
  "vma_base (fst (merge_right v bs)) = vma_base v" "vma_size v \<le> vma_size (fst (merge_right v bs))"
  by (simp_all add: merge_right_def split: list.splits)

lemma merge_left_covers:
  assumes t: "tiles lo (as @ v # bs) hi"
  shows "vma_base (snd (merge_left as v)) \<le> vma_base v"
    "vma_base (snd (merge_left as v)) + vma_size (snd (merge_left as v)) = vma_base v + vma_size v"
proof -
  have "vma_base (last as) + vma_size (last as) = vma_base v" if "as \<noteq> []"
  proof -
    have "as @ v # bs = butlast as @ last as # v # bs" using that by simp
    then have "tiles lo (butlast as @ last as # v # bs) hi" using t by metis
    from tiles_cut(6) [OF this] show ?thesis by simp
  qed
  then show "vma_base (snd (merge_left as v)) \<le> vma_base v"
    "vma_base (snd (merge_left as v)) + vma_size (snd (merge_left as v)) = vma_base v + vma_size v"
    by (fastforce simp: merge_left_def)+
qed

text \<open>What \<open>MergeAdjacent\<close> leaves: an area that stands where the given one stood, and possibly more.\<close>

lemma MergeAdjacent_spec:
  assumes t: "tiles 0 (as @ v # bs) MAX_ADDRESS" and e: "separated e" and ok: "list_all (vma_ok e) (as @ v # bs)"
    and free: "successively not_both_free as" "successively not_both_free bs"
  obtains as' m bs' where
    "MergeAdjacent (vma_base v) (as @ v # bs) = Some (vma_base m, as' @ m # bs')"
    "space_ok e (as' @ m # bs')" "\<forall>a < 2 ^ 32. view (as' @ m # bs') a = view (as @ v # bs) a"
    "bs' = bs \<or> (\<exists>w. bs = w # bs' \<and> mergeable v w)"
    "vma_base m \<le> vma_base v" "vma_base v + vma_size v \<le> vma_base m + vma_size m"
proof -
  define v' bs' where "v' = fst (merge_right v bs)" and "bs' = snd (merge_right v bs)"
  define as' m where "as' = fst (merge_left as v')" and "m = snd (merge_left as v')"
  have t1: "tiles 0 (as @ v' # bs') MAX_ADDRESS" unfolding v'_def bs'_def by (rule tiles_merge_right [OF t])
  have t2: "tiles 0 (as' @ m # bs') MAX_ADDRESS" unfolding as'_def m_def by (rule tiles_merge_left [OF t1])
  have ok1: "vma_ok e v'" "list_all (vma_ok e) bs'"
    using merge_right_ok [OF e] ok by (simp_all add: v'_def bs'_def)
  have ok2: "vma_ok e m" "list_all (vma_ok e) as'"
    using merge_left_ok [OF e ok1(1)] ok by (simp_all add: as'_def m_def)
  have "successively not_both_free (v' # bs')"
    unfolding v'_def bs'_def using merge_right_free ok free(2) by auto
  then have "successively not_both_free (as' @ m # bs')"
    unfolding as'_def m_def using merge_left_free [OF ok1(1)] ok free(1) by simp
  with t2 ok1 ok2 have s: "space_ok e (as' @ m # bs')" by (simp add: space_ok_def)
  have v: "\<forall>a < 2 ^ 32. view (as' @ m # bs') a = view (as @ v # bs) a"
    using view_merge_left [OF t1] view_merge_right [OF t] by (simp add: as'_def m_def v'_def bs'_def)
  have b: "bs' = bs \<or> (\<exists>w. bs = w # bs' \<and> mergeable v w)"
    by (simp add: bs'_def merge_right_def split: list.splits)
  have c: "vma_base m \<le> vma_base v" "vma_base v + vma_size v \<le> vma_base m + vma_size m"
    using merge_left_covers [OF t1] merge_right_covers [of v bs] by (simp_all add: m_def v'_def)
  show thesis
    by (rule that [OF _ s v b c]) (simp_all add: MergeAdjacent_cut [OF t] as'_def m_def v'_def bs'_def)
qed

section \<open>The page table follows\<close>

text \<open>What a page table has at a page, in the terms of the areas; a page that the rasterizer caches is memory.\<close>

definition page_kind :: "PageType \<Rightarrow> VMAType" where
  "page_kind p = (case p of Unmapped \<Rightarrow> Free | Memory \<Rightarrow> BackingMemory | RasterizerCachedMemory \<Rightarrow> BackingMemory
                          | Special \<Rightarrow> MMIO)"

definition kind_at :: "'d memory_system \<Rightarrow> nat \<Rightarrow> nat \<Rightarrow> VMAType" where
  "kind_at ms t page = page_kind (attributes (tables ms t) page)"

definition area_kind :: "area \<Rightarrow> VMAType" where
  "area_kind x = (case x of Free_area \<Rightarrow> Free | Backed _ _ _ \<Rightarrow> BackingMemory | Device _ _ _ \<Rightarrow> MMIO)"

definition in_sync :: "vma list \<Rightarrow> 'd memory_system \<Rightarrow> nat \<Rightarrow> bool" where
  "in_sync xs ms t \<longleftrightarrow>
     (\<forall>page. page * CITRA_PAGE_SIZE < MAX_ADDRESS \<longrightarrow> kind_at ms t page = area_kind (view xs (page * CITRA_PAGE_SIZE)))"

lemma area_kind_at [simp]: "area_kind (area_at v a) = vma_type v"
  by (simp add: area_kind_def area_at_def split: VMAType.splits)

lemma kind_at_upd:
  "(\<And>page. page_kind (attributes (f (tables ms t)) page) = page_kind (attributes (tables ms t) page)) \<Longrightarrow>
   kind_at (upd_table t f ms) = kind_at ms"
  by (simp add: kind_at_def fun_eq_iff)

lemma kind_at_mark_page: "mark_page v c t ms = Some ms' \<Longrightarrow> kind_at ms' = kind_at ms"
  unfolding mark_page_def Let_def
  by (auto simp: bind_eq_Some_conv kind_at_upd set_page_def page_kind_def split: if_splits PageType.splits)

lemma kind_at_mark_vaddr:
  assumes "mark_vaddr c v ms = Some ms'"
  shows "kind_at ms' = kind_at ms"
proof -
  have "kind_at (Mark v c ms) = kind_at ms"
    by (simp add: kind_at_def Mark_def fun_eq_iff split: option.splits)
  then show ?thesis
    by (rule iterate_invariant [OF assms [unfolded mark_vaddr_def Let_def], where P = "\<lambda>s. kind_at s = kind_at ms"])
      (metis kind_at_mark_page)
qed

lemma kind_at_mark_region: "mark_region c p n ms = Some ms' \<Longrightarrow> kind_at ms' = kind_at ms"
proof (induction n arbitrary: p ms)
  case (Suc n)
  then obtain ms1 where ms1: "iterate (mark_vaddr c) (PhysicalToVirtualAddressForRasterizer p ms) ms = Some ms1"
      "mark_region c (add32 p CITRA_PAGE_SIZE) n ms1 = Some ms'"
    by (auto simp: bind_eq_Some_conv)
  have "kind_at ms1 = kind_at ms"
    using ms1(1) by (rule iterate_invariant [where P = "\<lambda>s. kind_at s = kind_at ms"])
      (simp, metis kind_at_mark_vaddr)
  with Suc.IH [OF ms1(2)] show ?case by simp
qed simp

lemma kind_at_flush:
  "rasterizer_ok env \<Longrightarrow> kind_at (RasterizerFlushVirtualRegion env a n mode ms) = kind_at ms"
proof (erule flush_invariant [where P = "\<lambda>s. kind_at s = kind_at ms"])
  show "kind_at ms' = kind_at ms"
    if "kind_at m = kind_at ms" "RasterizerMarkRegionCached a n c m = Some ms'" for m ms' a n c
    using that by (auto simp: RasterizerMarkRegionCached_def Let_def split: if_splits dest: kind_at_mark_region)
  show "kind_at (m\<lparr>host := h\<rparr>) = kind_at ms" if "kind_at m = kind_at ms" for m h
    unfolding that [symmetric] by (simp add: kind_at_def fun_eq_iff)
qed simp

lemma map_pages_kind:
  assumes "base + n \<le> PAGE_TABLE_NUM_ENTRIES" "type \<noteq> RasterizerCachedMemory"
  shows "\<exists>ms'. map_pages t base n r type ms = Some ms' \<and>
    (\<forall>u page. kind_at ms' u page =
      (if u = t \<and> base \<le> page \<and> page < base + n then page_kind type else kind_at ms u page))"
  using assms
proof (induction n arbitrary: base r ms)
  case (Suc n)
  let ?ms = "if type = Memory \<and> IsCached (base * CITRA_PAGE_SIZE) ms
          then upd_table t (set_page base RasterizerCachedMemory null_ref) ms
          else upd_table t (set_page base type r) ms"
  have b: "base < PAGE_TABLE_NUM_ENTRIES" "add32 base 1 = base + 1"
    using Suc.prems(1) add32_id [of base 1] by (simp_all add: PAGE_TABLE_NUM_ENTRIES_def)
  have k: "kind_at ?ms u page = (if u = t \<and> page = base then page_kind type else kind_at ms u page)" for u page
    by (auto simp: kind_at_def set_page_def page_kind_def)
  obtain r' where r': "(if GetPtr r \<noteq> 0 \<and> ref_size r > CITRA_PAGE_SIZE
                  then ref_plus r CITRA_PAGE_SIZE else Some r) = Some r'"
    by (cases "GetPtr r \<noteq> 0 \<and> ref_size r > CITRA_PAGE_SIZE") (auto simp: ref_plus_def)
  from Suc.IH [of "base + 1" r' ?ms] Suc.prems obtain ms' where
    "map_pages t (base + 1) n r' type ?ms = Some ms'"
    "\<forall>u page. kind_at ms' u page =
      (if u = t \<and> base + 1 \<le> page \<and> page < base + 1 + n then page_kind type else kind_at ?ms u page)"
    by auto
  moreover from this(1) have "map_pages t base (Suc n) r type ms = Some ms'"
    using b r' by (simp add: Let_def)
  ultimately show ?case unfolding k by (intro exI [of _ ms']) auto
qed auto

lemma aligned_pages:
  assumes "page_aligned a" "page_aligned n"
  shows "a div CITRA_PAGE_SIZE \<le> page \<and> page < a div CITRA_PAGE_SIZE + n div CITRA_PAGE_SIZE \<longleftrightarrow>
    a \<le> page * CITRA_PAGE_SIZE \<and> page * CITRA_PAGE_SIZE < a + n"
proof -
  obtain x y where "a = x * CITRA_PAGE_SIZE" "n = y * CITRA_PAGE_SIZE"
    using assms by (metis mod_0_imp_dvd dvd_def mult.commute page_aligned_def)
  then show ?thesis by (simp add: CITRA_PAGE_SIZE_def) arith
qed

lemma MapPages_kind:
  assumes "page_aligned a" "page_aligned n" "a + n \<le> MAX_ADDRESS" "rasterizer_ok env" "type \<noteq> RasterizerCachedMemory"
  shows "\<exists>ms'. MapPages env t (a div CITRA_PAGE_SIZE) (n div CITRA_PAGE_SIZE) r type ms = Some ms' \<and>
    (\<forall>u page. kind_at ms' u page =
      (if u = t \<and> a \<le> page * CITRA_PAGE_SIZE \<and> page * CITRA_PAGE_SIZE < a + n then page_kind type
       else kind_at ms u page))"
proof -
  let ?b = "a div CITRA_PAGE_SIZE" and ?n = "n div CITRA_PAGE_SIZE"
  let ?ms = "RasterizerFlushVirtualRegion env (?b * CITRA_PAGE_SIZE mod 2 ^ 32) (?n * CITRA_PAGE_SIZE mod 2 ^ 32)
    FlushAndInvalidate ms"
  have "?b + ?n \<le> PAGE_TABLE_NUM_ENTRIES"
    using assms(3) by (simp add: memory_map MAX_ADDRESS_def)
  from map_pages_kind [OF this assms(5), of t r ?ms] show ?thesis
    unfolding MapPages_def aligned_pages [OF assms(1,2)] kind_at_flush [OF assms(4)] .
qed

lemma UpdatePageTable_spec:
  assumes "page_aligned (vma_base v)" "page_aligned (vma_size v)" "vma_base v + vma_size v \<le> MAX_ADDRESS"
    "rasterizer_ok env"
  obtains ms' where "UpdatePageTableForVMA env t v ms = Some ms'"
    "\<And>u page. kind_at ms' u page =
      (if u = t \<and> inside v (page * CITRA_PAGE_SIZE) then vma_type v else kind_at ms u page)"
proof -
  note * = MapPages_kind [OF assms, of _ t _ ms]
  show thesis
  proof (cases "vma_type v")
    case Free
    then show thesis using *[of Unmapped null_ref] assms(1,2) that
      by (auto simp: UpdatePageTableForVMA_def UnmapRegion_def page_kind_def inside_def)
  next
    case BackingMemory
    then show thesis using *[of Memory "backing_memory v"] assms(1,2) that
      by (auto simp: UpdatePageTableForVMA_def MapMemoryRegion_def page_kind_def inside_def)
  next
    case MMIO
    from *[of Special null_ref] obtain ms1 where ms1:
      "MapPages env t (vma_base v div CITRA_PAGE_SIZE) (vma_size v div CITRA_PAGE_SIZE) null_ref Special ms = Some ms1"
      "\<forall>u page. kind_at ms1 u page =
        (if u = t \<and> vma_base v \<le> page * CITRA_PAGE_SIZE \<and> page * CITRA_PAGE_SIZE < vma_base v + vma_size v
         then MMIO else kind_at ms u page)"
      by (auto simp: page_kind_def)
    define ms2 where "ms2 = upd_table t (\<lambda>pt. pt\<lparr>special_regions := special_regions pt @
               [\<lparr>sr_base = vma_base v, sr_size = vma_size v, sr_handler = vma_handler v\<rparr>]\<rparr>) ms1"
    have "kind_at ms2 = kind_at ms1" unfolding ms2_def by (rule kind_at_upd) simp
    then show thesis
      by (intro that [of ms2]) (use ms1 MMIO assms(1,2) in
          \<open>simp_all add: UpdatePageTableForVMA_def MapIoRegion_def inside_def ms2_def [symmetric]\<close>)
  qed
qed

lemma tiles_aligned: "tiles lo xs hi \<Longrightarrow> page_aligned lo \<Longrightarrow> v \<in> set xs \<Longrightarrow> page_aligned (vma_base v)"
proof (induction xs arbitrary: lo)
  case (Cons w ws)
  have "page_aligned (lo + vma_size w)"
    using Cons.prems by (auto simp: page_aligned_def CITRA_PAGE_SIZE_def)
  with Cons show ?case by auto
qed simp

lemma tiles_replace:
  "tiles lo (as @ v # bs) hi \<Longrightarrow> vma_base v' = vma_base v \<Longrightarrow> vma_size v' = vma_size v \<Longrightarrow>
   tiles lo (as @ v' # bs) hi"
  by (auto simp: tiles_append)

lemma view_replace:
  assumes "tiles lo (as @ v # bs) hi" "vma_base v' = vma_base v" "vma_size v' = vma_size v"
  shows "view (as @ v' # bs) a = (if inside v a then area_at v' a else view (as @ v # bs) a)"
proof -
  have "inside v' = inside v" using assms(2,3) by (simp add: inside_def fun_eq_iff)
  moreover have "\<not> (\<exists>u \<in> set as. inside u a)" if "inside v a"
    using tiles_cut(1) [OF assms(1)] that by (fastforce simp: inside_def)
  ultimately show ?thesis by (auto simp: view_append view_Cons)
qed

section \<open>One area changed\<close>

lemma modify_vma_spec:
  assumes t: "tiles 0 (as @ v # bs) MAX_ADDRESS" and e: "separated e"
    and ok: "list_all (vma_ok e) (as @ bs)" "vma_ok e (f v)"
    and f: "vma_base (f v) = vma_base v" "vma_size (f v) = vma_size v"
    and free: "successively not_both_free as" "successively not_both_free bs"
    and r: "rasterizer_ok env" and map: "vma_map vm = as @ v # bs"
  obtains as' m bs' ms' where
    "modify_vma env f (vma_base v) (vm, ms) = Some (vma_base m, vm\<lparr>vma_map := as' @ m # bs'\<rparr>, ms')"
    "space_ok e (as' @ m # bs')"
    "\<forall>a < 2 ^ 32. view (as' @ m # bs') a = (if inside v a then area_at (f v) a else view (as @ v # bs) a)"
    "bs' = bs \<or> (\<exists>w. bs = w # bs' \<and> mergeable (f v) w)"
    "in_sync (as @ v # bs) ms (page_table vm) \<longrightarrow> in_sync (as' @ m # bs') ms' (page_table vm)"
    "vma_base m \<le> vma_base v" "vma_base v + vma_size v \<le> vma_base m + vma_size m"
proof -
  note c = tiles_cut [OF t]
  have al: "page_aligned (vma_base v)"
    using tiles_aligned [OF t, of v] by (simp add: page_aligned_def)
  obtain ms' where ms': "UpdatePageTableForVMA env (page_table vm) (f v) ms = Some ms'"
    "\<And>u page. kind_at ms' u page = (if u = page_table vm \<and> inside (f v) (page * CITRA_PAGE_SIZE)
       then vma_type (f v) else kind_at ms u page)"
    by (rule UpdatePageTable_spec [of "f v" env "page_table vm" ms])
      (use al c(4) tiles_bound [OF t] r f in simp_all)
  have t': "tiles 0 (as @ f v # bs) MAX_ADDRESS" by (rule tiles_replace [OF t f])
  have okm: "list_all (vma_ok e) (as @ f v # bs)" using ok by simp
  obtain as' m bs' where m:
    "MergeAdjacent (vma_base v) (as @ f v # bs) = Some (vma_base m, as' @ m # bs')"
    "space_ok e (as' @ m # bs')" "\<forall>a < 2 ^ 32. view (as' @ m # bs') a = view (as @ f v # bs) a"
    "bs' = bs \<or> (\<exists>w. bs = w # bs' \<and> mergeable (f v) w)"
    "vma_base m \<le> vma_base v" "vma_base v + vma_size v \<le> vma_base m + vma_size m"
    by (rule MergeAdjacent_spec [OF t' e okm free, unfolded f]) (rule that; assumption)
  have v: "\<forall>a < 2 ^ 32. view (as' @ m # bs') a = (if inside v a then area_at (f v) a else view (as @ v # bs) a)"
    using m(3) by (simp add: view_replace [OF t f])
  have i: "inside (f v) = inside v" using f by (simp add: inside_def fun_eq_iff)
  have s: "in_sync (as' @ m # bs') ms' (page_table vm)" if "in_sync (as @ v # bs) ms (page_table vm)"
    unfolding in_sync_def
  proof (intro allI impI)
    fix page assume p: "page * CITRA_PAGE_SIZE < MAX_ADDRESS"
    then have "page * CITRA_PAGE_SIZE < 2 ^ 32" by (simp add: MAX_ADDRESS_def)
    from v [rule_format, OF this] that p show "kind_at ms' (page_table vm) page = area_kind (view (as' @ m # bs') (page * CITRA_PAGE_SIZE))"
      by (simp add: in_sync_def ms'(2) i)
  qed
  show thesis
    by (rule that [OF _ m(2) v m(4) impI [OF s] m(5,6)])
      (simp_all add: modify_vma_def map at_key_cut [OF t] update_key_cut [OF t] ms'(1) m(1))
qed

section \<open>The loop over a range\<close>

text \<open>The changes that the range operations make to one mapped area, and what they do to what is mapped
  at an address. Where the changed area can be merged with its neighbour, the change would not do
  anything to the neighbour: so the loop may skip it.\<close>

lemma tiles_unique: "tiles a xs hi \<Longrightarrow> tiles b xs hi \<Longrightarrow> a = b"
  by (cases xs) auto

lemma view_outside:
  assumes "tiles 0 as lo" "lo \<le> a"
  shows "view (as @ bs) a = view bs a"
  using tiles_bases [OF assms(1)] assms(2) by (intro view_skip) (force simp: inside_def)

locale range_action =
  fixes f :: "vma \<Rightarrow> vma" and F :: "area \<Rightarrow> area"
  assumes same_place: "vma_base (f v) = vma_base v" "vma_size (f v) = vma_size v"
    and keeps_ok: "vma_type v \<noteq> Free \<Longrightarrow> vma_ok e v \<Longrightarrow> vma_ok e (f v)"
    and acts: "vma_type v \<noteq> Free \<Longrightarrow> area_at (f v) a = F (area_at v a)"
    and absorbs: "vma_type v \<noteq> Free \<Longrightarrow> vma_type w \<noteq> Free \<Longrightarrow> mergeable (f v) w \<Longrightarrow> F (area_at w a) = area_at w a"
begin

lemma range_loop_spec:
  assumes "tiles 0 as lo" "tiles lo bs MAX_ADDRESS" "list_all (vma_ok e) (as @ bs)"
    "successively not_both_free (as @ bs)"
    and e: "separated e" and r: "rasterizer_ok env" and map: "vma_map vm = as @ bs"
    and range: "\<forall>w \<in> set bs. vma_base w < te \<longrightarrow> vma_type w \<noteq> Free \<and> vma_base w + vma_size w \<le> te"
  shows "\<exists>ys ms'.
    range_loop env f te (case bs of [] \<Rightarrow> None | w # _ \<Rightarrow> Some (vma_base w)) (vm, ms) = Some (vm\<lparr>vma_map := ys\<rparr>, ms') \<and>
    space_ok e ys \<and>
    (\<forall>a < MAX_ADDRESS. view ys a = (if lo \<le> a \<and> a < te then F (view (as @ bs) a) else view (as @ bs) a)) \<and>
    (in_sync (as @ bs) ms (page_table vm) \<longrightarrow> in_sync ys ms' (page_table vm))"
  using assms(1-4) map range
proof (induction "length bs" arbitrary: as lo bs vm ms rule: less_induct)
  case less
  have t: "tiles 0 (as @ bs) MAX_ADDRESS" using less.prems(1,2) by (auto simp: tiles_append)
  have s: "space_ok e (as @ bs)" using t less.prems(3,4) by (simp add: space_ok_def)
  show ?case
  proof (cases bs)
    case Nil
    then have "lo = MAX_ADDRESS" using less.prems(2) by simp
    then show ?thesis using s less.prems(5) Nil
      by (intro exI [of _ as] exI [of _ ms]) (simp add: range_loop.simps)
  next
    case (Cons v bs1)
    have lo: "vma_base v = lo" using less.prems(2) by (simp add: Cons)
    show ?thesis
    proof (cases "lo < te")
      case False
      then show ?thesis using s less.prems(5) Cons lo
        by (intro exI [of _ "as @ bs"] exI [of _ ms]) (auto simp: range_loop.simps)
    next
      case True
      have v: "vma_type v \<noteq> Free" "lo + vma_size v \<le> te" using less.prems(6) True lo by (auto simp: Cons)
      have okv: "list_all (vma_ok e) (as @ bs1)" "vma_ok e (f v)" and free: "successively not_both_free as"
          "successively not_both_free bs1"
        using less.prems(3,4) keeps_ok [OF v(1)] by (auto simp: Cons successively_append_iff successively_Cons)
      obtain as' m bs' ms1 where m:
        "modify_vma env f (vma_base v) (vm, ms) = Some (vma_base m, vm\<lparr>vma_map := as' @ m # bs'\<rparr>, ms1)"
        "space_ok e (as' @ m # bs')"
        "\<forall>a < 2 ^ 32. view (as' @ m # bs') a = (if inside v a then area_at (f v) a else view (as @ v # bs1) a)"
        "bs' = bs1 \<or> (\<exists>w. bs1 = w # bs' \<and> mergeable (f v) w)"
        "in_sync (as @ v # bs1) ms (page_table vm) \<longrightarrow> in_sync (as' @ m # bs') ms1 (page_table vm)"
        by (rule modify_vma_spec [where f = f, OF t [unfolded Cons] e okv same_place free r less.prems(5) [unfolded Cons]])
          (rule that; assumption)
      define lo' where "lo' = vma_base m + vma_size m"
      have tm: "tiles 0 (as' @ m # bs') MAX_ADDRESS" using m(2) by (simp add: space_ok_def)
      have t1: "tiles 0 (as' @ [m]) lo'" "tiles lo' bs' MAX_ADDRESS"
        using tiles_cut(3-6) [OF tm] by (auto simp: tiles_append lo'_def)
      have sub: "set bs' \<subseteq> set bs" "length bs' < length bs" using m(4) by (auto simp: Cons)
      let ?vm = "vm\<lparr>vma_map := as' @ m # bs'\<rparr>"
      have c: "list_all (vma_ok e) ((as' @ [m]) @ bs')" "successively not_both_free ((as' @ [m]) @ bs')"
        "vma_map ?vm = (as' @ [m]) @ bs'"
        "\<forall>w \<in> set bs'. vma_base w < te \<longrightarrow> vma_type w \<noteq> Free \<and> vma_base w + vma_size w \<le> te"
        using m(2) less.prems(6) sub(1) by (auto simp: space_ok_def)
      from less.hyps [OF sub(2) t1 c, of ms1] obtain ys ms' where IH:
        "range_loop env f te (case bs' of [] \<Rightarrow> None | w # _ \<Rightarrow> Some (vma_base w)) (?vm, ms1) =
           Some (?vm\<lparr>vma_map := ys\<rparr>, ms')"
        "space_ok e ys"
        "\<forall>a < MAX_ADDRESS. view ys a = (if lo' \<le> a \<and> a < te then F (view ((as' @ [m]) @ bs') a) else view ((as' @ [m]) @ bs') a)"
        "in_sync ((as' @ [m]) @ bs') ms1 (page_table ?vm) \<longrightarrow> in_sync ys ms' (page_table ?vm)"
        by blast
      have run: "range_loop env f te (case bs of [] \<Rightarrow> None | w # _ \<Rightarrow> Some (vma_base w)) (vm, ms) =
          Some (vm\<lparr>vma_map := ys\<rparr>, ms')"
        using True m(1) IH(1) by (subst range_loop.simps) (simp add: Cons lo next_iter_cut [OF tm])
      have "view ys a = (if lo \<le> a \<and> a < te then F (view (as @ bs) a) else view (as @ bs) a)" if a: "a < MAX_ADDRESS" for a
      proof -
        have a32: "a < 2 ^ 32" using a by (simp add: MAX_ADDRESS_def)
        note mv = m(3) [rule_format, OF a32]
        have bs1: "tiles (lo + vma_size v) bs1 MAX_ADDRESS" using less.prems(2) by (simp add: Cons)
        have cases: "lo' = lo + vma_size v \<or>
            (\<exists>w. bs1 = w # bs' \<and> mergeable (f v) w \<and> vma_base w = lo + vma_size v \<and> lo' = lo + vma_size v + vma_size w)"
          using m(4)
        proof
          assume "bs' = bs1"
          with tiles_unique [OF t1(2)] bs1 show ?thesis by simp
        next
          assume "\<exists>w. bs1 = w # bs' \<and> mergeable (f v) w"
          then obtain w where "bs1 = w # bs'" "mergeable (f v) w" by blast
          with tiles_unique [OF t1(2), of "lo + vma_size v + vma_size w"] bs1 show ?thesis by simp
        qed
        have swallowed: "\<exists>w. bs1 = w # bs' \<and> mergeable (f v) w \<and> inside w a \<and> vma_base w = lo + vma_size v"
            if "lo + vma_size v \<le> a" "a < lo'"
          using cases that by (auto simp: inside_def)
        have lo': "lo + vma_size v \<le> lo'" using cases by auto
        consider "a < lo" | "inside v a" | "lo + vma_size v \<le> a" unfolding inside_def lo by linarith
        then show ?thesis
        proof cases
          case 1
          then have "a < lo'" "\<not> inside v a" using lo' by (auto simp: inside_def lo)
          then show ?thesis using IH(3) a mv 1 by (simp add: Cons)
        next
          case 2
          then have "lo \<le> a" "a < lo'" "a < te" using lo' v(2) by (auto simp: inside_def lo)
          moreover have "view (as @ v # bs1) a = area_at v a" using view_inside [OF t [unfolded Cons] 2] .
          ultimately show ?thesis using IH(3) a mv 2 acts [OF v(1)] by (simp add: Cons)
        next
          case 3
          then have ni: "\<not> inside v a" by (simp add: inside_def lo)
          show ?thesis
          proof (cases "a < lo' \<and> a < te")
            case True
            with 3 swallowed obtain w where w: "bs1 = w # bs'" "mergeable (f v) w" "inside w a"
              "vma_base w = lo + vma_size v" by blast
            have "vma_type w \<noteq> Free" using less.prems(6) w 3 True by (auto simp: Cons)
            then have "F (area_at w a) = area_at w a" by (rule absorbs [OF v(1) _ w(2)])
            moreover have "view (as @ v # bs1) a = area_at w a"
              using view_inside [of 0 "as @ [v]" w bs' MAX_ADDRESS a] t w by (simp add: Cons)
            ultimately show ?thesis using IH(3) a mv ni True by (simp add: Cons)
          next
            case False
            then show ?thesis using IH(3) a mv ni 3 by (auto simp: Cons)
          qed
        qed
      qed
      with run IH(2,4) m(5) show ?thesis by (auto simp: Cons)
    qed
  qed
qed

end

fun with_perms_at :: "VMAPermission \<Rightarrow> area \<Rightarrow> area" where
  "with_perms_at p Free_area = Free_area"
| "with_perms_at p (Backed _ s x) = Backed p s x"
| "with_perms_at p (Device _ s x) = Device p s x"

fun with_state_at :: "MemoryState \<Rightarrow> VMAPermission \<Rightarrow> area \<Rightarrow> area" where
  "with_state_at s p Free_area = Free_area"
| "with_state_at s p (Backed _ _ x) = Backed p s x"
| "with_state_at s p (Device _ _ x) = Device p s x"

interpretation freeing: range_action to_free "\<lambda>_. Free_area"
  by unfold_locales (auto simp: to_free_def vma_ok_def area_at_def mergeable_def)

interpretation reprotecting: range_action "with_perms p" "with_perms_at p" for p
  by unfold_locales
    (auto simp: with_perms_def vma_ok_def area_at_def mergeable_def split: VMAType.splits)

interpretation restating: range_action "with_state s p" "with_state_at s p" for s p
  by unfold_locales
    (auto simp: with_state_def vma_ok_def area_at_def mergeable_def split: VMAType.splits)

section \<open>Carving\<close>

lemma vma_ok_split:
  assumes "separated e" "vma_ok e v" "0 < n" "n < vma_size v"
  shows "vma_ok e (v\<lparr>vma_size := n\<rparr>)" "vma_ok e (split_right v n)"
proof -
  let ?p = "GetPtr (backing_memory v)"
  have "e (?p + n) = e ?p" if "ref_ok e (backing_memory v) (vma_size v)"
    using assms(1,4) that unfolding separated_def ref_ok_def by (metis le_add1 nat_add_left_cancel_less order_less_le_trans)
  then show "vma_ok e (v\<lparr>vma_size := n\<rparr>)" "vma_ok e (split_right v n)"
    using assms(2-4) by (auto simp: vma_ok_def split_right_def ref_ok_def split: VMAType.splits)
qed

lemma view_split:
  assumes "n < vma_size v"
  shows "view (as @ v\<lparr>vma_size := n\<rparr> # split_right v n # bs) a = view (as @ v # bs) a"
proof -
  have "area_at (split_right v n) a = area_at v a" if "vma_base v + n \<le> a"
  proof -
    have "a - vma_base v = n + (a - (vma_base v + n))" using that by simp
    then have "add32 (add32 (paddr v) n) (a - (vma_base v + n)) = add32 (paddr v) (a - vma_base v)"
      unfolding add32_def by (simp add: mod_add_left_eq add.assoc)
    then show ?thesis using that by (auto simp: area_at_def split_right_def split: VMAType.splits)
  qed
  moreover have "area_at (v\<lparr>vma_size := n\<rparr>) = area_at v" by (simp add: area_at_def fun_eq_iff split: VMAType.splits)
  moreover have "inside (v\<lparr>vma_size := n\<rparr>) a \<longleftrightarrow> vma_base v \<le> a \<and> a < vma_base v + n"
    "inside (split_right v n) a \<longleftrightarrow> vma_base v + n \<le> a \<and> a < vma_base v + vma_size v"
    using assms by (auto simp: inside_def split_right_def)
  ultimately have "view (v\<lparr>vma_size := n\<rparr> # split_right v n # bs) a = view (v # bs) a"
    using assms by (auto simp: view_Cons inside_def)
  then show ?thesis by (simp add: view_append)
qed

lemma in_sync_cong:
  "(\<And>a. a < MAX_ADDRESS \<Longrightarrow> view ys a = view xs a) \<Longrightarrow> in_sync ys ms t = in_sync xs ms t"
  by (simp add: in_sync_def)

lemma le0: "(0 :: nat) \<le> a"
  by simp

lemma tiles_end: "tiles lo xs a \<Longrightarrow> tiles lo xs b \<Longrightarrow> a = b"
  by (induction xs arbitrary: lo) auto

lemma view_Free_iff: "area_at v a = Free_area \<longleftrightarrow> vma_type v = Free"
  by (simp add: area_at_def split: VMAType.splits)

text \<open>Looking at the areas that a range meets is looking at the addresses of the range.\<close>

lemma view_of_area:
  assumes "tiles 0 xs MAX_ADDRESS" "w \<in> set xs" "inside w a"
  shows "view xs a = area_at w a"
  using assms by (metis in_set_conv_decomp view_inside)

lemma areas_view:
  assumes t: "tiles 0 xs MAX_ADDRESS" and sz: "target < target_end" "target_end \<le> MAX_ADDRESS"
    and k: "FindVMA target xs = Some (Some k)" and PQ: "\<forall>w \<in> set xs. \<forall>a. P w \<longleftrightarrow> Q (area_at w a)"
  shows "(\<forall>w \<in> set (areas_between k target_end xs). P w) \<longleftrightarrow> (\<forall>a \<in> {target..<target_end}. Q (view xs a))"
proof -
  have lt: "target < MAX_ADDRESS" using sz by simp
  obtain as v bs where x: "xs = as @ v # bs" "vma_base v \<le> target" "target < vma_base v + vma_size v"
    by (rule tiles_find [OF t le0 [of target] lt]) (rule that; assumption)
  note t' = t [unfolded x(1)]
  have kv: "k = vma_base v" using k FindVMA_cut [OF t' x(2,3) lt] by (simp add: x(1))
  have at: "Q (view xs a) \<longleftrightarrow> P w" if "w \<in> set xs" "inside w a" for w a
    using PQ that(1) view_of_area [OF t that] by simp
  show ?thesis
  proof (intro iffI ballI)
    fix a assume A: "\<forall>w \<in> set (areas_between k target_end xs). P w" and a: "a \<in> {target..<target_end}"
    have "a < MAX_ADDRESS" using a sz by simp
    then obtain cs w ds where y: "xs = cs @ w # ds" "vma_base w \<le> a" "a < vma_base w + vma_size w"
      by (rule tiles_find [OF t le0 [of a]]) (rule that; assumption)
    have w: "w \<in> set xs" by (simp add: y(1))
    have "k \<le> vma_base w"
      using w tiles_cut(1,2) [OF t'] a x(2) y(3) unfolding kv x(1) by fastforce
    then have "w \<in> set (areas_between k target_end xs)"
      using w y(2) a unfolding areas_between_def by simp
    then show "Q (view xs a)" using A at [OF w] y(2,3) by (simp add: inside_def)
  next
    fix w assume A: "\<forall>a \<in> {target..<target_end}. Q (view xs a)" and "w \<in> set (areas_between k target_end xs)"
    then have w: "w \<in> set xs" "k \<le> vma_base w" "vma_base w < target_end" by (auto simp: areas_between_def)
    have size: "0 < vma_size w" using tiles_bases [OF t w(1)] by simp
    show "P w"
    proof (cases "target \<le> vma_base w")
      case True
      then show ?thesis using at [OF w(1), of "vma_base w"] A w(3) size by (simp add: inside_def)
    next
      case False
      then have "w = v" using w(1,2) tiles_cut(1,2) [OF t'] x(3) unfolding kv x(1) by fastforce
      then show ?thesis using at [OF w(1), of target] A sz(1) x(2,3) by (simp add: inside_def)
    qed
  qed
qed

lemmas free_areas_view = areas_view [where P = "\<lambda>w. vma_type w \<noteq> Free" and Q = "\<lambda>x. x \<noteq> Free_area"]

lemma FindVMA_some:
  assumes "tiles 0 xs MAX_ADDRESS" "a < MAX_ADDRESS"
  obtains k where "FindVMA a xs = Some (Some k)"
  by (rule tiles_find [OF assms(1) le0 [of a] assms(2)]) (use assms FindVMA_cut that in blast)

text \<open>Where something of the range is free, carving it fails and leaves the map alone.\<close>

lemma CarveVMARange_fails:
  assumes t: "tiles 0 xs MAX_ADDRESS" and al: "page_aligned target" "page_aligned sz"
    and sz: "target + sz \<le> MAX_ADDRESS" and a: "a \<in> {target..<target + sz}" "view xs a = Free_area"
  shows "CarveVMARange target sz xs = Some (Inl ERR_INVALID_ADDRESS_STATE)"
proof -
  have te: "add32 target sz = target + sz" using sz by (intro add32_id) (simp add: MAX_ADDRESS_def)
  have bounds: "target < MAX_ADDRESS" "target < target + sz" using a(1) sz by auto
  obtain k where k: "FindVMA target xs = Some (Some k)" by (rule FindVMA_some [OF t bounds(1)])
  have "\<exists>v \<in> set (areas_between k (target + sz) xs). vma_type v = Free"
    using free_areas_view [OF t bounds(2) sz k] a by (auto simp: view_Free_iff)
  then show ?thesis using al sz bounds by (simp add: CarveVMARange_def te k)
qed

text \<open>The map with a boundary at an address, and otherwise the same.\<close>

lemma boundary:
  assumes s: "space_ok e xs" and e: "separated e" and "page_aligned b" "b < MAX_ADDRESS"
    and "view xs b \<noteq> Free_area \<or> 0 < b \<and> view xs (b - 1) \<noteq> Free_area"
  obtains as v bs where "tiles 0 as b" "space_ok e (as @ v # bs)" "vma_base v = b"
    "\<forall>a. view (as @ v # bs) a = view xs a"
    "(case FindVMA b xs of Some (Some k) \<Rightarrow>
        (if b \<noteq> k then SplitVMA k (b - k) xs else Some (k, xs)) | _ \<Rightarrow> None) = Some (b, as @ v # bs)"
    "\<forall>ps qs lo. xs = ps @ qs \<longrightarrow> tiles 0 ps lo \<longrightarrow> lo \<le> b \<longrightarrow> (\<exists>qs'. as @ v # bs = ps @ qs')"
proof -
  have t: "tiles 0 xs MAX_ADDRESS" using s by (simp add: space_ok_def)
  obtain as v bs where xs: "xs = as @ v # bs" "vma_base v \<le> b" "b < vma_base v + vma_size v"
    by (rule tiles_find [OF t le0 [of b] assms(4)]) (rule that; assumption)
  note t' = t [unfolded xs(1)]
  have f: "FindVMA b xs = Some (Some (vma_base v))"
    unfolding xs(1) by (rule FindVMA_cut [OF t' xs(2,3) assms(4)])
  have prefix: "\<exists>us. as = ps @ us" if ps: "xs = ps @ qs" "tiles 0 ps lo" "lo \<le> b" for ps qs lo
  proof -
    from ps(1) have "as @ v # bs = ps @ qs" by (simp add: xs(1))
    then consider us where "as = ps @ us" | us where "ps = as @ us" "v # bs = us @ qs"
      by (auto simp: append_eq_append_conv2)
    then show ?thesis
    proof cases
      case 2
      have "v \<notin> set ps" using tiles_bases [OF ps(2), of v] ps(3) xs(3) by auto
      with 2 have "us = []" by (cases us) auto
      with 2 show ?thesis by simp
    qed blast
  qed
  show thesis
  proof (cases "b = vma_base v")
    case True
    have "\<forall>ps qs lo. xs = ps @ qs \<longrightarrow> tiles 0 ps lo \<longrightarrow> lo \<le> b \<longrightarrow> (\<exists>qs'. as @ v # bs = ps @ qs')"
      by (simp add: xs(1))
    then show thesis
      by (intro that [of as v bs]) (use s f True tiles_cut(5) [OF t'] in \<open>simp_all add: xs(1)\<close>)
  next
    case False
    have "inside v b" "inside v (b - 1)" using xs(2,3) False by (auto simp: inside_def)
    then have nf: "vma_type v \<noteq> Free"
      using assms(5) view_inside [OF t'] by (auto simp: xs(1) view_Free_iff)
    define n where "n = b - vma_base v"
    have n: "0 < n" "n < vma_size v" "vma_base v + n = b" using False xs(2,3) by (auto simp: n_def)
    have ok: "list_all (vma_ok e) xs" "successively not_both_free xs" using s by (auto simp: space_ok_def)
    have al: "page_aligned n"
    proof -
      have "page_aligned (vma_base v)" using tiles_aligned [OF t'] by (simp add: page_aligned_def)
      then show ?thesis using assms(3) n(3) unfolding page_aligned_def by (metis mod_add_left_eq add_0)
    qed
    let ?ys = "as @ v\<lparr>vma_size := n\<rparr> # split_right v n # bs"
    have ty: "tiles 0 ?ys MAX_ADDRESS" by (rule tiles_split [OF t' n(1,2) al])
    have oky: "list_all (vma_ok e) ?ys"
      using ok(1) vma_ok_split [OF e _ n(1,2)] by (simp add: xs(1))
    have "vma_type (split_right v n) = vma_type v" by (simp add: split_right_def)
    then have "successively not_both_free ?ys"
      using ok(2) nf by (cases bs) (auto simp: xs(1) successively_append_iff successively_Cons)
    with ty oky have sy: "space_ok e ?ys" by (simp add: space_ok_def)
    have v: "vma_ok e v" using ok(1) by (simp add: xs(1))
    have pre: "\<forall>ps qs lo. xs = ps @ qs \<longrightarrow> tiles 0 ps lo \<longrightarrow> lo \<le> b \<longrightarrow> (\<exists>qs'. ?ys = ps @ qs')"
    proof (intro allI impI)
      fix ps qs lo assume "xs = ps @ qs" "tiles 0 ps lo" "lo \<le> b"
      then obtain us where "as = ps @ us" using prefix by blast
      then show "\<exists>qs'. ?ys = ps @ qs'" by simp
    qed
    have f': "(case FindVMA b xs of Some (Some k) \<Rightarrow>
        (if b \<noteq> k then SplitVMA k (b - k) xs else Some (k, xs)) | _ \<Rightarrow> None) = Some (b, ?ys)"
      using f False SplitVMA_cut [OF t' v n(1,2)] n(3) by (simp add: xs(1) n_def)
    show thesis
      by (rule that [of "as @ [v\<lparr>vma_size := n\<rparr>]" "split_right v n" bs])
        (use sy ty f' pre n(3) view_split [OF n(2)] in
          \<open>simp_all add: xs(1) tiles_append split_right_def\<close>)
  qed
qed

lemma CarveVMARange_spec:
  assumes s: "space_ok e xs" and e: "separated e" and a: "page_aligned target" "page_aligned sz"
    and sz: "0 < sz" "target + sz \<le> MAX_ADDRESS"
    and mapped: "\<forall>a \<in> {target..<target + sz}. view xs a \<noteq> Free_area"
  obtains as bs where "CarveVMARange target sz xs = Some (Inr (target, as @ bs))"
    "tiles 0 as target" "tiles target bs MAX_ADDRESS" "space_ok e (as @ bs)" "\<forall>a. view (as @ bs) a = view xs a"
    "\<forall>w \<in> set bs. vma_base w < target + sz \<longrightarrow> vma_type w \<noteq> Free \<and> vma_base w + vma_size w \<le> target + sz"
proof -
  note result = that
  let ?te = "target + sz"
  have te: "add32 target sz = ?te" using sz by (intro add32_id) (simp add: MAX_ADDRESS_def)
  have target: "target < MAX_ADDRESS" "view xs target \<noteq> Free_area" using sz mapped by auto
  obtain as v bs where 1: "tiles 0 as target" "space_ok e (as @ v # bs)" "vma_base v = target"
    "\<forall>a. view (as @ v # bs) a = view xs a"
    "(case FindVMA target xs of Some (Some k) \<Rightarrow>
        (if target \<noteq> k then SplitVMA k (target - k) xs else Some (k, xs)) | _ \<Rightarrow> None) = Some (target, as @ v # bs)"
    by (rule boundary [OF s e a(1) target(1) disjI1 [OF target(2)]]) (rule that; assumption)
  let ?ys = "as @ v # bs"
  have t: "tiles 0 xs MAX_ADDRESS" using s by (simp add: space_ok_def)
  obtain as0 v0 bs0 where x: "xs = as0 @ v0 # bs0" "vma_base v0 \<le> target" "target < vma_base v0 + vma_size v0"
    by (rule tiles_find [OF t le0 [of target] target(1)]) (rule that; assumption)
  note t' = t [unfolded x(1)]
  let ?k = "vma_base v0"
  have k: "FindVMA target xs = Some (Some ?k)"
    unfolding x(1) by (rule FindVMA_cut [OF t' x(2,3) target(1)])
  then have split: "(if target \<noteq> ?k then SplitVMA ?k (target - ?k) xs else Some (?k, xs)) = Some (target, ?ys)"
    using 1(5) by simp
  have range: "target < ?te" using sz(1) by simp
  have nofree: "\<not> (\<exists>w \<in> set (areas_between ?k ?te xs). vma_type w = Free)"
    using free_areas_view [OF t range sz(2) k] mapped by (auto simp: view_Free_iff)
  have fin: thesis if zs: "CarveVMARange target sz xs = Some (Inr (target, as @ bs'))" "space_ok e (as @ bs')"
      "\<forall>a. view (as @ bs') a = view xs a" 
      "\<forall>w \<in> set bs'. vma_base w < ?te \<longrightarrow> vma_base w + vma_size w \<le> ?te" for bs'
  proof (rule result [OF zs(1) 1(1) _ zs(2,3)])
    have tz: "tiles 0 (as @ bs') MAX_ADDRESS" using zs(2) by (simp add: space_ok_def)
    then show tb: "tiles target bs' MAX_ADDRESS"
      using 1(1) by (auto simp: tiles_append dest: tiles_end)
    show "\<forall>w \<in> set bs'. vma_base w < ?te \<longrightarrow> vma_type w \<noteq> Free \<and> vma_base w + vma_size w \<le> ?te"
    proof (intro ballI impI conjI)
      fix w assume w: "w \<in> set bs'" "vma_base w < ?te"
      then obtain cs ds where "bs' = cs @ w # ds" by (auto simp: in_set_conv_decomp)
      then have "view (as @ bs') (vma_base w) = area_at w (vma_base w)"
        using view_inside [of 0 "as @ cs" w ds MAX_ADDRESS "vma_base w"] tz tiles_bases [OF tb w(1)]
        by (simp add: inside_def)
      then show "vma_type w \<noteq> Free"
        using bspec [OF mapped, of "vma_base w"] zs(3) w(2) tiles_bases [OF tb w(1)] by (auto simp: view_Free_iff)
    qed (use zs(4) in blast)
  qed
  have carve: "CarveVMARange target sz xs =
    do {
      end_vma \<leftarrow> FindVMA ?te ?ys;
      case end_vma of
        None \<Rightarrow> Some (Inr (target, ?ys))
      | Some k \<Rightarrow>
          if ?te \<noteq> k
          then do { (_, xs2) \<leftarrow> SplitVMA k (?te - k) ?ys; Some (Inr (target, xs2)) }
          else Some (Inr (target, ?ys))
    }"
    using nofree split unfolding CarveVMARange_def by (simp add: a te sz k Let_def split del: if_split)
  show thesis
  proof (cases "?te < MAX_ADDRESS")
    case False
    then have "FindVMA ?te ?ys = Some None" by (simp add: FindVMA_def)
    moreover have "\<forall>w \<in> set (v # bs). vma_base w + vma_size w \<le> ?te"
      using 1(2) False tiles_bases [of 0 ?ys MAX_ADDRESS] by (force simp: space_ok_def)
    ultimately show thesis using 1(2,4) by (intro fin [of "v # bs"]) (simp_all add: carve)
  next
    case True
    have al: "page_aligned ?te" using a by (auto simp: page_aligned_def CITRA_PAGE_SIZE_def)
    have nf: "view ?ys (?te - 1) \<noteq> Free_area" "0 < ?te" using mapped sz(1) 1(4) by auto
    obtain as2 v2 bs2 where 2: "tiles 0 as2 ?te" "space_ok e (as2 @ v2 # bs2)" "vma_base v2 = ?te"
      "\<forall>a. view (as2 @ v2 # bs2) a = view ?ys a"
      "(case FindVMA ?te ?ys of Some (Some k) \<Rightarrow>
          (if ?te \<noteq> k then SplitVMA k (?te - k) ?ys else Some (k, ?ys)) | _ \<Rightarrow> None) = Some (?te, as2 @ v2 # bs2)"
      "\<forall>ps qs lo. ?ys = ps @ qs \<longrightarrow> tiles 0 ps lo \<longrightarrow> lo \<le> ?te \<longrightarrow> (\<exists>qs'. as2 @ v2 # bs2 = ps @ qs')"
      by (rule boundary [OF 1(2) e al True disjI2 [OF conjI [OF nf(2,1)]]]) (rule that; assumption)
    obtain bs' where bs': "as2 @ v2 # bs2 = as @ bs'" using 2(6) [rule_format, OF refl 1(1) le_add1] by blast
    have tz: "tiles 0 (as2 @ v2 # bs2) MAX_ADDRESS" using 2(2) by (simp add: space_ok_def)
    have "vma_base w + vma_size w \<le> ?te" if w: "w \<in> set bs'" "vma_base w < ?te" for w
    proof -
      have "w \<in> set (as2 @ v2 # bs2)" using w(1) by (simp add: bs')
      then show ?thesis using tiles_cut(1,2) [OF tz] w(2) 2(3) by auto
    qed
    moreover have "CarveVMARange target sz xs = Some (Inr (target, as @ bs'))"
      using 2(5) unfolding carve bs' by (auto split: option.splits if_splits)
    ultimately show thesis using 2(2,4) 1(4) by (intro fin [of bs']) (simp_all add: bs')
  qed
qed

end
