(* ===== verification/VMOperations.thy ===== *)
theory VMOperations
  imports AddressSpace
begin

text \<open>
  The operations of \<open>VMManager\<close> on ranges of addresses, as a client sees them: when each succeeds, what it
  changes, and that the areas stay in order with the page table in step.
\<close>

section \<open>A range changed\<close>

context range_action begin

text \<open>Carving a mapped range and changing what it holds.\<close>

lemma range_spec:
  assumes s: "space_ok e (vma_map vm)" and e: "separated e" and r: "rasterizer_ok env"
    and al: "page_aligned target" "page_aligned sz"
    and sz: "0 < sz" "target + sz \<le> MAX_ADDRESS"
    and mapped: "\<forall>a \<in> {target..<target + sz}. view (vma_map vm) a \<noteq> Free_area"
  shows "\<exists>zs ys ms'. CarveVMARange target sz (vma_map vm) = Some (Inr (target, zs)) \<and>
    range_loop env f (target + sz) (Some target) (vm\<lparr>vma_map := zs\<rparr>, ms) = Some (vm\<lparr>vma_map := ys\<rparr>, ms') \<and>
    space_ok e ys \<and>
    (\<forall>a < MAX_ADDRESS. view ys a =
       (if target \<le> a \<and> a < target + sz then F (view (vma_map vm) a) else view (vma_map vm) a)) \<and>
    (in_sync (vma_map vm) ms (page_table vm) \<longrightarrow> in_sync ys ms' (page_table vm))"
proof -
  obtain as bs where c: "CarveVMARange target sz (vma_map vm) = Some (Inr (target, as @ bs))"
    "tiles 0 as target" "tiles target bs MAX_ADDRESS" "space_ok e (as @ bs)"
    "\<forall>a. view (as @ bs) a = view (vma_map vm) a"
    "\<forall>w \<in> set bs. vma_base w < target + sz \<longrightarrow> vma_type w \<noteq> Free \<and> vma_base w + vma_size w \<le> target + sz"
    by (rule CarveVMARange_spec [OF s e al sz mapped]) (rule that; assumption)
  let ?vm = "vm\<lparr>vma_map := as @ bs\<rparr>"
  have ok: "list_all (vma_ok e) (as @ bs)" "successively not_both_free (as @ bs)"
    using c(4) by (simp_all add: space_ok_def)
  have first: "(case bs of [] \<Rightarrow> None | w # _ \<Rightarrow> Some (vma_base w)) = Some target"
    using c(3) sz by (cases bs) auto
  have map: "vma_map ?vm = as @ bs" by simp
  have "view (as @ bs) = view (vma_map vm)" "in_sync (as @ bs) ms = in_sync (vma_map vm) ms"
    using c(5) by (simp_all add: fun_eq_iff in_sync_def)
  with range_loop_spec [OF c(2,3) ok e r map c(6), of ms] first obtain ys ms' where
    "range_loop env f (target + sz) (Some target) (?vm, ms) = Some (?vm\<lparr>vma_map := ys\<rparr>, ms')"
    "space_ok e ys" "\<forall>a < MAX_ADDRESS. view ys a =
       (if target \<le> a \<and> a < target + sz then F (view (vma_map vm) a) else view (vma_map vm) a)"
    "in_sync (vma_map vm) ms (page_table vm) \<longrightarrow> in_sync ys ms' (page_table vm)"
    by auto
  with c(1) show ?thesis by (intro exI [of _ "as @ bs"] exI [of _ ys] exI [of _ ms']) simp
qed

end

section \<open>The range operations\<close>

text \<open>A process whose areas are in order and whose page table agrees with them.\<close>

definition vm_ok :: "(nat \<Rightarrow> nat) \<Rightarrow> vm_manager \<times> 'd memory_system \<Rightarrow> bool" where
  "vm_ok e = (\<lambda>(vm, ms). separated e \<and> space_ok e (vma_map vm) \<and> in_sync (vma_map vm) ms (page_table vm))"

text \<open>What a range operation promises: it changes each address of the range and no other one.\<close>

definition acts_on :: "nat \<Rightarrow> nat \<Rightarrow> (area \<Rightarrow> area) \<Rightarrow> vma list \<Rightarrow> vma list \<Rightarrow> bool" where
  "acts_on target sz F xs ys \<longleftrightarrow>
     (\<forall>a < MAX_ADDRESS. view ys a = (if target \<le> a \<and> a < target + sz then F (view xs a) else view xs a))"

definition page_range :: "nat \<Rightarrow> nat \<Rightarrow> bool" where
  "page_range target sz \<longleftrightarrow> page_aligned target \<and> page_aligned sz \<and> 0 < sz \<and> target + sz \<le> MAX_ADDRESS"

definition all_mapped :: "nat \<Rightarrow> nat \<Rightarrow> vma list \<Rightarrow> bool" where
  "all_mapped target sz xs \<longleftrightarrow> (\<forall>a \<in> {target..<target + sz}. view xs a \<noteq> Free_area)"

definition all_free :: "nat \<Rightarrow> nat \<Rightarrow> vma list \<Rightarrow> bool" where
  "all_free target sz xs \<longleftrightarrow> (\<forall>a \<in> {target..<target + sz}. view xs a = Free_area)"

lemma page_range_end: "page_range target sz \<Longrightarrow> add32 target sz = target + sz"
  by (rule add32_id) (simp add: page_range_def MAX_ADDRESS_def)

lemma carve_not_mapped:
  "vm_ok e (vm, ms) \<Longrightarrow> page_range target sz \<Longrightarrow> \<not> all_mapped target sz (vma_map vm) \<Longrightarrow>
   CarveVMARange target sz (vma_map vm) = Some (Inl ERR_INVALID_ADDRESS_STATE)"
  by (auto simp: vm_ok_def page_range_def all_mapped_def space_ok_def intro: CarveVMARange_fails)

context range_action begin

lemma range_result:
  assumes "vm_ok e (vm, ms)" "rasterizer_ok env" "page_range target sz" "all_mapped target sz (vma_map vm)"
  obtains zs ys ms' where "CarveVMARange target sz (vma_map vm) = Some (Inr (target, zs))"
    "range_loop env f (target + sz) (Some target) (vm\<lparr>vma_map := zs\<rparr>, ms) = Some (vm\<lparr>vma_map := ys\<rparr>, ms')"
    "acts_on target sz F (vma_map vm) ys" "vm_ok e (vm\<lparr>vma_map := ys\<rparr>, ms')"
proof -
  from range_spec [of e vm env target sz ms] assms obtain zs ys ms' where
    "CarveVMARange target sz (vma_map vm) = Some (Inr (target, zs))"
    "range_loop env f (target + sz) (Some target) (vm\<lparr>vma_map := zs\<rparr>, ms) = Some (vm\<lparr>vma_map := ys\<rparr>, ms')"
    "space_ok e ys"
    "\<forall>a < MAX_ADDRESS. view ys a =
       (if target \<le> a \<and> a < target + sz then F (view (vma_map vm) a) else view (vma_map vm) a)"
    "in_sync ys ms' (page_table vm)"
    by (auto simp: vm_ok_def page_range_def all_mapped_def)
  with assms(1) show thesis by (intro that [of zs ys ms']) (simp_all add: vm_ok_def acts_on_def)
qed

end

lemma freed_room:
  assumes s: "space_ok e ys" and "target < MAX_ADDRESS" "0 < sz" "target + sz \<le> MAX_ADDRESS"
    and free: "all_free target sz ys"
  obtains as v bs where "ys = as @ v # bs" "FindVMA target ys = Some (Some (vma_base v))" "vma_type v = Free"
    "vma_base v \<le> target" "target + sz \<le> vma_base v + vma_size v"
proof -
  note result = that
  have t: "tiles 0 ys MAX_ADDRESS" using s by (simp add: space_ok_def)
  obtain as v bs where y: "ys = as @ v # bs" "vma_base v \<le> target" "target < vma_base v + vma_size v"
    by (rule tiles_find [OF t le0 [of target] assms(2)]) (rule that; assumption)
  note t' = t [unfolded y(1)]
  have "view ys target = area_at v target"
    unfolding y(1) by (rule view_inside [OF t']) (simp add: inside_def y)
  then have v: "vma_type v = Free" using bspec [OF free [unfolded all_free_def], of target] assms(3) view_Free_iff [of v target]
    by simp
  have "target + sz \<le> vma_base v + vma_size v"
  proof (rule ccontr)
    assume "\<not> target + sz \<le> vma_base v + vma_size v"
    then have in_range: "target \<le> vma_base v + vma_size v" "vma_base v + vma_size v < target + sz" using y(3) by simp_all
    then obtain w ws where bs: "bs = w # ws" using tiles_cut(6) [OF t'] assms(4) by (cases bs) auto
    then have w: "vma_base w = vma_base v + vma_size v" using tiles_cut(6) [OF t'] by simp
    have tw: "tiles 0 ((as @ [v]) @ w # ws) MAX_ADDRESS" using t' by (simp add: bs)
    then have "view ((as @ [v]) @ w # ws) (vma_base w) = area_at w (vma_base w)"
      using tiles_cut(3) [OF tw] by (intro view_inside [OF tw]) (simp add: inside_def)
    then have "vma_type w = Free"
      using bspec [OF free [unfolded all_free_def], of "vma_base w"] in_range w by (simp add: y(1) bs view_Free_iff)
    with v s show False by (auto simp: space_ok_def y(1) bs successively_append_iff)
  qed
  with y(2) v FindVMA_cut [OF t' y(2,3) assms(2)] show thesis by (intro result [of as v bs]) (simp_all add: y(1))
qed

lemma UnmapRange_run:
  assumes "vm_ok e (vm, ms)" "rasterizer_ok env" "page_range target sz" "all_mapped target sz (vma_map vm)" "\<not> is_locked vm"
  shows "\<exists>ys ms'. UnmapRange env target sz (vm, ms) = Some (Inr (), vm\<lparr>vma_map := ys\<rparr>, ms') \<and>
    acts_on target sz (\<lambda>_. Free_area) (vma_map vm) ys \<and> vm_ok e (vm\<lparr>vma_map := ys\<rparr>, ms')"
proof -
  obtain zs ys ms' where 1: "CarveVMARange target sz (vma_map vm) = Some (Inr (target, zs))"
    "range_loop env to_free (target + sz) (Some target) (vm\<lparr>vma_map := zs\<rparr>, ms) = Some (vm\<lparr>vma_map := ys\<rparr>, ms')"
    "acts_on target sz (\<lambda>_. Free_area) (vma_map vm) ys" "vm_ok e (vm\<lparr>vma_map := ys\<rparr>, ms')"
    by (rule freeing.range_result [OF assms(1-4)]) (rule that; assumption)
  have s: "space_ok e ys" using 1(4) by (simp add: vm_ok_def)
  have b: "target < MAX_ADDRESS" "0 < sz" "target + sz \<le> MAX_ADDRESS" using assms(3) by (auto simp: page_range_def)
  have fr: "all_free target sz ys" using 1(3) b(3) by (auto simp: all_free_def acts_on_def)
  obtain as v bs where v: "ys = as @ v # bs" "FindVMA target ys = Some (Some (vma_base v))" "vma_type v = Free"
    "vma_base v \<le> target" "target + sz \<le> vma_base v + vma_size v"
    by (rule freed_room [OF s b fr]) (rule that; assumption)
  have "at_key (vma_base v) ys = Some v"
    using s unfolding space_ok_def v(1) by (auto intro: at_key_cut)
  with 1 v(2,4,5) assms(5) show ?thesis
    by (intro exI [of _ ys] exI [of _ ms']) (simp add: UnmapRange_def page_range_end [OF assms(3)])
qed

lemma UnmapRange_error:
  assumes "vm_ok e (vm, ms)" "page_range target sz" "\<not> all_mapped target sz (vma_map vm)" "\<not> is_locked vm"
  shows "UnmapRange env target sz (vm, ms) = Some (Inl ERR_INVALID_ADDRESS_STATE, vm, ms)"
  using carve_not_mapped [OF assms(1-3)] assms(4) by (simp add: UnmapRange_def)

lemma ReprotectRange_run:
  assumes "vm_ok e (vm, ms)" "rasterizer_ok env" "page_range target sz" "all_mapped target sz (vma_map vm)" "\<not> is_locked vm"
  shows "\<exists>ys ms'. ReprotectRange env target sz p (vm, ms) = Some (Inr (), vm\<lparr>vma_map := ys\<rparr>, ms') \<and>
    acts_on target sz (with_perms_at p) (vma_map vm) ys \<and> vm_ok e (vm\<lparr>vma_map := ys\<rparr>, ms')"
proof -
  obtain zs ys ms' where 1: "CarveVMARange target sz (vma_map vm) = Some (Inr (target, zs))"
    "range_loop env (with_perms p) (target + sz) (Some target) (vm\<lparr>vma_map := zs\<rparr>, ms) = Some (vm\<lparr>vma_map := ys\<rparr>, ms')"
    "acts_on target sz (with_perms_at p) (vma_map vm) ys" "vm_ok e (vm\<lparr>vma_map := ys\<rparr>, ms')"
    by (rule reprotecting.range_result [OF assms(1-4)]) (rule that; assumption)
  with assms(5) show ?thesis
    by (intro exI [of _ ys] exI [of _ ms']) (simp add: ReprotectRange_def page_range_end [OF assms(3)])
qed

lemma ReprotectRange_error:
  assumes "vm_ok e (vm, ms)" "page_range target sz" "\<not> all_mapped target sz (vma_map vm)" "\<not> is_locked vm"
  shows "ReprotectRange env target sz p (vm, ms) = Some (Inl ERR_INVALID_ADDRESS_STATE, vm, ms)"
  using carve_not_mapped [OF assms(1-3)] assms(4) by (simp add: ReprotectRange_def)

text \<open>What \<open>ChangeMemoryState\<close> checks, at one address.\<close>

fun expected_at :: "MemoryState \<Rightarrow> VMAPermission \<Rightarrow> area \<Rightarrow> bool" where
  "expected_at st p Free_area \<longleftrightarrow> st = State_Free \<and> p = 0"
| "expected_at st p (Backed q s _) \<longleftrightarrow> s = st \<and> (q AND p) = p"
| "expected_at st p (Device q s _) \<longleftrightarrow> s = st \<and> (q AND p) = p"

definition all_expected :: "MemoryState \<Rightarrow> VMAPermission \<Rightarrow> nat \<Rightarrow> nat \<Rightarrow> vma list \<Rightarrow> bool" where
  "all_expected st p target sz xs \<longleftrightarrow> (\<forall>a \<in> {target..<target + sz}. expected_at st p (view xs a))"

lemma expected_area:
  assumes "vma_ok e v"
  shows "as_expected st p v = expected_at st p (area_at v a)"
  using assms by (auto simp: as_expected_def area_at_def vma_ok_def split: VMAType.splits)

lemma list_all_between:
  "list_all P (areas_between k b xs) \<longleftrightarrow> (\<forall>w \<in> set (areas_between k b xs). P w)"
  by (simp add: list_all_iff)

text \<open>The loop stops at \<open>lower_bound\<close> of the end: it sees the areas that start before the end.\<close>

lemma tiles_sorted: "tiles lo xs hi \<Longrightarrow> sorted_wrt (\<lambda>v w. vma_base v < vma_base w) xs"
proof (induction xs arbitrary: lo)
  case (Cons v vs)
  then show ?case using tiles_cut(2) [of lo "[]" v vs hi] by auto
qed simp

lemma all_areas_eq:
  assumes t: "tiles lo xs hi" and k: "k < target_end"
  shows "all_areas P k target_end xs = Some (\<forall>w \<in> set (areas_between k target_end xs). P w)"
proof (cases "filter (\<lambda>v. target_end \<le> vma_base v) xs")
  case Nil
  then have "filter (\<lambda>v. k \<le> vma_base v) xs = areas_between k target_end xs"
    by (auto simp: areas_between_def filter_empty_conv intro!: filter_cong)
  then show ?thesis using Nil by (simp add: all_areas_def lower_bound_def list_all_between)
next
  case (Cons e es)
  then have in_rest: "w \<in> set (e # es) \<longleftrightarrow> w \<in> set xs \<and> target_end \<le> vma_base w" for w
    by (metis (no_types, lifting) filter_set mem_Collect_eq set_filter)
  have e: "target_end \<le> vma_base e" "e \<in> set xs" using in_rest [of e] by simp_all
  have "\<forall>w \<in> set es. vma_base e < vma_base w"
    using sorted_wrt_filter [OF tiles_sorted [OF t], of "\<lambda>v. target_end \<le> vma_base v"] Cons by simp
  then have "w \<in> set (e # es) \<longrightarrow> vma_base e \<le> vma_base w" for w by auto
  then have "vma_base w < vma_base e \<longleftrightarrow> vma_base w < target_end" if "w \<in> set xs" for w
    using that e(1) in_rest [of w] by (meson leD leI less_le_trans)
  then have "areas_between k (vma_base e) xs = areas_between k target_end xs"
    unfolding areas_between_def by (intro filter_cong) auto
  then show ?thesis using Cons e(1) k by (simp add: all_areas_def lower_bound_def list_all_between)
qed

lemma check_range:
  assumes ok: "vm_ok e (vm, ms)" and r: "page_range target sz"
  obtains k where "FindVMA target (vma_map vm) = Some (Some k)"
    "all_areas (as_expected st p) k (target + sz) (vma_map vm) = Some (all_expected st p target sz (vma_map vm))"
proof -
  have s: "space_ok e (vma_map vm)" using ok by (simp add: vm_ok_def)
  then have t: "tiles 0 (vma_map vm) MAX_ADDRESS" and a: "\<forall>w \<in> set (vma_map vm). vma_ok e w"
    by (auto simp: space_ok_def list_all_iff)
  have b: "target < MAX_ADDRESS" "target < target + sz" "target + sz \<le> MAX_ADDRESS"
    using r by (auto simp: page_range_def)
  obtain as v bs where x: "vma_map vm = as @ v # bs" "vma_base v \<le> target" "target < vma_base v + vma_size v"
    by (rule tiles_find [OF t le0 [of target] b(1)]) (rule that; assumption)
  note t' = t [unfolded x(1)]
  have k: "FindVMA target (vma_map vm) = Some (Some (vma_base v))"
    using FindVMA_cut [OF t' x(2,3) b(1)] by (simp add: x(1))
  have "\<forall>w \<in> set (vma_map vm). \<forall>a. as_expected st p w = expected_at st p (area_at w a)"
    using a expected_area by blast
  from areas_view [where P = "as_expected st p" and Q = "expected_at st p", OF t b(2,3) k this]
  have "all_areas (as_expected st p) (vma_base v) (target + sz) (vma_map vm) =
      Some (all_expected st p target sz (vma_map vm))"
    using all_areas_eq [OF t, of "vma_base v" "target + sz"] x(2) b(2) by (simp add: all_expected_def)
  with k show thesis by (rule that)
qed

lemma ChangeMemoryState_run:
  assumes ok: "vm_ok e (vm, ms)" and "rasterizer_ok env" and r: "page_range target sz"
    and m: "all_mapped target sz (vma_map vm)" and x: "all_expected st p target sz (vma_map vm)" and l: "\<not> is_locked vm"
  shows "\<exists>ys ms'. ChangeMemoryState env target sz st p st' p' (vm, ms) = Some (Inr (), vm\<lparr>vma_map := ys\<rparr>, ms') \<and>
    acts_on target sz (with_state_at st' p') (vma_map vm) ys \<and> vm_ok e (vm\<lparr>vma_map := ys\<rparr>, ms')"
proof -
  obtain k where k: "FindVMA target (vma_map vm) = Some (Some k)"
    "all_areas (as_expected st p) k (target + sz) (vma_map vm) = Some (all_expected st p target sz (vma_map vm))"
    by (rule check_range [OF ok r])
  obtain zs ys ms' where 1: "CarveVMARange target sz (vma_map vm) = Some (Inr (target, zs))"
    "range_loop env (with_state st' p') (target + sz) (Some target) (vm\<lparr>vma_map := zs\<rparr>, ms) = Some (vm\<lparr>vma_map := ys\<rparr>, ms')"
    "acts_on target sz (with_state_at st' p') (vma_map vm) ys" "vm_ok e (vm\<lparr>vma_map := ys\<rparr>, ms')"
    by (rule restating.range_result [OF assms(1-4)]) (rule that; assumption)
  with k x l show ?thesis
    by (intro exI [of _ ys] exI [of _ ms']) (simp add: ChangeMemoryState_def page_range_end [OF r])
qed

lemma ChangeMemoryState_error:
  assumes ok: "vm_ok e (vm, ms)" and r: "page_range target sz" and l: "\<not> is_locked vm"
    and bad: "\<not> all_mapped target sz (vma_map vm) \<or> \<not> all_expected st p target sz (vma_map vm)"
  shows "ChangeMemoryState env target sz st p st' p' (vm, ms) = Some (Inl ERR_INVALID_ADDRESS_STATE, vm, ms)"
proof -
  obtain k where k: "FindVMA target (vma_map vm) = Some (Some k)"
    "all_areas (as_expected st p) k (target + sz) (vma_map vm) = Some (all_expected st p target sz (vma_map vm))"
    by (rule check_range [OF ok r])
  show ?thesis
  proof (cases "all_expected st p target sz (vma_map vm)")
    case True
    with bad have "CarveVMARange target sz (vma_map vm) = Some (Inl ERR_INVALID_ADDRESS_STATE)"
      by (intro carve_not_mapped [OF ok r]) simp
    with k l True show ?thesis by (simp add: ChangeMemoryState_def page_range_end [OF r])
  qed (use k l in \<open>simp add: ChangeMemoryState_def page_range_end [OF r]\<close>)
qed

section \<open>Carving free room\<close>

lemma vma_ok_area: "space_ok e (as @ v # bs) \<Longrightarrow> vma_ok e v"
  by (simp add: space_ok_def)

lemma all_free_area:
  assumes s: "space_ok e xs" and r: "page_range target sz"
    and v: "v \<in> set xs" "vma_base v \<le> target" "target < vma_base v + vma_size v"
  shows "all_free target sz xs \<longleftrightarrow> vma_type v = Free \<and> target + sz \<le> vma_base v + vma_size v"
proof
  have t: "tiles 0 xs MAX_ADDRESS" using s by (simp add: space_ok_def)
  have b: "target < MAX_ADDRESS" "0 < sz" "target + sz \<le> MAX_ADDRESS" using r by (auto simp: page_range_def)
  {
    assume f: "all_free target sz xs"
    obtain as w bs where w: "xs = as @ w # bs" "FindVMA target xs = Some (Some (vma_base w))" "vma_type w = Free"
      "vma_base w \<le> target" "target + sz \<le> vma_base w + vma_size w"
      by (rule freed_room [OF s b f]) (rule that; assumption)
    have "v = w"
      using v tiles_cut(1,2) [OF t [unfolded w(1)]] w(4,5) b(2) unfolding w(1) by fastforce
    with w show "vma_type v = Free \<and> target + sz \<le> vma_base v + vma_size v" by simp
  }
  assume f: "vma_type v = Free \<and> target + sz \<le> vma_base v + vma_size v"
  have "view xs a = Free_area" if "a \<in> {target..<target + sz}" for a
    using view_of_area [OF t v(1), of a] view_Free_iff [of v a] f v(2) that by (simp add: inside_def)
  then show "all_free target sz xs" by (simp add: all_free_def)
qed

lemma carve_start:
  assumes "target + sz \<le> MAX_ADDRESS" "b \<le> target"
  shows "sub32 target b = target - b" "add32 (target - b) sz = target - b + sz"
  using assms add32_id [of "target - b" sz] sub32_id [of b target] by (simp_all add: MAX_ADDRESS_def)

lemma CarveVMA_fails:
  assumes s: "space_ok e xs" and r: "page_range target sz" and f: "\<not> all_free target sz xs"
  shows "CarveVMA target sz xs = Some (Inl ERR_INVALID_ADDRESS_STATE)"
proof -
  have t: "tiles 0 xs MAX_ADDRESS" using s by (simp add: space_ok_def)
  have b: "target < MAX_ADDRESS" "target + sz \<le> MAX_ADDRESS" "page_aligned target" "page_aligned sz"
    using r by (auto simp: page_range_def)
  obtain as v bs where x: "xs = as @ v # bs" "vma_base v \<le> target" "target < vma_base v + vma_size v"
    by (rule tiles_find [OF t le0 [of target] b(1)]) (rule that; assumption)
  note t' = t [unfolded x(1)]
  have "\<not> (vma_type v = Free \<and> target + sz \<le> vma_base v + vma_size v)"
    using all_free_area [OF s r, of v] x f by auto
  then show ?thesis
    using FindVMA_cut [OF t' x(2,3) b(1)] at_key_cut [OF t'] b x carve_start [OF b(2) x(2)]
    by (auto simp: CarveVMA_def x(1) Let_def)
qed

text \<open>The free area is cut off behind the range, then in front of it.\<close>

lemma CarveVMA_spec:
  assumes s: "space_ok e xs" and e: "separated e" and r: "page_range target sz" and f: "all_free target sz xs"
  obtains as u bs where "CarveVMA target sz xs = Some (Inr (target, as @ u # bs))"
    "tiles 0 (as @ u # bs) MAX_ADDRESS" "list_all (vma_ok e) (as @ bs)" "vma_base u = target" "vma_size u = sz"
    "vma_type u = Free" "successively not_both_free as" "successively not_both_free bs"
    "\<forall>a. view (as @ u # bs) a = view xs a"
proof -
  note result = that
  have t: "tiles 0 xs MAX_ADDRESS" using s by (simp add: space_ok_def)
  have b: "target < MAX_ADDRESS" "target + sz \<le> MAX_ADDRESS" "page_aligned target" "page_aligned sz" "0 < sz"
    using r by (auto simp: page_range_def)
  obtain as v bs where x: "xs = as @ v # bs" "vma_base v \<le> target" "target < vma_base v + vma_size v"
    by (rule tiles_find [OF t le0 [of target] b(1)]) (rule that; assumption)
  note t' = t [unfolded x(1)]
  have v: "vma_type v = Free" "target + sz \<le> vma_base v + vma_size v"
    using all_free_area [OF s r, of v] x f by auto
  have okv: "vma_ok e v" using s by (simp add: x(1) space_ok_def)
  define i where "i = target - vma_base v"
  have i: "sub32 target (vma_base v) = i" "add32 i sz = i + sz" "vma_base v + i = target" "i + sz \<le> vma_size v"
    using carve_start [OF b(2) x(2)] x(2) v(2) by (simp_all add: i_def)
  have al: "page_aligned i" "page_aligned (i + sz)"
  proof -
    have "page_aligned (vma_base v)" using tiles_aligned [OF t'] by (simp add: page_aligned_def)
    then show "page_aligned i" using b(3) i(3) unfolding page_aligned_def by (metis mod_add_left_eq add_0)
    then show "page_aligned (i + sz)" using b(4) by (auto simp: page_aligned_def CITRA_PAGE_SIZE_def)
  qed
  define v1 bs1 where "v1 = v\<lparr>vma_size := i + sz\<rparr>"
    and "bs1 = (if i + sz \<noteq> vma_size v then split_right v (i + sz) # bs else bs)"
  define as2 u where "as2 = (if i \<noteq> 0 then as @ [v1\<lparr>vma_size := i\<rparr>] else as)"
    and "u = (if i \<noteq> 0 then split_right v1 i else v1)"
  have sp: "list_all (vma_ok e) (as @ v # bs)" "successively not_both_free (as @ v # bs)"
    using s by (simp_all add: space_ok_def x(1))
  have type: "vma_type (split_right w n) = vma_type w" for w n by (simp add: split_right_def)
  have 1: "(if i + sz \<noteq> vma_size v then map_option snd (SplitVMA (vma_base v) (i + sz) xs) else Some xs) =
      Some (as @ v1 # bs1)" and t1: "tiles 0 (as @ v1 # bs1) MAX_ADDRESS"
    and ok1: "vma_ok e v1" "list_all (vma_ok e) bs1" and f1: "successively not_both_free bs1"
    and w1: "\<forall>a. view (as @ v1 # bs1) a = view xs a"
    using SplitVMA_cut [OF t' okv, of "i + sz"] tiles_split [OF t' _ _ al(2)] vma_ok_split [OF e okv, of "i + sz"]
      view_split [of "i + sz" v as bs] i(4) b(5) sp t' v(1) okv
    by (cases "i + sz = vma_size v"; cases bs;
        simp add: v1_def bs1_def x(1) type successively_append_iff successively_Cons)+
  have v1: "vma_base v1 = vma_base v" "vma_size v1 = i + sz" "vma_type v1 = Free"
    using v(1) by (simp_all add: v1_def)
  have 2: "(if i \<noteq> 0 then SplitVMA (vma_base v) i (as @ v1 # bs1) else Some (vma_base v, as @ v1 # bs1)) =
      Some (target, as2 @ u # bs1)" and t2: "tiles 0 (as2 @ u # bs1) MAX_ADDRESS"
    and ok2: "list_all (vma_ok e) as2" and f2: "successively not_both_free as2"
    and w2: "\<forall>a. view (as2 @ u # bs1) a = view xs a"
    using SplitVMA_cut [OF t1 ok1(1), of i] tiles_split [OF t1 _ _ al(1)] vma_ok_split [OF e ok1(1), of i]
      view_split [of i v1 as bs1] b(5) sp t1 v1 i(3) w1 v(1)
    by (cases "i = 0"; simp add: as2_def u_def successively_append_iff successively_Cons)+
  have u: "vma_base u = target" "vma_size u = sz" "vma_type u = Free"
    using v1 i(3) by (simp_all add: u_def split_right_def)
  have "CarveVMA target sz xs = Some (Inr (target, as2 @ u # bs1))"
    using FindVMA_cut [OF t' x(2,3) b(1)] at_key_cut [OF t'] 1 2 i(4) b(3,4) v(1)
    unfolding CarveVMA_def by (simp add: i(1,2) Let_def x(1) cong: if_cong split del: if_split)
  then show thesis using t2 ok1(2) ok2 u f1 f2 w2 by (intro result [of as2 u bs1]) simp_all
qed

section \<open>Mapping and starting over\<close>

definition places :: "nat \<Rightarrow> nat \<Rightarrow> (nat \<Rightarrow> area) \<Rightarrow> vma list \<Rightarrow> vma list \<Rightarrow> bool" where
  "places target sz G xs ys \<longleftrightarrow>
     (\<forall>a < MAX_ADDRESS. view ys a = (if target \<le> a \<and> a < target + sz then G (a - target) else view xs a))"

text \<open>The area at a key holds the whole range.\<close>

definition covered_by :: "nat \<Rightarrow> nat \<Rightarrow> nat \<Rightarrow> vma list \<Rightarrow> bool" where
  "covered_by k target sz ys \<longleftrightarrow>
     (\<exists>m \<in> set ys. vma_base m = k \<and> vma_base m \<le> target \<and> target + sz \<le> vma_base m + vma_size m)"

lemma map_carved:
  assumes ok: "vm_ok e (vm, ms)" and r: "rasterizer_ok env" and p: "page_range target sz"
    and fr: "all_free target sz (vma_map vm)"
    and f: "\<forall>u. vma_base (f u) = vma_base u \<and> vma_size (f u) = vma_size u"
    and okf: "\<forall>u. vma_size u = sz \<longrightarrow> vma_ok e (f u)"
    and G: "\<forall>u a. vma_base u = target \<longrightarrow> area_at (f u) a = G (a - target)"
  obtains zs u k ys ms' where "CarveVMA target sz (vma_map vm) = Some (Inr (target, zs))" "at_key target zs = Some u"
    "vma_size u = sz" "modify_vma env f target (vm\<lparr>vma_map := zs\<rparr>, ms) = Some (k, vm\<lparr>vma_map := ys\<rparr>, ms')"
    "places target sz G (vma_map vm) ys" "vm_ok e (vm\<lparr>vma_map := ys\<rparr>, ms')" "covered_by k target sz ys"
proof -
  note result = that
  have s: "space_ok e (vma_map vm)" and e: "separated e" and i: "in_sync (vma_map vm) ms (page_table vm)"
    using ok by (simp_all add: vm_ok_def)
  obtain as u bs where c: "CarveVMA target sz (vma_map vm) = Some (Inr (target, as @ u # bs))"
    "tiles 0 (as @ u # bs) MAX_ADDRESS" "list_all (vma_ok e) (as @ bs)" "vma_base u = target" "vma_size u = sz"
    "vma_type u = Free" "successively not_both_free as" "successively not_both_free bs"
    "\<forall>a. view (as @ u # bs) a = view (vma_map vm) a"
    by (rule CarveVMA_spec [OF s e p fr]) (rule that; assumption)
  let ?vm = "vm\<lparr>vma_map := as @ u # bs\<rparr>"
  have okfu: "vma_ok e (f u)" using okf c(5) by blast
  have map: "vma_map ?vm = as @ u # bs" by simp
  obtain as' m bs' ms' where m:
    "modify_vma env f (vma_base u) (?vm, ms) = Some (vma_base m, ?vm\<lparr>vma_map := as' @ m # bs'\<rparr>, ms')"
    "space_ok e (as' @ m # bs')"
    "\<forall>a < 2 ^ 32. view (as' @ m # bs') a = (if inside u a then area_at (f u) a else view (as @ u # bs) a)"
    "in_sync (as @ u # bs) ms (page_table ?vm) \<longrightarrow> in_sync (as' @ m # bs') ms' (page_table ?vm)"
    "vma_base m \<le> vma_base u" "vma_base u + vma_size u \<le> vma_base m + vma_size m"
    by (rule modify_vma_spec [where f = f, OF c(2) e c(3) okfu conjunct1 [OF spec [OF f]] conjunct2 [OF spec [OF f]] c(7,8) r map])
      (rule that; assumption)
  have ys: "space_ok e (as' @ m # bs')" "in_sync (as' @ m # bs') ms' (page_table vm)"
    using m(2,4) i in_sync_cong [of "as @ u # bs" "vma_map vm"] c(9) by auto
  have "places target sz G (vma_map vm) (as' @ m # bs')"
    using m(3) c(4,5,9) G by (auto simp: places_def inside_def MAX_ADDRESS_def)
  with ys e c(1,4,5) m(1,5,6) at_key_cut [OF c(2)] show thesis
    by (intro result [of "as @ u # bs" u "vma_base m" "as' @ m # bs'" ms']) (simp_all add: vm_ok_def covered_by_def)
qed

definition backed :: "VMAPermission \<Rightarrow> MemoryState \<Rightarrow> nat \<Rightarrow> nat \<Rightarrow> area" where
  "backed p st ptr i = Backed p st (ptr + i)"

definition device :: "VMAPermission \<Rightarrow> MemoryState \<Rightarrow> nat \<Rightarrow> nat \<Rightarrow> area" where
  "device p st pa i = Device p st (add32 pa i)"

lemma MapBackingMemory_run:
  assumes "vm_ok e (vm, ms)" "rasterizer_ok env" "page_range target sz" "all_free target sz (vma_map vm)"
    "ref_ok e memory sz" "\<not> is_locked vm"
  shows "\<exists>k ys ms'. MapBackingMemory env target memory sz st (vm, ms) = Some (Inr k, vm\<lparr>vma_map := ys\<rparr>, ms') \<and>
    places target sz (backed ReadWrite st (GetPtr memory)) (vma_map vm) ys \<and> vm_ok e (vm\<lparr>vma_map := ys\<rparr>, ms') \<and>
    covered_by k target sz ys"
proof -
  let ?f = "to_backing memory st"
  have f: "\<forall>u. vma_base (?f u) = vma_base u \<and> vma_size (?f u) = vma_size u" "\<forall>u. vma_size u = sz \<longrightarrow> vma_ok e (?f u)"
    "\<forall>u a. vma_base u = target \<longrightarrow> area_at (?f u) a = backed ReadWrite st (GetPtr memory) (a - target)"
    using assms(5) by (auto simp: to_backing_def vma_ok_def area_at_def backed_def)
  obtain zs u k ys ms' where "CarveVMA target sz (vma_map vm) = Some (Inr (target, zs))" "at_key target zs = Some u"
    "vma_size u = sz" "modify_vma env ?f target (vm\<lparr>vma_map := zs\<rparr>, ms) = Some (k, vm\<lparr>vma_map := ys\<rparr>, ms')"
    "places target sz (backed ReadWrite st (GetPtr memory)) (vma_map vm) ys" "vm_ok e (vm\<lparr>vma_map := ys\<rparr>, ms')"
    "covered_by k target sz ys"
    by (rule map_carved [OF assms(1-4) f]) (rule that; assumption)
  then show ?thesis using assms(5,6)
    by (intro exI [of _ k] exI [of _ ys] exI [of _ ms']) (simp add: MapBackingMemory_def ref_ok_def)
qed

lemma MapBackingMemory_error:
  assumes "vm_ok e (vm, ms)" "page_range target sz" "\<not> all_free target sz (vma_map vm)" "ref_ok e memory sz" "\<not> is_locked vm"
  shows "MapBackingMemory env target memory sz st (vm, ms) = Some (Inl ERR_INVALID_ADDRESS_STATE, vm, ms)"
  using CarveVMA_fails [of e, OF _ assms(2,3)] assms(1,4,5) by (simp add: MapBackingMemory_def vm_ok_def ref_ok_def)

lemma MapMMIO_run:
  assumes "vm_ok e (vm, ms)" "rasterizer_ok env" "page_range target sz" "all_free target sz (vma_map vm)" "\<not> is_locked vm"
  shows "\<exists>k ys ms'. MapMMIO env target pa sz st h (vm, ms) = Some (Inr k, vm\<lparr>vma_map := ys\<rparr>, ms') \<and>
    places target sz (device ReadWrite st pa) (vma_map vm) ys \<and> vm_ok e (vm\<lparr>vma_map := ys\<rparr>, ms')"
proof -
  let ?f = "to_mmio pa st h"
  have f: "\<forall>u. vma_base (?f u) = vma_base u \<and> vma_size (?f u) = vma_size u" "\<forall>u. vma_size u = sz \<longrightarrow> vma_ok e (?f u)"
    "\<forall>u a. vma_base u = target \<longrightarrow> area_at (?f u) a = device ReadWrite st pa (a - target)"
    by (auto simp: to_mmio_def vma_ok_def area_at_def device_def)
  obtain zs u k ys ms' where "CarveVMA target sz (vma_map vm) = Some (Inr (target, zs))" "at_key target zs = Some u"
    "vma_size u = sz" "modify_vma env ?f target (vm\<lparr>vma_map := zs\<rparr>, ms) = Some (k, vm\<lparr>vma_map := ys\<rparr>, ms')"
    "places target sz (device ReadWrite st pa) (vma_map vm) ys" "vm_ok e (vm\<lparr>vma_map := ys\<rparr>, ms')"
    by (rule map_carved [OF assms(1-4) f]) (rule that; assumption)
  then show ?thesis using assms(5)
    by (intro exI [of _ k] exI [of _ ys] exI [of _ ms']) (simp add: MapMMIO_def)
qed

lemma MapMMIO_error:
  assumes "vm_ok e (vm, ms)" "page_range target sz" "\<not> all_free target sz (vma_map vm)" "\<not> is_locked vm"
  shows "MapMMIO env target pa sz st h (vm, ms) = Some (Inl ERR_INVALID_ADDRESS_STATE, vm, ms)"
  using CarveVMA_fails [of e, OF _ assms(2,3)] assms(1,4) by (simp add: MapMMIO_def vm_ok_def)

lemma Reset_run:
  assumes "separated e" "rasterizer_ok env" "\<not> is_locked vm"
  shows "\<exists>ys ms'. Reset env vm ms = Some (vm\<lparr>vma_map := ys\<rparr>, ms') \<and> vm_ok e (vm\<lparr>vma_map := ys\<rparr>, ms') \<and>
    all_free 0 MAX_ADDRESS ys"
proof -
  let ?v = "new_vma\<lparr>vma_size := MAX_ADDRESS\<rparr>"
  let ?ms = "upd_table (page_table vm) PageTable_Clear ms"
  obtain ms' where ms': "UpdatePageTableForVMA env (page_table vm) ?v ?ms = Some ms'"
    "\<And>u page. kind_at ms' u page =
      (if u = page_table vm \<and> inside ?v (page * CITRA_PAGE_SIZE) then vma_type ?v else kind_at ?ms u page)"
    by (rule UpdatePageTable_spec [of ?v env "page_table vm" ?ms])
      (use assms(2) in \<open>simp_all add: new_vma_def page_aligned_def CITRA_PAGE_SIZE_def MAX_ADDRESS_def\<close>)
  have view: "view [?v] a = Free_area" for a
    by (simp add: view_def area_at_def new_vma_def)
  have "in_sync [?v] ms' (page_table vm)"
    unfolding in_sync_def view by (simp add: ms'(2) inside_def new_vma_def area_kind_def)
  moreover have "space_ok e [?v]"
    by (simp add: space_ok_def new_vma_def vma_ok_def page_aligned_def CITRA_PAGE_SIZE_def MAX_ADDRESS_def)
  ultimately show ?thesis
    using assms(1,3) ms'(1) view
    by (intro exI [of _ "[?v]"] exI [of _ ms']) (simp add: Reset_def vm_ok_def all_free_def)
qed

section \<open>The contract of the address space\<close>

text \<open>The calls a kernel makes, and what it may expect of each: a map from addresses in, another one out.\<close>

datatype vm_call =
  Call_Map nat memory_ref nat MemoryState
| Call_MapMMIO nat nat nat MemoryState mmio_handler
| Call_Unmap nat nat
| Call_Reprotect nat nat VMAPermission
| Call_ChangeState nat nat MemoryState VMAPermission MemoryState VMAPermission

definition exec_vm ::
  "'d memory_env \<Rightarrow> vm_call \<Rightarrow> vm_manager \<times> 'd memory_system \<Rightarrow>
   ((vm_error + unit) \<times> vm_manager \<times> 'd memory_system) run" where
  "exec_vm env c s =
     (case c of
        Call_Map target memory sz st \<Rightarrow>
          map_option (map_prod (map_sum id (\<lambda>_. ())) id) (MapBackingMemory env target memory sz st s)
      | Call_MapMMIO target pa sz st h \<Rightarrow>
          map_option (map_prod (map_sum id (\<lambda>_. ())) id) (MapMMIO env target pa sz st h s)
      | Call_Unmap target sz \<Rightarrow> UnmapRange env target sz s
      | Call_Reprotect target sz p \<Rightarrow> ReprotectRange env target sz p s
      | Call_ChangeState target sz st p st' p' \<Rightarrow> ChangeMemoryState env target sz st p st' p' s)"

fun call_range :: "vm_call \<Rightarrow> nat \<times> nat" where
  "call_range (Call_Map target _ sz _) = (target, sz)"
| "call_range (Call_MapMMIO target _ sz _ _) = (target, sz)"
| "call_range (Call_Unmap target sz) = (target, sz)"
| "call_range (Call_Reprotect target sz _) = (target, sz)"
| "call_range (Call_ChangeState target sz _ _ _ _) = (target, sz)"

text \<open>What the caller owes: whole pages inside the address space, and memory that covers them.\<close>

definition valid_call :: "(nat \<Rightarrow> nat) \<Rightarrow> vm_call \<Rightarrow> bool" where
  "valid_call e c \<longleftrightarrow> page_range (fst (call_range c)) (snd (call_range c)) \<and>
     (case c of Call_Map _ memory sz _ \<Rightarrow> ref_ok e memory sz | _ \<Rightarrow> True)"

definition in_call :: "vm_call \<Rightarrow> nat \<Rightarrow> bool" where
  "in_call c a \<longleftrightarrow> fst (call_range c) \<le> a \<and> a < fst (call_range c) + snd (call_range c)"

fun allowed :: "vm_call \<Rightarrow> area \<Rightarrow> bool" where
  "allowed (Call_Map _ _ _ _) x \<longleftrightarrow> x = Free_area"
| "allowed (Call_MapMMIO _ _ _ _ _) x \<longleftrightarrow> x = Free_area"
| "allowed (Call_Unmap _ _) x \<longleftrightarrow> x \<noteq> Free_area"
| "allowed (Call_Reprotect _ _ _) x \<longleftrightarrow> x \<noteq> Free_area"
| "allowed (Call_ChangeState _ _ st p _ _) x \<longleftrightarrow> x \<noteq> Free_area \<and> expected_at st p x"

fun effect :: "vm_call \<Rightarrow> nat \<Rightarrow> area \<Rightarrow> area" where
  "effect (Call_Map target memory _ st) a _ = Backed ReadWrite st (GetPtr memory + (a - target))"
| "effect (Call_MapMMIO target pa _ st _) a _ = Device ReadWrite st (add32 pa (a - target))"
| "effect (Call_Unmap _ _) _ _ = Free_area"
| "effect (Call_Reprotect _ _ p) _ x = with_perms_at p x"
| "effect (Call_ChangeState _ _ _ _ st p) _ x = with_state_at st p x"

definition call_ok :: "vm_call \<Rightarrow> (nat \<Rightarrow> area) \<Rightarrow> bool" where
  "call_ok c m \<longleftrightarrow> (\<forall>a \<in> {fst (call_range c)..<fst (call_range c) + snd (call_range c)}. allowed c (m a))"

definition spec_vm :: "vm_call \<Rightarrow> (nat \<Rightarrow> area) \<Rightarrow> (vm_error + unit) \<times> (nat \<Rightarrow> area)" where
  "spec_vm c m =
     (if call_ok c m
      then (Inr (), \<lambda>a. if in_call c a then effect c a (m a) else m a)
      else (Inl ERR_INVALID_ADDRESS_STATE, m))"

lemma view_above:
  assumes "space_ok e xs" "MAX_ADDRESS \<le> a"
  shows "view xs a = Free_area"
proof -
  have t: "tiles 0 xs MAX_ADDRESS" using assms(1) by (simp add: space_ok_def)
  have "\<not> inside v a" if "v \<in> set xs" for v
    using tiles_bases [OF t that] assms(2) by (simp add: inside_def)
  then have "List.find (\<lambda>v. inside v a) xs = None" by (simp add: find_None_iff)
  then show ?thesis by (simp add: view_def)
qed

lemma acts_on_view:
  assumes "acts_on target sz F xs ys" "space_ok e xs" "space_ok e ys" "target + sz \<le> MAX_ADDRESS"
  shows "view ys = (\<lambda>a. if target \<le> a \<and> a < target + sz then F (view xs a) else view xs a)"
proof
  fix a
  show "view ys a = (if target \<le> a \<and> a < target + sz then F (view xs a) else view xs a)"
    using assms view_above [of e _ a] by (cases "a < MAX_ADDRESS") (auto simp: acts_on_def)
qed

lemma places_view:
  assumes "places target sz G xs ys" "space_ok e xs" "space_ok e ys" "target + sz \<le> MAX_ADDRESS"
  shows "view ys = (\<lambda>a. if target \<le> a \<and> a < target + sz then G (a - target) else view xs a)"
proof
  fix a
  show "view ys a = (if target \<le> a \<and> a < target + sz then G (a - target) else view xs a)"
    using assms view_above [of e _ a] by (cases "a < MAX_ADDRESS") (auto simp: places_def)
qed

lemma call_ok_iff:
  "call_ok (Call_Map target memory sz st) (view xs) \<longleftrightarrow> all_free target sz xs"
  "call_ok (Call_MapMMIO target pa sz st h) (view xs) \<longleftrightarrow> all_free target sz xs"
  "call_ok (Call_Unmap target sz) (view xs) \<longleftrightarrow> all_mapped target sz xs"
  "call_ok (Call_Reprotect target sz p) (view xs) \<longleftrightarrow> all_mapped target sz xs"
  "call_ok (Call_ChangeState target sz st p st' p') (view xs) \<longleftrightarrow> all_mapped target sz xs \<and> all_expected st p target sz xs"
  by (auto simp: call_ok_def all_free_def all_mapped_def all_expected_def)

lemma exec_vm_error:
  assumes ok: "vm_ok e (vm, ms)" and v: "valid_call e c" and l: "\<not> is_locked vm"
    and bad: "\<not> call_ok c (view (vma_map vm))"
  shows "exec_vm env c (vm, ms) = Some (Inl ERR_INVALID_ADDRESS_STATE, vm, ms)"
proof (cases c)
  case (Call_Map a memory n st)
  with v bad MapBackingMemory_error [OF ok _ _ _ l, of a n memory env st] show ?thesis
    by (simp add: exec_vm_def valid_call_def call_ok_iff)
next
  case (Call_MapMMIO a pa n st h)
  with v bad MapMMIO_error [OF ok _ _ l, of a n env pa st h] show ?thesis
    by (simp add: exec_vm_def valid_call_def call_ok_iff)
next
  case (Call_Unmap a n)
  with v bad UnmapRange_error [OF ok _ _ l, of a n env] show ?thesis
    by (simp add: exec_vm_def valid_call_def call_ok_iff)
next
  case (Call_Reprotect a n q)
  with v bad ReprotectRange_error [OF ok _ _ l, of a n env q] show ?thesis
    by (simp add: exec_vm_def valid_call_def call_ok_iff)
next
  case (Call_ChangeState a n st q st' q')
  with v bad ChangeMemoryState_error [OF ok _ l, of a n st q env st' q'] show ?thesis
    by (simp add: exec_vm_def valid_call_def call_ok_iff)
qed

lemma exec_vm_acts:
  assumes ok: "vm_ok e (vm, ms)" and r: "rasterizer_ok env" and v: "valid_call e c" and l: "\<not> is_locked vm"
    and good: "call_ok c (view (vma_map vm))"
  shows "\<exists>ys ms'. exec_vm env c (vm, ms) = Some (Inr (), vm\<lparr>vma_map := ys\<rparr>, ms') \<and>
    vm_ok e (vm\<lparr>vma_map := ys\<rparr>, ms') \<and>
    view ys = (\<lambda>a. if in_call c a then effect c a (view (vma_map vm) a) else view (vma_map vm) a)"
proof -
  obtain target sz where t: "call_range c = (target, sz)" by fastforce
  then have p: "page_range target sz" using v by (simp add: valid_call_def)
  then have sz: "target + sz \<le> MAX_ADDRESS" by (simp add: page_range_def)
  have s: "space_ok e (vma_map vm)" using ok by (simp add: vm_ok_def)
  note places = places_view [OF _ s _ sz] and acts = acts_on_view [OF _ s _ sz]
  note eqs = exec_vm_def vm_ok_def in_call_def backed_def device_def
  show ?thesis
  proof (cases c)
    case (Call_Map a memory n st)
    with t v good MapBackingMemory_run [OF ok r p _ _ l, of memory st] show ?thesis
      by (force simp: eqs call_ok_iff valid_call_def cong: if_cong dest: places)
  next
    case (Call_MapMMIO a pa n st h)
    with t good MapMMIO_run [OF ok r p _ l, of pa st h] show ?thesis
      by (force simp: eqs call_ok_iff cong: if_cong dest: places)
  next
    case (Call_Unmap a n)
    with t good UnmapRange_run [OF ok r p _ l] show ?thesis
      by (force simp: eqs call_ok_iff cong: if_cong dest: acts)
  next
    case (Call_Reprotect a n q)
    with t good ReprotectRange_run [OF ok r p _ l, of q] show ?thesis
      by (force simp: eqs call_ok_iff cong: if_cong dest: acts)
  next
    case (Call_ChangeState a n st q st' q')
    with t good ChangeMemoryState_run [OF ok r p _ _ l, of st q st' q'] show ?thesis
      by (force simp: eqs call_ok_iff cong: if_cong dest: acts)
  qed
qed

lemma exec_vm_refines:
  assumes "vm_ok e (vm, ms)" "rasterizer_ok env" "valid_call e c" "\<not> is_locked vm"
  shows "\<exists>res ys ms'. exec_vm env c (vm, ms) = Some (res, vm\<lparr>vma_map := ys\<rparr>, ms') \<and>
    vm_ok e (vm\<lparr>vma_map := ys\<rparr>, ms') \<and> (res, view ys) = spec_vm c (view (vma_map vm))"
proof (cases "call_ok c (view (vma_map vm))")
  case True
  with exec_vm_acts [OF assms] show ?thesis by (fastforce simp: spec_vm_def)
next
  case False
  with exec_vm_error [OF assms(1,3,4)] assms(1) show ?thesis
    by (intro exI [of _ "Inl ERR_INVALID_ADDRESS_STATE"] exI [of _ "vma_map vm"] exI [of _ ms]) (simp add: spec_vm_def)
qed

fun exec_all ::
  "'d memory_env \<Rightarrow> vm_call list \<Rightarrow> vm_manager \<times> 'd memory_system \<Rightarrow>
   ((vm_error + unit) list \<times> vm_manager \<times> 'd memory_system) run" where
  "exec_all env [] s = Some ([], s)"
| "exec_all env (c # cs) s =
     do { (r, s') \<leftarrow> exec_vm env c s; (rs, s'') \<leftarrow> exec_all env cs s'; Some (r # rs, s'') }"

fun spec_all :: "vm_call list \<Rightarrow> (nat \<Rightarrow> area) \<Rightarrow> (vm_error + unit) list \<times> (nat \<Rightarrow> area)" where
  "spec_all [] m = ([], m)"
| "spec_all (c # cs) m = (let (r, m') = spec_vm c m; (rs, m'') = spec_all cs m' in (r # rs, m''))"

lemma exec_all_refines:
  assumes "vm_ok e (vm, ms)" "rasterizer_ok env" "\<forall>c \<in> set cs. valid_call e c" "\<not> is_locked vm"
  shows "\<exists>rs ys ms'. exec_all env cs (vm, ms) = Some (rs, vm\<lparr>vma_map := ys\<rparr>, ms') \<and>
    vm_ok e (vm\<lparr>vma_map := ys\<rparr>, ms') \<and> (rs, view ys) = spec_all cs (view (vma_map vm))"
  using assms
proof (induction cs arbitrary: vm ms)
  case Nil
  then show ?case by (intro exI [of _ "[]"] exI [of _ "vma_map vm"] exI [of _ ms]) simp
next
  case (Cons c cs)
  have v: "valid_call e c" using Cons.prems(3) by simp
  from exec_vm_refines [OF Cons.prems(1,2) v Cons.prems(4)] obtain r zs m1 where
    1: "exec_vm env c (vm, ms) = Some (r, vm\<lparr>vma_map := zs\<rparr>, m1)" "vm_ok e (vm\<lparr>vma_map := zs\<rparr>, m1)"
      "(r, view zs) = spec_vm c (view (vma_map vm))" by blast
  from Cons.IH [OF 1(2)] Cons.prems(2-4) obtain rs ys ms' where
    2: "exec_all env cs (vm\<lparr>vma_map := zs\<rparr>, m1) = Some (rs, vm\<lparr>vma_map := ys\<rparr>, ms')"
      "vm_ok e (vm\<lparr>vma_map := ys\<rparr>, ms')" "(rs, view ys) = spec_all cs (view zs)" by auto
  from 1 2 show ?case
    by (intro exI [of _ "r # rs"] exI [of _ ys] exI [of _ ms']) (simp add: Let_def flip: 1(3) 2(3))
qed

lemma from_Reset:
  assumes "separated e" "rasterizer_ok env" "\<not> is_locked vm" "\<forall>c \<in> set cs. valid_call e c"
  shows "\<exists>vm0 ms0 rs vm' ms'. Reset env vm ms = Some (vm0, ms0) \<and> exec_all env cs (vm0, ms0) = Some (rs, vm', ms') \<and>
    (rs, view (vma_map vm')) = spec_all cs (\<lambda>_. Free_area) \<and> vm_ok e (vm', ms') \<and> page_table vm' = page_table vm"
proof -
  from Reset_run [OF assms(1-3), of ms] obtain ys ms0 where
    0: "Reset env vm ms = Some (vm\<lparr>vma_map := ys\<rparr>, ms0)" "vm_ok e (vm\<lparr>vma_map := ys\<rparr>, ms0)" "all_free 0 MAX_ADDRESS ys"
    by blast
  have "view ys a = Free_area" for a
    using 0(2,3) view_above [of e ys a] by (cases "a < MAX_ADDRESS") (auto simp: all_free_def vm_ok_def)
  then have v: "view ys = (\<lambda>_. Free_area)" by blast
  have l: "\<not> is_locked (vm\<lparr>vma_map := ys\<rparr>)" using assms(3) by simp
  from exec_all_refines [OF 0(2) assms(2,4) l] obtain rs zs ms' where
    "exec_all env cs (vm\<lparr>vma_map := ys\<rparr>, ms0) = Some (rs, vm\<lparr>vma_map := zs\<rparr>, ms')"
    "vm_ok e (vm\<lparr>vma_map := zs\<rparr>, ms')" "(rs, view zs) = spec_all cs (view ys)" by auto
  with 0(1) v show ?thesis by auto
qed

text \<open>C3: The address space of a process does what its contract says. From \<open>Reset\<close> on, every sequence of
  mappings, device mappings, unmappings, reprotections and state changes on whole pages returns; each call
  answers as \<open>spec_vm\<close> says (an error exactly where the range is not free, or not all mapped, or not in the
  expected state) and the map from addresses to what they hold ends as the calls change it, address by
  address, whatever areas were split and merged on the way.\<close>

theorem address_space_refines_spec:
  assumes "separated e" "rasterizer_ok env" "\<not> is_locked vm" "\<forall>c \<in> set cs. valid_call e c"
  shows "\<exists>vm0 ms0 rs vm' ms'. Reset env vm ms = Some (vm0, ms0) \<and> exec_all env cs (vm0, ms0) = Some (rs, vm', ms') \<and>
    (rs, view (vma_map vm')) = spec_all cs (\<lambda>_. Free_area)"
  using from_Reset [OF assms] by blast

text \<open>C4: After every sequence of calls from \<open>Reset\<close> the areas tile the address space without a gap or an
  overlap, no two free areas are neighbours, and the page table agrees with the areas: a page is unmapped
  exactly where its address is free, and it is special exactly where its address is a device.\<close>

theorem areas_and_pages_agree:
  assumes "separated e" "rasterizer_ok env" "\<not> is_locked vm" "\<forall>c \<in> set cs. valid_call e c"
    and run: "Reset env vm ms = Some s0" "exec_all env cs s0 = Some (rs, vm', ms')"
  shows "tiles 0 (vma_map vm') MAX_ADDRESS \<and> successively not_both_free (vma_map vm') \<and>
    (\<forall>page. page * CITRA_PAGE_SIZE < MAX_ADDRESS \<longrightarrow>
       (attributes (tables ms' (page_table vm)) page = Unmapped \<longleftrightarrow>
          view (vma_map vm') (page * CITRA_PAGE_SIZE) = Free_area) \<and>
       (attributes (tables ms' (page_table vm)) page = Special \<longleftrightarrow>
          (\<exists>p st pa. view (vma_map vm') (page * CITRA_PAGE_SIZE) = Device p st pa)))"
proof -
  have ok: "vm_ok e (vm', ms')" "page_table vm' = page_table vm"
    using from_Reset [OF assms(1-4), of ms] run by auto
  have kind: "page_kind x = area_kind y \<Longrightarrow> (x = Unmapped \<longleftrightarrow> y = Free_area) \<and> (x = Special \<longleftrightarrow> (\<exists>p st pa. y = Device p st pa))" for x y
    by (cases x; cases y) (simp_all add: page_kind_def area_kind_def)
  show ?thesis using ok kind by (simp add: vm_ok_def space_ok_def in_sync_def kind_at_def)
qed

text \<open>Unmapping undoes mapping: where the range was free, mapping memory into it and unmapping it both
  succeed and leave every address as it was.\<close>

theorem map_then_unmap:
  assumes "vm_ok e (vm, ms)" "rasterizer_ok env" "\<not> is_locked vm" "page_range target sz" "ref_ok e memory sz"
    "all_free target sz (vma_map vm)"
  shows "\<exists>k s1 vm2 ms2. MapBackingMemory env target memory sz st (vm, ms) = Some (Inr k, s1) \<and>
    UnmapRange env target sz s1 = Some (Inr (), vm2, ms2) \<and> view (vma_map vm2) = view (vma_map vm)"
proof -
  from MapBackingMemory_run [OF assms(1,2,4,6,5,3), of st] obtain k ys m1 where
    1: "MapBackingMemory env target memory sz st (vm, ms) = Some (Inr k, vm\<lparr>vma_map := ys\<rparr>, m1)"
      "places target sz (backed ReadWrite st (GetPtr memory)) (vma_map vm) ys" "vm_ok e (vm\<lparr>vma_map := ys\<rparr>, m1)"
    by blast
  have s: "space_ok e (vma_map vm)" "space_ok e ys" and sz: "target + sz \<le> MAX_ADDRESS"
    using assms(1,4) 1(3) by (simp_all add: vm_ok_def page_range_def)
  note v1 = places_view [OF 1(2) s sz]
  have "all_mapped target sz (vma_map (vm\<lparr>vma_map := ys\<rparr>))" "\<not> is_locked (vm\<lparr>vma_map := ys\<rparr>)"
    using assms(3) by (simp_all add: all_mapped_def v1 backed_def)
  from UnmapRange_run [OF 1(3) assms(2,4) this] obtain zs m2 where
    2: "UnmapRange env target sz (vm\<lparr>vma_map := ys\<rparr>, m1) = Some (Inr (), vm\<lparr>vma_map := zs\<rparr>, m2)"
      "acts_on target sz (\<lambda>_. Free_area) ys zs" "vm_ok e (vm\<lparr>vma_map := zs\<rparr>, m2)"
    by auto
  have "space_ok e zs" using 2(3) by (simp add: vm_ok_def)
  from acts_on_view [OF 2(2) s(2) this sz] have "view zs = view (vma_map vm)"
    using assms(6) by (auto simp: v1 all_free_def)
  with 1(1) 2(1) show ?thesis by auto
qed

section \<open>Instances\<close>

text \<open>One allocation of host memory, an address space with nothing in it, and some calls.\<close>

definition sample_end :: "nat \<Rightarrow> nat" where
  "sample_end p = (if 0x10000000 \<le> p \<and> p < 0x18000000 then 0x18000000 else 0)"

definition sample_ref :: memory_ref where
  "sample_ref = \<lparr>GetPtr = 0x10000000, ref_size = 0x8000000\<rparr>"

definition sample_vm :: vm_manager where
  "sample_vm = \<lparr>vma_map = [], page_table = 0, is_locked = False\<rparr>"

definition sample_calls :: "vm_call list" where
  "sample_calls = [Call_Map 0x100000 sample_ref 0x2000 Private, Call_Unmap 0x101000 0x1000,
                   Call_Unmap 0x100000 0x2000]"

lemma separated_sample: "separated sample_end"
  by (auto simp: separated_def sample_end_def)

lemma rasterizer_none: "rasterizer_ok no_devices"
  by (simp add: rasterizer_ok_def no_devices_def)

lemma sample_calls_valid: "\<forall>c \<in> set sample_calls. valid_call sample_end c"
  by (simp add: sample_calls_def valid_call_def page_range_def page_aligned_def CITRA_PAGE_SIZE_def MAX_ADDRESS_def
      ref_ok_def sample_ref_def sample_end_def)

lemma sample_unlocked: "\<not> is_locked sample_vm"
  by (simp add: sample_vm_def)

lemma sample_spec:
  "fst (spec_all sample_calls (\<lambda>_. Free_area)) = [Inr (), Inr (), Inl ERR_INVALID_ADDRESS_STATE]"
  "snd (spec_all sample_calls (\<lambda>_. Free_area)) 0x100800 = Backed 3 Private 0x10000800"
  "snd (spec_all sample_calls (\<lambda>_. Free_area)) 0x101000 = Free_area"
proof -
  let ?m = "\<lambda>a. if 0x100000 \<le> a \<and> a < 0x102000 then Backed ReadWrite Private (0x10000000 + (a - 0x100000)) else Free_area"
  have 1: "spec_vm (Call_Map 0x100000 sample_ref 0x2000 Private) (\<lambda>_. Free_area) = (Inr (), ?m)"
    by (simp add: spec_vm_def call_ok_def in_call_def sample_ref_def fun_eq_iff)
  let ?m' = "\<lambda>a. if 0x101000 \<le> a \<and> a < 0x102000 then Free_area else ?m a"
  have "call_ok (Call_Unmap 0x101000 0x1000) ?m" by (simp add: call_ok_def)
  then have 2: "spec_vm (Call_Unmap 0x101000 0x1000) ?m = (Inr (), ?m')"
    by (simp add: spec_vm_def in_call_def fun_eq_iff)
  have "\<not> call_ok (Call_Unmap 0x100000 0x2000) ?m'"
    by (auto simp: call_ok_def intro!: bexI [of _ 0x101000])
  then have 3: "spec_vm (Call_Unmap 0x100000 0x2000) ?m' = (Inl ERR_INVALID_ADDRESS_STATE, ?m')"
    by (simp add: spec_vm_def)
  show "fst (spec_all sample_calls (\<lambda>_. Free_area)) = [Inr (), Inr (), Inl ERR_INVALID_ADDRESS_STATE]"
    "snd (spec_all sample_calls (\<lambda>_. Free_area)) 0x100800 = Backed 3 Private 0x10000800"
    "snd (spec_all sample_calls (\<lambda>_. Free_area)) 0x101000 = Free_area"
    unfolding sample_calls_def spec_all.simps 1 2 3 Let_def split by (simp_all add: ReadWrite_def 1 2 3)
qed

theorem address_space_refines_spec_witness:
  "\<exists>vm0 ms0 vm' ms'. Reset no_devices sample_vm boot_memory = Some (vm0, ms0) \<and>
     exec_all no_devices sample_calls (vm0, ms0) = Some ([Inr (), Inr (), Inl ERR_INVALID_ADDRESS_STATE], vm', ms') \<and>
     view (vma_map vm') 0x100800 = Backed 3 Private 0x10000800 \<and> view (vma_map vm') 0x101000 = Free_area"
proof -
  obtain vm0 ms0 rs vm' ms' where *: "Reset no_devices sample_vm boot_memory = Some (vm0, ms0)"
    "exec_all no_devices sample_calls (vm0, ms0) = Some (rs, vm', ms')"
    "(rs, view (vma_map vm')) = spec_all sample_calls (\<lambda>_. Free_area)"
    using address_space_refines_spec [OF separated_sample rasterizer_none sample_unlocked sample_calls_valid] by blast
  from *(3) have "rs = fst (spec_all sample_calls (\<lambda>_. Free_area))"
    "view (vma_map vm') = snd (spec_all sample_calls (\<lambda>_. Free_area))" by (metis fst_conv, metis snd_conv)
  with * show ?thesis by (auto simp: sample_spec)
qed

lemma sample_run:
  obtains vm0 ms0 vm' ms' where "Reset no_devices sample_vm boot_memory = Some (vm0, ms0)"
    "exec_all no_devices sample_calls (vm0, ms0) = Some ([Inr (), Inr (), Inl ERR_INVALID_ADDRESS_STATE], vm', ms')"
    "view (vma_map vm') 0x101000 = Free_area" "view (vma_map vm') 0x100800 = Backed 3 Private 0x10000800"
proof -
  obtain vm0 ms0 rs vm' ms' where *: "Reset no_devices sample_vm boot_memory = Some (vm0, ms0)"
    "exec_all no_devices sample_calls (vm0, ms0) = Some (rs, vm', ms')"
    "(rs, view (vma_map vm')) = spec_all sample_calls (\<lambda>_. Free_area)"
    using from_Reset [OF separated_sample rasterizer_none sample_unlocked sample_calls_valid] by blast
  from *(3) have "rs = fst (spec_all sample_calls (\<lambda>_. Free_area))"
    "view (vma_map vm') = snd (spec_all sample_calls (\<lambda>_. Free_area))" by (metis fst_conv, metis snd_conv)
  with * show thesis by (intro that [of vm0 ms0 vm' ms']) (simp_all add: sample_spec)
qed

theorem areas_and_pages_agree_witness:
  "\<exists>vm0 ms0 vm' ms' rs. Reset no_devices sample_vm boot_memory = Some (vm0, ms0) \<and>
     exec_all no_devices sample_calls (vm0, ms0) = Some (rs, vm', ms') \<and>
     attributes (tables ms' 0) 0x101 = Unmapped"
proof -
  obtain vm0 ms0 vm' ms' where *: "Reset no_devices sample_vm boot_memory = Some (vm0, ms0)"
    "exec_all no_devices sample_calls (vm0, ms0) = Some ([Inr (), Inr (), Inl ERR_INVALID_ADDRESS_STATE], vm', ms')"
    "view (vma_map vm') 0x101000 = Free_area" "view (vma_map vm') 0x100800 = Backed 3 Private 0x10000800"
    by (rule sample_run)
  have "attributes (tables ms' 0) 0x101 = Unmapped"
    using areas_and_pages_agree [OF separated_sample rasterizer_none sample_unlocked sample_calls_valid *(1,2)] *(3)
    by (simp add: CITRA_PAGE_SIZE_def MAX_ADDRESS_def sample_vm_def)
  with * show ?thesis by blast
qed

theorem map_then_unmap_witness:
  "\<exists>vm ms k s1 vm2 ms2. Reset no_devices sample_vm boot_memory = Some (vm, ms) \<and>
     MapBackingMemory no_devices 0x100000 sample_ref 0x2000 Private (vm, ms) = Some (Inr k, s1) \<and>
     UnmapRange no_devices 0x100000 0x2000 s1 = Some (Inr (), vm2, ms2) \<and> view (vma_map vm2) = view (vma_map vm)"
proof -
  from Reset_run [OF separated_sample rasterizer_none sample_unlocked, of boot_memory] obtain ys ms where
    0: "Reset no_devices sample_vm boot_memory = Some (sample_vm\<lparr>vma_map := ys\<rparr>, ms)"
      "vm_ok sample_end (sample_vm\<lparr>vma_map := ys\<rparr>, ms)" "all_free 0 MAX_ADDRESS ys" by blast
  have p: "page_range 0x100000 0x2000" "ref_ok sample_end sample_ref 0x2000"
    by (simp_all add: page_range_def page_aligned_def CITRA_PAGE_SIZE_def MAX_ADDRESS_def ref_ok_def sample_ref_def
        sample_end_def)
  have f: "\<not> is_locked (sample_vm\<lparr>vma_map := ys\<rparr>)" "all_free 0x100000 0x2000 (vma_map (sample_vm\<lparr>vma_map := ys\<rparr>))"
    using 0(3) by (auto simp: sample_vm_def all_free_def MAX_ADDRESS_def)
  from map_then_unmap [OF 0(2) rasterizer_none f(1) p f(2), of Private] 0(1) show ?thesis by blast
qed

section \<open>Blocks of host memory\<close>

text \<open>The host address that an address is backed by.\<close>

definition host_ptr :: "area \<Rightarrow> nat" where
  "host_ptr x = (case x of Backed _ _ ptr \<Rightarrow> ptr | _ \<Rightarrow> 0)"

definition is_backed :: "area \<Rightarrow> bool" where
  "is_backed x \<longleftrightarrow> (case x of Backed _ _ _ \<Rightarrow> True | _ \<Rightarrow> False)"

definition block_ptrs :: "memory_ref \<times> nat \<Rightarrow> nat list" where
  "block_ptrs b = map (\<lambda>i. GetPtr (fst b) + i) [0..<snd b]"

lemma is_backed_area: "is_backed (area_at v a) \<longleftrightarrow> vma_type v = BackingMemory"
  by (simp add: is_backed_def area_at_def split: VMAType.splits)

lemma backing_blocks_step:
  assumes s: "space_ok e xs" and ab: "a < b" "b \<le> MAX_ADDRESS" and v: "v \<in> set xs" "inside v a"
    and f: "FindVMA a xs = Some (Some (vma_base v))" "at_key (vma_base v) xs = Some v" and type: "vma_type v = BackingMemory"
  obtains c r where "a < c" "c \<le> b" "backing_blocks xs b a acc = backing_blocks xs b c (acc @ [(r, c - a)])"
    "block_ptrs (r, c - a) = map (\<lambda>x. host_ptr (view xs x)) [a..<c]" "\<forall>y \<in> {a..<c}. is_backed (view xs y)"
proof -
  have t: "tiles 0 xs MAX_ADDRESS" using s by (simp add: space_ok_def)
  define c where "c = min b (vma_base v + vma_size v)"
  have c: "a < c" "c \<le> b" "c \<le> vma_base v + vma_size v" "vma_base v \<le> a" using ab v(2) by (auto simp: c_def inside_def)
  have top: "vma_base v + vma_size v \<le> MAX_ADDRESS" using tiles_bases [OF t v(1)] by simp
  have w: "add32 (vma_base v) (vma_size v) = vma_base v + vma_size v" "sub32 c a = c - a" "add32 a (c - a) = c"
    using top c add32_id [of "vma_base v" "vma_size v"] sub32_id [of a c] add32_id [of a "c - a"]
    by (simp_all add: MAX_ADDRESS_def)
  have "vma_ok e v" using s v(1) by (auto simp: space_ok_def list_all_iff)
  then have n: "a - vma_base v < ref_size (backing_memory v)"
    using v(2) type by (auto simp: vma_ok_def ref_ok_def inside_def)
  define r where "r = \<lparr>GetPtr = GetPtr (backing_memory v) + (a - vma_base v),
    ref_size = ref_size (backing_memory v) - (a - vma_base v)\<rparr>"
  have "backing_blocks xs b a acc = backing_blocks xs b c (acc @ [(r, c - a)])"
    using ab f type w n by (subst backing_blocks.simps) (simp add: c_def [symmetric] Let_def ref_plus_def r_def)
  moreover have at: "view xs y = Backed (permissions v) (meminfo_state v) (GetPtr (backing_memory v) + (y - vma_base v))"
    if "a \<le> y" "y < c" for y
    using view_of_area [OF t v(1), of y] that c type by (simp add: inside_def area_at_def)
  then have "block_ptrs (r, c - a) = map (\<lambda>x. host_ptr (view xs x)) [a..<c]" "\<forall>y \<in> {a..<c}. is_backed (view xs y)"
    using c(4) by (auto simp: block_ptrs_def r_def host_ptr_def is_backed_def intro!: nth_equalityI)
  ultimately show thesis by (rule that [OF c(1,2)])
qed

lemma backing_blocks_spec:
  assumes s: "space_ok e xs" and "a \<le> b" "b \<le> MAX_ADDRESS"
  shows "if \<forall>x \<in> {a..<b}. is_backed (view xs x)
    then \<exists>bs. backing_blocks xs b a acc = Some (Inr (acc @ bs)) \<and> (\<forall>b \<in> set bs. 0 < snd b) \<and>
      concat (map block_ptrs bs) = map (\<lambda>x. host_ptr (view xs x)) [a..<b]
    else backing_blocks xs b a acc = Some (Inl ERR_INVALID_ADDRESS_STATE)"
  using assms(2,3)
proof (induction "b - a" arbitrary: a acc rule: less_induct)
  case less
  have t: "tiles 0 xs MAX_ADDRESS" using s by (simp add: space_ok_def)
  show ?case
  proof (cases "a = b")
    case True
    then show ?thesis by (simp add: backing_blocks.simps)
  next
    case False
    then have ab: "a < b" "a < MAX_ADDRESS" using less.prems by auto
    obtain as v bs where x: "xs = as @ v # bs" "vma_base v \<le> a" "a < vma_base v + vma_size v"
      by (rule tiles_find [OF t le0 [of a] ab(2)]) (rule that; assumption)
    note t' = t [unfolded x(1)]
    have v: "v \<in> set xs" "inside v a" using x by (simp_all add: inside_def)
    have f: "FindVMA a xs = Some (Some (vma_base v))" "at_key (vma_base v) xs = Some v"
      using FindVMA_cut [OF t' x(2,3) ab(2)] at_key_cut [OF t'] by (simp_all add: x(1))
    show ?thesis
    proof (cases "vma_type v = BackingMemory")
      case False
      then have "backing_blocks xs b a acc = Some (Inl ERR_INVALID_ADDRESS_STATE)"
        using ab f by (simp add: backing_blocks.simps)
      moreover have "\<not> is_backed (view xs a)" using view_of_area [OF t v] False by (simp add: is_backed_area)
      ultimately show ?thesis using ab by auto
    next
      case True
      obtain c r where c: "a < c" "c \<le> b" "backing_blocks xs b a acc = backing_blocks xs b c (acc @ [(r, c - a)])"
        "block_ptrs (r, c - a) = map (\<lambda>x. host_ptr (view xs x)) [a..<c]" "\<forall>y \<in> {a..<c}. is_backed (view xs y)"
        by (rule backing_blocks_step [OF s ab(1) less.prems(2) v f True, of acc]) (rule that; assumption)
      have split: "[a..<b] = [a..<c] @ [c..<b]" using c(1,2) by (metis le_add_diff_inverse less_imp_le upt_add_eq_append)
      have all: "(\<forall>y \<in> {a..<b}. is_backed (view xs y)) \<longleftrightarrow> (\<forall>y \<in> {c..<b}. is_backed (view xs y))"
        using c(1,2,5) by (metis atLeastLessThan_iff le_less_trans less_imp_le not_le)
      have "b - c < b - a" using c(1,2) by simp
      note IH = less.hyps [OF this c(2) less.prems(2), of "acc @ [(r, c - a)]"]
      show ?thesis
      proof (cases "\<forall>y \<in> {c..<b}. is_backed (view xs y)")
        case True
        with IH obtain ds where "backing_blocks xs b a acc = Some (Inr (acc @ (r, c - a) # ds))" "\<forall>b \<in> set ds. 0 < snd b"
          "concat (map block_ptrs ds) = map (\<lambda>x. host_ptr (view xs x)) [c..<b]"
          by (auto simp: c(3))
        then show ?thesis using True all c(1,4) split
          by (auto intro!: exI [of _ "(r, c - a) # ds"])
      qed (use IH all c(3) in simp)
    qed
  qed
qed

text \<open>C31: \<open>GetBackingBlocksForRange\<close> on any range of the address space returns. Where every address of it
  is backed by host memory, its blocks are the host addresses of the range in order, none missing and none
  twice; where an address is not backed, it answers with an error.\<close>

theorem backing_blocks_cover_range:
  assumes "space_ok e (vma_map vm)" "address + sz \<le> MAX_ADDRESS"
  shows "if \<forall>x \<in> {address..<address + sz}. is_backed (view (vma_map vm) x)
    then \<exists>bs. GetBackingBlocksForRange address sz vm = Some (Inr bs) \<and>
      concat (map block_ptrs bs) = map (\<lambda>x. host_ptr (view (vma_map vm) x)) [address..<address + sz]
    else GetBackingBlocksForRange address sz vm = Some (Inl ERR_INVALID_ADDRESS_STATE)"
proof -
  have "add32 address sz = address + sz" using assms(2) by (intro add32_id) (simp add: MAX_ADDRESS_def)
  then have "GetBackingBlocksForRange address sz vm = backing_blocks (vma_map vm) (address + sz) address []"
    by (simp add: GetBackingBlocksForRange_def)
  then show ?thesis
    using backing_blocks_spec [OF assms(1), of address "address + sz" "[]"] assms(2)
    by (cases "\<forall>x \<in> {address..<address + sz}. is_backed (view (vma_map vm) x)") auto
qed

text \<open>Two neighbours backed by different memory.\<close>

definition two_areas :: vm_manager where
  "two_areas = sample_vm\<lparr>vma_map :=
     [new_vma\<lparr>vma_size := 0x1000\<rparr>,
      new_vma\<lparr>vma_base := 0x1000, vma_size := 0x1000, vma_type := BackingMemory, permissions := 1,
              meminfo_state := Private, backing_memory := sample_ref\<rparr>,
      new_vma\<lparr>vma_base := 0x2000, vma_size := 0x2000, vma_type := BackingMemory, permissions := 3,
              meminfo_state := Private, backing_memory := \<lparr>GetPtr = 0x10001000, ref_size = 0x7FFF000\<rparr>\<rparr>,
      new_vma\<lparr>vma_base := 0x4000, vma_size := 0x3FFFC000\<rparr>]\<rparr>"

lemma two_areas_ok: "space_ok sample_end (vma_map two_areas)"
  by (simp add: space_ok_def two_areas_def new_vma_def vma_ok_def page_aligned_def CITRA_PAGE_SIZE_def
      MAX_ADDRESS_def ref_ok_def sample_ref_def sample_end_def)

theorem backing_blocks_cover_range_witness:
  "\<exists>bs. GetBackingBlocksForRange 0x1FFE 4 two_areas = Some (Inr bs) \<and>
     concat (map block_ptrs bs) = [0x10000FFE, 0x10000FFF, 0x10001000, 0x10001001]"
proof -
  have v: "view (vma_map two_areas) 0x1FFE = Backed 1 Private 0x10000FFE"
    "view (vma_map two_areas) 0x1FFF = Backed 1 Private 0x10000FFF"
    "view (vma_map two_areas) 0x2000 = Backed 3 Private 0x10001000"
    "view (vma_map two_areas) 0x2001 = Backed 3 Private 0x10001001"
    by (simp_all add: two_areas_def view_def inside_def new_vma_def area_at_def sample_ref_def)
  have "{0x1FFE..<0x1FFE + 4} = {0x1FFE, 0x1FFF, 0x2000, 0x2001 :: nat}" by auto
  then have "\<forall>x \<in> {0x1FFE..<0x1FFE + 4}. is_backed (view (vma_map two_areas) x)"
    using v by (simp add: is_backed_def)
  moreover have "[0x1FFE..<0x1FFE + 4] = [0x1FFE, 0x1FFF, 0x2000, 0x2001 :: nat]"
    by (simp add: upt_rec)
  ultimately show ?thesis
    using backing_blocks_cover_range [OF two_areas_ok, of "0x1FFE" 4] v
    by (simp add: host_ptr_def MAX_ADDRESS_def)
qed

section \<open>Where the operations fall short\<close>

lemma update_some:
  assumes "page_aligned (vma_base v)" "page_aligned (vma_size v)" "vma_base v + vma_size v \<le> MAX_ADDRESS" "rasterizer_ok env"
  shows "\<exists>ms'. UpdatePageTableForVMA env t v ms = Some ms'"
  by (rule UpdatePageTable_spec [OF assms, of t ms]) blast

text \<open>The comment on \<open>vma_map\<close> promises that mergeable neighbours are always merged. \<open>ReprotectRange\<close>
  breaks it: the range carved out of the second area is merged with the first, and then the loop goes on
  with the rest of the second area, which is outside of the range. Two areas with the same permissions and
  contiguous memory stay apart.\<close>

theorem ReprotectRange_leaves_mergeable:
  "\<exists>ms' ys. ReprotectRange no_devices 0x1000 0x2000 ReadWrite (two_areas, boot_memory) =
     Some (Inr (), two_areas\<lparr>vma_map := ys\<rparr>, ms') \<and>
     successively (\<lambda>v w. \<not> mergeable v w) (vma_map two_areas) \<and> \<not> successively (\<lambda>v w. \<not> mergeable v w) ys"
proof -
  let ?A = "new_vma\<lparr>vma_base := 0x1000, vma_size := 0x1000, vma_type := BackingMemory, permissions := 3,
              meminfo_state := Private, backing_memory := sample_ref\<rparr>"
  obtain ms' where ms': "UpdatePageTableForVMA no_devices 0 ?A boot_memory = Some ms'"
    using update_some [of ?A no_devices 0 boot_memory] rasterizer_none
    by (auto simp: page_aligned_def CITRA_PAGE_SIZE_def MAX_ADDRESS_def)
  define D where "D = new_vma\<lparr>vma_base := 0x2000, vma_size := 0x1000, vma_type := BackingMemory, permissions := 3,
              meminfo_state := Private, backing_memory := \<lparr>GetPtr = 0x10001000, ref_size = 0x7FFF000\<rparr>\<rparr>"
  define E where "E = new_vma\<lparr>vma_base := 0x3000, vma_size := 0x1000, vma_type := BackingMemory, permissions := 3,
              meminfo_state := Private, backing_memory := \<lparr>GetPtr = 0x10002000, ref_size = 0x7FFE000\<rparr>\<rparr>"
  define zs where "zs = [new_vma\<lparr>vma_size := 0x1000\<rparr>, ?A\<lparr>permissions := 1\<rparr>, D, E,
      new_vma\<lparr>vma_base := 0x4000, vma_size := 0x3FFFC000\<rparr>]"
  define ys where "ys = [new_vma\<lparr>vma_size := 0x1000\<rparr>, ?A\<lparr>vma_size := 0x2000\<rparr>, E,
      new_vma\<lparr>vma_base := 0x4000, vma_size := 0x3FFFC000\<rparr>]"
  have carve: "CarveVMARange 0x1000 0x2000 (vma_map two_areas) = Some (Inr (0x1000, zs))"
    by (simp add: CarveVMARange_def two_areas_def zs_def D_def E_def new_vma_def sample_vm_def page_aligned_def
        CITRA_PAGE_SIZE_def MAX_ADDRESS_def FindVMA_def areas_between_def SplitVMA_def at_key_def update_key_def
        add32_def ref_plus_def CanBeMergedWith_def Let_def)
  have modify: "modify_vma no_devices (with_perms ReadWrite) 0x1000 (two_areas\<lparr>vma_map := zs\<rparr>, boot_memory) =
      Some (0x1000, two_areas\<lparr>vma_map := ys\<rparr>, ms')"
    using ms' by (simp add: modify_vma_def two_areas_def sample_vm_def zs_def ys_def D_def E_def new_vma_def at_key_def
        update_key_def with_perms_def ReadWrite_def MergeAdjacent_def merge_next_def merge_prev_def next_iter_def
        prev_iter_def CanBeMergedWith_def erase_key_def add32_def sample_ref_def Let_def)
  have stop: "range_loop no_devices (with_perms ReadWrite) 0x3000 (next_iter 0x1000 ys) s = Some s" for s
    by (simp add: range_loop.simps ys_def next_iter_def new_vma_def E_def)
  have "range_loop no_devices (with_perms ReadWrite) 0x3000 (Some 0x1000) (two_areas\<lparr>vma_map := zs\<rparr>, boot_memory) =
      Some (two_areas\<lparr>vma_map := ys\<rparr>, ms')"
    by (subst range_loop.simps) (simp add: modify stop)
  moreover have "\<not> successively (\<lambda>v w. \<not> mergeable v w) ys"
    by (simp add: ys_def E_def mergeable_def new_vma_def sample_ref_def)
  moreover have "successively (\<lambda>v w. \<not> mergeable v w) (vma_map two_areas)"
    by (simp add: two_areas_def mergeable_def new_vma_def)
  ultimately show ?thesis
    using carve by (intro exI [of _ ms'] exI [of _ ys])
      (simp add: ReprotectRange_def add32_def two_areas_def sample_vm_def)
qed

text \<open>A hole between two mapped pages.\<close>

definition holed :: vm_manager where
  "holed = sample_vm\<lparr>vma_map :=
     [new_vma\<lparr>vma_size := 0x04000000\<rparr>,
      new_vma\<lparr>vma_base := 0x04000000, vma_size := 0x1000, vma_type := MMIO, permissions := 3, meminfo_state := IO\<rparr>,
      new_vma\<lparr>vma_base := 0x04001000, vma_size := 0x1000\<rparr>,
      new_vma\<lparr>vma_base := 0x04002000, vma_size := 0x1000, vma_type := MMIO, permissions := 3, meminfo_state := IO\<rparr>,
      new_vma\<lparr>vma_base := 0x04003000, vma_size := 0x3BFFD000\<rparr>]\<rparr>"

text \<open>\<open>MapBackingMemoryToBase\<close> looks for a free area that ends far enough behind the base, not for one
  with enough room: with a hole of one page behind the first mapped page it answers a request of two pages
  with an error, although all that follows the second mapped page is free and lies in the region.\<close>

theorem MapBackingMemoryToBase_misses_room:
  "space_ok sample_end (vma_map holed) \<and>
   MapBackingMemoryToBase no_devices 0x04000000 0x04000000 sample_ref 0x2000 Shared (holed, boot_memory) =
     Some (Inl ERR_INVALID_ADDRESS_STATE, holed, boot_memory) \<and>
   all_free 0x04003000 0x2000 (vma_map holed)"
proof -
  have s: "space_ok sample_end (vma_map holed)"
    by (simp add: space_ok_def holed_def new_vma_def vma_ok_def page_aligned_def CITRA_PAGE_SIZE_def MAX_ADDRESS_def)
  have r: "page_range 0x04001000 0x2000" "page_range 0x04003000 0x2000"
    by (simp_all add: page_range_def page_aligned_def CITRA_PAGE_SIZE_def MAX_ADDRESS_def)
  let ?w = "\<lambda>b n. new_vma\<lparr>vma_base := b, vma_size := n\<rparr>"
  have f: "\<not> all_free 0x04001000 0x2000 (vma_map holed)" "all_free 0x04003000 0x2000 (vma_map holed)"
    using all_free_area [OF s r(1), of "?w 0x04001000 0x1000"] all_free_area [OF s r(2), of "?w 0x04003000 0x3BFFD000"]
    by (simp_all add: holed_def new_vma_def)
  show ?thesis using s f(2) CarveVMA_fails [OF s r(1) f(1)]
    by (simp add: MapBackingMemoryToBase_def holed_def sample_vm_def new_vma_def add32_def Let_def MapBackingMemory_def
        sample_ref_def)
qed

end
