(* ===== verification/ResultCodes.thy ===== *)
theory ResultCodes
  imports Prelude
begin

text \<open>
  Result codes, \<open>core/hle/result.h\<close>, and those of the kernel, \<open>core/hle/kernel/errors.h\<close>: a description, a
  module, a summary and a level packed into 32 bits.
\<close>

section \<open>The fields\<close>

datatype ErrorDescription =
  Desc_Success | Desc_InvalidSection | Desc_TooLarge | Desc_NotAuthorized | Desc_AlreadyDone |
  Desc_InvalidSize | Desc_InvalidEnumValue | Desc_InvalidCombination | Desc_NoData | Desc_Busy |
  Desc_MisalignedAddress | Desc_MisalignedSize | Desc_OutOfMemory | Desc_NotImplemented |
  Desc_InvalidAddress | Desc_InvalidPointer | Desc_InvalidHandle | Desc_NotInitialized |
  Desc_AlreadyInitialized | Desc_NotFound | Desc_CancelRequested | Desc_AlreadyExists |
  Desc_OutOfRange | Desc_Timeout | Desc_InvalidResultValue

fun description_value :: "ErrorDescription \<Rightarrow> u32" where
  "description_value Desc_Success = 0"
| "description_value Desc_InvalidSection = 1000"
| "description_value Desc_TooLarge = 1001"
| "description_value Desc_NotAuthorized = 1002"
| "description_value Desc_AlreadyDone = 1003"
| "description_value Desc_InvalidSize = 1004"
| "description_value Desc_InvalidEnumValue = 1005"
| "description_value Desc_InvalidCombination = 1006"
| "description_value Desc_NoData = 1007"
| "description_value Desc_Busy = 1008"
| "description_value Desc_MisalignedAddress = 1009"
| "description_value Desc_MisalignedSize = 1010"
| "description_value Desc_OutOfMemory = 1011"
| "description_value Desc_NotImplemented = 1012"
| "description_value Desc_InvalidAddress = 1013"
| "description_value Desc_InvalidPointer = 1014"
| "description_value Desc_InvalidHandle = 1015"
| "description_value Desc_NotInitialized = 1016"
| "description_value Desc_AlreadyInitialized = 1017"
| "description_value Desc_NotFound = 1018"
| "description_value Desc_CancelRequested = 1019"
| "description_value Desc_AlreadyExists = 1020"
| "description_value Desc_OutOfRange = 1021"
| "description_value Desc_Timeout = 1022"
| "description_value Desc_InvalidResultValue = 1023"

text \<open>A module is any number of 32 bits; the kernel uses three of those that have a name.\<close>

type_synonym ErrorModule = u32

definition Module_Kernel :: ErrorModule where "Module_Kernel = 1"

definition Module_OS :: ErrorModule where "Module_OS = 6"

definition Module_FND :: ErrorModule where "Module_FND = 36"

datatype ErrorSummary =
  Sum_Success | Sum_NothingHappened | Sum_WouldBlock | Sum_OutOfResource | Sum_NotFound |
  Sum_InvalidState | Sum_NotSupported | Sum_InvalidArgument | Sum_WrongArgument | Sum_Canceled |
  Sum_StatusChanged | Sum_Internal | Sum_InvalidResult

fun summary_value :: "ErrorSummary \<Rightarrow> u32" where
  "summary_value Sum_Success = 0"
| "summary_value Sum_NothingHappened = 1"
| "summary_value Sum_WouldBlock = 2"
| "summary_value Sum_OutOfResource = 3"
| "summary_value Sum_NotFound = 4"
| "summary_value Sum_InvalidState = 5"
| "summary_value Sum_NotSupported = 6"
| "summary_value Sum_InvalidArgument = 7"
| "summary_value Sum_WrongArgument = 8"
| "summary_value Sum_Canceled = 9"
| "summary_value Sum_StatusChanged = 10"
| "summary_value Sum_Internal = 11"
| "summary_value Sum_InvalidResult = 63"

datatype ErrorLevel =
  Level_Success | Level_Info | Level_Status | Level_Temporary | Level_Permanent | Level_Usage |
  Level_Reinitialize | Level_Reset | Level_Fatal

fun level_value :: "ErrorLevel \<Rightarrow> u32" where
  "level_value Level_Success = 0"
| "level_value Level_Info = 1"
| "level_value Level_Status = 25"
| "level_value Level_Temporary = 26"
| "level_value Level_Permanent = 27"
| "level_value Level_Usage = 28"
| "level_value Level_Reinitialize = 29"
| "level_value Level_Reset = 30"
| "level_value Level_Fatal = 31"

section \<open>Codes\<close>

text \<open>The constructor from a number, for the descriptions of a module of its own, and from the enumeration.\<close>

definition ResultCode :: "u32 \<Rightarrow> ErrorModule \<Rightarrow> ErrorSummary \<Rightarrow> ErrorLevel \<Rightarrow> u32" where
  "ResultCode description module summary level =
     ((description AND 0x3FF) OR (push_bit 10 (module AND 0xFF)) OR
      (push_bit 21 (summary_value summary AND 0x3F)) OR (push_bit 27 (level_value level AND 0x1F)))"

definition result_code :: "ErrorDescription \<Rightarrow> ErrorModule \<Rightarrow> ErrorSummary \<Rightarrow> ErrorLevel \<Rightarrow> u32" where
  "result_code description = ResultCode (description_value description)"

definition IsError :: "u32 \<Rightarrow> bool" where "IsError raw \<longleftrightarrow> bit raw 31"

definition IsSuccess :: "u32 \<Rightarrow> bool" where "IsSuccess raw \<longleftrightarrow> \<not> bit raw 31"

text \<open>The fields of a code, as its bit fields read them.\<close>

definition description_field :: "u32 \<Rightarrow> u32" where "description_field raw = raw AND 0x3FF"

definition module_field :: "u32 \<Rightarrow> u32" where "module_field raw = drop_bit 10 raw AND 0xFF"

definition summary_field :: "u32 \<Rightarrow> u32" where "summary_field raw = drop_bit 21 raw AND 0x3F"

definition level_field :: "u32 \<Rightarrow> u32" where "level_field raw = drop_bit 27 raw AND 0x1F"

definition RESULT_SUCCESS :: u32 where "RESULT_SUCCESS = 0"

section \<open>Codes of the kernel\<close>

definition ERR_OUT_OF_HANDLES :: u32 where
  "ERR_OUT_OF_HANDLES = ResultCode 19 Module_Kernel Sum_OutOfResource Level_Permanent"

definition ERR_SESSION_CLOSED_BY_REMOTE :: u32 where
  "ERR_SESSION_CLOSED_BY_REMOTE = ResultCode 26 Module_OS Sum_Canceled Level_Status"

definition ERR_PORT_NAME_TOO_LONG :: u32 where
  "ERR_PORT_NAME_TOO_LONG = ResultCode 30 Module_OS Sum_InvalidArgument Level_Usage"

definition ERR_WRONG_PERMISSION :: u32 where
  "ERR_WRONG_PERMISSION = ResultCode 46 Module_OS Sum_WrongArgument Level_Permanent"

definition ERR_INVALID_BUFFER_DESCRIPTOR :: u32 where
  "ERR_INVALID_BUFFER_DESCRIPTOR = ResultCode 48 Module_OS Sum_WrongArgument Level_Permanent"

definition ERR_MAX_CONNECTIONS_REACHED :: u32 where
  "ERR_MAX_CONNECTIONS_REACHED = ResultCode 52 Module_OS Sum_WouldBlock Level_Temporary"

definition ERR_NOT_AUTHORIZED :: u32 where
  "ERR_NOT_AUTHORIZED = result_code Desc_NotAuthorized Module_OS Sum_WrongArgument Level_Permanent"

definition ERR_INVALID_ENUM_VALUE :: u32 where
  "ERR_INVALID_ENUM_VALUE = result_code Desc_InvalidEnumValue Module_Kernel Sum_InvalidArgument Level_Permanent"

definition ERR_INVALID_ENUM_VALUE_FND :: u32 where
  "ERR_INVALID_ENUM_VALUE_FND = result_code Desc_InvalidEnumValue Module_FND Sum_InvalidArgument Level_Permanent"

definition ERR_INVALID_COMBINATION :: u32 where
  "ERR_INVALID_COMBINATION = result_code Desc_InvalidCombination Module_OS Sum_InvalidArgument Level_Usage"

definition ERR_INVALID_COMBINATION_KERNEL :: u32 where
  "ERR_INVALID_COMBINATION_KERNEL = result_code Desc_InvalidCombination Module_Kernel Sum_WrongArgument Level_Permanent"

definition ERR_MISALIGNED_ADDRESS :: u32 where
  "ERR_MISALIGNED_ADDRESS = result_code Desc_MisalignedAddress Module_OS Sum_InvalidArgument Level_Usage"

definition ERR_MISALIGNED_SIZE :: u32 where
  "ERR_MISALIGNED_SIZE = result_code Desc_MisalignedSize Module_OS Sum_InvalidArgument Level_Usage"

definition ERR_OUT_OF_MEMORY :: u32 where
  "ERR_OUT_OF_MEMORY = result_code Desc_OutOfMemory Module_Kernel Sum_OutOfResource Level_Permanent"

definition ERR_OUT_OF_HEAP_MEMORY :: u32 where
  "ERR_OUT_OF_HEAP_MEMORY = result_code Desc_OutOfMemory Module_OS Sum_OutOfResource Level_Status"

definition ERR_NOT_IMPLEMENTED :: u32 where
  "ERR_NOT_IMPLEMENTED = result_code Desc_NotImplemented Module_OS Sum_InvalidArgument Level_Usage"

definition ERR_INVALID_ADDRESS :: u32 where
  "ERR_INVALID_ADDRESS = result_code Desc_InvalidAddress Module_OS Sum_InvalidArgument Level_Usage"

definition ERR_INVALID_ADDRESS_STATE :: u32 where
  "ERR_INVALID_ADDRESS_STATE = result_code Desc_InvalidAddress Module_OS Sum_InvalidState Level_Usage"

definition ERR_INVALID_POINTER :: u32 where
  "ERR_INVALID_POINTER = result_code Desc_InvalidPointer Module_Kernel Sum_InvalidArgument Level_Permanent"

definition ERR_INVALID_HANDLE :: u32 where
  "ERR_INVALID_HANDLE = result_code Desc_InvalidHandle Module_Kernel Sum_InvalidArgument Level_Permanent"

definition ERR_INVALID_HANDLE_OS :: u32 where
  "ERR_INVALID_HANDLE_OS = result_code Desc_InvalidHandle Module_OS Sum_WrongArgument Level_Permanent"

definition ERR_NOT_FOUND :: u32 where
  "ERR_NOT_FOUND = result_code Desc_NotFound Module_Kernel Sum_NotFound Level_Permanent"

definition ERR_OUT_OF_RANGE :: u32 where
  "ERR_OUT_OF_RANGE = result_code Desc_OutOfRange Module_OS Sum_InvalidArgument Level_Usage"

definition ERR_OUT_OF_RANGE_KERNEL :: u32 where
  "ERR_OUT_OF_RANGE_KERNEL = result_code Desc_OutOfRange Module_Kernel Sum_InvalidArgument Level_Permanent"

definition RESULT_TIMEOUT :: u32 where
  "RESULT_TIMEOUT = result_code Desc_Timeout Module_OS Sum_StatusChanged Level_Info"

definition ERR_NO_PENDING_SESSIONS :: u32 where
  "ERR_NO_PENDING_SESSIONS = ResultCode 35 Module_OS Sum_WouldBlock Level_Permanent"

text \<open>The codes that \<open>Mutex::Release\<close> builds in place.\<close>

definition wrong_locking_thread :: u32 where
  "wrong_locking_thread = ResultCode 31 Module_Kernel Sum_InvalidArgument Level_Permanent"

definition mutex_not_locked :: u32 where
  "mutex_not_locked = result_code Desc_InvalidResultValue Module_Kernel Sum_InvalidState Level_Permanent"

lemmas kernel_codes =
  ERR_OUT_OF_HANDLES_def ERR_SESSION_CLOSED_BY_REMOTE_def ERR_PORT_NAME_TOO_LONG_def
  ERR_WRONG_PERMISSION_def ERR_INVALID_BUFFER_DESCRIPTOR_def ERR_MAX_CONNECTIONS_REACHED_def
  ERR_NOT_AUTHORIZED_def ERR_INVALID_ENUM_VALUE_def ERR_INVALID_ENUM_VALUE_FND_def
  ERR_INVALID_COMBINATION_def ERR_INVALID_COMBINATION_KERNEL_def ERR_MISALIGNED_ADDRESS_def
  ERR_MISALIGNED_SIZE_def ERR_OUT_OF_MEMORY_def ERR_OUT_OF_HEAP_MEMORY_def ERR_NOT_IMPLEMENTED_def
  ERR_INVALID_ADDRESS_def ERR_INVALID_ADDRESS_STATE_def ERR_INVALID_POINTER_def ERR_INVALID_HANDLE_def
  ERR_INVALID_HANDLE_OS_def ERR_NOT_FOUND_def ERR_OUT_OF_RANGE_def ERR_OUT_OF_RANGE_KERNEL_def
  RESULT_TIMEOUT_def ERR_NO_PENDING_SESSIONS_def wrong_locking_thread_def mutex_not_locked_def
  result_code_def ResultCode_def
  Module_Kernel_def Module_OS_def Module_FND_def

section \<open>Properties\<close>

text \<open>C34: A code keeps its four fields: each is read back as it was given, the number of the description and of
  the module up to the width of its field; and a code is an error exactly if its level is 16 or more.\<close>

theorem result_code_fields:
  "description_field (ResultCode d m s l) = d mod 2 ^ 10 \<and> module_field (ResultCode d m s l) = m mod 2 ^ 8 \<and>
   summary_field (ResultCode d m s l) = summary_value s \<and> level_field (ResultCode d m s l) = level_value l \<and>
   (IsError (ResultCode d m s l) \<longleftrightarrow> 16 \<le> level_value l)"
proof -
  have masks: "0x3FF = (mask 10 :: u32)" "0xFF = (mask 8 :: u32)" "0x3F = (mask 6 :: u32)" "0x1F = (mask 5 :: u32)"
    by (simp_all add: mask_eq_exp_minus_1)
  have s: "summary_value s AND mask 6 = summary_value s"
    by (cases s) (simp_all add: mask_eq_exp_minus_1)
  have l: "level_value l AND mask 5 = level_value l"
    by (cases l) (simp_all add: mask_eq_exp_minus_1)
  note defs = ResultCode_def description_field_def module_field_def summary_field_def level_field_def IsError_def masks
  have "description_field (ResultCode d m s l) = d AND mask 10"
    by (rule bit_eqI) (auto simp: defs bit_simps)
  moreover have "module_field (ResultCode d m s l) = m AND mask 8"
    by (rule bit_eqI) (auto simp: defs bit_simps)
  moreover have "summary_field (ResultCode d m s l) = summary_value s AND mask 6"
    by (rule bit_eqI) (auto simp: defs bit_simps)
  moreover have "level_field (ResultCode d m s l) = level_value l AND mask 5"
    by (rule bit_eqI) (auto simp: defs bit_simps)
  moreover have "bit (ResultCode d m s l) 31 = bit (level_value l) 4"
    by (auto simp: defs bit_simps)
  moreover have "bit (level_value l) 4 \<longleftrightarrow> 16 \<le> level_value l"
    by (cases l) (simp_all add: word_le_nat_alt)
  ultimately show ?thesis by (simp add: IsError_def s l) (simp flip: take_bit_eq_mask add: take_bit_eq_mod)
qed

text \<open>The raw values of the codes of the kernel are those that the comments of \<open>errors.h\<close> give, but for
  \<open>ERR_OUT_OF_HEAP_MEMORY\<close>, whose comment says \<open>0xC860180A\<close>: that is the description 10, not the 1011 of
  \<open>OutOfMemory\<close>.\<close>

theorem kernel_error_values:
  "ERR_OUT_OF_HANDLES = 0xD8600413 \<and> ERR_SESSION_CLOSED_BY_REMOTE = 0xC920181A \<and>
   ERR_PORT_NAME_TOO_LONG = 0xE0E0181E \<and> ERR_MAX_CONNECTIONS_REACHED = 0xD0401834 \<and>
   ERR_NOT_AUTHORIZED = 0xD9001BEA \<and> ERR_INVALID_ENUM_VALUE = 0xD8E007ED \<and>
   ERR_INVALID_ENUM_VALUE_FND = 0xD8E093ED \<and> ERR_INVALID_COMBINATION = 0xE0E01BEE \<and>
   ERR_INVALID_COMBINATION_KERNEL = 0xD90007EE \<and> ERR_MISALIGNED_ADDRESS = 0xE0E01BF1 \<and>
   ERR_MISALIGNED_SIZE = 0xE0E01BF2 \<and> ERR_OUT_OF_MEMORY = 0xD86007F3 \<and>
   ERR_OUT_OF_HEAP_MEMORY = 0xC8601BF3 \<and> ERR_NOT_IMPLEMENTED = 0xE0E01BF4 \<and>
   ERR_INVALID_ADDRESS = 0xE0E01BF5 \<and> ERR_INVALID_ADDRESS_STATE = 0xE0A01BF5 \<and>
   ERR_INVALID_POINTER = 0xD8E007F6 \<and> ERR_INVALID_HANDLE = 0xD8E007F7 \<and>
   ERR_INVALID_HANDLE_OS = 0xD9001BF7 \<and> ERR_NOT_FOUND = 0xD88007FA \<and>
   ERR_OUT_OF_RANGE = 0xE0E01BFD \<and> ERR_OUT_OF_RANGE_KERNEL = 0xD8E007FD \<and>
   ERR_NO_PENDING_SESSIONS = 0xD8401823"
  unfolding kernel_codes
  by (simp add: push_bit_eq_mult)

end
