(* ===== verification/KernelObjects.thy ===== *)
theory KernelObjects
  imports ThreadQueueList CoreTiming ResultCodes
begin

text \<open>
  Threads and the objects they wait for, \<open>core/hle/kernel\<close>: \<open>wait_object.cpp\<close>, \<open>thread.cpp\<close>, \<open>mutex.cpp\<close>,
  \<open>semaphore.cpp\<close>, \<open>event.cpp\<close> and \<open>timer.cpp\<close>.

  The kernel's objects are numbered; the number is the pointer to the object. A thread is an object that can
  be waited for, too: its data are in \<open>threads\<close> under the same number. A \<open>flat_set\<close> of pointers is their
  ascending list. The thread manager, the CPU and the timer of a core are found by the number of the core.
  Of the callbacks a waiting thread may have, the one of the waiting system calls and the one of the
  address arbiter are modelled; those of IPC are not. Debug assertions are not checked.
\<close>

section \<open>Data\<close>

datatype ThreadStatus =
  Running | Ready | WaitArb | WaitSleep | WaitIPC | WaitSynchAny | WaitSynchAll | WaitHleEvent | Dormant | Dead

datatype ThreadWakeupReason = Reason_Signal | Reason_Timeout

datatype ResetType = OneShot | Sticky | Pulse

definition ThreadPrioLowest :: nat where "ThreadPrioLowest = 63"

datatype wakeup_callback = SVC_SyncCallback bool | ArbiterCallback nat

type_synonym thread_context = "nat \<Rightarrow> u32"

record thread =
  thread_ctx :: thread_context
  thread_id :: nat
  can_schedule :: bool
  status :: ThreadStatus
  nominal_priority :: nat
  current_priority :: nat
  last_running_ticks :: int
  tls_address :: nat
  held_mutexes :: "nat list"
  pending_mutexes :: "nat list"
  owner_process :: "nat option"
  wait_objects :: "nat list"
  wait_address :: nat
  wakeup_cb :: "wakeup_callback option"
  core_id :: nat

record mutex =
  lock_count :: int
  mutex_priority :: nat
  holding_thread :: "nat option"

record semaphore =
  max_count :: int
  available_count :: int

record event_object =
  event_reset :: ResetType
  event_signaled :: bool

record timer_object =
  timer_reset :: ResetType
  timer_signaled :: bool
  initial_delay :: u64
  interval_delay :: u64
  callback_id :: nat

datatype object_kind =
  MutexObj mutex | SemaphoreObj semaphore | EventObj event_object | TimerObj timer_object | ThreadObj

record wait_object =
  waiting_threads :: "nat list"
  hle_notifier :: bool
  kind :: object_kind

record thread_manager =
  current_thread :: "nat option"
  ready_queue :: "nat ready_queue"
  wakeup_callback_table :: "nat \<rightharpoonup> nat"
  thread_list :: "nat list"
  cpu_context :: thread_context
  thread_uro :: nat
  current_process :: "nat option"

text \<open>\<open>arbiters\<close> are the waiting threads of each address arbiter; \<open>notifications\<close> are the calls of HLE
  notifiers so far.\<close>

record kernel =
  threads :: "nat \<Rightarrow> thread"
  wobjs :: "nat \<Rightarrow> wait_object"
  managers :: "nat \<Rightarrow> thread_manager"
  arbiters :: "nat \<Rightarrow> nat list"
  ktiming :: timing
  timer_callback_table :: "nat \<rightharpoonup> nat"
  next_timer_callback_id :: nat
  reschedule_pending :: bool
  notifications :: "nat list"

definition upd_thread :: "nat \<Rightarrow> (thread \<Rightarrow> thread) \<Rightarrow> kernel \<Rightarrow> kernel" where
  "upd_thread t f k = k\<lparr>threads := (threads k)(t := f (threads k t))\<rparr>"

definition upd_wobj :: "nat \<Rightarrow> (wait_object \<Rightarrow> wait_object) \<Rightarrow> kernel \<Rightarrow> kernel" where
  "upd_wobj ob f k = k\<lparr>wobjs := (wobjs k)(ob := f (wobjs k ob))\<rparr>"

definition upd_kind :: "nat \<Rightarrow> object_kind \<Rightarrow> kernel \<Rightarrow> kernel" where
  "upd_kind ob x k = upd_wobj ob (\<lambda>w. w\<lparr>kind := x\<rparr>) k"

definition upd_manager :: "nat \<Rightarrow> (thread_manager \<Rightarrow> thread_manager) \<Rightarrow> kernel \<Rightarrow> kernel" where
  "upd_manager c f k = k\<lparr>managers := (managers k)(c := f (managers k c))\<rparr>"

definition upd_queue :: "nat \<Rightarrow> (nat ready_queue \<Rightarrow> nat ready_queue) \<Rightarrow> kernel \<Rightarrow> kernel" where
  "upd_queue c f k = upd_manager c (\<lambda>m. m\<lparr>ready_queue := f (ready_queue m)\<rparr>) k"

definition PrepareReschedule :: "kernel \<Rightarrow> kernel" where
  "PrepareReschedule k = k\<lparr>reschedule_pending := True\<rparr>"

text \<open>Steps over a list, one after the other.\<close>

fun steps :: "('a \<Rightarrow> 's \<Rightarrow> 's run) \<Rightarrow> 'a list \<Rightarrow> 's \<Rightarrow> 's run" where
  "steps f [] s = Some s"
| "steps f (x # xs) s = do { s' \<leftarrow> f x s; steps f xs s' }"

section \<open>Priorities\<close>

definition BoostPriority :: "nat \<Rightarrow> nat \<Rightarrow> kernel \<Rightarrow> kernel" where
  "BoostPriority t priority k =
     (let th = threads k t;
          k' = upd_queue (core_id th)
                 (if status th = Ready then move_between t (current_priority th) priority else prepare priority) k
      in upd_thread t (\<lambda>th. th\<lparr>current_priority := priority\<rparr>) k')"

definition priority_of_mutex :: "kernel \<Rightarrow> nat \<Rightarrow> nat" where
  "priority_of_mutex k ob = (case kind (wobjs k ob) of MutexObj m \<Rightarrow> mutex_priority m | _ \<Rightarrow> ThreadPrioLowest)"

definition best_held_priority :: "kernel \<Rightarrow> nat \<Rightarrow> nat" where
  "best_held_priority k t =
     fold (\<lambda>m best. if priority_of_mutex k m < best then priority_of_mutex k m else best)
       (held_mutexes (threads k t)) (nominal_priority (threads k t))"

definition Thread_UpdatePriority :: "nat \<Rightarrow> kernel \<Rightarrow> kernel" where
  "Thread_UpdatePriority t k = BoostPriority t (best_held_priority k t) k"

definition SetPriority :: "nat \<Rightarrow> nat \<Rightarrow> kernel \<Rightarrow> kernel run" where
  "SetPriority t priority k =
     do {
       assert_that (priority \<le> ThreadPrioLowest);
       Some (upd_thread t (\<lambda>th. th\<lparr>nominal_priority := priority\<rparr>) (BoostPriority t priority k))
     }"

definition best_waiting_priority :: "kernel \<Rightarrow> nat list \<Rightarrow> nat" where
  "best_waiting_priority k ts =
     fold (\<lambda>t best. if current_priority (threads k t) < best then current_priority (threads k t) else best)
       ts ThreadPrioLowest"

definition Mutex_UpdatePriority :: "nat \<Rightarrow> kernel \<Rightarrow> kernel" where
  "Mutex_UpdatePriority ob k =
     (case kind (wobjs k ob) of
        MutexObj m \<Rightarrow>
          (case holding_thread m of
             None \<Rightarrow> k
           | Some h \<Rightarrow>
               let best = best_waiting_priority k (waiting_threads (wobjs k ob)) in
               if best \<noteq> mutex_priority m
               then Thread_UpdatePriority h (upd_kind ob (MutexObj (m\<lparr>mutex_priority := best\<rparr>)) k)
               else k)
      | _ \<Rightarrow> k)"

section \<open>Waiting and acquiring\<close>

definition ShouldWait :: "kernel \<Rightarrow> nat \<Rightarrow> nat \<Rightarrow> bool" where
  "ShouldWait k ob t \<longleftrightarrow>
     (case kind (wobjs k ob) of
        MutexObj m \<Rightarrow> lock_count m > 0 \<and> Some t \<noteq> holding_thread m
      | SemaphoreObj s \<Rightarrow> available_count s \<le> 0
      | EventObj e \<Rightarrow> \<not> event_signaled e
      | TimerObj x \<Rightarrow> \<not> timer_signaled x
      | ThreadObj \<Rightarrow> status (threads k ob) \<noteq> Dead)"

definition Mutex_Acquire :: "nat \<Rightarrow> mutex \<Rightarrow> nat \<Rightarrow> kernel \<Rightarrow> kernel" where
  "Mutex_Acquire ob m t k =
     (if lock_count m = 0
      then
        let m' = m\<lparr>mutex_priority := current_priority (threads k t), holding_thread := Some t\<rparr>;
            k' = upd_thread t (\<lambda>th. th\<lparr>held_mutexes := insort_insert ob (held_mutexes th)\<rparr>) (upd_kind ob (MutexObj m') k)
        in upd_kind ob (MutexObj (m'\<lparr>lock_count := lock_count m + 1\<rparr>)) (PrepareReschedule (Thread_UpdatePriority t k'))
      else upd_kind ob (MutexObj (m\<lparr>lock_count := lock_count m + 1\<rparr>)) k)"

definition Acquire :: "nat \<Rightarrow> nat \<Rightarrow> kernel \<Rightarrow> kernel run" where
  "Acquire ob t k =
     (case kind (wobjs k ob) of
        MutexObj m \<Rightarrow> do { assert_that (\<not> ShouldWait k ob t); Some (Mutex_Acquire ob m t k) }
      | SemaphoreObj s \<Rightarrow>
          Some (if available_count s \<le> 0 then k
                else upd_kind ob (SemaphoreObj (s\<lparr>available_count := available_count s - 1\<rparr>)) k)
      | EventObj e \<Rightarrow>
          do {
            assert_that (\<not> ShouldWait k ob t);
            Some (if event_reset e = OneShot then upd_kind ob (EventObj (e\<lparr>event_signaled := False\<rparr>)) k else k)
          }
      | TimerObj x \<Rightarrow>
          do {
            assert_that (\<not> ShouldWait k ob t);
            Some (if timer_reset x = OneShot then upd_kind ob (TimerObj (x\<lparr>timer_signaled := False\<rparr>)) k else k)
          }
      | ThreadObj \<Rightarrow> do { assert_that (\<not> ShouldWait k ob t); Some k })"

definition is_mutex :: "kernel \<Rightarrow> nat \<Rightarrow> bool" where
  "is_mutex k ob \<longleftrightarrow> (case kind (wobjs k ob) of MutexObj _ \<Rightarrow> True | _ \<Rightarrow> False)"

text \<open>\<open>Mutex\<close> overrides the two operations on the list of waiting threads.\<close>

definition add_waiting :: "nat \<Rightarrow> nat \<Rightarrow> kernel \<Rightarrow> kernel" where
  "add_waiting ob t k =
     upd_wobj ob (\<lambda>w. if t \<in> set (waiting_threads w) then w
                     else w\<lparr>waiting_threads := waiting_threads w @ [t]\<rparr>) k"

definition remove_waiting :: "nat \<Rightarrow> nat \<Rightarrow> kernel \<Rightarrow> kernel" where
  "remove_waiting ob t k = upd_wobj ob (\<lambda>w. w\<lparr>waiting_threads := remove1 t (waiting_threads w)\<rparr>) k"

definition AddWaitingThread :: "nat \<Rightarrow> nat \<Rightarrow> kernel \<Rightarrow> kernel" where
  "AddWaitingThread ob t k =
     (if is_mutex k ob
      then Mutex_UpdatePriority ob
             (upd_thread t (\<lambda>th. th\<lparr>pending_mutexes := insort_insert ob (pending_mutexes th)\<rparr>) (add_waiting ob t k))
      else add_waiting ob t k)"

definition RemoveWaitingThread :: "nat \<Rightarrow> nat \<Rightarrow> kernel \<Rightarrow> kernel" where
  "RemoveWaitingThread ob t k =
     (if is_mutex k ob
      then Mutex_UpdatePriority ob
             (upd_thread t (\<lambda>th. th\<lparr>pending_mutexes := removeAll ob (pending_mutexes th)\<rparr>) (remove_waiting ob t k))
      else remove_waiting ob t k)"

section \<open>Waking up\<close>

definition IsSleepingOnWaitAll :: "kernel \<Rightarrow> nat \<Rightarrow> bool" where
  "IsSleepingOnWaitAll k t \<longleftrightarrow> status (threads k t) = WaitSynchAll"

definition ready_to_run :: "kernel \<Rightarrow> nat \<Rightarrow> bool" where
  "ready_to_run k t \<longleftrightarrow>
     (if status (threads k t) = WaitSynchAll
      then list_all (\<lambda>ob. \<not> ShouldWait k ob t) (wait_objects (threads k t)) else True)"

fun best_candidate :: "kernel \<Rightarrow> nat \<Rightarrow> nat list \<Rightarrow> nat option \<Rightarrow> nat \<Rightarrow> nat option run" where
  "best_candidate k ob [] candidate candidate_priority = Some candidate"
| "best_candidate k ob (t # ts) candidate candidate_priority =
     do {
       assert_that (status (threads k t) \<in> {WaitSynchAny, WaitSynchAll, WaitHleEvent});
       if current_priority (threads k t) \<ge> candidate_priority \<or> ShouldWait k ob t \<or> \<not> ready_to_run k t
       then best_candidate k ob ts candidate candidate_priority
       else best_candidate k ob ts (Some t) (current_priority (threads k t))
     }"

definition GetHighestPriorityReadyThread :: "nat \<Rightarrow> kernel \<Rightarrow> nat option run" where
  "GetHighestPriorityReadyThread ob k =
     best_candidate k ob (waiting_threads (wobjs k ob)) None (ThreadPrioLowest + 1)"

definition SetWaitSynchronizationResult :: "nat \<Rightarrow> u32 \<Rightarrow> kernel \<Rightarrow> kernel" where
  "SetWaitSynchronizationResult t result k = upd_thread t (\<lambda>th. th\<lparr>thread_ctx := (thread_ctx th)(0 := result)\<rparr>) k"

definition SetWaitSynchronizationOutput :: "nat \<Rightarrow> int \<Rightarrow> kernel \<Rightarrow> kernel" where
  "SetWaitSynchronizationOutput t output k =
     upd_thread t (\<lambda>th. th\<lparr>thread_ctx := (thread_ctx th)(1 := word_of_int output)\<rparr>) k"

text \<open>The last position of the object among those the thread waits for, -1 where it is not among them.\<close>

definition GetWaitObjectIndex :: "nat \<Rightarrow> nat \<Rightarrow> kernel \<Rightarrow> int run" where
  "GetWaitObjectIndex ob t k =
     (let os = wait_objects (threads k t) in
      do {
        assert_that (os \<noteq> []);
        Some (int (length (dropWhile (\<lambda>x. x \<noteq> ob) (rev os))) - 1)
      })"

definition SyncCallback_WakeUp :: "bool \<Rightarrow> ThreadWakeupReason \<Rightarrow> nat \<Rightarrow> nat \<Rightarrow> kernel \<Rightarrow> kernel run" where
  "SyncCallback_WakeUp do_output reason t ob k =
     (case reason of
        Reason_Timeout \<Rightarrow> Some (SetWaitSynchronizationResult t RESULT_TIMEOUT k)
      | Reason_Signal \<Rightarrow>
          let k' = SetWaitSynchronizationResult t RESULT_SUCCESS k in
          if do_output
          then do { i \<leftarrow> GetWaitObjectIndex ob t k'; Some (SetWaitSynchronizationOutput t i k') }
          else Some k')"

definition Arbiter_WakeUp :: "nat \<Rightarrow> ThreadWakeupReason \<Rightarrow> nat \<Rightarrow> kernel \<Rightarrow> kernel run" where
  "Arbiter_WakeUp a reason t k =
     do {
       assert_that (reason = Reason_Timeout);
       Some (k\<lparr>arbiters := (arbiters k)(a := removeAll t (arbiters k a))\<rparr>)
     }"

text \<open>The object is the one that was signaled; a timeout has none, and its callbacks do not ask for it.\<close>

definition WakeUp :: "ThreadWakeupReason \<Rightarrow> nat \<Rightarrow> nat \<Rightarrow> kernel \<Rightarrow> kernel run" where
  "WakeUp reason t ob k =
     (case wakeup_cb (threads k t) of
        None \<Rightarrow> Some k
      | Some (SVC_SyncCallback do_output) \<Rightarrow> SyncCallback_WakeUp do_output reason t ob k
      | Some (ArbiterCallback a) \<Rightarrow> Arbiter_WakeUp a reason t k)"

definition ResumeFromWait :: "nat \<Rightarrow> kernel \<Rightarrow> kernel run" where
  "ResumeFromWait t k =
     (let th = threads k t in
      do {
        assert_that (wait_objects th = []);
        if status th = Ready then do { assert_that (wakeup_cb th = None); Some k }
        else if status th = Running \<or> status th = Dead then Some k
        else
          Some (PrepareReschedule
                 (upd_thread t (\<lambda>th. th\<lparr>status := Ready\<rparr>)
                   (upd_queue (core_id th) (push_back (current_priority th) t)
                     (upd_thread t (\<lambda>th. th\<lparr>wakeup_cb := None\<rparr>) k))))
      })"

definition leave_wait_lists :: "nat \<Rightarrow> kernel \<Rightarrow> kernel" where
  "leave_wait_lists t k =
     upd_thread t (\<lambda>th. th\<lparr>wait_objects := []\<rparr>)
       (fold (\<lambda>ob. RemoveWaitingThread ob t) (wait_objects (threads k t)) k)"

definition wake_one :: "nat \<Rightarrow> nat \<Rightarrow> kernel \<Rightarrow> kernel run" where
  "wake_one ob t k =
     do {
       k1 \<leftarrow> (if \<not> IsSleepingOnWaitAll k t then Acquire ob t k
              else steps (\<lambda>x. Acquire x t) (wait_objects (threads k t)) k);
       k2 \<leftarrow> WakeUp Reason_Signal t ob k1;
       ResumeFromWait t (leave_wait_lists t k2)
     }"

partial_function (option) wakeup_loop :: "nat \<Rightarrow> kernel \<Rightarrow> kernel option" where
  "wakeup_loop ob k =
     Option.bind (GetHighestPriorityReadyThread ob k) (\<lambda>candidate.
       case candidate of
         None \<Rightarrow> Some k
       | Some t \<Rightarrow> Option.bind (wake_one ob t k) (wakeup_loop ob))"

definition base_WakeupAllWaitingThreads :: "nat \<Rightarrow> kernel \<Rightarrow> kernel run" where
  "base_WakeupAllWaitingThreads ob k =
     do {
       k' \<leftarrow> wakeup_loop ob k;
       Some (if hle_notifier (wobjs k' ob) then k'\<lparr>notifications := notifications k' @ [ob]\<rparr> else k')
     }"

text \<open>Events and timers override it to end a pulse.\<close>

definition end_pulse :: "nat \<Rightarrow> kernel \<Rightarrow> kernel" where
  "end_pulse ob k =
     (case kind (wobjs k ob) of
        EventObj e \<Rightarrow> if event_reset e = Pulse then upd_kind ob (EventObj (e\<lparr>event_signaled := False\<rparr>)) k else k
      | TimerObj x \<Rightarrow> if timer_reset x = Pulse then upd_kind ob (TimerObj (x\<lparr>timer_signaled := False\<rparr>)) k else k
      | _ \<Rightarrow> k)"

definition WakeupAllWaitingThreads :: "nat \<Rightarrow> kernel \<Rightarrow> kernel run" where
  "WakeupAllWaitingThreads ob k = do { k' \<leftarrow> base_WakeupAllWaitingThreads ob k; Some (end_pulse ob k') }"

end
