(* ===== verification/ThreadLocal.thy ===== *)
theory ThreadLocal
  imports MemoryMap
begin

text \<open>
  The thread-local storage of a process, \<open>core/hle/kernel/thread.cpp\<close>: pages of eight slots, one bit each; a
  thread takes the first free slot, and a new page where there is none. \<open>Stop\<close> finds the slot by the address.
\<close>

definition TLS_AREA_VADDR :: nat where "TLS_AREA_VADDR = 0x1FF82000"

definition TLS_ENTRY_SIZE :: nat where "TLS_ENTRY_SIZE = 0x200"

type_synonym tls_pages = "bool list list"

text \<open>The page, the slot, and whether a page has to be allocated.\<close>

definition GetFreeThreadLocalSlot :: "tls_pages \<Rightarrow> nat \<times> nat \<times> bool" where
  "GetFreeThreadLocalSlot slots =
     (case least_from (\<lambda>page. \<not> list_all id (slots ! page)) 0 (length slots) of
        None \<Rightarrow> (0, 0, True)
      | Some page \<Rightarrow>
          (case least_from (\<lambda>slot. \<not> slots ! page ! slot) 0 8 of
             None \<Rightarrow> (0, 0, True)
           | Some slot \<Rightarrow> (page, slot, False)))"

text \<open>\<open>new_page\<close> is the outcome of allocating a page: whether there was memory.\<close>

definition take_slot :: "bool \<Rightarrow> tls_pages \<Rightarrow> ((nat \<times> nat) \<times> tls_pages) option" where
  "take_slot new_page slots =
     (case GetFreeThreadLocalSlot slots of (page, slot, needs_allocation) \<Rightarrow>
        if needs_allocation \<and> \<not> new_page then None
        else
          let slots' = (if needs_allocation then slots @ [replicate 8 False] else slots);
              page' = (if needs_allocation then length slots' - 1 else page);
              slot' = (if needs_allocation then 0 else slot)
          in Some ((page', slot'), slots'[page' := (slots' ! page')[slot' := True]]))"

definition tls_slot_address :: "nat \<times> nat \<Rightarrow> nat" where
  "tls_slot_address ps = TLS_AREA_VADDR + fst ps * CITRA_PAGE_SIZE + snd ps * TLS_ENTRY_SIZE"

text \<open>The end of \<open>Stop\<close>.\<close>

definition release_slot :: "nat \<Rightarrow> tls_pages \<Rightarrow> tls_pages" where
  "release_slot address slots =
     (let page = (address - TLS_AREA_VADDR) div CITRA_PAGE_SIZE;
          slot = ((address - TLS_AREA_VADDR) mod CITRA_PAGE_SIZE) div TLS_ENTRY_SIZE
      in slots[page := (slots ! page)[slot := False]])"

definition slot_used :: "tls_pages \<Rightarrow> nat \<times> nat \<Rightarrow> bool" where
  "slot_used slots ps \<longleftrightarrow> fst ps < length slots \<and> snd ps < 8 \<and> slots ! fst ps ! snd ps"

definition pages_ok :: "tls_pages \<Rightarrow> bool" where
  "pages_ok slots \<longleftrightarrow> (\<forall>page \<in> set slots. length page = 8)"

lemma slots_apart:
  assumes "snd ps < 8" "snd qs < 8" "qs \<noteq> ps"
  shows "tls_slot_address qs + TLS_ENTRY_SIZE \<le> tls_slot_address ps \<or> tls_slot_address ps + TLS_ENTRY_SIZE \<le> tls_slot_address qs"
proof -
  define i where "i = (\<lambda>ps :: nat \<times> nat. 8 * fst ps + snd ps)"
  have a: "tls_slot_address ps = TLS_AREA_VADDR + TLS_ENTRY_SIZE * i ps" for ps
    by (simp add: tls_slot_address_def i_def TLS_ENTRY_SIZE_def CITRA_PAGE_SIZE_def)
  have "fst ps = i ps div 8" "snd ps = i ps mod 8" "fst qs = i qs div 8" "snd qs = i qs mod 8"
    using assms(1,2) by (simp_all add: i_def)
  then have "i ps \<noteq> i qs" using assms(3) by (metis prod_eq_iff)
  then have "i qs + 1 \<le> i ps \<or> i ps + 1 \<le> i qs" by linarith
  then show ?thesis by (auto simp: a TLS_ENTRY_SIZE_def)
qed

lemma free_slot:
  assumes ok: "pages_ok slots"
  shows "case GetFreeThreadLocalSlot slots of (page, slot, needs) \<Rightarrow>
    (needs \<longrightarrow> (\<forall>ps. fst ps < length slots \<longrightarrow> snd ps < 8 \<longrightarrow> slot_used slots ps)) \<and>
    (\<not> needs \<longrightarrow> page < length slots \<and> slot < 8 \<and> \<not> slots ! page ! slot)"
proof (cases "least_from (\<lambda>page. \<not> list_all id (slots ! page)) 0 (length slots)")
  case None
  then have "slots ! fst ps ! snd ps" if "fst ps < length slots" "snd ps < 8" for ps
    using that ok by (auto simp: least_from_None list_all_length pages_ok_def)
  then show ?thesis using None by (simp add: GetFreeThreadLocalSlot_def slot_used_def)
next
  case (Some page)
  note p = least_from_SomeD [OF Some]
  then have len: "length (slots ! page) = 8" using ok by (simp add: pages_ok_def)
  then obtain i where "i < 8" "\<not> slots ! page ! i" using p(3) by (auto simp: list_all_length)
  then obtain slot where "least_from (\<lambda>slot. \<not> slots ! page ! slot) 0 8 = Some slot"
    by (cases "least_from (\<lambda>slot. \<not> slots ! page ! slot) 0 8") (auto simp: least_from_None)
  then show ?thesis using Some p least_from_SomeD [of _ 0 8 slot] by (auto simp: GetFreeThreadLocalSlot_def)
qed

lemma slot_used_update:
  assumes "pages_ok slots" "page < length slots" "slot < 8"
  shows "slot_used (slots[page := (slots ! page)[slot := b]]) ps =
    (if ps = (page, slot) then b else slot_used slots ps)"
proof -
  have "length (slots ! page) = 8" using assms(1,2) by (simp add: pages_ok_def)
  with assms show ?thesis by (cases ps) (auto simp: slot_used_def nth_list_update)
qed

lemma pages_ok_update:
  "pages_ok slots \<Longrightarrow> page < length slots \<Longrightarrow> pages_ok (slots[page := (slots ! page)[slot := b]])"
  using set_update_subset_insert by (fastforce simp: pages_ok_def)

lemma take_slot_spec:
  assumes ok: "pages_ok slots" and t: "take_slot new_page slots = Some (ps, slots')"
  shows "pages_ok slots'" "\<not> slot_used slots ps" "snd ps < 8"
    "slot_used slots' qs \<longleftrightarrow> qs = ps \<or> slot_used slots qs"
proof -
  obtain page slot needs where g: "GetFreeThreadLocalSlot slots = (page, slot, needs)" by (cases "GetFreeThreadLocalSlot slots")
  have *: "pages_ok slots' \<and> \<not> slot_used slots ps \<and> snd ps < 8 \<and> (slot_used slots' qs \<longleftrightarrow> qs = ps \<or> slot_used slots qs)"
  proof (cases needs)
    case False
    then have s: "page < length slots" "slot < 8" "\<not> slots ! page ! slot" using free_slot [OF ok] g by auto
    moreover have "ps = (page, slot)" "slots' = slots[page := (slots ! page)[slot := True]]"
      using t g False by (auto simp: take_slot_def Let_def)
    ultimately show ?thesis
      using slot_used_update [OF ok s(1,2)] pages_ok_update [OF ok s(1)] by (auto simp: slot_used_def)
  next
    case True
    let ?slots = "slots @ [replicate 8 False]"
    have ok': "pages_ok ?slots" using ok by (auto simp: pages_ok_def)
    have eq: "ps = (length slots, 0)" "slots' = ?slots[length slots := (?slots ! length slots)[0 := True]]"
      using t g True by (auto simp: take_slot_def Let_def split: if_splits)
    have len: "length slots < length ?slots" by simp
    have "slot_used ?slots qs = slot_used slots qs"
      by (auto simp: slot_used_def nth_append nth_Cons split: nat.splits)
    then show ?thesis
      using slot_used_update [OF ok' len, of 0 True] pages_ok_update [OF ok' len] by (simp add: eq) (simp add: slot_used_def)
  qed
  then show "pages_ok slots'" "\<not> slot_used slots ps" "snd ps < 8"
    "slot_used slots' qs \<longleftrightarrow> qs = ps \<or> slot_used slots qs" by blast+
qed

lemma release_slot_spec:
  assumes "pages_ok slots" "slot_used slots ps"
  shows "slot_used (release_slot (tls_slot_address ps) slots) qs \<longleftrightarrow> qs \<noteq> ps \<and> slot_used slots qs"
    "pages_ok (release_slot (tls_slot_address ps) slots)"
proof -
  obtain page slot where ps: "ps = (page, slot)" by (cases ps)
  with assms(2) have b: "page < length slots" "slot < 8" by (simp_all add: slot_used_def)
  have r: "release_slot (tls_slot_address ps) slots = slots[page := (slots ! page)[slot := False]]"
    using b by (simp add: release_slot_def tls_slot_address_def ps CITRA_PAGE_SIZE_def TLS_ENTRY_SIZE_def Let_def)
  show "slot_used (release_slot (tls_slot_address ps) slots) qs \<longleftrightarrow> qs \<noteq> ps \<and> slot_used slots qs"
    using slot_used_update [OF assms(1) b] unfolding r unfolding ps by simp
  show "pages_ok (release_slot (tls_slot_address ps) slots)"
    unfolding r by (rule pages_ok_update [OF assms(1) b(1)])
qed

section \<open>Properties\<close>

text \<open>C36: A thread gets a slot that no thread uses, whose storage overlaps that of no thread in use, and what
  \<open>Stop\<close> computes from the address of the storage frees that slot and no other: afterwards the slots in use
  are those from before the thread was created.\<close>

theorem tls_exclusive:
  assumes "pages_ok slots" "take_slot new_page slots = Some (ps, slots')"
  shows "(\<forall>qs. slot_used slots qs \<longrightarrow>
      tls_slot_address qs + TLS_ENTRY_SIZE \<le> tls_slot_address ps \<or> tls_slot_address ps + TLS_ENTRY_SIZE \<le> tls_slot_address qs) \<and>
    (\<forall>qs. slot_used (release_slot (tls_slot_address ps) slots') qs = slot_used slots qs)"
proof -
  note t = take_slot_spec [OF assms]
  have "tls_slot_address qs + TLS_ENTRY_SIZE \<le> tls_slot_address ps \<or> tls_slot_address ps + TLS_ENTRY_SIZE \<le> tls_slot_address qs"
    if "slot_used slots qs" for qs
  proof -
    have "qs \<noteq> ps" "snd qs < 8" using that t(2) by (auto simp: slot_used_def)
    then show ?thesis using slots_apart t(3) by blast
  qed
  moreover have "slot_used slots' ps" using t(4) by simp
  then have "slot_used (release_slot (tls_slot_address ps) slots') qs = slot_used slots qs" for qs
    using release_slot_spec(1) [OF t(1)] t(2,4) by auto
  ultimately show ?thesis by blast
qed

theorem tls_exclusive_witness:
  "take_slot False [replicate 8 True, (replicate 8 True)[3 := False]] = Some ((1, 3), [replicate 8 True, replicate 8 True]) \<and>
   tls_slot_address (1, 2) + TLS_ENTRY_SIZE \<le> tls_slot_address (1, 3)"
proof -
  have t: "take_slot False [replicate 8 True, (replicate 8 True)[3 := False]] = Some ((1, 3), [replicate 8 True, replicate 8 True])"
    by code_simp
  have ok: "pages_ok [replicate 8 True, (replicate 8 True)[3 := False]]" by (simp add: pages_ok_def)
  have "slot_used [replicate 8 True, (replicate 8 True)[3 := False]] (1, 2)" by code_simp
  with tls_exclusive [OF ok t] t show ?thesis
    by (auto simp: tls_slot_address_def TLS_ENTRY_SIZE_def)
qed

end
