(* ===== verification/KernelCalls.thy ===== *)
theory KernelCalls
  imports KernelObjects ThreadLocal
begin

text \<open>
  The operations on synchronization objects (\<open>mutex.cpp\<close>, \<open>semaphore.cpp\<close>, \<open>event.cpp\<close>, \<open>timer.cpp\<close>), on
  threads and the scheduler (\<open>thread.cpp\<close>), and the system calls that wait (\<open>svc.cpp\<close>), over the state of
  \<open>KernelObjects\<close>. A handle is looked up by a function of the caller; \<open>None\<close> is a null pointer.
\<close>

section \<open>Mutexes\<close>

definition new_wait_object :: "object_kind \<Rightarrow> wait_object" where
  "new_wait_object x = \<lparr>waiting_threads = [], hle_notifier = False, kind = x\<rparr>"

text \<open>An object is created at a number that is not in use.\<close>

definition CreateMutex :: "nat \<Rightarrow> nat option \<Rightarrow> kernel \<Rightarrow> kernel run" where
  "CreateMutex ob initial_locked_by k =
     (let k' = upd_wobj ob (\<lambda>_. new_wait_object
                  (MutexObj \<lparr>lock_count = 0, mutex_priority = 0, holding_thread = None\<rparr>)) k
      in case initial_locked_by of None \<Rightarrow> Some k' | Some t \<Rightarrow> Acquire ob t k')"

definition Mutex_Release :: "nat \<Rightarrow> mutex \<Rightarrow> nat \<Rightarrow> kernel \<Rightarrow> (u32 \<times> kernel) run" where
  "Mutex_Release ob m t k =
     (if holding_thread m \<noteq> Some t then Some (wrong_locking_thread, k)
      else if lock_count m \<le> 0 then Some (mutex_not_locked, k)
      else
        let m1 = m\<lparr>lock_count := lock_count m - 1\<rparr>; k1 = upd_kind ob (MutexObj m1) k in
        if lock_count m1 = 0
        then
          let k2 = upd_thread t (\<lambda>th. th\<lparr>held_mutexes := removeAll ob (held_mutexes th)\<rparr>) k1;
              k3 = Thread_UpdatePriority t k2
          in do {
               k4 \<leftarrow> WakeupAllWaitingThreads ob (upd_kind ob (MutexObj (m1\<lparr>holding_thread := None\<rparr>)) k3);
               Some (RESULT_SUCCESS, PrepareReschedule k4)
             }
        else Some (RESULT_SUCCESS, k1))"

definition release_for_exit :: "nat \<Rightarrow> kernel \<Rightarrow> kernel run" where
  "release_for_exit ob k =
     WakeupAllWaitingThreads ob
       (case kind (wobjs k ob) of
          MutexObj m \<Rightarrow> upd_kind ob (MutexObj (m\<lparr>lock_count := 0, holding_thread := None\<rparr>)) k
        | _ \<Rightarrow> k)"

definition ReleaseThreadMutexes :: "nat \<Rightarrow> kernel \<Rightarrow> kernel run" where
  "ReleaseThreadMutexes t k =
     do {
       k' \<leftarrow> steps release_for_exit (held_mutexes (threads k t)) k;
       Some (upd_thread t (\<lambda>th. th\<lparr>held_mutexes := []\<rparr>) k')
     }"

section \<open>Semaphores\<close>

text \<open>The arithmetic of \<open>s32\<close>, where an overflow is undefined.\<close>

definition s32 :: "int \<Rightarrow> int run" where
  "s32 x = do { assert_that (- (2 ^ 31) \<le> x \<and> x < 2 ^ 31); Some x }"

definition CreateSemaphore :: "nat \<Rightarrow> int \<Rightarrow> int \<Rightarrow> kernel \<Rightarrow> (u32 + unit) \<times> kernel" where
  "CreateSemaphore ob initial_count maximum k =
     (if initial_count > maximum then (Inl ERR_INVALID_COMBINATION_KERNEL, k)
      else (Inr (), upd_wobj ob (\<lambda>_. new_wait_object
              (SemaphoreObj \<lparr>max_count = maximum, available_count = initial_count\<rparr>)) k))"

definition Semaphore_Release :: "nat \<Rightarrow> semaphore \<Rightarrow> int \<Rightarrow> kernel \<Rightarrow> ((u32 + int) \<times> kernel) run" where
  "Semaphore_Release ob s release_count k =
     do {
       room \<leftarrow> s32 (max_count s - available_count s);
       if room < release_count then Some (Inl ERR_OUT_OF_RANGE_KERNEL, k)
       else
         do {
           n \<leftarrow> s32 (available_count s + release_count);
           k' \<leftarrow> WakeupAllWaitingThreads ob (upd_kind ob (SemaphoreObj (s\<lparr>available_count := n\<rparr>)) k);
           Some (Inr (available_count s), k')
         }
     }"

section \<open>Events\<close>

definition CreateEvent :: "nat \<Rightarrow> ResetType \<Rightarrow> kernel \<Rightarrow> kernel" where
  "CreateEvent ob reset k =
     upd_wobj ob (\<lambda>_. new_wait_object (EventObj \<lparr>event_reset = reset, event_signaled = False\<rparr>)) k"

definition Event_Signal :: "nat \<Rightarrow> event_object \<Rightarrow> kernel \<Rightarrow> kernel run" where
  "Event_Signal ob e k = WakeupAllWaitingThreads ob (upd_kind ob (EventObj (e\<lparr>event_signaled := True\<rparr>)) k)"

definition Event_Clear :: "nat \<Rightarrow> event_object \<Rightarrow> kernel \<Rightarrow> kernel" where
  "Event_Clear ob e k = upd_kind ob (EventObj (e\<lparr>event_signaled := False\<rparr>)) k"

section \<open>Timers\<close>

definition timer_callback_type :: string where "timer_callback_type = ''TimerCallback''"

definition CreateTimer :: "nat \<Rightarrow> ResetType \<Rightarrow> kernel \<Rightarrow> kernel" where
  "CreateTimer ob reset k =
     (let n = Suc (next_timer_callback_id k);
          x = \<lparr>timer_reset = reset, timer_signaled = False, initial_delay = 0, interval_delay = 0, callback_id = n\<rparr>
      in upd_wobj ob (\<lambda>_. new_wait_object (TimerObj x))
           (k\<lparr>next_timer_callback_id := n, timer_callback_table := (timer_callback_table k)(n \<mapsto> ob)\<rparr>))"

definition Timer_Cancel :: "timer_object \<Rightarrow> kernel \<Rightarrow> kernel" where
  "Timer_Cancel x k = k\<lparr>ktiming := UnscheduleEvent timer_callback_type (callback_id x) (ktiming k)\<rparr>"

definition schedule :: "int \<Rightarrow> string \<Rightarrow> nat \<Rightarrow> kernel \<Rightarrow> kernel run" where
  "schedule cycles event_type data k =
     do { T \<leftarrow> ScheduleEvent cycles event_type data None (ktiming k); Some (k\<lparr>ktiming := T\<rparr>) }"

definition Timer_Signal :: "nat \<Rightarrow> timer_object \<Rightarrow> int \<Rightarrow> kernel \<Rightarrow> kernel run" where
  "Timer_Signal ob x cycles_late k =
     do {
       k' \<leftarrow> WakeupAllWaitingThreads ob (upd_kind ob (TimerObj (x\<lparr>timer_signaled := True\<rparr>)) k);
       if interval_delay x \<noteq> 0
       then schedule (sint (nsToCycles_u64 (interval_delay x)) - cycles_late) timer_callback_type (callback_id x) k'
       else Some k'
     }"

definition Timer_Set :: "nat \<Rightarrow> timer_object \<Rightarrow> u64 \<Rightarrow> u64 \<Rightarrow> kernel \<Rightarrow> kernel run" where
  "Timer_Set ob x initial interval k =
     (let x' = x\<lparr>initial_delay := initial, interval_delay := interval\<rparr>;
          k' = upd_kind ob (TimerObj x') (Timer_Cancel x k)
      in if initial = 0 then Timer_Signal ob x' 0 k'
         else schedule (sint (nsToCycles initial)) timer_callback_type (callback_id x) k')"

definition Timer_Clear :: "nat \<Rightarrow> timer_object \<Rightarrow> kernel \<Rightarrow> kernel" where
  "Timer_Clear ob x k = upd_kind ob (TimerObj (x\<lparr>timer_signaled := False\<rparr>)) k"

definition TimerCallback :: "nat \<Rightarrow> int \<Rightarrow> kernel \<Rightarrow> kernel run" where
  "TimerCallback cb_id cycles_late k =
     do {
       ob \<leftarrow> timer_callback_table k cb_id;
       case kind (wobjs k ob) of TimerObj x \<Rightarrow> Timer_Signal ob x cycles_late k | _ \<Rightarrow> None
     }"

section \<open>Threads\<close>

text \<open>The event type of the wakeups of one core.\<close>

definition thread_wakeup_type :: "nat \<Rightarrow> string" where
  "thread_wakeup_type core = ''ThreadWakeupCallback_'' @ [char_of (48 + core)]"

definition WakeAfterDelay :: "nat \<Rightarrow> u64 \<Rightarrow> kernel \<Rightarrow> kernel run" where
  "WakeAfterDelay t nanoseconds k =
     (if nanoseconds = - 1 then Some k
      else schedule (sint (nsToCycles nanoseconds)) (thread_wakeup_type (core_id (threads k t)))
             (thread_id (threads k t)) k)"

definition ThreadWakeupCallback :: "nat \<Rightarrow> nat \<Rightarrow> kernel \<Rightarrow> kernel run" where
  "ThreadWakeupCallback core tid k =
     do {
       t \<leftarrow> wakeup_callback_table (managers k core) tid;
       if status (threads k t) \<in> {WaitSynchAny, WaitSynchAll, WaitArb, WaitHleEvent}
       then do { k' \<leftarrow> WakeUp Reason_Timeout t 0 k; ResumeFromWait t (leave_wait_lists t k') }
       else ResumeFromWait t k
     }"

text \<open>The slot of the thread's local storage that \<open>Stop\<close> frees belongs to its process and is left out.\<close>

definition Stop :: "nat \<Rightarrow> kernel \<Rightarrow> kernel run" where
  "Stop t k =
     (let th = threads k t; c = core_id th;
          k1 = k\<lparr>ktiming := UnscheduleEvent (thread_wakeup_type c) (thread_id th) (ktiming k)\<rparr>;
          k2 = upd_manager c (\<lambda>m. m\<lparr>wakeup_callback_table := (wakeup_callback_table m)(thread_id th := None)\<rparr>) k1;
          k3 = (if status th = Ready then upd_queue c (remove_from (current_priority th) t) k2 else k2)
      in do {
           k4 \<leftarrow> WakeupAllWaitingThreads t (upd_thread t (\<lambda>th. th\<lparr>status := Dead\<rparr>) k3);
           ReleaseThreadMutexes t (leave_wait_lists t k4)
         })"

definition ExitCurrentThread :: "nat \<Rightarrow> kernel \<Rightarrow> kernel run" where
  "ExitCurrentThread core k =
     do {
       t \<leftarrow> current_thread (managers k core);
       k' \<leftarrow> Stop t k;
       Some (upd_manager core (\<lambda>m. m\<lparr>thread_list := removeAll t (thread_list m)\<rparr>) k')
     }"

definition WaitCurrentThread_Sleep :: "nat \<Rightarrow> kernel \<Rightarrow> kernel run" where
  "WaitCurrentThread_Sleep core k =
     do { t \<leftarrow> current_thread (managers k core); Some (upd_thread t (\<lambda>th. th\<lparr>status := WaitSleep\<rparr>) k) }"

section \<open>Creating threads\<close>

text \<open>Registers 0 to 15 are those of the CPU; the one after them is the CPSR.\<close>

definition ResetThreadContext :: "u32 \<Rightarrow> u32 \<Rightarrow> u32 \<Rightarrow> thread_context" where
  "ResetThreadContext stack_top entry_point arg =
     ((\<lambda>_. 0) :: thread_context)(0 := arg, 15 := entry_point, 13 := stack_top,
        16 := 0x10 OR push_bit 5 (entry_point AND 1))"

definition dormant_thread ::
  "nat \<Rightarrow> nat \<Rightarrow> nat \<Rightarrow> int \<Rightarrow> nat \<Rightarrow> thread" where
  "dormant_thread tid priority core ticks process =
     \<lparr>thread_ctx = (\<lambda>_. 0), thread_id = tid, can_schedule = True, status = Dormant, nominal_priority = priority,
      current_priority = priority, last_running_ticks = ticks, tls_address = 0, held_mutexes = [],
      pending_mutexes = [], owner_process = Some process, wait_objects = [], wait_address = 0, wakeup_cb = None,
      core_id = core\<rparr>"

text \<open>The thread's number in the model is \<open>t\<close>, its thread id \<open>tid\<close>; whether the entry point is mapped and the
  address of the local storage (none where there is no memory for it) are the parts of the process that the
  call uses.\<close>

definition CreateThread ::
  "nat \<Rightarrow> nat \<Rightarrow> nat \<Rightarrow> bool \<Rightarrow> nat option \<Rightarrow> u32 \<Rightarrow> nat \<Rightarrow> u32 \<Rightarrow> int \<Rightarrow> u32 \<Rightarrow> nat \<Rightarrow> kernel \<Rightarrow>
   ((u32 + unit) \<times> kernel) run" where
  "CreateThread cores t tid entry_valid tls entry_point priority arg processor_id stack_top process k =
     (if priority > ThreadPrioLowest then Some (Inl ERR_OUT_OF_RANGE, k)
      else if processor_id > 4 then Some (Inl ERR_OUT_OF_RANGE_KERNEL, k)
      else if \<not> entry_valid
      then Some (Inl (result_code Desc_InvalidAddress Module_Kernel Sum_InvalidArgument Level_Permanent), k)
      else do {
        assert_that (0 \<le> processor_id \<and> processor_id < int cores);
        let c = nat processor_id;
        let th = dormant_thread tid priority c (Timer_GetTicks (timers (ktiming k) ! c)) process;
        let k1 = upd_manager c (\<lambda>m. m\<lparr>thread_list := thread_list m @ [t], ready_queue := prepare priority (ready_queue m),
                                       wakeup_callback_table := (wakeup_callback_table m)(tid \<mapsto> t)\<rparr>) k;
        let k2 = upd_wobj t (\<lambda>_. new_wait_object ThreadObj) (upd_thread t (\<lambda>_. th) k1);
        case tls of
          None \<Rightarrow> Some (Inl ERR_OUT_OF_MEMORY, k2)
        | Some address \<Rightarrow>
            Some (Inr (),
              upd_thread t (\<lambda>th. th\<lparr>status := Ready\<rparr>)
                (upd_queue c (push_back priority t)
                  (upd_thread t (\<lambda>th. th\<lparr>tls_address := address,
                                          thread_ctx := ResetThreadContext stack_top entry_point arg\<rparr>) k2)))
      })"

section \<open>The scheduler\<close>

text \<open>The context of the CPU moves to the thread that ran, and the other way.\<close>

definition leave_thread :: "nat \<Rightarrow> nat \<Rightarrow> kernel \<Rightarrow> kernel" where
  "leave_thread core p k =
     (let k1 = upd_thread p (\<lambda>th. th\<lparr>last_running_ticks := Timer_GetTicks (timers (ktiming k) ! core),
                                     thread_ctx := cpu_context (managers k core)\<rparr>) k
      in if status (threads k p) = Running
         then upd_thread p (\<lambda>th. th\<lparr>status := Ready\<rparr>)
                (upd_queue core (push_front (current_priority (threads k p)) p) k1)
         else k1)"

definition enter_thread :: "nat \<Rightarrow> nat option \<Rightarrow> nat \<Rightarrow> kernel \<Rightarrow> kernel run" where
  "enter_thread core previous_process t k =
     do {
       assert_that (status (threads k t) = Ready);
       let k1 = k\<lparr>ktiming := UnscheduleEvent (thread_wakeup_type core) (thread_id (threads k t)) (ktiming k)\<rparr>;
       let k2 = upd_manager core (\<lambda>m. m\<lparr>current_thread := Some t\<rparr>) k1;
       let k3 = upd_queue core (remove_from (current_priority (threads k t)) t) k2;
       let k4 = upd_thread t (\<lambda>th. th\<lparr>status := Running\<rparr>) k3;
       process \<leftarrow> owner_process (threads k t);
       let k5 = (if previous_process \<noteq> Some process
                 then upd_manager core (\<lambda>m. m\<lparr>current_process := Some process\<rparr>) k4 else k4);
       Some (upd_manager core (\<lambda>m. m\<lparr>cpu_context := thread_ctx (threads k t),
                                       thread_uro := tls_address (threads k t)\<rparr>) k5)
     }"

definition SwitchContext :: "nat \<Rightarrow> nat option \<Rightarrow> kernel \<Rightarrow> kernel run" where
  "SwitchContext core new_thread k =
     (let previous = current_thread (managers k core);
          previous_process = Option.bind previous (\<lambda>p. owner_process (threads k p));
          k' = (case previous of None \<Rightarrow> k | Some p \<Rightarrow> leave_thread core p k)
      in case new_thread of
           Some t \<Rightarrow> enter_thread core previous_process t k'
         | None \<Rightarrow> Some (upd_manager core (\<lambda>m. m\<lparr>current_thread := None\<rparr>) k'))"

text \<open>The loops of \<open>PopNextReadyThread\<close>: threads that cannot be scheduled are set aside.\<close>

partial_function (option) pop_better ::
  "(nat \<Rightarrow> bool) \<Rightarrow> nat \<Rightarrow> nat ready_queue \<Rightarrow> nat list \<Rightarrow> (nat option \<times> nat ready_queue \<times> nat list) option" where
  "pop_better schedulable priority q aside =
     Option.bind (pop_first_better priority q) (\<lambda>(r, q').
       case r of
         None \<Rightarrow> Some (None, q', aside)
       | Some t \<Rightarrow> if schedulable t then Some (Some t, q', aside)
                   else pop_better schedulable priority q' (aside @ [t]))"

partial_function (option) pop_any ::
  "(nat \<Rightarrow> bool) \<Rightarrow> nat ready_queue \<Rightarrow> nat list \<Rightarrow> (nat option \<times> nat ready_queue \<times> nat list) option" where
  "pop_any schedulable q aside =
     Option.bind (pop_first q) (\<lambda>(r, q').
       case r of
         None \<Rightarrow> Some (None, q', aside)
       | Some t \<Rightarrow> if schedulable t then Some (Some t, q', aside) else pop_any schedulable q' (aside @ [t]))"

definition push_aside :: "kernel \<Rightarrow> nat list \<Rightarrow> nat ready_queue \<Rightarrow> nat ready_queue" where
  "push_aside k aside q = fold (\<lambda>t. push_back (current_priority (threads k t)) t) (rev aside) q"

definition PopNextReadyThread :: "nat \<Rightarrow> kernel \<Rightarrow> (nat option \<times> kernel) run" where
  "PopNextReadyThread core k =
     (let q = ready_queue (managers k core);
          finish = (\<lambda>r q aside. (r, upd_queue core (\<lambda>_. push_aside k aside q) k))
      in case current_thread (managers k core) of
           Some t \<Rightarrow>
             if status (threads k t) = Running
             then do {
               (r, q', aside) \<leftarrow> pop_better (\<lambda>t. can_schedule (threads k t)) (current_priority (threads k t)) q [];
               Some (finish (case r of None \<Rightarrow> Some t | Some n \<Rightarrow> Some n) q' aside)
             }
             else do { (r, q', aside) \<leftarrow> pop_any (\<lambda>t. can_schedule (threads k t)) q []; Some (finish r q' aside) }
         | None \<Rightarrow>
             do { (r, q', aside) \<leftarrow> pop_any (\<lambda>t. can_schedule (threads k t)) q []; Some (finish r q' aside) })"

definition HaveReadyThreads :: "nat \<Rightarrow> kernel \<Rightarrow> bool run" where
  "HaveReadyThreads core k = map_option (\<lambda>r. r \<noteq> None) (get_first (ready_queue (managers k core)))"

definition Reschedule :: "nat \<Rightarrow> kernel \<Rightarrow> kernel run" where
  "Reschedule core k =
     do {
       (nxt, k') \<leftarrow> PopNextReadyThread core k;
       if current_thread (managers k core) = None \<and> nxt = None then Some k' else SwitchContext core nxt k'
     }"

section \<open>System calls\<close>

text \<open>The part that the waiting calls share: put the thread to sleep until one of its objects, or the
  timeout, wakes it.\<close>

definition go_to_sleep :: "nat \<Rightarrow> nat \<Rightarrow> nat list \<Rightarrow> ThreadStatus \<Rightarrow> u64 \<Rightarrow> bool \<Rightarrow> kernel \<Rightarrow> kernel run" where
  "go_to_sleep core t obs st nano_seconds do_output k =
     do {
       let k1 = upd_thread t (\<lambda>th. th\<lparr>status := st\<rparr>) k;
       let k2 = fold (\<lambda>ob. AddWaitingThread ob t) obs k1;
       let k3 = upd_thread t (\<lambda>th. th\<lparr>wait_objects := obs\<rparr>) k2;
       k4 \<leftarrow> WakeAfterDelay t nano_seconds k3;
       Some (PrepareReschedule (upd_thread t (\<lambda>th. th\<lparr>wakeup_cb := Some (SVC_SyncCallback do_output)\<rparr>) k4))
     }"

text \<open>\<open>WaitSynchronization1\<close> sets the objects before and the status after it adds the thread to the list.\<close>

definition WaitSynchronization1 ::
  "nat \<Rightarrow> (u32 \<Rightarrow> nat option) \<Rightarrow> u32 \<Rightarrow> u64 \<Rightarrow> kernel \<Rightarrow> (u32 \<times> kernel) run" where
  "WaitSynchronization1 core lookup_handle handle nano_seconds k =
     (case lookup_handle handle of
        None \<Rightarrow> Some (ERR_INVALID_HANDLE, k)
      | Some ob \<Rightarrow>
          do {
            t \<leftarrow> current_thread (managers k core);
            if ShouldWait k ob t
            then
              if nano_seconds = 0 then Some (RESULT_TIMEOUT, k)
              else do {
                let k1 = upd_thread t (\<lambda>th. th\<lparr>wait_objects := [ob]\<rparr>) k;
                let k2 = AddWaitingThread ob t k1;
                let k3 = upd_thread t (\<lambda>th. th\<lparr>status := WaitSynchAny\<rparr>) k2;
                k4 \<leftarrow> WakeAfterDelay t nano_seconds k3;
                Some (RESULT_TIMEOUT,
                      PrepareReschedule (upd_thread t (\<lambda>th. th\<lparr>wakeup_cb := Some (SVC_SyncCallback False)\<rparr>) k4))
              }
            else do { k' \<leftarrow> Acquire ob t k; Some (RESULT_SUCCESS, k') }
          })"

text \<open>The handles that \<open>WaitSynchronizationN\<close> reads from the memory of the guest are an argument, as is
  whether their address is valid; the result is the code, and the output where one is written.\<close>

fun lookup_all :: "(u32 \<Rightarrow> nat option) \<Rightarrow> u32 list \<Rightarrow> nat list option" where
  "lookup_all lookup_handle [] = Some []"
| "lookup_all lookup_handle (h # hs) =
     do { ob \<leftarrow> lookup_handle h; obs \<leftarrow> lookup_all lookup_handle hs; Some (ob # obs) }"

definition WaitSynchronizationN ::
  "nat \<Rightarrow> (u32 \<Rightarrow> nat option) \<Rightarrow> bool \<Rightarrow> int \<Rightarrow> (nat \<Rightarrow> u32) \<Rightarrow> bool \<Rightarrow> u64 \<Rightarrow> kernel \<Rightarrow>
   (u32 \<times> int option \<times> kernel) run" where
  "WaitSynchronizationN core lookup_handle address_valid handle_count handles wait_all nano_seconds k =
     do {
       t \<leftarrow> current_thread (managers k core);
       if \<not> address_valid then Some (ERR_INVALID_POINTER, None, k)
       else if handle_count < 0 then Some (ERR_OUT_OF_RANGE, None, k)
       else case lookup_all lookup_handle (map handles [0..<nat handle_count]) of
         None \<Rightarrow> Some (ERR_INVALID_HANDLE, None, k)
       | Some obs \<Rightarrow>
           if wait_all
           then
             if list_all (\<lambda>ob. \<not> ShouldWait k ob t) obs
             then do { k' \<leftarrow> steps (\<lambda>ob. Acquire ob t) obs k; Some (RESULT_SUCCESS, None, k') }
             else if nano_seconds = 0 then Some (RESULT_TIMEOUT, None, k)
             else do { k' \<leftarrow> go_to_sleep core t obs WaitSynchAll nano_seconds False k;
                       Some (RESULT_TIMEOUT, Some (- 1), k') }
           else
             case least_from (\<lambda>i. \<not> ShouldWait k (obs ! i) t) 0 (length obs) of
               Some i \<Rightarrow> do { k' \<leftarrow> Acquire (obs ! i) t k; Some (RESULT_SUCCESS, Some (int i), k') }
             | None \<Rightarrow>
                 if nano_seconds = 0 then Some (RESULT_TIMEOUT, None, k)
                 else do { k' \<leftarrow> go_to_sleep core t obs WaitSynchAny nano_seconds True k;
                           Some (RESULT_TIMEOUT, Some (- 1), k') }
     }"

definition SVC_SetThreadPriority :: "nat \<Rightarrow> nat option \<Rightarrow> nat \<Rightarrow> kernel \<Rightarrow> (u32 \<times> kernel) run" where
  "SVC_SetThreadPriority limit thread priority k =
     (if priority > ThreadPrioLowest then Some (ERR_OUT_OF_RANGE, k)
      else case thread of
        None \<Rightarrow> Some (ERR_INVALID_HANDLE, k)
      | Some t \<Rightarrow>
          if limit > priority then Some (ERR_NOT_AUTHORIZED, k)
          else do {
            k1 \<leftarrow> SetPriority t priority k;
            let k2 = Thread_UpdatePriority t k1;
            Some (RESULT_SUCCESS, PrepareReschedule (fold Mutex_UpdatePriority (pending_mutexes (threads k2 t)) k2))
          })"

definition SleepThread :: "nat \<Rightarrow> u64 \<Rightarrow> kernel \<Rightarrow> kernel run" where
  "SleepThread core nanoseconds k =
     do {
       some_ready \<leftarrow> (if nanoseconds = 0 then HaveReadyThreads core k else Some True);
       if nanoseconds = 0 \<and> \<not> some_ready then Some k
       else do {
         k1 \<leftarrow> WaitCurrentThread_Sleep core k;
         t \<leftarrow> current_thread (managers k1 core);
         k2 \<leftarrow> WakeAfterDelay t nanoseconds k1;
         Some (PrepareReschedule k2)
       }
     }"

end
