(* ===== verification/KernelInvariant.thy ===== *)
theory KernelInvariant
  imports KernelCalls
begin

text \<open>
  The invariants of threads and the objects they wait for, and what the helper operations of
  \<open>KernelObjects\<close> keep of them: the ready queues hold exactly the ready threads, the lists of waiting threads
  and the lists of objects waited for mirror each other, and the holder of a mutex knows that it holds it.
\<close>

section \<open>Frames\<close>

lemma upd_simps [simp]:
  "threads (upd_thread t f k) = (threads k)(t := f (threads k t))"
  "wobjs (upd_thread t f k) = wobjs k" "managers (upd_thread t f k) = managers k"
  "arbiters (upd_thread t f k) = arbiters k" "ktiming (upd_thread t f k) = ktiming k"
  "timer_callback_table (upd_thread t f k) = timer_callback_table k"
  "threads (upd_wobj ob g k) = threads k" "wobjs (upd_wobj ob g k) = (wobjs k)(ob := g (wobjs k ob))"
  "managers (upd_wobj ob g k) = managers k" "arbiters (upd_wobj ob g k) = arbiters k"
  "ktiming (upd_wobj ob g k) = ktiming k" "timer_callback_table (upd_wobj ob g k) = timer_callback_table k"
  "threads (upd_manager c h k) = threads k" "wobjs (upd_manager c h k) = wobjs k"
  "managers (upd_manager c h k) = (managers k)(c := h (managers k c))" "arbiters (upd_manager c h k) = arbiters k"
  "ktiming (upd_manager c h k) = ktiming k" "timer_callback_table (upd_manager c h k) = timer_callback_table k"
  by (simp_all add: upd_thread_def upd_wobj_def upd_manager_def)

lemma upd_kind_simps [simp]:
  "threads (upd_kind ob x k) = threads k" "wobjs (upd_kind ob x k) = (wobjs k)(ob := (wobjs k ob)\<lparr>kind := x\<rparr>)"
  "managers (upd_kind ob x k) = managers k" "arbiters (upd_kind ob x k) = arbiters k"
  "ktiming (upd_kind ob x k) = ktiming k" "timer_callback_table (upd_kind ob x k) = timer_callback_table k"
  by (simp_all add: upd_kind_def)

lemma upd_queue_simps [simp]:
  "threads (upd_queue c f k) = threads k" "wobjs (upd_queue c f k) = wobjs k"
  "managers (upd_queue c f k) = (managers k)(c := (managers k c)\<lparr>ready_queue := f (ready_queue (managers k c))\<rparr>)"
  "arbiters (upd_queue c f k) = arbiters k" "ktiming (upd_queue c f k) = ktiming k"
  "timer_callback_table (upd_queue c f k) = timer_callback_table k"
  by (simp_all add: upd_queue_def)

lemma PrepareReschedule_simps [simp]:
  "threads (PrepareReschedule k) = threads k" "wobjs (PrepareReschedule k) = wobjs k"
  "managers (PrepareReschedule k) = managers k" "arbiters (PrepareReschedule k) = arbiters k"
  "ktiming (PrepareReschedule k) = ktiming k"
  "timer_callback_table (PrepareReschedule k) = timer_callback_table k"
  by (simp_all add: PrepareReschedule_def)

section \<open>The ready queues\<close>

text \<open>The queue of each core holds its ready threads at their priorities, and nothing else; every level a
  thread may go to is prepared; the thread that runs is the current one of its core.\<close>

definition queues_hold :: "kernel \<Rightarrow> bool" where
  "queues_hold k \<longleftrightarrow>
     (\<forall>c. queue_inv 64 (ready_queue (managers k c)) \<and>
       (\<forall>p. distinct (level (ready_queue (managers k c)) p) \<and>
         (\<forall>t. t \<in> set (level (ready_queue (managers k c)) p) \<longleftrightarrow>
            status (threads k t) = Ready \<and> current_priority (threads k t) = p \<and> core_id (threads k t) = c)))"

definition prepared :: "kernel \<Rightarrow> bool" where
  "prepared k \<longleftrightarrow>
     (\<forall>t. current_priority (threads k t) < 64 \<and> nominal_priority (threads k t) < 64 \<and>
        (status (threads k t) \<noteq> Dormant \<longrightarrow>
           current_priority (threads k t) \<in> used_levels (ready_queue (managers k (core_id (threads k t))))))"

definition one_running :: "kernel \<Rightarrow> bool" where
  "one_running k \<longleftrightarrow>
     (\<forall>t. status (threads k t) = Running \<longrightarrow> current_thread (managers k (core_id (threads k t))) = Some t) \<and>
     (\<forall>c t. current_thread (managers k c) = Some t \<longrightarrow> core_id (threads k t) = c \<and> status (threads k t) \<noteq> Dormant)"

definition sched_ok :: "kernel \<Rightarrow> bool" where
  "sched_ok k \<longleftrightarrow> queues_hold k \<and> prepared k \<and> one_running k"

lemma move_between_level:
  assumes "queue_inv 64 q" "old < 64" "new < 64"
  shows "queue_inv 64 (move_between t old new q)" "used_levels (move_between t old new q) = insert new (used_levels q)"
    "level (move_between t old new q) =
       (\<lambda>p. (if p = old then filter (\<lambda>x. x \<noteq> t) (level q p) else level q p) @ (if p = new then [t] else []))"
  using rq.reprioritise [OF assms, of t] by (simp_all add: move_between_def)

text \<open>Only the current priority of one thread changes, and the queue of its core.\<close>

lemma BoostPriority_simps [simp]:
  "threads (BoostPriority t p k) = (threads k)(t := (threads k t)\<lparr>current_priority := p\<rparr>)"
  "wobjs (BoostPriority t p k) = wobjs k" "arbiters (BoostPriority t p k) = arbiters k"
  "ktiming (BoostPriority t p k) = ktiming k" "timer_callback_table (BoostPriority t p k) = timer_callback_table k"
  "current_thread (managers (BoostPriority t p k) c) = current_thread (managers k c)"
  "wakeup_callback_table (managers (BoostPriority t p k) c) = wakeup_callback_table (managers k c)"
  by (simp_all add: BoostPriority_def Let_def)

lemma BoostPriority_queue:
  "ready_queue (managers (BoostPriority t p k) c) =
     (let q = ready_queue (managers k c); th = threads k t in
      if core_id th = c then (if status th = Ready then move_between t (current_priority th) p q else prepare p q) else q)"
  by (simp add: BoostPriority_def Let_def)

lemma BoostPriority_used:
  assumes "sched_ok k" "p < 64"
  shows "used_levels (ready_queue (managers (BoostPriority t p k) c)) =
    (if c = core_id (threads k t) then insert p (used_levels (ready_queue (managers k c)))
     else used_levels (ready_queue (managers k c)))"
proof -
  have q: "queue_inv 64 (ready_queue (managers k c))" and "current_priority (threads k t) < 64" "p < 64"
    using assms by (auto simp: sched_ok_def queues_hold_def prepared_def)
  then show ?thesis
    using move_between_level(2) [OF q] rq.prep_spec [OF q] by (auto simp: BoostPriority_queue Let_def)
qed

lemma BoostPriority_hold:
  assumes "sched_ok k" "p < 64"
  shows "queues_hold (BoostPriority t p k)"
  unfolding queues_hold_def
proof (intro allI conjI)
  fix c p'
  let ?q = "ready_queue (managers k c)" and ?q' = "ready_queue (managers (BoostPriority t p k) c)" and ?th = "threads k t"
  have q: "queue_inv 64 ?q" "distinct (level ?q p'')"
    "s \<in> set (level ?q p'') \<longleftrightarrow> status (threads k s) = Ready \<and> current_priority (threads k s) = p'' \<and> core_id (threads k s) = c" for s p''
    using assms(1) unfolding sched_ok_def queues_hold_def by blast+
  have b: "current_priority ?th < 64" "p < 64" using assms by (auto simp: sched_ok_def prepared_def)
  note m = move_between_level [OF q(1) b] and r = rq.prep_spec [OF q(1) b(2)]
  show "queue_inv 64 ?q'" using m(1) r q(1) by (simp add: BoostPriority_queue Let_def)
  show "distinct (level ?q' p')"
    using q(2,3) r by (auto simp: BoostPriority_queue Let_def m(3))
  fix s
  show "s \<in> set (level ?q' p') \<longleftrightarrow> status (threads (BoostPriority t p k) s) = Ready \<and>
    current_priority (threads (BoostPriority t p k) s) = p' \<and> core_id (threads (BoostPriority t p k) s) = c"
    using q(3) r by (auto simp: BoostPriority_queue Let_def m(3))
qed

lemma sched_ok_BoostPriority:
  assumes "sched_ok k" "p < 64"
  shows "sched_ok (BoostPriority t p k)"
proof -
  have "prepared (BoostPriority t p k)"
    using assms by (auto simp: prepared_def BoostPriority_used [OF assms] sched_ok_def)
  moreover have "one_running (BoostPriority t p k)"
    using assms(1) by (auto simp: one_running_def sched_ok_def)
  ultimately show ?thesis using BoostPriority_hold [OF assms, of t] by (simp add: sched_ok_def)
qed

text \<open>A change of a thread that leaves its state, priority and core alone, and of anything but the managers.\<close>

lemma sched_ok_cong:
  assumes "sched_ok k" "managers k' = managers k"
    "\<And>t. status (threads k' t) = status (threads k t) \<and> current_priority (threads k' t) = current_priority (threads k t) \<and>
          nominal_priority (threads k' t) < 64 \<and> core_id (threads k' t) = core_id (threads k t)"
  shows "sched_ok k'"
  using assms by (simp add: sched_ok_def queues_hold_def prepared_def one_running_def)

lemma best_held_le: "best_held_priority k t \<le> nominal_priority (threads k t)"
proof -
  have "fold (\<lambda>m best. if f m < best then f m else best) ms n \<le> n" for f :: "nat \<Rightarrow> nat" and ms n
    by (induction ms arbitrary: n) (auto, (meson le_trans less_imp_le)?)
  then show ?thesis by (simp add: best_held_priority_def)
qed

lemma sched_ok_UpdatePriority: "sched_ok k \<Longrightarrow> sched_ok (Thread_UpdatePriority t k)"
  unfolding Thread_UpdatePriority_def
  by (rule sched_ok_BoostPriority)
    (simp, metis best_held_le le_less_trans prepared_def sched_ok_def)

lemma one_running_cong:
  assumes "one_running k" "\<And>c. current_thread (managers k' c) = current_thread (managers k c)"
    "\<And>t. core_id (threads k' t) = core_id (threads k t)"
    "\<And>t. status (threads k' t) = Running \<Longrightarrow> status (threads k t) = Running"
    "\<And>t. status (threads k t) \<noteq> Dormant \<Longrightarrow> status (threads k' t) \<noteq> Dormant"
  shows "one_running k'"
  using assms unfolding one_running_def by metis

text \<open>A thread that wakes up goes to the back of its level.\<close>

lemma ResumeFromWait_spec:
  assumes s: "sched_ok k" and w: "wait_objects (threads k t) = []"
    and st: "status (threads k t) \<notin> {Running, Dead, Dormant}"
    and cb: "status (threads k t) = Ready \<longrightarrow> wakeup_cb (threads k t) = None"
  shows "\<exists>k'. ResumeFromWait t k = Some k' \<and> sched_ok k' \<and>
    threads k' = (threads k)(t := (threads k t)\<lparr>wakeup_cb := None, status := Ready\<rparr>) \<and> wobjs k' = wobjs k \<and>
    arbiters k' = arbiters k \<and> ktiming k' = ktiming k \<and> timer_callback_table k' = timer_callback_table k \<and>
    (\<forall>c. current_thread (managers k' c) = current_thread (managers k c) \<and>
         wakeup_callback_table (managers k' c) = wakeup_callback_table (managers k c))"
proof (cases "status (threads k t) = Ready")
  case True
  then have "threads k = (threads k)(t := (threads k t)\<lparr>wakeup_cb := None, status := Ready\<rparr>)"
    using cb by (simp add: fun_eq_iff)
  with True s w cb show ?thesis by (intro exI [of _ k]) (simp add: ResumeFromWait_def Let_def)
next
  case False
  let ?th = "threads k t"
  let ?c = "core_id ?th" and ?p = "current_priority ?th"
  let ?k = "PrepareReschedule (upd_thread t (\<lambda>th. th\<lparr>status := Ready\<rparr>) (upd_queue ?c (push_back ?p t)
             (upd_thread t (\<lambda>th. th\<lparr>wakeup_cb := None\<rparr>) k)))"
  have run: "ResumeFromWait t k = Some ?k" using False st w by (simp add: ResumeFromWait_def Let_def)
  have h: "queues_hold k" "prepared k" "one_running k" using s by (simp_all add: sched_ok_def)
  have q: "queue_inv 64 (ready_queue (managers k c))" for c using h(1) by (simp add: queues_hold_def)
  have "?p \<in> used_levels (ready_queue (managers k ?c))" using h(2) st by (auto simp: prepared_def)
  note b = rq.pushb_spec [OF q this, of t]
  have "queues_hold ?k"
    unfolding queues_hold_def
  proof (intro allI conjI)
    fix c p s
    show "queue_inv 64 (ready_queue (managers ?k c))" using q b by simp
    show "distinct (level (ready_queue (managers ?k c)) p)" using h(1) b False by (auto simp: queues_hold_def)
    show "s \<in> set (level (ready_queue (managers ?k c)) p) \<longleftrightarrow> status (threads ?k s) = Ready \<and>
      current_priority (threads ?k s) = p \<and> core_id (threads ?k s) = c"
      using h(1) b False by (auto simp: queues_hold_def)
  qed
  moreover have "prepared ?k" using h(2) b st by (auto simp: prepared_def)
  moreover have "one_running ?k" using h(3) st by (intro one_running_cong [OF h(3)]) (simp_all split: if_splits)
  ultimately have "sched_ok ?k" by (simp add: sched_ok_def)
  with run show ?thesis by (intro exI [of _ ?k]) simp
qed

section \<open>Changes of priorities only\<close>

definition plain_thread :: "thread \<Rightarrow> thread" where
  "plain_thread th = th\<lparr>current_priority := 0\<rparr>"

definition plain_kind :: "object_kind \<Rightarrow> object_kind" where
  "plain_kind x = (case x of MutexObj m \<Rightarrow> MutexObj (m\<lparr>mutex_priority := 0\<rparr>) | _ \<Rightarrow> x)"

definition plain_object :: "wait_object \<Rightarrow> wait_object" where
  "plain_object w = w\<lparr>kind := plain_kind (kind w)\<rparr>"

text \<open>\<open>calm k k'\<close>: going from one to the other, nothing changed but current priorities, the priorities of
  mutexes and the ready queues.\<close>

definition calm :: "kernel \<Rightarrow> kernel \<Rightarrow> bool" where
  "calm k k' \<longleftrightarrow>
     (\<forall>t. plain_thread (threads k' t) = plain_thread (threads k t)) \<and>
     (\<forall>ob. plain_object (wobjs k' ob) = plain_object (wobjs k ob)) \<and>
     arbiters k' = arbiters k \<and> ktiming k' = ktiming k \<and> timer_callback_table k' = timer_callback_table k \<and>
     (\<forall>c. current_thread (managers k' c) = current_thread (managers k c) \<and>
          wakeup_callback_table (managers k' c) = wakeup_callback_table (managers k c))"

lemma calm_refl [simp]: "calm k k"
  by (simp add: calm_def)

lemma calm_trans: "calm k k' \<Longrightarrow> calm k' k'' \<Longrightarrow> calm k k''"
  by (simp add: calm_def)

lemma plain_thread_eqD:
  assumes "plain_thread th' = plain_thread th"
  shows "thread_ctx th' = thread_ctx th" "thread_id th' = thread_id th" "can_schedule th' = can_schedule th"
    "status th' = status th" "nominal_priority th' = nominal_priority th" "held_mutexes th' = held_mutexes th"
    "pending_mutexes th' = pending_mutexes th" "wait_objects th' = wait_objects th" "wait_address th' = wait_address th"
    "wakeup_cb th' = wakeup_cb th" "core_id th' = core_id th" "owner_process th' = owner_process th"
  using arg_cong [OF assms, of thread_ctx] arg_cong [OF assms, of thread_id] arg_cong [OF assms, of can_schedule]
    arg_cong [OF assms, of status] arg_cong [OF assms, of nominal_priority] arg_cong [OF assms, of held_mutexes]
    arg_cong [OF assms, of pending_mutexes] arg_cong [OF assms, of wait_objects] arg_cong [OF assms, of wait_address]
    arg_cong [OF assms, of wakeup_cb] arg_cong [OF assms, of core_id] arg_cong [OF assms, of owner_process]
  by (simp_all add: plain_thread_def)

lemma plain_object_eqD:
  assumes "plain_object w' = plain_object w"
  shows "waiting_threads w' = waiting_threads w" "hle_notifier w' = hle_notifier w"
    "plain_kind (kind w') = plain_kind (kind w)"
  using arg_cong [OF assms, of waiting_threads] arg_cong [OF assms, of hle_notifier] arg_cong [OF assms, of kind]
  by (simp_all add: plain_object_def)

lemma calm_threads:
  assumes "calm k k'"
  shows "thread_ctx (threads k' t) = thread_ctx (threads k t)" "thread_id (threads k' t) = thread_id (threads k t)"
    "can_schedule (threads k' t) = can_schedule (threads k t)" "status (threads k' t) = status (threads k t)"
    "nominal_priority (threads k' t) = nominal_priority (threads k t)"
    "held_mutexes (threads k' t) = held_mutexes (threads k t)"
    "pending_mutexes (threads k' t) = pending_mutexes (threads k t)"
    "wait_objects (threads k' t) = wait_objects (threads k t)" "wait_address (threads k' t) = wait_address (threads k t)"
    "wakeup_cb (threads k' t) = wakeup_cb (threads k t)" "core_id (threads k' t) = core_id (threads k t)"
    "owner_process (threads k' t) = owner_process (threads k t)"
  by (rule plain_thread_eqD, use assms in \<open>simp add: calm_def\<close>)+

lemma calm_objects:
  assumes "calm k k'"
  shows "waiting_threads (wobjs k' ob) = waiting_threads (wobjs k ob)"
    "hle_notifier (wobjs k' ob) = hle_notifier (wobjs k ob)"
    "plain_kind (kind (wobjs k' ob)) = plain_kind (kind (wobjs k ob))"
  by (rule plain_object_eqD, use assms in \<open>simp add: calm_def\<close>)+

lemma plain_kind_cases:
  assumes "plain_kind x' = plain_kind x"
  obtains m m' where "x = MutexObj m" "x' = MutexObj m'" "lock_count m' = lock_count m" "holding_thread m' = holding_thread m"
  | "x' = x" "\<And>m. x \<noteq> MutexObj m"
proof (cases x)
  case (MutexObj m)
  with assms obtain m' where "x' = MutexObj m'" "m'\<lparr>mutex_priority := 0\<rparr> = m\<lparr>mutex_priority := 0\<rparr>"
    by (auto simp: plain_kind_def split: object_kind.splits)
  from arg_cong [OF this(2), of lock_count] arg_cong [OF this(2), of holding_thread]
  have "lock_count m' = lock_count m" "holding_thread m' = holding_thread m" by simp_all
  with MutexObj \<open>x' = MutexObj m'\<close> that(1) show thesis by blast
qed (use assms that(2) in \<open>auto simp: plain_kind_def split: object_kind.splits\<close>)

lemma calm_ShouldWait:
  assumes "calm k k'"
  shows "ShouldWait k' ob t = ShouldWait k ob t"
proof -
  have "status (threads k' ob) = status (threads k ob)" by (rule calm_threads(4) [OF assms])
  then show ?thesis
    using calm_objects(3) [OF assms, of ob]
    by (elim plain_kind_cases) (simp_all add: ShouldWait_def split: object_kind.splits)
qed

lemma calm_ready: "calm k k' \<Longrightarrow> ready_to_run k' t = ready_to_run k t"
  by (simp add: ready_to_run_def calm_threads calm_ShouldWait)

lemma calm_BoostPriority: "calm k (BoostPriority t p k)"
  by (simp add: calm_def plain_thread_def)

lemma calm_UpdatePriority: "calm k (Thread_UpdatePriority t k)"
  by (simp add: Thread_UpdatePriority_def calm_BoostPriority)

lemma calm_upd_mutex:
  "kind (wobjs k ob) = MutexObj m \<Longrightarrow> calm k (upd_kind ob (MutexObj (m\<lparr>mutex_priority := p\<rparr>)) k)"
  by (simp add: calm_def plain_object_def plain_kind_def)

lemma calm_Mutex_UpdatePriority: "calm k (Mutex_UpdatePriority ob k)"
  unfolding Mutex_UpdatePriority_def Let_def
  by (auto split: object_kind.splits option.splits intro: calm_trans [OF calm_upd_mutex calm_UpdatePriority])

lemma sched_ok_kind: "sched_ok k \<Longrightarrow> sched_ok (upd_kind ob x k)"
  by (rule sched_ok_cong) (auto simp: sched_ok_def prepared_def)

lemma sched_ok_wobj: "sched_ok k \<Longrightarrow> sched_ok (upd_wobj ob g k)"
  by (rule sched_ok_cong) (auto simp: sched_ok_def prepared_def)

lemma sched_ok_Mutex_UpdatePriority: "sched_ok k \<Longrightarrow> sched_ok (Mutex_UpdatePriority ob k)"
  by (simp add: Mutex_UpdatePriority_def Let_def sched_ok_UpdatePriority sched_ok_kind
      split: object_kind.splits option.splits)

end
