(* ===== verification/KernelWaits.thy ===== *)
theory KernelWaits
  imports KernelInvariant
begin

text \<open>
  Waking up: what \<open>WakeupAllWaitingThreads\<close> keeps and what it achieves. It returns, no assertion on its way
  fails, and afterwards every thread that still waits for the object has to.
\<close>

section \<open>The invariants\<close>

text \<open>A thread is in the list of an object exactly if the object is in the list of the thread.\<close>

definition lists_ok :: "kernel \<Rightarrow> bool" where
  "lists_ok k \<longleftrightarrow>
     (\<forall>ob t. t \<in> set (waiting_threads (wobjs k ob)) \<longleftrightarrow> ob \<in> set (wait_objects (threads k t))) \<and>
     (\<forall>ob. distinct (waiting_threads (wobjs k ob)))"

text \<open>The callback of an arbiter is that of a thread that waits for one, and only of such a thread.\<close>

definition callback_fits :: "wakeup_callback option \<Rightarrow> ThreadStatus \<Rightarrow> bool" where
  "callback_fits cb st \<longleftrightarrow>
     (case cb of None \<Rightarrow> True | Some (SVC_SyncCallback b) \<Rightarrow> st \<noteq> WaitArb | Some (ArbiterCallback a) \<Rightarrow> st = WaitArb)"

lemma callback_fits_simps [simp]:
  "callback_fits None st" "callback_fits (Some (SVC_SyncCallback b)) st \<longleftrightarrow> st \<noteq> WaitArb"
  "callback_fits (Some (ArbiterCallback a)) st \<longleftrightarrow> st = WaitArb"
  by (simp_all add: callback_fits_def)

lemma callback_fits_other: "callback_fits cb st \<Longrightarrow> st \<noteq> WaitArb \<Longrightarrow> st' \<noteq> WaitArb \<Longrightarrow> callback_fits cb st'"
  by (simp add: callback_fits_def split: option.splits wakeup_callback.splits)

definition waiter_ok :: "thread \<Rightarrow> bool" where
  "waiter_ok th \<longleftrightarrow>
     (wait_objects th \<noteq> [] \<longrightarrow> status th \<in> {WaitSynchAny, WaitSynchAll, WaitHleEvent}) \<and>
     callback_fits (wakeup_cb th) (status th) \<and>
     (status th \<in> {Ready, Running} \<longrightarrow> wakeup_cb th = None) \<and>
     (status th = WaitSynchAll \<longrightarrow> distinct (wait_objects th))"

definition waiters_ok :: "kernel \<Rightarrow> bool" where
  "waiters_ok k \<longleftrightarrow> (\<forall>t. waiter_ok (threads k t))"

text \<open>A mutex is locked exactly if a thread holds it, and a thread that lives knows what it holds.\<close>

definition mutex_ok :: "kernel \<Rightarrow> nat \<Rightarrow> bool" where
  "mutex_ok k ob \<longleftrightarrow>
     (\<forall>m. kind (wobjs k ob) = MutexObj m \<longrightarrow>
        0 \<le> lock_count m \<and> (0 < lock_count m \<longleftrightarrow> holding_thread m \<noteq> None) \<and>
        (\<forall>t. holding_thread m = Some t \<longrightarrow> ob \<in> set (held_mutexes (threads k t))))"

definition holds :: "kernel \<Rightarrow> nat \<Rightarrow> nat \<Rightarrow> bool" where
  "holds k t ob \<longleftrightarrow> (\<exists>m. kind (wobjs k ob) = MutexObj m \<and> holding_thread m = Some t)"

definition held_ok :: "kernel \<Rightarrow> bool" where
  "held_ok k \<longleftrightarrow> (\<forall>ob. mutex_ok k ob) \<and> (\<forall>t. distinct (held_mutexes (threads k t))) \<and>
     (\<forall>t. status (threads k t) \<noteq> Dead \<longrightarrow> (\<forall>ob \<in> set (held_mutexes (threads k t)). holds k t ob))"

text \<open>A thread runs at the best of its own priority and those of the mutexes it holds.\<close>

definition boost_ok :: "kernel \<Rightarrow> bool" where
  "boost_ok k \<longleftrightarrow> (\<forall>t. status (threads k t) \<noteq> Dead \<longrightarrow> current_priority (threads k t) = best_held_priority k t)"

definition core_ok :: "kernel \<Rightarrow> bool" where
  "core_ok k \<longleftrightarrow> sched_ok k \<and> held_ok k \<and> boost_ok k"

text \<open>No wakeup is lost: who waits for an object, has to. While the objects of a set are being signaled, their
  waiting threads are excepted, and those that wait for all of several objects of which one is in the set.\<close>

definition runnable :: "kernel \<Rightarrow> nat \<Rightarrow> nat \<Rightarrow> bool" where
  "runnable k ob t \<longleftrightarrow> \<not> ShouldWait k ob t \<and> ready_to_run k t"

definition no_lost :: "nat set \<Rightarrow> kernel \<Rightarrow> bool" where
  "no_lost X k \<longleftrightarrow>
     (\<forall>ob t. t \<in> set (waiting_threads (wobjs k ob)) \<longrightarrow> runnable k ob t \<longrightarrow>
        ob \<in> X \<or> status (threads k t) = WaitSynchAll \<and> set (wait_objects (threads k t)) \<inter> X \<noteq> {})"

definition kernel_ok :: "nat set \<Rightarrow> kernel \<Rightarrow> bool" where
  "kernel_ok X k \<longleftrightarrow> core_ok k \<and> lists_ok k \<and> waiters_ok k \<and> no_lost X k"

section \<open>Priorities\<close>

lemma best_held_cong:
  assumes "held_mutexes (threads k' t) = held_mutexes (threads k t)"
    "nominal_priority (threads k' t) = nominal_priority (threads k t)"
    "\<And>ob. ob \<in> set (held_mutexes (threads k t)) \<Longrightarrow> priority_of_mutex k' ob = priority_of_mutex k ob"
  shows "best_held_priority k' t = best_held_priority k t"
  unfolding best_held_priority_def assms(1,2) by (rule fold_cong) (simp_all add: assms(3) fun_eq_iff)

lemma best_held_Boost [simp]: "best_held_priority (BoostPriority s p k) t = best_held_priority k t"
  by (rule best_held_cong) (simp_all add: priority_of_mutex_def)

lemma holds_plain: "calm k k' \<Longrightarrow> holds k' t ob = holds k t ob"
  by (drule calm_objects(3) [of k k' ob], elim plain_kind_cases) (auto simp: holds_def)

lemma held_holds:
  "held_ok k \<Longrightarrow> ob \<in> set (held_mutexes (threads k t)) \<Longrightarrow> status (threads k t) \<noteq> Dead \<Longrightarrow> holds k t ob"
  unfolding held_ok_def by blast

lemma held_okI:
  "(\<And>ob. mutex_ok k ob) \<Longrightarrow> (\<And>t. distinct (held_mutexes (threads k t))) \<Longrightarrow>
   (\<And>t ob. ob \<in> set (held_mutexes (threads k t)) \<Longrightarrow> status (threads k t) \<noteq> Dead \<Longrightarrow> holds k t ob) \<Longrightarrow> held_ok k"
  unfolding held_ok_def by blast

lemma held_by:
  assumes "held_ok k" "ob \<in> set (held_mutexes (threads k t))" "status (threads k t) \<noteq> Dead" "kind (wobjs k ob) = MutexObj m"
  shows "holding_thread m = Some t"
proof -
  have "holds k t ob" using assms(1-3) unfolding held_ok_def by blast
  then show ?thesis using assms(4) by (simp add: holds_def)
qed

lemma calm_held_ok:
  assumes "calm k k'" "held_ok k"
  shows "held_ok k'"
proof -
  have "mutex_ok k' ob" for ob
    using calm_objects(3) [OF assms(1), of ob] assms(2)
    by (elim plain_kind_cases) (auto simp: held_ok_def mutex_ok_def calm_threads [OF assms(1)])
  then show ?thesis using assms(2) by (simp add: held_ok_def calm_threads [OF assms(1)] holds_plain [OF assms(1)])
qed

lemma calm_lists_ok: "calm k k' \<Longrightarrow> lists_ok k \<Longrightarrow> lists_ok k'"
  by (simp add: lists_ok_def calm_objects calm_threads)

lemma calm_waiters_ok: "calm k k' \<Longrightarrow> waiters_ok k \<Longrightarrow> waiters_ok k'"
  by (simp add: waiters_ok_def waiter_ok_def calm_threads)

lemma calm_runnable: "calm k k' \<Longrightarrow> runnable k' ob t = runnable k ob t"
  by (simp add: runnable_def calm_ShouldWait calm_ready)

lemma calm_no_lost: "calm k k' \<Longrightarrow> no_lost X k \<Longrightarrow> no_lost X k'"
  by (simp add: no_lost_def calm_objects calm_runnable calm_threads)

text \<open>A thread is updated when the set of its mutexes or their priorities changed.\<close>

lemma boost_ok_UpdatePriority:
  assumes "\<And>s. s \<noteq> t \<Longrightarrow> status (threads k s) \<noteq> Dead \<Longrightarrow> current_priority (threads k s) = best_held_priority k s"
  shows "boost_ok (Thread_UpdatePriority t k)"
  using assms unfolding boost_ok_def Thread_UpdatePriority_def by simp

lemma core_ok_Mutex_UpdatePriority:
  assumes "core_ok k"
  shows "core_ok (Mutex_UpdatePriority ob k)"
proof -
  have k: "sched_ok k" "held_ok k" "boost_ok k" using assms by (simp_all add: core_ok_def)
  have "boost_ok (Mutex_UpdatePriority ob k)"
  proof (cases "kind (wobjs k ob)")
    case (MutexObj m)
    show ?thesis
    proof (cases "holding_thread m")
      case (Some h)
      let ?m = "MutexObj (m\<lparr>mutex_priority := best_waiting_priority k (waiting_threads (wobjs k ob))\<rparr>)"
      have "current_priority (threads (upd_kind ob ?m k) s) = best_held_priority (upd_kind ob ?m k) s"
        if "s \<noteq> h" "status (threads (upd_kind ob ?m k) s) \<noteq> Dead" for s
      proof -
        have "ob \<notin> set (held_mutexes (threads k s))"
          using held_by [OF k(2) _ _ MutexObj, of s] that Some by auto
        then have "best_held_priority (upd_kind ob ?m k) s = best_held_priority k s"
          by (intro best_held_cong) (auto simp: priority_of_mutex_def)
        then show ?thesis using k(3) that by (simp add: boost_ok_def)
      qed
      then have "boost_ok (Thread_UpdatePriority h (upd_kind ob ?m k))" by (rule boost_ok_UpdatePriority)
      then show ?thesis using k(3) by (simp add: Mutex_UpdatePriority_def MutexObj Some Let_def)
    qed (use k(3) in \<open>simp add: Mutex_UpdatePriority_def MutexObj\<close>)
  qed (use k(3) in \<open>simp_all add: Mutex_UpdatePriority_def\<close>)
  then show ?thesis
    using k sched_ok_Mutex_UpdatePriority calm_held_ok [OF calm_Mutex_UpdatePriority k(2)] by (simp add: core_ok_def)
qed

section \<open>Acquiring\<close>

text \<open>What waking up leaves alone: everything about waiting.\<close>

definition same_waits :: "kernel \<Rightarrow> kernel \<Rightarrow> bool" where
  "same_waits k k' \<longleftrightarrow>
     (\<forall>t. status (threads k' t) = status (threads k t) \<and> wait_objects (threads k' t) = wait_objects (threads k t) \<and>
          wakeup_cb (threads k' t) = wakeup_cb (threads k t) \<and> core_id (threads k' t) = core_id (threads k t) \<and>
          thread_id (threads k' t) = thread_id (threads k t) \<and> can_schedule (threads k' t) = can_schedule (threads k t)) \<and>
     (\<forall>ob. waiting_threads (wobjs k' ob) = waiting_threads (wobjs k ob)) \<and>
     arbiters k' = arbiters k \<and> ktiming k' = ktiming k \<and> timer_callback_table k' = timer_callback_table k \<and>
     (\<forall>c. current_thread (managers k' c) = current_thread (managers k c) \<and>
          wakeup_callback_table (managers k' c) = wakeup_callback_table (managers k c))"

lemma same_waits_refl [simp]: "same_waits k k"
  by (simp add: same_waits_def)

lemma same_waits_trans: "same_waits k k' \<Longrightarrow> same_waits k' k'' \<Longrightarrow> same_waits k k''"
  by (simp add: same_waits_def)

lemma calm_same_waits: "calm k k' \<Longrightarrow> same_waits k k'"
  by (simp add: same_waits_def calm_threads calm_objects) (simp add: calm_def)

lemma same_waits_lists: "same_waits k k' \<Longrightarrow> lists_ok k' = lists_ok k"
  by (simp add: same_waits_def lists_ok_def)

lemma same_waits_waiters: "same_waits k k' \<Longrightarrow> waiters_ok k' = waiters_ok k"
  by (simp add: same_waits_def waiters_ok_def waiter_ok_def)

text \<open>Who had to wait still has to, but for the thread that acquired, who held a mutex still does, and nobody
  else holds a mutex more.\<close>

definition keeps_waiting :: "nat \<Rightarrow> kernel \<Rightarrow> kernel \<Rightarrow> bool" where
  "keeps_waiting t k k' \<longleftrightarrow>
     (\<forall>ob s. s \<noteq> t \<longrightarrow> ShouldWait k ob s \<longrightarrow> ShouldWait k' ob s) \<and> (\<forall>ob s. holds k s ob \<longrightarrow> holds k' s ob) \<and>
     (\<forall>ob s. s \<noteq> t \<longrightarrow> holds k' s ob \<longrightarrow> holds k s ob) \<and>
     (\<forall>s. s \<noteq> t \<longrightarrow> held_mutexes (threads k' s) = held_mutexes (threads k s))"

lemma keeps_waiting_trans: "keeps_waiting t k k' \<Longrightarrow> keeps_waiting t k' k'' \<Longrightarrow> keeps_waiting t k k''"
  unfolding keeps_waiting_def by (elim conjE, intro conjI) (blast, blast, blast, simp)

lemma keeps_waiting_calm: "calm k k' \<Longrightarrow> keeps_waiting t k k'"
  by (simp add: keeps_waiting_def calm_ShouldWait holds_plain calm_threads)

lemma sched_ok_thread:
  assumes "sched_ok k" "\<And>th. status (f th) = status th \<and> current_priority (f th) = current_priority th \<and>
    nominal_priority (f th) = nominal_priority th \<and> core_id (f th) = core_id th"
  shows "sched_ok (upd_thread t f k)"
  by (rule sched_ok_cong [OF assms(1)]) (use assms in \<open>auto simp: sched_ok_def prepared_def\<close>)

lemma sched_ok_simps [simp]: "sched_ok (PrepareReschedule k) = sched_ok k"
  by (simp add: sched_ok_def queues_hold_def prepared_def one_running_def)

lemma distinct_insort_insert: "distinct xs \<Longrightarrow> distinct (insort_insert x xs)"
  by (simp add: insort_insert_key_def distinct_insort)

lemma mutex_okI:
  assumes "held_ok k" "kind (wobjs k ob) = MutexObj m"
  shows "0 \<le> lock_count m" "0 < lock_count m \<longleftrightarrow> holding_thread m \<noteq> None"
    "holding_thread m = Some t \<Longrightarrow> ob \<in> set (held_mutexes (threads k t))"
  using assms by (simp_all add: held_ok_def mutex_ok_def)

lemma core_ok_lock_count:
  assumes c: "core_ok k" and m: "kind (wobjs k ob) = MutexObj m" and n: "0 < lock_count m" "0 < n"
  shows "core_ok (upd_kind ob (MutexObj (m\<lparr>lock_count := n\<rparr>)) k)" (is "core_ok ?k'")
proof -
  have k: "sched_ok k" "held_ok k" "boost_ok k" using c by (simp_all add: core_ok_def)
  have "held_ok ?k'"
  proof (rule held_okI)
    show "mutex_ok ?k' ob'" for ob'
      using k(2) n m by (auto simp: held_ok_def mutex_ok_def)
    show "holds ?k' s ob'" if "ob' \<in> set (held_mutexes (threads ?k' s))" "status (threads ?k' s) \<noteq> Dead" for s ob'
      using held_holds [OF k(2), of ob' s] that by (auto simp: holds_def m)
  qed (use k(2) in \<open>simp add: held_ok_def\<close>)
  moreover have "best_held_priority ?k' s = best_held_priority k s" for s
    by (rule best_held_cong) (simp_all add: priority_of_mutex_def m)
  then have "boost_ok ?k'" using k(3) by (simp add: boost_ok_def)
  ultimately show ?thesis using k(1) by (simp add: core_ok_def sched_ok_kind)
qed

lemma Acquire_mutex:
  assumes c: "core_ok k" and m: "kind (wobjs k ob) = MutexObj m" and w: "\<not> ShouldWait k ob t"
    and d: "status (threads k t) \<noteq> Dead"
  shows "core_ok (Mutex_Acquire ob m t k) \<and> same_waits k (Mutex_Acquire ob m t k) \<and>
    keeps_waiting t k (Mutex_Acquire ob m t k) \<and>
    (\<forall>ob'. ob' \<noteq> ob \<longrightarrow> kind (wobjs (Mutex_Acquire ob m t k) ob') = kind (wobjs k ob'))"
proof (cases "lock_count m = 0")
  case False
  let ?m = "MutexObj (m\<lparr>lock_count := lock_count m + 1\<rparr>)"
  have k: "sched_ok k" "held_ok k" "boost_ok k" using c by (simp_all add: core_ok_def)
  have n: "0 < lock_count m" using mutex_okI [OF k(2) m] False by simp
  then have h: "holding_thread m = Some t" using w by (simp add: ShouldWait_def m)
  have eq: "Mutex_Acquire ob m t k = upd_kind ob ?m k" using False by (simp add: Mutex_Acquire_def)
  have "core_ok (upd_kind ob ?m k)" using core_ok_lock_count [OF c m n] n by simp
  moreover have "keeps_waiting t k (upd_kind ob ?m k)"
    using n h by (auto simp: keeps_waiting_def ShouldWait_def m holds_def split: object_kind.splits)
  moreover have "same_waits k (upd_kind ob ?m k)" by (simp add: same_waits_def)
  ultimately show ?thesis by (simp add: eq)
next
  case True
  have k: "sched_ok k" "held_ok k" "boost_ok k" using c by (simp_all add: core_ok_def)
  have none: "holding_thread m = None" using mutex_okI(2) [OF k(2) m] True by simp
  let ?m' = "m\<lparr>mutex_priority := current_priority (threads k t), holding_thread := Some t\<rparr>"
  let ?f = "\<lambda>th. th\<lparr>held_mutexes := insort_insert ob (held_mutexes th)\<rparr>"
  let ?k1 = "upd_thread t ?f (upd_kind ob (MutexObj ?m') k)"
  let ?k2 = "PrepareReschedule (Thread_UpdatePriority t ?k1)"
  let ?k3 = "upd_kind ob (MutexObj (?m'\<lparr>lock_count := lock_count m + 1\<rparr>)) ?k2"
  have eq: "Mutex_Acquire ob m t k = ?k3" using True by (simp add: Mutex_Acquire_def Let_def)
  have s1: "sched_ok ?k1" using k(1) by (intro sched_ok_thread sched_ok_kind) simp_all
  then have s3: "sched_ok ?k3" by (intro sched_ok_kind) (simp add: sched_ok_UpdatePriority)
  have notin: "ob \<notin> set (held_mutexes (threads k s))" if "status (threads k s) \<noteq> Dead" for s
    using held_by [OF k(2) _ that m] none by auto
  have "boost_ok (Thread_UpdatePriority t ?k1)"
  proof (rule boost_ok_UpdatePriority)
    fix s assume s: "s \<noteq> t" "status (threads ?k1 s) \<noteq> Dead"
    then have "best_held_priority ?k1 s = best_held_priority k s"
      using notin [of s] by (intro best_held_cong) (auto simp: priority_of_mutex_def)
    then show "current_priority (threads ?k1 s) = best_held_priority ?k1 s" using k(3) s by (simp add: boost_ok_def)
  qed
  moreover have "best_held_priority ?k3 s = best_held_priority (Thread_UpdatePriority t ?k1) s" for s
    by (rule best_held_cong) (simp_all add: priority_of_mutex_def Thread_UpdatePriority_def)
  ultimately have b3: "boost_ok ?k3" by (simp add: boost_ok_def)
  have h3: "held_ok ?k3"
    using k(2) m none True d notin
    by (auto simp: held_ok_def mutex_ok_def holds_def Thread_UpdatePriority_def set_insort_insert
        distinct_insort_insert)
  have "keeps_waiting t k ?k3"
    by (auto simp: keeps_waiting_def ShouldWait_def m True none holds_def Thread_UpdatePriority_def split: object_kind.splits)
  moreover have "same_waits k ?k3" by (auto simp: same_waits_def Thread_UpdatePriority_def)
  moreover have "kind (wobjs ?k3 ob') = kind (wobjs k ob')" if "ob' \<noteq> ob" for ob'
    using that by (simp add: Thread_UpdatePriority_def)
  ultimately show ?thesis using s3 h3 b3 by (simp add: eq core_ok_def)
qed

lemma core_ok_kind:
  assumes "core_ok k" "\<And>m. kind (wobjs k ob) \<noteq> MutexObj m" "\<And>m. x \<noteq> MutexObj m"
  shows "core_ok (upd_kind ob x k)"
proof -
  have k: "sched_ok k" "held_ok k" "boost_ok k" using assms(1) by (simp_all add: core_ok_def)
  have "held_ok (upd_kind ob x k)"
  proof (rule held_okI)
    show "mutex_ok (upd_kind ob x k) ob'" for ob'
      using k(2) assms(3) by (auto simp: held_ok_def mutex_ok_def)
    show "holds (upd_kind ob x k) s ob'"
      if "ob' \<in> set (held_mutexes (threads (upd_kind ob x k) s))" "status (threads (upd_kind ob x k) s) \<noteq> Dead" for s ob'
      using held_holds [OF k(2), of ob' s] that assms(2) by (auto simp: holds_def)
  qed (use k(2) in \<open>simp add: held_ok_def\<close>)
  moreover have "best_held_priority (upd_kind ob x k) s = best_held_priority k s" for s
    by (rule best_held_cong) (use assms(2,3) in \<open>auto simp: priority_of_mutex_def split: object_kind.splits\<close>)
  then have "boost_ok (upd_kind ob x k)" using k(3) by (simp add: boost_ok_def)
  ultimately show ?thesis using k(1) by (simp add: core_ok_def sched_ok_kind)
qed

lemma same_waits_kind [simp]: "same_waits k (upd_kind ob x k)"
  by (simp add: same_waits_def)

lemma ShouldWait_cong:
  "kind (wobjs k' ob) = kind (wobjs k ob) \<Longrightarrow> (status (threads k' ob) = Dead) = (status (threads k ob) = Dead) \<Longrightarrow>
   ShouldWait k' ob t = ShouldWait k ob t"
  by (simp add: ShouldWait_def split: object_kind.splits)

lemma keeps_waiting_kind:
  assumes "\<And>m. kind (wobjs k ob) \<noteq> MutexObj m" "\<And>m. x \<noteq> MutexObj m"
    "\<And>s. ShouldWait k ob s \<Longrightarrow> ShouldWait (upd_kind ob x k) ob s"
  shows "keeps_waiting t k (upd_kind ob x k)"
proof -
  have "ShouldWait (upd_kind ob x k) y s = ShouldWait k y s" if "y \<noteq> ob" for y s
    using that by (intro ShouldWait_cong) simp_all
  then have "ShouldWait (upd_kind ob x k) y s" if "ShouldWait k y s" for y s
    using that assms(3) by (cases "y = ob") auto
  then show ?thesis using assms(1,2) by (auto simp: keeps_waiting_def holds_def)
qed

lemma Acquire_spec:
  assumes c: "core_ok k" and w: "\<not> ShouldWait k ob t" and d: "status (threads k t) \<noteq> Dead"
  shows "\<exists>k'. Acquire ob t k = Some k' \<and> core_ok k' \<and> same_waits k k' \<and> keeps_waiting t k k' \<and>
    (\<forall>ob'. ob' \<noteq> ob \<longrightarrow> kind (wobjs k' ob') = kind (wobjs k ob'))"
proof (cases "kind (wobjs k ob)")
  case (MutexObj m)
  with Acquire_mutex [OF c MutexObj w d] w show ?thesis by (simp add: Acquire_def)
next
  case (SemaphoreObj s)
  then have n: "0 < available_count s" using w by (simp add: ShouldWait_def)
  then have "keeps_waiting t k (upd_kind ob (SemaphoreObj (s\<lparr>available_count := available_count s - 1\<rparr>)) k)"
    using SemaphoreObj by (intro keeps_waiting_kind) (simp_all add: ShouldWait_def)
  then show ?thesis using n SemaphoreObj core_ok_kind [OF c] by (simp add: Acquire_def)
next
  case (EventObj e)
  then have "keeps_waiting t k (upd_kind ob (EventObj (e\<lparr>event_signaled := False\<rparr>)) k)"
    by (intro keeps_waiting_kind) (simp_all add: ShouldWait_def)
  then show ?thesis using EventObj w c core_ok_kind [OF c] by (simp add: Acquire_def keeps_waiting_def)
next
  case (TimerObj x)
  then have "keeps_waiting t k (upd_kind ob (TimerObj (x\<lparr>timer_signaled := False\<rparr>)) k)"
    by (intro keeps_waiting_kind) (simp_all add: ShouldWait_def)
  then show ?thesis using TimerObj w c core_ok_kind [OF c] by (simp add: Acquire_def keeps_waiting_def)
next
  case ThreadObj
  then show ?thesis using w c by (simp add: Acquire_def keeps_waiting_def)
qed

lemma same_waits_status: "same_waits k k' \<Longrightarrow> status (threads k' t) = status (threads k t)"
  by (simp add: same_waits_def)

lemma Acquire_all:
  assumes "core_ok k" "status (threads k t) \<noteq> Dead" "list_all (\<lambda>ob. \<not> ShouldWait k ob t) obs" "distinct obs"
  shows "\<exists>k'. steps (\<lambda>ob. Acquire ob t) obs k = Some k' \<and> core_ok k' \<and> same_waits k k' \<and> keeps_waiting t k k'"
  using assms
proof (induction obs arbitrary: k)
  case Nil
  then show ?case by (simp add: keeps_waiting_def)
next
  case (Cons ob obs)
  from Acquire_spec [of k ob t] Cons.prems obtain k1 where k1: "Acquire ob t k = Some k1" "core_ok k1" "same_waits k k1"
    "keeps_waiting t k k1" "\<forall>ob'. ob' \<noteq> ob \<longrightarrow> kind (wobjs k1 ob') = kind (wobjs k ob')" by auto
  have "ShouldWait k1 ob' t = ShouldWait k ob' t" if "ob' \<noteq> ob" for ob'
    using k1(5) that same_waits_status [OF k1(3)] by (intro ShouldWait_cong) simp_all
  moreover have "list_all (\<lambda>ob. \<not> ShouldWait k ob t) obs" "ob \<notin> set obs" using Cons.prems(3,4) by simp_all
  ultimately have "list_all (\<lambda>ob. \<not> ShouldWait k1 ob t) obs" unfolding list_all_iff by metis
  with Cons.IH [OF k1(2)] Cons.prems same_waits_status [OF k1(3)] obtain k2 where
    "steps (\<lambda>ob. Acquire ob t) obs k1 = Some k2" "core_ok k2" "same_waits k1 k2" "keeps_waiting t k1 k2" by auto
  with k1 show ?case by (auto intro: same_waits_trans keeps_waiting_trans)
qed

section \<open>Leaving the lists\<close>

lemma core_ok_cong:
  assumes c: "core_ok k" and m: "managers k' = managers k"
    and t: "\<And>t. status (threads k' t) = status (threads k t) \<and> current_priority (threads k' t) = current_priority (threads k t) \<and>
      nominal_priority (threads k' t) = nominal_priority (threads k t) \<and> core_id (threads k' t) = core_id (threads k t) \<and>
      held_mutexes (threads k' t) = held_mutexes (threads k t)"
    and o: "\<And>ob. kind (wobjs k' ob) = kind (wobjs k ob)"
  shows "core_ok k'"
proof -
  have "sched_ok k'" by (rule sched_ok_cong) (use c m t in \<open>auto simp: core_ok_def sched_ok_def prepared_def\<close>)
  moreover have "held_ok k'" using c t o by (simp add: core_ok_def held_ok_def mutex_ok_def holds_def)
  moreover have "best_held_priority k' s = best_held_priority k s" for s
    using t o by (intro best_held_cong) (simp_all add: priority_of_mutex_def)
  then have "boost_ok k'" using c t by (simp add: core_ok_def boost_ok_def)
  ultimately show ?thesis by (simp add: core_ok_def)
qed

definition same_threads :: "kernel \<Rightarrow> kernel \<Rightarrow> bool" where
  "same_threads k k' \<longleftrightarrow>
     (\<forall>t. status (threads k' t) = status (threads k t) \<and> wait_objects (threads k' t) = wait_objects (threads k t) \<and>
          wakeup_cb (threads k' t) = wakeup_cb (threads k t) \<and> core_id (threads k' t) = core_id (threads k t) \<and>
          thread_id (threads k' t) = thread_id (threads k t) \<and> can_schedule (threads k' t) = can_schedule (threads k t) \<and>
          held_mutexes (threads k' t) = held_mutexes (threads k t)) \<and>
     (\<forall>ob s. ShouldWait k' ob s = ShouldWait k ob s \<and> holds k' s ob = holds k s ob) \<and>
     arbiters k' = arbiters k \<and> ktiming k' = ktiming k \<and> timer_callback_table k' = timer_callback_table k \<and>
     (\<forall>c. current_thread (managers k' c) = current_thread (managers k c) \<and>
          wakeup_callback_table (managers k' c) = wakeup_callback_table (managers k c))"

lemma same_threads_refl [simp]: "same_threads k k"
  by (simp add: same_threads_def)

lemma same_threads_trans: "same_threads k k' \<Longrightarrow> same_threads k' k'' \<Longrightarrow> same_threads k k''"
  by (simp add: same_threads_def)

lemma calm_same_threads: "calm k k' \<Longrightarrow> same_threads k k'"
  by (simp add: same_threads_def calm_threads calm_ShouldWait holds_plain) (simp add: calm_def)

lemma RemoveWaitingThread_spec:
  assumes c: "core_ok k"
  shows "core_ok (RemoveWaitingThread ob t k)" "same_threads k (RemoveWaitingThread ob t k)"
    "waiting_threads (wobjs (RemoveWaitingThread ob t k) ob') =
       (if ob' = ob then remove1 t (waiting_threads (wobjs k ob)) else waiting_threads (wobjs k ob'))"
proof -
  let ?k1 = "remove_waiting ob t k"
  let ?k2 = "upd_thread t (\<lambda>th. th\<lparr>pending_mutexes := removeAll ob (pending_mutexes th)\<rparr>) ?k1"
  have c1: "core_ok ?k1" by (rule core_ok_cong [OF c]) (simp_all add: remove_waiting_def)
  have c2: "core_ok ?k2" by (rule core_ok_cong [OF c1]) simp_all
  have s1: "same_threads k ?k1" "same_threads k ?k2"
    by (auto simp: same_threads_def remove_waiting_def holds_def intro!: ShouldWait_cong split: if_splits)
  have w: "waiting_threads (wobjs ?k1 ob') = (if ob' = ob then remove1 t (waiting_threads (wobjs k ob)) else waiting_threads (wobjs k ob'))"
    "waiting_threads (wobjs ?k2 ob') = waiting_threads (wobjs ?k1 ob')"
    by (simp_all add: remove_waiting_def)
  note m = calm_Mutex_UpdatePriority [of ?k2 ob]
  show "core_ok (RemoveWaitingThread ob t k)"
    using c1 core_ok_Mutex_UpdatePriority [OF c2] by (simp add: RemoveWaitingThread_def)
  show "same_threads k (RemoveWaitingThread ob t k)"
    using s1 same_threads_trans [OF s1(2) calm_same_threads [OF m]] by (simp add: RemoveWaitingThread_def)
  show "waiting_threads (wobjs (RemoveWaitingThread ob t k) ob') =
      (if ob' = ob then remove1 t (waiting_threads (wobjs k ob)) else waiting_threads (wobjs k ob'))"
    using w calm_objects(1) [OF m, of ob'] by (cases "ob' = ob") (simp_all add: RemoveWaitingThread_def)
qed

lemma remove1_distinct: "distinct xs \<Longrightarrow> remove1 t xs = filter (\<lambda>s. s \<noteq> t) xs"
  by (induction xs) (auto simp: filter_neq_id)

lemma remove_all_spec:
  assumes "core_ok k" "\<forall>ob. distinct (waiting_threads (wobjs k ob))"
  shows "core_ok (fold (\<lambda>ob. RemoveWaitingThread ob t) obs k) \<and> same_threads k (fold (\<lambda>ob. RemoveWaitingThread ob t) obs k) \<and>
    (\<forall>ob. waiting_threads (wobjs (fold (\<lambda>ob. RemoveWaitingThread ob t) obs k) ob) =
       (if ob \<in> set obs then filter (\<lambda>s. s \<noteq> t) (waiting_threads (wobjs k ob)) else waiting_threads (wobjs k ob)))"
  using assms
proof (induction obs arbitrary: k)
  case (Cons ob obs)
  note r = RemoveWaitingThread_spec [OF Cons.prems(1), of ob t]
  have d: "remove1 t (waiting_threads (wobjs k ob)) = filter (\<lambda>s. s \<noteq> t) (waiting_threads (wobjs k ob))"
    using Cons.prems(2) by (simp add: remove1_distinct)
  have "\<forall>ob'. distinct (waiting_threads (wobjs (RemoveWaitingThread ob t k) ob'))"
    using Cons.prems(2) by (simp add: r(3))
  from Cons.IH [OF r(1) this] r(2) show ?case
    by (auto simp: r(3) d intro: same_threads_trans)
qed simp

lemma leave_wait_lists_spec:
  fixes t :: nat
  assumes c: "core_ok k" and l: "lists_ok k"
  defines "k' \<equiv> leave_wait_lists t k"
  shows "core_ok k'" "lists_ok k'" "wait_objects (threads k' t) = []"
    "\<And>s. s \<noteq> t \<Longrightarrow> wait_objects (threads k' s) = wait_objects (threads k s)"
    "\<And>s. status (threads k' s) = status (threads k s) \<and> wakeup_cb (threads k' s) = wakeup_cb (threads k s) \<and>
         core_id (threads k' s) = core_id (threads k s) \<and> thread_id (threads k' s) = thread_id (threads k s) \<and>
         held_mutexes (threads k' s) = held_mutexes (threads k s)"
    "\<And>ob. waiting_threads (wobjs k' ob) = filter (\<lambda>s. s \<noteq> t) (waiting_threads (wobjs k ob))"
    "\<And>ob s. ShouldWait k' ob s = ShouldWait k ob s \<and> holds k' s ob = holds k s ob"
    "arbiters k' = arbiters k" "ktiming k' = ktiming k" "timer_callback_table k' = timer_callback_table k"
    "\<And>c. current_thread (managers k' c) = current_thread (managers k c)"
    "\<And>c. wakeup_callback_table (managers k' c) = wakeup_callback_table (managers k c)"
proof -
  let ?k1 = "fold (\<lambda>ob. RemoveWaitingThread ob t) (wait_objects (threads k t)) k"
  have d: "\<forall>ob. distinct (waiting_threads (wobjs k ob))" using l by (simp add: lists_ok_def)
  note r = remove_all_spec [OF c d, of t "wait_objects (threads k t)"]
  have k': "k' = upd_thread t (\<lambda>th. th\<lparr>wait_objects := []\<rparr>) ?k1" by (simp add: k'_def leave_wait_lists_def)
  have s1: "same_threads k ?k1" using r by blast
  show "core_ok k'" unfolding k' by (rule core_ok_cong [of ?k1]) (use r in simp_all)
  have w: "waiting_threads (wobjs k' ob) = filter (\<lambda>s. s \<noteq> t) (waiting_threads (wobjs k ob))" for ob
  proof (cases "ob \<in> set (wait_objects (threads k t))")
    case False
    then have "t \<notin> set (waiting_threads (wobjs k ob))" using l by (simp add: lists_ok_def)
    then show ?thesis using r False by (simp add: k' filter_neq_id)
  qed (use r in \<open>simp add: k'\<close>)
  then show "waiting_threads (wobjs k' ob) = filter (\<lambda>s. s \<noteq> t) (waiting_threads (wobjs k ob))" for ob .
  have o: "wait_objects (threads k' s) = (if s = t then [] else wait_objects (threads k s))" for s
    using s1 by (simp add: k' same_threads_def)
  then show "wait_objects (threads k' s) = wait_objects (threads k s)" if "s \<noteq> t" for s using that by simp
  show "lists_ok k'" using l by (auto simp: lists_ok_def w o)
  show "wait_objects (threads k' t) = []" by (simp add: o)
  show "status (threads k' s) = status (threads k s) \<and> wakeup_cb (threads k' s) = wakeup_cb (threads k s) \<and>
         core_id (threads k' s) = core_id (threads k s) \<and> thread_id (threads k' s) = thread_id (threads k s) \<and>
         held_mutexes (threads k' s) = held_mutexes (threads k s)" for s
    using s1 by (simp add: k' same_threads_def)
  have "ShouldWait k' ob s = ShouldWait ?k1 ob s" for ob s by (rule ShouldWait_cong) (simp_all add: k')
  then show "ShouldWait k' ob s = ShouldWait k ob s \<and> holds k' s ob = holds k s ob" for ob s
    using s1 by (simp add: same_threads_def) (simp add: k' holds_def)
  show "arbiters k' = arbiters k" "ktiming k' = ktiming k" "timer_callback_table k' = timer_callback_table k"
    "current_thread (managers k' c) = current_thread (managers k c)"
    "wakeup_callback_table (managers k' c) = wakeup_callback_table (managers k c)" for c
    using s1 by (simp_all add: k' same_threads_def)
qed

section \<open>Waking one thread\<close>

text \<open>The callback of a waiting system call only writes registers of the thread.\<close>

lemma WakeUp_signal:
  assumes c: "core_ok k" and cb: "\<forall>a. wakeup_cb (threads k t) \<noteq> Some (ArbiterCallback a)"
    and ne: "wait_objects (threads k t) \<noteq> []"
  shows "\<exists>k'. WakeUp Reason_Signal t ob k = Some k' \<and> core_ok k' \<and> same_waits k k' \<and>
    (\<forall>ob s. ShouldWait k' ob s = ShouldWait k ob s \<and> holds k' s ob = holds k s ob) \<and>
    (\<forall>s. held_mutexes (threads k' s) = held_mutexes (threads k s))"
proof -
  have *: "core_ok (upd_thread t (\<lambda>th. th\<lparr>thread_ctx := f th\<rparr>) k1) \<and>
      same_waits k1 (upd_thread t (\<lambda>th. th\<lparr>thread_ctx := f th\<rparr>) k1) \<and>
      (\<forall>ob s. ShouldWait (upd_thread t (\<lambda>th. th\<lparr>thread_ctx := f th\<rparr>) k1) ob s = ShouldWait k1 ob s \<and>
        holds (upd_thread t (\<lambda>th. th\<lparr>thread_ctx := f th\<rparr>) k1) s ob = holds k1 s ob) \<and>
      (\<forall>s. held_mutexes (threads (upd_thread t (\<lambda>th. th\<lparr>thread_ctx := f th\<rparr>) k1) s) = held_mutexes (threads k1 s))"
    if "core_ok k1" for f k1
    by (intro conjI core_ok_cong [OF that]) (auto simp: same_waits_def holds_def intro!: ShouldWait_cong split: if_splits)
  note r = * [OF c, of "\<lambda>th. (thread_ctx th)(0 := RESULT_SUCCESS)"]
  show ?thesis
  proof (cases "wakeup_cb (threads k t)")
    case None
    then show ?thesis using c by (simp add: WakeUp_def)
  next
    case (Some cb')
    then obtain b where b: "wakeup_cb (threads k t) = Some (SVC_SyncCallback b)" using cb by (cases cb') auto
    show ?thesis
    proof (cases b)
      case False
      with b r show ?thesis by (simp add: WakeUp_def SyncCallback_WakeUp_def SetWaitSynchronizationResult_def)
    next
      case True
      let ?k1 = "SetWaitSynchronizationResult t RESULT_SUCCESS k"
      have r1: "core_ok ?k1" "same_waits k ?k1" "\<forall>ob s. ShouldWait ?k1 ob s = ShouldWait k ob s \<and> holds ?k1 s ob = holds k s ob"
        "\<forall>s. held_mutexes (threads ?k1 s) = held_mutexes (threads k s)"
        using r by (simp_all add: SetWaitSynchronizationResult_def)
      obtain i where i: "GetWaitObjectIndex ob t ?k1 = Some i"
        using ne by (simp add: GetWaitObjectIndex_def SetWaitSynchronizationResult_def Let_def)
      note r2 = * [OF r1(1), of "\<lambda>th. (thread_ctx th)(1 := word_of_int i)"]
      have "WakeUp Reason_Signal t ob k = Some (SetWaitSynchronizationOutput t i ?k1)"
        using b True i by (simp add: WakeUp_def SyncCallback_WakeUp_def Let_def)
      then show ?thesis using r1 r2 by (auto simp: SetWaitSynchronizationOutput_def intro: same_waits_trans)
    qed
  qed
qed

text \<open>What waking threads leaves alone in threads that do not wait.\<close>

definition wakes :: "kernel \<Rightarrow> kernel \<Rightarrow> bool" where
  "wakes k k' \<longleftrightarrow>
     (\<forall>s. core_id (threads k' s) = core_id (threads k s) \<and> thread_id (threads k' s) = thread_id (threads k s)) \<and>
     (\<forall>s. wait_objects (threads k s) = [] \<longrightarrow>
        status (threads k' s) = status (threads k s) \<and> wait_objects (threads k' s) = [] \<and>
        wakeup_cb (threads k' s) = wakeup_cb (threads k s) \<and>
        held_mutexes (threads k' s) = held_mutexes (threads k s) \<and> (\<forall>ob. holds k' s ob \<longrightarrow> holds k s ob)) \<and>
     (\<forall>s. wait_objects (threads k' s) \<noteq> [] \<longrightarrow> wait_objects (threads k' s) = wait_objects (threads k s) \<and>
        status (threads k' s) = status (threads k s)) \<and>
     (\<forall>s. wait_objects (threads k s) \<noteq> [] \<longrightarrow> wait_objects (threads k' s) = [] \<longrightarrow> status (threads k' s) = Ready) \<and>
     (\<forall>s ob. holds k s ob \<longrightarrow> holds k' s ob) \<and>
     arbiters k' = arbiters k \<and> ktiming k' = ktiming k \<and> timer_callback_table k' = timer_callback_table k \<and>
     (\<forall>c. current_thread (managers k' c) = current_thread (managers k c) \<and>
          wakeup_callback_table (managers k' c) = wakeup_callback_table (managers k c))"

lemma wakes_refl [simp]: "wakes k k"
  by (simp add: wakes_def)

lemma wakes_trans:
  assumes "wakes k k'" "wakes k' k''"
  shows "wakes k k''"
proof -
  note d = assms [unfolded wakes_def]
  have same: "core_id (threads k'' s) = core_id (threads k s) \<and> thread_id (threads k'' s) = thread_id (threads k s)" for s
    using conjunct1 [OF d(1)] conjunct1 [OF d(2)] by simp
  have idle: "status (threads k'' s) = status (threads k s) \<and> wait_objects (threads k'' s) = [] \<and>
      wakeup_cb (threads k'' s) = wakeup_cb (threads k s) \<and>
      held_mutexes (threads k'' s) = held_mutexes (threads k s) \<and> (\<forall>ob. holds k'' s ob \<longrightarrow> holds k s ob)"
    if "wait_objects (threads k s) = []" for s
  proof -
    have "wait_objects (threads k' s) = [] \<and> status (threads k' s) = status (threads k s) \<and>
        wakeup_cb (threads k' s) = wakeup_cb (threads k s) \<and>
        held_mutexes (threads k' s) = held_mutexes (threads k s) \<and> (\<forall>ob. holds k' s ob \<longrightarrow> holds k s ob)"
      using d(1) that by blast
    moreover from this have "status (threads k'' s) = status (threads k' s) \<and> wait_objects (threads k'' s) = [] \<and>
        wakeup_cb (threads k'' s) = wakeup_cb (threads k' s) \<and>
        held_mutexes (threads k'' s) = held_mutexes (threads k' s) \<and> (\<forall>ob. holds k'' s ob \<longrightarrow> holds k' s ob)"
      using d(2) by blast
    ultimately show ?thesis by (elim conjE, intro conjI) (simp, simp, simp, simp, blast)
  qed
  have still: "wait_objects (threads k'' s) = wait_objects (threads k s) \<and> status (threads k'' s) = status (threads k s)"
    if "wait_objects (threads k'' s) \<noteq> []" for s
  proof -
    have "wait_objects (threads k'' s) = wait_objects (threads k' s) \<and> status (threads k'' s) = status (threads k' s)"
      using d(2) that by blast
    moreover from this that have "wait_objects (threads k' s) = wait_objects (threads k s) \<and>
        status (threads k' s) = status (threads k s)" using d(1) by metis
    ultimately show ?thesis by simp
  qed
  have woken: "status (threads k'' s) = Ready"
    if "wait_objects (threads k s) \<noteq> []" "wait_objects (threads k'' s) = []" for s
  proof (cases "wait_objects (threads k' s) = []")
    case True
    then have "status (threads k' s) = Ready" using d(1) that by blast
    moreover have "status (threads k'' s) = status (threads k' s)" using d(2) True by blast
    ultimately show ?thesis by simp
  qed (use d(2) that in blast)
  have "holds k'' s ob" if "holds k s ob" for s ob using d that by blast
  moreover have r: "arbiters b = arbiters a \<and> ktiming b = ktiming a \<and> timer_callback_table b = timer_callback_table a \<and>
      (\<forall>c. current_thread (managers b c) = current_thread (managers a c) \<and>
        wakeup_callback_table (managers b c) = wakeup_callback_table (managers a c))" if "wakes a b" for a b
    using that unfolding wakes_def by blast
  have "arbiters k'' = arbiters k \<and> ktiming k'' = ktiming k \<and> timer_callback_table k'' = timer_callback_table k \<and>
      (\<forall>c. current_thread (managers k'' c) = current_thread (managers k c) \<and>
        wakeup_callback_table (managers k'' c) = wakeup_callback_table (managers k c))"
    using r [OF assms(1)] r [OF assms(2)] by simp
  ultimately show ?thesis using same idle still woken unfolding wakes_def by blast
qed

text \<open>Leaving the lists and resuming, after what the thread took of its objects: also the end of a timeout.\<close>

lemma runnable_mono:
  assumes "\<not> runnable k y s" "\<And>y. ShouldWait k y s \<Longrightarrow> ShouldWait k' y s"
    "status (threads k' s) = status (threads k s)" "wait_objects (threads k' s) = wait_objects (threads k s)"
  shows "\<not> runnable k' y s"
  using assms by (auto simp: runnable_def ready_to_run_def list_all_iff split: if_splits)

lemma leave_and_resume:
  assumes k: "kernel_ok X k" and ne: "wait_objects (threads k t) \<noteq> []"
    and k2: "core_ok k2" "same_waits k k2" "keeps_waiting t k k2"
  shows "\<exists>k'. ResumeFromWait t (leave_wait_lists t k2) = Some k' \<and> kernel_ok X k' \<and> wakes k k' \<and>
    (\<forall>ob. waiting_threads (wobjs k' ob) = filter (\<lambda>s. s \<noteq> t) (waiting_threads (wobjs k ob)))"
proof -
  have l: "lists_ok k" and wt: "waiters_ok k" and nl: "no_lost X k" using k by (simp_all add: kernel_ok_def)
  have st: "status (threads k t) \<in> {WaitSynchAny, WaitSynchAll, WaitHleEvent}"
    using wt ne by (auto simp: waiters_ok_def waiter_ok_def)
  have l2: "lists_ok k2" using l same_waits_lists [OF k2(2)] by simp
  note v = leave_wait_lists_spec [OF k2(1) l2, where t = t]
  let ?k3 = "leave_wait_lists t k2"
  have s3: "sched_ok ?k3" using v(1) by (simp add: core_ok_def)
  have st3: "status (threads ?k3 s) = status (threads k s)" "wakeup_cb (threads ?k3 s) = wakeup_cb (threads k s)"
    "core_id (threads ?k3 s) = core_id (threads k s)" "thread_id (threads ?k3 s) = thread_id (threads k s)" for s
    using v(5) [of s] k2(2) by (simp_all add: same_waits_def)
  have nst: "status (threads ?k3 t) \<notin> {Running, Dead, Dormant}" "status (threads ?k3 t) \<noteq> Ready"
    using st st3(1) [of t] by auto
  from ResumeFromWait_spec [OF s3 v(3) nst(1)] nst(2) obtain k4 where k4: "ResumeFromWait t ?k3 = Some k4" "sched_ok k4"
    "threads k4 = (threads ?k3)(t := (threads ?k3 t)\<lparr>wakeup_cb := None, status := Ready\<rparr>)" "wobjs k4 = wobjs ?k3"
    "arbiters k4 = arbiters ?k3" "ktiming k4 = ktiming ?k3" "timer_callback_table k4 = timer_callback_table ?k3"
    "\<forall>c. current_thread (managers k4 c) = current_thread (managers ?k3 c) \<and>
         wakeup_callback_table (managers k4 c) = wakeup_callback_table (managers ?k3 c)" by auto
  have held4: "held_mutexes (threads k4 s) = held_mutexes (threads k s)" if "s \<noteq> t" for s
    using v(5) [of s] k2(3) that by (simp add: k4(3) keeps_waiting_def)
  have w4: "waiting_threads (wobjs k4 y) = filter (\<lambda>s. s \<noteq> t) (waiting_threads (wobjs k y))" for y
    using v(6) [of y] k2(2) by (simp add: k4(4) same_waits_def)
  have o4: "wait_objects (threads k4 s) = (if s = t then [] else wait_objects (threads k s))" for s
    using v(3) v(4) [of s] k2(2) by (simp add: k4(3) same_waits_def)
  have st4: "status (threads k4 s) = (if s = t then Ready else status (threads k s))"
    "wakeup_cb (threads k4 s) = (if s = t then None else wakeup_cb (threads k s))" for s
    using st3 by (simp_all add: k4(3))
  have ids: "core_id (threads k4 s) = core_id (threads k s)" "thread_id (threads k4 s) = thread_id (threads k s)" for s
    using st3 by (simp_all add: k4(3))
  have c4: "core_ok k4"
  proof -
    have h: "held_ok ?k3" "boost_ok ?k3" using v(1) by (simp_all add: core_ok_def)
    have hm: "held_mutexes (threads k4 s) = held_mutexes (threads ?k3 s)"
      "status (threads k4 s) \<noteq> Dead \<longleftrightarrow> status (threads ?k3 s) \<noteq> Dead" for s
      using nst by (simp_all add: k4(3))
    then have "held_ok k4" using h(1) by (simp add: held_ok_def mutex_ok_def holds_def k4(4))
    moreover have "best_held_priority k4 s = best_held_priority ?k3 s" for s
      by (rule best_held_cong) (simp_all add: k4(3,4) priority_of_mutex_def)
    then have "boost_ok k4" using h(2) hm(2) by (simp add: boost_ok_def k4(3))
    ultimately show ?thesis using k4(2) by (simp add: core_ok_def)
  qed
  have sw4: "ShouldWait k4 y s" if "ShouldWait k y s" "s \<noteq> t" for y s
  proof -
    have "ShouldWait k4 y s = ShouldWait ?k3 y s" using nst by (intro ShouldWait_cong) (simp_all add: k4(3,4))
    then show ?thesis using k2(3) v(7) that by (simp add: keeps_waiting_def)
  qed
  have "no_lost X k4"
    unfolding no_lost_def
  proof (intro allI impI)
    fix y s assume y: "s \<in> set (waiting_threads (wobjs k4 y))" "runnable k4 y s"
    then have s: "s \<noteq> t" "s \<in> set (waiting_threads (wobjs k y))" by (auto simp: w4)
    then have "runnable k y s" using runnable_mono [of k y s k4] sw4 y(2) by (auto simp: o4 st4)
    with nl s show "y \<in> X \<or> status (threads k4 s) = WaitSynchAll \<and> set (wait_objects (threads k4 s)) \<inter> X \<noteq> {}"
      by (simp add: no_lost_def o4 st4)
  qed
  moreover have "lists_ok k4" using l by (auto simp: lists_ok_def w4 o4)
  moreover have "waiters_ok k4" using wt by (auto simp: waiters_ok_def waiter_ok_def o4 st4)
  ultimately have "kernel_ok X k4" using c4 by (simp add: kernel_ok_def)
  moreover have h4: "holds k4 s y" if "holds k s y" for s y
    using k2(3) v(7) [of y s] that by (simp add: keeps_waiting_def holds_def k4(4))
  moreover have "holds k s y" if "holds k4 s y" "s \<noteq> t" for s y
    using k2(3) v(7) [of y s] that by (simp add: keeps_waiting_def holds_def k4(4))
  then have "wakes k k4"
    using v(8-12) k2(2) ids k4(5-8) ne held4 h4 by (auto simp: wakes_def o4 st4 same_waits_def)
  ultimately show ?thesis using k4(1) w4 by blast
qed

lemma wake_one_spec:
  assumes k: "kernel_ok X k" and t: "t \<in> set (waiting_threads (wobjs k ob))" and r: "runnable k ob t"
  shows "\<exists>k'. wake_one ob t k = Some k' \<and> kernel_ok X k' \<and> wakes k k' \<and>
    (\<forall>ob. waiting_threads (wobjs k' ob) = filter (\<lambda>s. s \<noteq> t) (waiting_threads (wobjs k ob)))"
proof -
  have c: "core_ok k" and wt: "waiter_ok (threads k t)" using k by (simp_all add: kernel_ok_def waiters_ok_def)
  have ne: "wait_objects (threads k t) \<noteq> []" using k t by (auto simp: kernel_ok_def lists_ok_def)
  then have d: "status (threads k t) \<noteq> Dead" and cb: "\<forall>a. wakeup_cb (threads k t) \<noteq> Some (ArbiterCallback a)"
    using wt by (auto simp: waiter_ok_def)
  obtain k1 where k1: "(if \<not> IsSleepingOnWaitAll k t then Acquire ob t k
      else steps (\<lambda>x. Acquire x t) (wait_objects (threads k t)) k) = Some k1"
    "core_ok k1" "same_waits k k1" "keeps_waiting t k k1"
  proof (cases "status (threads k t) = WaitSynchAll")
    case True
    have "list_all (\<lambda>ob. \<not> ShouldWait k ob t) (wait_objects (threads k t))" "distinct (wait_objects (threads k t))"
      using r True wt by (simp_all add: runnable_def ready_to_run_def waiter_ok_def)
    from Acquire_all [OF c d this] True that show thesis by (auto simp: IsSleepingOnWaitAll_def)
  next
    case False
    have "\<not> ShouldWait k ob t" using r by (simp add: runnable_def)
    from Acquire_spec [OF c this d] False that show thesis by (auto simp: IsSleepingOnWaitAll_def)
  qed
  have "wait_objects (threads k1 t) = wait_objects (threads k t)" "wakeup_cb (threads k1 t) = wakeup_cb (threads k t)"
    using k1(3) by (simp_all add: same_waits_def)
  with WakeUp_signal [OF k1(2), of t ob] cb ne obtain k2 where k2: "WakeUp Reason_Signal t ob k1 = Some k2"
    "core_ok k2" "same_waits k1 k2" "\<forall>ob s. ShouldWait k2 ob s = ShouldWait k1 ob s \<and> holds k2 s ob = holds k1 s ob"
    "\<forall>s. held_mutexes (threads k2 s) = held_mutexes (threads k1 s)" by auto
  have "keeps_waiting t k k2" using k1(4) k2(4,5) by (simp add: keeps_waiting_def)
  from leave_and_resume [OF k ne k2(2) same_waits_trans [OF k1(3) k2(3)] this] k1(1) k2(1) show ?thesis
    by (simp add: wake_one_def)
qed

section \<open>Waking all\<close>

text \<open>The candidate is the first of the best among the threads that can be woken.\<close>

definition chosen :: "kernel \<Rightarrow> nat \<Rightarrow> nat list \<Rightarrow> nat option \<Rightarrow> nat \<Rightarrow> nat option \<Rightarrow> bool" where
  "chosen k ob ts cand p r \<longleftrightarrow>
     (r = cand \<and> (\<forall>s \<in> set ts. runnable k ob s \<longrightarrow> p \<le> current_priority (threads k s)) \<or>
      (\<exists>t. r = Some t \<and> t \<in> set ts \<and> runnable k ob t \<and> current_priority (threads k t) < p \<and>
         (\<forall>s \<in> set ts. runnable k ob s \<longrightarrow> current_priority (threads k t) \<le> current_priority (threads k s))))"

lemma best_candidate_spec:
  assumes "\<forall>s \<in> set ts. status (threads k s) \<in> {WaitSynchAny, WaitSynchAll, WaitHleEvent}"
  shows "\<exists>r. best_candidate k ob ts cand p = Some r \<and> chosen k ob ts cand p r"
  using assms
proof (induction ts arbitrary: cand p)
  case (Cons t ts)
  have st: "status (threads k t) \<in> {WaitSynchAny, WaitSynchAll, WaitHleEvent}" using Cons.prems by simp
  have IH: "\<exists>r. best_candidate k ob ts cand p = Some r \<and> chosen k ob ts cand p r" for cand p
    by (rule Cons.IH) (use Cons.prems in simp)
  show ?case
  proof (cases "current_priority (threads k t) \<ge> p \<or> ShouldWait k ob t \<or> \<not> ready_to_run k t")
    case True
    then have t: "runnable k ob t \<longrightarrow> p \<le> current_priority (threads k t)" by (auto simp: runnable_def)
    have eq: "best_candidate k ob (t # ts) cand p = best_candidate k ob ts cand p" using st True by simp
    have "chosen k ob (t # ts) cand p r" if "chosen k ob ts cand p r" for r
      using that t unfolding chosen_def by (elim disjE exE conjE) (simp, force)
    with IH [of cand p] eq show ?thesis by auto
  next
    case False
    then have t: "runnable k ob t" "current_priority (threads k t) < p" by (auto simp: runnable_def)
    have eq: "best_candidate k ob (t # ts) cand p = best_candidate k ob ts (Some t) (current_priority (threads k t))"
      using st False by simp
    have "chosen k ob (t # ts) cand p r" if "chosen k ob ts (Some t) (current_priority (threads k t)) r" for r
      using that t unfolding chosen_def by (elim disjE exE conjE) (simp, force)
    with IH [of "Some t" "current_priority (threads k t)"] eq show ?thesis by auto
  qed
qed (simp add: chosen_def)

lemma GetHighest_spec:
  assumes "kernel_ok X k"
  obtains "GetHighestPriorityReadyThread ob k = Some None"
    "\<forall>s \<in> set (waiting_threads (wobjs k ob)). \<not> runnable k ob s"
  | t where "GetHighestPriorityReadyThread ob k = Some (Some t)" "t \<in> set (waiting_threads (wobjs k ob))"
    "runnable k ob t"
    "\<forall>s \<in> set (waiting_threads (wobjs k ob)). runnable k ob s \<longrightarrow>
       current_priority (threads k t) \<le> current_priority (threads k s)"
proof -
  have st: "\<forall>s \<in> set (waiting_threads (wobjs k ob)). status (threads k s) \<in> {WaitSynchAny, WaitSynchAll, WaitHleEvent}"
  proof
    fix s assume "s \<in> set (waiting_threads (wobjs k ob))"
    then have "wait_objects (threads k s) \<noteq> []" using assms by (auto simp: kernel_ok_def lists_ok_def)
    then show "status (threads k s) \<in> {WaitSynchAny, WaitSynchAll, WaitHleEvent}"
      using assms by (auto simp: kernel_ok_def waiters_ok_def waiter_ok_def)
  qed
  have p: "current_priority (threads k s) < 64" for s
    using assms by (simp add: kernel_ok_def core_ok_def sched_ok_def prepared_def)
  from best_candidate_spec [OF st, of ob None "ThreadPrioLowest + 1"] obtain r where
    r: "GetHighestPriorityReadyThread ob k = Some r" "chosen k ob (waiting_threads (wobjs k ob)) None 64 r"
    by (auto simp: GetHighestPriorityReadyThread_def ThreadPrioLowest_def)
  show thesis
  proof (cases r)
    case None
    then have "\<not> runnable k ob s" if "s \<in> set (waiting_threads (wobjs k ob))" for s
      using r(2) p [of s] that by (auto simp: chosen_def)
    then show thesis using that(1) r(1) None by blast
  next
    case (Some t)
    then show thesis using that(2) [of t] r by (simp add: chosen_def)
  qed
qed

lemma no_lost_add:
  assumes "no_lost X k" "lists_ok k" "\<forall>s \<in> set (waiting_threads (wobjs k ob)). \<not> runnable k ob s"
  shows "no_lost (X - {ob}) k"
  unfolding no_lost_def
proof (intro allI impI)
  fix y s assume y: "s \<in> set (waiting_threads (wobjs k y))" "runnable k y s"
  then have "y \<noteq> ob" using assms(3) by auto
  have "ob \<notin> set (wait_objects (threads k s))" if "status (threads k s) = WaitSynchAll"
  proof
    assume ob: "ob \<in> set (wait_objects (threads k s))"
    then have "runnable k ob s" using y(2) that by (auto simp: runnable_def ready_to_run_def list_all_iff)
    with assms(2,3) ob show False by (auto simp: lists_ok_def)
  qed
  with assms(1) y \<open>y \<noteq> ob\<close> show
    "y \<in> X - {ob} \<or> status (threads k s) = WaitSynchAll \<and> set (wait_objects (threads k s)) \<inter> (X - {ob}) \<noteq> {}"
    by (auto simp: no_lost_def)
qed

lemma wakeup_loop_spec:
  assumes "kernel_ok X k"
  shows "\<exists>k'. wakeup_loop ob k = Some k' \<and> kernel_ok (X - {ob}) k' \<and> wakes k k' \<and>
    (\<forall>y. set (waiting_threads (wobjs k' y)) \<subseteq> set (waiting_threads (wobjs k y)))"
  using assms
proof (induction "length (waiting_threads (wobjs k ob))" arbitrary: k rule: less_induct)
  case less
  show ?case
  proof (rule GetHighest_spec [OF less.prems, of ob])
    assume g: "GetHighestPriorityReadyThread ob k = Some None" "\<forall>s \<in> set (waiting_threads (wobjs k ob)). \<not> runnable k ob s"
    then have "wakeup_loop ob k = Some k" by (simp add: wakeup_loop.simps)
    moreover have "kernel_ok (X - {ob}) k"
      using less.prems no_lost_add [OF _ _ g(2)] by (simp add: kernel_ok_def)
    ultimately show ?thesis by auto
  next
    fix t assume t: "GetHighestPriorityReadyThread ob k = Some (Some t)" "t \<in> set (waiting_threads (wobjs k ob))" "runnable k ob t"
    from wake_one_spec [OF less.prems t(2,3)] obtain k1 where k1: "wake_one ob t k = Some k1" "kernel_ok X k1" "wakes k k1"
      "\<forall>y. waiting_threads (wobjs k1 y) = filter (\<lambda>s. s \<noteq> t) (waiting_threads (wobjs k y))" by auto
    have "length (waiting_threads (wobjs k1 ob)) < length (waiting_threads (wobjs k ob))"
      using t(2) k1(4) by (simp add: length_filter_less)
    from less.hyps [OF this k1(2)] obtain k2 where k2: "wakeup_loop ob k1 = Some k2" "kernel_ok (X - {ob}) k2" "wakes k1 k2"
      "\<forall>y. set (waiting_threads (wobjs k2 y)) \<subseteq> set (waiting_threads (wobjs k1 y))" by auto
    have "wakeup_loop ob k = Some k2" using t(1) k1(1) k2(1) by (subst wakeup_loop.simps) simp
    moreover have "set (waiting_threads (wobjs k2 y)) \<subseteq> set (waiting_threads (wobjs k y))" for y using k2(4) k1(4) by auto
    ultimately show ?thesis using k2(2) wakes_trans [OF k1(3) k2(3)] by blast
  qed
qed

text \<open>Whatever makes objects less available keeps the invariant; what makes one more available needs its
  threads to be woken.\<close>

lemma kernel_ok_mono:
  assumes k: "kernel_ok X k" and c: "core_ok k'" and s: "same_waits k k'"
    and w: "\<And>y t. y \<notin> Y \<Longrightarrow> ShouldWait k y t \<Longrightarrow> ShouldWait k' y t"
  shows "kernel_ok (X \<union> Y) k'"
proof -
  have n: "no_lost X k" "lists_ok k" using k by (simp_all add: kernel_ok_def)
  have "no_lost (X \<union> Y) k'"
    unfolding no_lost_def
  proof (intro allI impI)
    fix y t assume t: "t \<in> set (waiting_threads (wobjs k' y))" "runnable k' y t"
    then have tk: "t \<in> set (waiting_threads (wobjs k y))" and
      same: "status (threads k' t) = status (threads k t)" "wait_objects (threads k' t) = wait_objects (threads k t)"
      using s by (simp_all add: same_waits_def)
    show "y \<in> X \<union> Y \<or> status (threads k' t) = WaitSynchAll \<and> set (wait_objects (threads k' t)) \<inter> (X \<union> Y) \<noteq> {}"
    proof (cases "runnable k y t")
      case True
      then show ?thesis using n(1) tk by (auto simp: no_lost_def same)
    next
      case False
      then show ?thesis using t(2) w same
        by (auto simp: runnable_def ready_to_run_def list_all_iff split: if_splits)
    qed
  qed
  then show ?thesis
    using k c same_waits_lists [OF s] same_waits_waiters [OF s] by (simp add: kernel_ok_def)
qed

lemma same_waits_wakes:
  "same_waits k k' \<Longrightarrow> \<forall>s ob. holds k' s ob = holds k s ob \<Longrightarrow>
   \<forall>s. held_mutexes (threads k' s) = held_mutexes (threads k s) \<Longrightarrow> wakes k k'"
  by (auto simp: same_waits_def wakes_def)

lemma end_pulse_spec:
  assumes "kernel_ok {} k"
  shows "kernel_ok {} (end_pulse ob k) \<and> wakes k (end_pulse ob k)"
proof -
  have c: "core_ok k" using assms by (simp add: kernel_ok_def)
  have *: "kernel_ok {} (upd_kind ob x k) \<and> wakes k (upd_kind ob x k)"
    if "\<And>m. kind (wobjs k ob) \<noteq> MutexObj m" "\<And>m. x \<noteq> MutexObj m" "\<forall>s. ShouldWait (upd_kind ob x k) ob s" for x
  proof -
    have kw: "keeps_waiting t k (upd_kind ob x k)" for t
      by (rule keeps_waiting_kind) (use that in auto)
    have w: "ShouldWait (upd_kind ob x k) y t" if "ShouldWait k y t" for y t
      using kw [of "Suc t"] that by (simp add: keeps_waiting_def)
    have "kernel_ok {} (upd_kind ob x k)"
      using kernel_ok_mono [OF assms core_ok_kind [OF c that(1,2)] same_waits_kind, of "{}"] w by simp
    moreover have "holds (upd_kind ob x k) s y = holds k s y" for s y using that(1,2) by (simp add: holds_def)
    ultimately show ?thesis using same_waits_wakes [of k "upd_kind ob x k"] by simp
  qed
  show ?thesis
    using assms * by (auto simp: end_pulse_def ShouldWait_def split: object_kind.splits)
qed

lemma WakeupAll_spec:
  assumes "kernel_ok {ob} k"
  shows "\<exists>k'. WakeupAllWaitingThreads ob k = Some k' \<and> kernel_ok {} k' \<and> wakes k k'"
proof -
  from wakeup_loop_spec [OF assms, of ob] obtain k1 where k1: "wakeup_loop ob k = Some k1" "kernel_ok {} k1" "wakes k k1"
    by auto
  define k2 where "k2 = (if hle_notifier (wobjs k1 ob) then k1\<lparr>notifications := notifications k1 @ [ob]\<rparr> else k1)"
  have "same_waits k1 k2" by (simp add: k2_def same_waits_def)
  moreover have "core_ok k2" by (rule core_ok_cong [of k1]) (use k1(2) in \<open>simp_all add: k2_def kernel_ok_def\<close>)
  moreover have "ShouldWait k2 y t = ShouldWait k1 y t" for y t
    by (rule ShouldWait_cong) (simp_all add: k2_def)
  ultimately have "kernel_ok {} k2" "wakes k1 k2"
    using kernel_ok_mono [OF k1(2), of k2 "{}"] same_waits_wakes [of k1 k2] by (auto simp: k2_def holds_def)
  moreover have "WakeupAllWaitingThreads ob k = Some (end_pulse ob k2)"
    using k1(1) by (simp add: WakeupAllWaitingThreads_def base_WakeupAllWaitingThreads_def k2_def)
  ultimately show ?thesis using end_pulse_spec [of k2 ob] wakes_trans k1(3) by blast
qed

section \<open>Address arbiters\<close>

text \<open>What a call leaves of the arbiters: their lists, and the threads that wait for one with their callbacks.\<close>

definition arb_same :: "kernel \<Rightarrow> kernel \<Rightarrow> bool" where
  "arb_same k k' \<longleftrightarrow> arbiters k' = arbiters k \<and>
     (\<forall>t. status (threads k' t) = WaitArb \<or> status (threads k t) = WaitArb \<longrightarrow>
          status (threads k' t) = status (threads k t) \<and> wakeup_cb (threads k' t) = wakeup_cb (threads k t))"

lemma arb_same_refl [simp]: "arb_same k k"
  by (simp add: arb_same_def)

lemma through:
  "(b = w \<or> a = w \<Longrightarrow> b = a \<and> y = x) \<Longrightarrow> (c = w \<or> b = w \<Longrightarrow> c = b \<and> z = y) \<Longrightarrow> c = w \<or> a = w \<Longrightarrow> c = a \<and> z = x"
  by auto

lemma arb_same_trans:
  assumes "arb_same k k'" "arb_same k' k''"
  shows "arb_same k k''"
proof -
  note a = assms [unfolded arb_same_def]
  note e = a [THEN conjunct2, rule_format]
  have "status (threads k'' t) = status (threads k t) \<and> wakeup_cb (threads k'' t) = wakeup_cb (threads k t)"
    if "status (threads k'' t) = WaitArb \<or> status (threads k t) = WaitArb" for t
    by (rule through [OF _ _ that]) (erule e(1), erule e(2))
  moreover note a [THEN conjunct1]
  ultimately show ?thesis by (simp add: arb_same_def)
qed

lemma arb_same_threads:
  "threads k' = threads k \<Longrightarrow> arbiters k' = arbiters k \<Longrightarrow> arb_same k k'"
  by (simp add: arb_same_def)

lemma arb_same_Prepare [simp]: "arb_same k (PrepareReschedule k') = arb_same k k'"
  by (simp add: arb_same_def)

lemma arb_same_kind [simp]: "arb_same k (upd_kind ob x k') = arb_same k k'"
  by (simp add: arb_same_def)

lemma same_waits_arb: "same_waits k k' \<Longrightarrow> arb_same k k'"
  by (simp add: same_waits_def arb_same_def)

lemma same_threads_arb: "same_threads k k' \<Longrightarrow> arb_same k k'"
  by (simp add: same_threads_def arb_same_def)

lemma wakes_arb:
  assumes w: "wakes k k'" and k: "waiters_ok k"
  shows "arb_same k k'"
proof -
  have "status (threads k' t) = WaitArb \<or> status (threads k t) = WaitArb \<longrightarrow>
        status (threads k' t) = status (threads k t) \<and> wakeup_cb (threads k' t) = wakeup_cb (threads k t)" for t
  proof (cases "wait_objects (threads k t) = []")
    case True
    then show ?thesis using w unfolding wakes_def by metis
  next
    case False
    then have "status (threads k t) \<in> {WaitSynchAny, WaitSynchAll, WaitHleEvent}"
      using k by (auto simp: waiters_ok_def waiter_ok_def)
    moreover have "status (threads k' t) = Ready \<or> status (threads k' t) = status (threads k t)"
      using w False unfolding wakes_def by metis
    ultimately show ?thesis by auto
  qed
  moreover have "arbiters k' = arbiters k" using w unfolding wakes_def by blast
  ultimately show ?thesis by (simp add: arb_same_def)
qed

end
