(* ===== verification/KernelRun.thy ===== *)
theory KernelRun
  imports KernelWaits
begin

text \<open>
  The calls of the kernel keep its invariants: each returns, no assertion on its way fails, and afterwards
  no thread waits for something it could have. The calls make up the runs of the kernel.
\<close>

section \<open>Signaling\<close>

lemma kernel_ok_frame:
  assumes "kernel_ok X k" "threads k' = threads k" "wobjs k' = wobjs k" "managers k' = managers k"
  shows "kernel_ok X k'"
proof -
  have "core_ok k'" by (rule core_ok_cong [of k]) (use assms in \<open>simp_all add: kernel_ok_def\<close>)
  moreover have sw: "ShouldWait k' = ShouldWait k"
    by (intro ext ShouldWait_cong) (simp_all add: assms(2,3))
  then have "runnable k' = runnable k"
    by (intro ext) (simp add: runnable_def ready_to_run_def sw assms(2))
  ultimately show ?thesis
    using assms by (simp add: kernel_ok_def lists_ok_def waiters_ok_def no_lost_def)
qed

lemma kernel_ok_Prepare [simp]: "kernel_ok X (PrepareReschedule k) = kernel_ok X k"
  using kernel_ok_frame [of X k "PrepareReschedule k"] kernel_ok_frame [of X "PrepareReschedule k" k] by auto

lemma schedule_spec:
  assumes "kernel_ok X k"
  shows "\<exists>k'. schedule cycles ty data k = Some k' \<and> kernel_ok X k' \<and> threads k' = threads k \<and> wobjs k' = wobjs k \<and>
    managers k' = managers k \<and> arbiters k' = arbiters k"
proof -
  obtain T where "ScheduleEvent cycles ty data None (ktiming k) = Some T"
    by (cases "event_queue_locked (ktiming k)") (simp_all add: ScheduleEvent_def Let_def)
  then show ?thesis using assms kernel_ok_frame [OF assms, of "k\<lparr>ktiming := T\<rparr>"] by (simp add: schedule_def)
qed

text \<open>An object that is not a mutex changes and its threads are woken.\<close>

lemma signal_spec:
  assumes k: "kernel_ok {} k" and n: "\<And>m. kind (wobjs k ob) \<noteq> MutexObj m" "\<And>m. x \<noteq> MutexObj m"
  shows "\<exists>k'. WakeupAllWaitingThreads ob (upd_kind ob x k) = Some k' \<and> kernel_ok {} k' \<and> wakes k k'"
proof -
  have c: "core_ok k" using k by (simp add: kernel_ok_def)
  have "ShouldWait (upd_kind ob x k) y t" if "y \<notin> {ob}" "ShouldWait k y t" for y t
    using that ShouldWait_cong [of "upd_kind ob x k" y k t] by simp
  then have "kernel_ok {ob} (upd_kind ob x k)"
    using kernel_ok_mono [OF k core_ok_kind [OF c n] same_waits_kind, of "{ob}"] by simp
  from WakeupAll_spec [OF this] obtain k' where "WakeupAllWaitingThreads ob (upd_kind ob x k) = Some k'"
    "kernel_ok {} k'" "wakes (upd_kind ob x k) k'" by blast
  moreover have "wakes k (upd_kind ob x k)"
    using n by (intro same_waits_wakes) (auto simp: holds_def)
  ultimately show ?thesis using wakes_trans by blast
qed

lemma unavailable_spec:
  assumes k: "kernel_ok {} k" and n: "\<And>m. kind (wobjs k ob) \<noteq> MutexObj m" "\<And>m. x \<noteq> MutexObj m"
    and w: "\<And>s. ShouldWait k ob s \<Longrightarrow> ShouldWait (upd_kind ob x k) ob s"
  shows "kernel_ok {} (upd_kind ob x k)"
proof -
  have c: "core_ok k" using k by (simp add: kernel_ok_def)
  have "keeps_waiting t k (upd_kind ob x k)" for t by (rule keeps_waiting_kind) (use n w in auto)
  then have "ShouldWait (upd_kind ob x k) y t" if "ShouldWait k y t" for y t
    using that n_not_Suc_n [of t] unfolding keeps_waiting_def by metis
  then show ?thesis using kernel_ok_mono [OF k core_ok_kind [OF c n] same_waits_kind, of "{}"] by simp
qed

lemma Event_Signal_spec:
  "kernel_ok {} k \<Longrightarrow> kind (wobjs k ob) = EventObj e \<Longrightarrow>
   \<exists>k'. Event_Signal ob e k = Some k' \<and> kernel_ok {} k' \<and> wakes k k'"
  unfolding Event_Signal_def by (rule signal_spec) simp_all

lemma Event_Clear_spec:
  "kernel_ok {} k \<Longrightarrow> kind (wobjs k ob) = EventObj e \<Longrightarrow> kernel_ok {} (Event_Clear ob e k)"
  unfolding Event_Clear_def by (rule unavailable_spec) (simp_all add: ShouldWait_def)

lemma Timer_Signal_spec:
  assumes k: "kernel_ok {} k" and x: "\<And>m. kind (wobjs k ob) \<noteq> MutexObj m"
  shows "\<exists>k'. Timer_Signal ob x late k = Some k' \<and> kernel_ok {} k' \<and> arb_same k k'"
proof -
  from signal_spec [OF k x, of "TimerObj (x\<lparr>timer_signaled := True\<rparr>)"] obtain k1 where
    k1: "WakeupAllWaitingThreads ob (upd_kind ob (TimerObj (x\<lparr>timer_signaled := True\<rparr>)) k) = Some k1" "kernel_ok {} k1"
    and w: "wakes k k1" by auto
  have a: "arb_same k k1" using wakes_arb [OF w] k by (simp add: kernel_ok_def)
  from schedule_spec [OF k1(2), of "sint (nsToCycles_u64 (interval_delay x)) - late" timer_callback_type "callback_id x"]
  obtain k2 where k2: "schedule (sint (nsToCycles_u64 (interval_delay x)) - late) timer_callback_type (callback_id x) k1 = Some k2"
    "kernel_ok {} k2" "threads k2 = threads k1" "arbiters k2 = arbiters k1" by blast
  have "arb_same k k2" using arb_same_trans [OF a arb_same_threads [OF k2(3,4)]] .
  with k1 k2 a show ?thesis by (simp add: Timer_Signal_def)
qed

lemma Timer_Cancel_spec: "kernel_ok {} k \<Longrightarrow> kernel_ok {} (Timer_Cancel x k)"
  by (erule kernel_ok_frame) (simp_all add: Timer_Cancel_def)

lemma Timer_Set_spec:
  assumes k: "kernel_ok {} k" and x: "kind (wobjs k ob) = TimerObj x"
  shows "\<exists>k'. Timer_Set ob x initial interval k = Some k' \<and> kernel_ok {} k' \<and> arb_same k k'"
proof -
  let ?x = "x\<lparr>initial_delay := initial, interval_delay := interval\<rparr>"
  let ?k = "upd_kind ob (TimerObj ?x) (Timer_Cancel x k)"
  have ok: "kernel_ok {} ?k"
    by (rule unavailable_spec [OF Timer_Cancel_spec [OF k]])
      (use x in \<open>simp_all add: Timer_Cancel_def ShouldWait_def\<close>)
  have a: "arb_same k ?k" by (simp add: Timer_Cancel_def arb_same_def)
  show ?thesis
  proof (cases "initial = 0")
    case True
    with Timer_Signal_spec [OF ok, of ob ?x 0] arb_same_trans [OF a] show ?thesis by (auto simp: Timer_Set_def Let_def)
  next
    case False
    from schedule_spec [OF ok, of "sint (nsToCycles initial)" timer_callback_type "callback_id x"] obtain k2 where
      k2: "schedule (sint (nsToCycles initial)) timer_callback_type (callback_id x) ?k = Some k2" "kernel_ok {} k2"
      "threads k2 = threads ?k" "arbiters k2 = arbiters ?k" by blast
    with False arb_same_trans [OF a arb_same_threads [OF k2(3,4)]] show ?thesis by (simp add: Timer_Set_def Let_def)
  qed
qed

lemma Timer_Clear_spec:
  "kernel_ok {} k \<Longrightarrow> kind (wobjs k ob) = TimerObj x \<Longrightarrow> kernel_ok {} (Timer_Clear ob x k)"
  unfolding Timer_Clear_def by (rule unavailable_spec) (simp_all add: ShouldWait_def)

lemma s32_id: "- (2 ^ 31) \<le> x \<Longrightarrow> x < 2 ^ 31 \<Longrightarrow> s32 x = Some x"
  by (simp add: s32_def)

lemma Semaphore_Release_spec:
  assumes k: "kernel_ok {} k" and s: "kind (wobjs k ob) = SemaphoreObj s"
    and range: "0 \<le> available_count s" "available_count s \<le> max_count s" "max_count s < 2 ^ 31"
    and n: "- (2 ^ 31) \<le> n"
  shows "\<exists>r k'. Semaphore_Release ob s n k = Some (r, k') \<and> kernel_ok {} k' \<and> arb_same k k' \<and>
    (r = Inl ERR_OUT_OF_RANGE_KERNEL \<and> k' = k \<and> max_count s - available_count s < n \<or>
     r = Inr (available_count s) \<and> n \<le> max_count s - available_count s)"
proof -
  have room: "s32 (max_count s - available_count s) = Some (max_count s - available_count s)"
    using range by (intro s32_id) simp_all
  show ?thesis
  proof (cases "max_count s - available_count s < n")
    case True
    then show ?thesis using k room by (simp add: Semaphore_Release_def)
  next
    case False
    then have "s32 (available_count s + n) = Some (available_count s + n)" using range n by (intro s32_id) simp_all
    with signal_spec [OF k, of ob "SemaphoreObj (s\<lparr>available_count := available_count s + n\<rparr>)"] s room False wakes_arb k
    show ?thesis by (fastforce simp: Semaphore_Release_def kernel_ok_def)
  qed
qed

section \<open>Mutexes\<close>

lemma Mutex_Release_core:
  assumes c: "core_ok k" and m: "kind (wobjs k ob) = MutexObj m" and h: "holding_thread m = Some t"
    and d: "status (threads k t) \<noteq> Dead"
  defines "m1 \<equiv> m\<lparr>lock_count := 0\<rparr>"
  defines "k2 \<equiv> upd_thread t (\<lambda>th. th\<lparr>held_mutexes := removeAll ob (held_mutexes th)\<rparr>) (upd_kind ob (MutexObj m1) k)"
  defines "k4 \<equiv> upd_kind ob (MutexObj (m1\<lparr>holding_thread := None\<rparr>)) (Thread_UpdatePriority t k2)"
  shows "core_ok k4" "same_waits k k4"
proof -
  have o: "sched_ok k" "held_ok k" "boost_ok k" using c by (simp_all add: core_ok_def)
  have "sched_ok k2" unfolding k2_def using o(1) by (intro sched_ok_thread sched_ok_kind) simp_all
  then have s4: "sched_ok k4" unfolding k4_def by (intro sched_ok_kind sched_ok_UpdatePriority)
  have notin: "ob \<notin> set (held_mutexes (threads k s))" if "s \<noteq> t" "status (threads k s) \<noteq> Dead" for s
    using held_by [OF o(2) _ that(2) m] h that(1) by auto
  have pr: "priority_of_mutex k2 y = priority_of_mutex k y" "priority_of_mutex k4 y = priority_of_mutex k y" for y
    by (simp_all add: priority_of_mutex_def k2_def k4_def m1_def Thread_UpdatePriority_def m)
  have held: "held_mutexes (threads k4 s) = held_mutexes (threads k2 s)"
    "held_mutexes (threads k2 s) = (if s = t then removeAll ob (held_mutexes (threads k t)) else held_mutexes (threads k s))"
    "nominal_priority (threads k4 s) = nominal_priority (threads k s)"
    "nominal_priority (threads k2 s) = nominal_priority (threads k s)"
    "status (threads k4 s) = status (threads k s)" "status (threads k2 s) = status (threads k s)" for s
    by (simp_all add: k2_def k4_def Thread_UpdatePriority_def)
  have "boost_ok (Thread_UpdatePriority t k2)"
  proof (rule boost_ok_UpdatePriority)
    fix s assume s: "s \<noteq> t" "status (threads k2 s) \<noteq> Dead"
    have "best_held_priority k2 s = best_held_priority k s"
      by (rule best_held_cong) (simp_all add: pr held s(1))
    then show "current_priority (threads k2 s) = best_held_priority k2 s"
      using o(3) s by (simp add: boost_ok_def held) (simp add: k2_def)
  qed
  moreover have "best_held_priority k4 s = best_held_priority (Thread_UpdatePriority t k2) s" for s
    by (rule best_held_cong) (simp_all add: k4_def k2_def m1_def priority_of_mutex_def Thread_UpdatePriority_def)
  ultimately have b4: "boost_ok k4" by (simp add: boost_ok_def k4_def)
  have "held_ok k4"
  proof (rule held_okI)
    show "mutex_ok k4 y" for y
      using o(2) by (auto simp: held_ok_def mutex_ok_def held k4_def k2_def m1_def Thread_UpdatePriority_def)
    show "distinct (held_mutexes (threads k4 s))" for s using o(2) by (simp add: held held_ok_def distinct_removeAll)
    show "holds k4 s y" if "y \<in> set (held_mutexes (threads k4 s))" "status (threads k4 s) \<noteq> Dead" for s y
    proof -
      have "y \<in> set (held_mutexes (threads k s))" "y \<noteq> ob" "status (threads k s) \<noteq> Dead"
        using that notin [of s] by (auto simp: held split: if_splits)
      then show ?thesis using held_holds [OF o(2), of y s]
        by (simp add: holds_def k4_def k2_def Thread_UpdatePriority_def)
    qed
  qed
  with s4 b4 show "core_ok k4" by (simp add: core_ok_def)
  show "same_waits k k4" by (simp add: same_waits_def k4_def k2_def Thread_UpdatePriority_def)
qed

lemma Mutex_Release_spec:
  assumes k: "kernel_ok {} k" and m: "kind (wobjs k ob) = MutexObj m" and d: "status (threads k t) \<noteq> Dead"
  shows "\<exists>r k'. Mutex_Release ob m t k = Some (r, k') \<and> kernel_ok {} k' \<and> arb_same k k' \<and>
    (r = RESULT_SUCCESS \<longleftrightarrow> holding_thread m = Some t)"
proof -
  have c: "core_ok k" using k by (simp add: kernel_ok_def)
  have o: "sched_ok k" "held_ok k" "boost_ok k" using c by (simp_all add: core_ok_def)
  have codes: "wrong_locking_thread \<noteq> RESULT_SUCCESS" "mutex_not_locked \<noteq> RESULT_SUCCESS"
    by (simp_all add: kernel_codes RESULT_SUCCESS_def push_bit_eq_mult)
  show ?thesis
  proof (cases "holding_thread m = Some t")
    case False
    then show ?thesis using k codes by (simp add: Mutex_Release_def)
  next
    case h: True
    have n: "0 < lock_count m" and ob: "ob \<in> set (held_mutexes (threads k t))"
      using mutex_okI [OF o(2) m] h by auto
    let ?m1 = "m\<lparr>lock_count := lock_count m - 1\<rparr>"
    let ?k1 = "upd_kind ob (MutexObj ?m1) k"
    show ?thesis
    proof (cases "lock_count m = 1")
      case False
      have "ShouldWait ?k1 y s = ShouldWait k y s" for y s
        using n False ShouldWait_cong [of ?k1 y k s] by (cases "y = ob") (auto simp: ShouldWait_def m)
      moreover have "core_ok ?k1" using core_ok_lock_count [OF c m n] n False by simp
      ultimately have "kernel_ok {} ?k1"
        using kernel_ok_mono [OF k _ same_waits_kind, of ob "MutexObj ?m1" "{}"] by simp
      then show ?thesis using h n False by (simp add: Mutex_Release_def)
    next
      case True
      let ?k2 = "upd_thread t (\<lambda>th. th\<lparr>held_mutexes := removeAll ob (held_mutexes th)\<rparr>) ?k1"
      let ?k3 = "Thread_UpdatePriority t ?k2"
      let ?k4 = "upd_kind ob (MutexObj (?m1\<lparr>holding_thread := None\<rparr>)) ?k3"
      have c4: "core_ok ?k4" "same_waits k ?k4" using Mutex_Release_core [OF c m h d] True by (simp_all add: Let_def)
      have "ShouldWait ?k4 y s = ShouldWait k y s" if "y \<noteq> ob" for y s
        using that by (intro ShouldWait_cong) (auto simp: Thread_UpdatePriority_def)
      then have "kernel_ok {ob} ?k4" using kernel_ok_mono [OF k c4, of "{ob}"] by simp
      from WakeupAll_spec [OF this] obtain k5 where k5: "WakeupAllWaitingThreads ob ?k4 = Some k5" "kernel_ok {} k5"
        "wakes ?k4 k5" by blast
      have "waiters_ok ?k4" using \<open>kernel_ok {ob} ?k4\<close> by (simp add: kernel_ok_def)
      then have "arb_same k k5" using arb_same_trans [OF same_waits_arb [OF c4(2)] wakes_arb [OF k5(3)]] by simp
      then show ?thesis using h True k5 by (simp add: Mutex_Release_def Let_def)
    qed
  qed
qed

end
