(* ===== verification/KernelSleep.thy ===== *)
theory KernelSleep
  imports KernelRun
begin

text \<open>
  Threads go to sleep and time out: the waiting system calls, the callback of a timeout, and the change of a
  thread's priority keep the invariants of the kernel.
\<close>

section \<open>Going to sleep\<close>

lemma AddWaitingThread_spec:
  assumes c: "core_ok k"
  shows "core_ok (AddWaitingThread ob t k)" "same_threads k (AddWaitingThread ob t k)"
    "waiting_threads (wobjs (AddWaitingThread ob t k) ob') =
       (if ob' = ob \<and> t \<notin> set (waiting_threads (wobjs k ob)) then waiting_threads (wobjs k ob) @ [t]
        else waiting_threads (wobjs k ob'))"
proof -
  let ?k1 = "add_waiting ob t k"
  let ?k2 = "upd_thread t (\<lambda>th. th\<lparr>pending_mutexes := insort_insert ob (pending_mutexes th)\<rparr>) ?k1"
  have c1: "core_ok ?k1" by (rule core_ok_cong [OF c]) (simp_all add: add_waiting_def)
  have c2: "core_ok ?k2" by (rule core_ok_cong [OF c1]) simp_all
  have s1: "same_threads k ?k1" "same_threads k ?k2"
    by (auto simp: same_threads_def add_waiting_def holds_def intro!: ShouldWait_cong split: if_splits)
  have w: "waiting_threads (wobjs ?k1 ob') = (if ob' = ob \<and> t \<notin> set (waiting_threads (wobjs k ob))
      then waiting_threads (wobjs k ob) @ [t] else waiting_threads (wobjs k ob'))"
    "waiting_threads (wobjs ?k2 ob') = waiting_threads (wobjs ?k1 ob')"
    by (simp_all add: add_waiting_def)
  note m = calm_Mutex_UpdatePriority [of ?k2 ob]
  show "core_ok (AddWaitingThread ob t k)"
    using c1 core_ok_Mutex_UpdatePriority [OF c2] by (simp add: AddWaitingThread_def)
  show "same_threads k (AddWaitingThread ob t k)"
    using s1 same_threads_trans [OF s1(2) calm_same_threads [OF m]] by (simp add: AddWaitingThread_def)
  show "waiting_threads (wobjs (AddWaitingThread ob t k) ob') =
      (if ob' = ob \<and> t \<notin> set (waiting_threads (wobjs k ob)) then waiting_threads (wobjs k ob) @ [t]
       else waiting_threads (wobjs k ob'))"
    using w calm_objects(1) [OF m, of ob'] by (cases "ob' = ob") (simp_all add: AddWaitingThread_def)
qed

lemma add_all_spec:
  assumes "core_ok k"
  shows "core_ok (fold (\<lambda>ob. AddWaitingThread ob t) obs k) \<and> same_threads k (fold (\<lambda>ob. AddWaitingThread ob t) obs k) \<and>
    (\<forall>ob. waiting_threads (wobjs (fold (\<lambda>ob. AddWaitingThread ob t) obs k) ob) =
       (if ob \<in> set obs \<and> t \<notin> set (waiting_threads (wobjs k ob)) then waiting_threads (wobjs k ob) @ [t]
        else waiting_threads (wobjs k ob)))"
  using assms
proof (induction obs arbitrary: k)
  case (Cons ob obs)
  note r = AddWaitingThread_spec [OF Cons.prems, of ob t]
  from Cons.IH [OF r(1)] r(2) show ?case
    by (auto simp: r(3) intro: same_threads_trans)
qed simp

lemma core_ok_status:
  assumes c: "core_ok k" and old: "status (threads k t) \<notin> {Ready, Dead, Dormant}"
    and new: "st \<notin> {Ready, Running, Dead, Dormant}"
  shows "core_ok (upd_thread t (\<lambda>th. th\<lparr>status := st\<rparr>) k)" (is "core_ok ?k'")
proof -
  have k: "sched_ok k" "held_ok k" "boost_ok k" using c by (simp_all add: core_ok_def)
  have "queues_hold ?k'" using k(1) old new by (auto simp: sched_ok_def queues_hold_def)
  moreover have "prepared ?k'" using k(1) old by (auto simp: sched_ok_def prepared_def)
  moreover have "one_running ?k'"
    by (rule one_running_cong [of k]) (use k(1) new in \<open>auto simp: sched_ok_def split: if_splits\<close>)
  moreover have "held_ok ?k'"
    by (rule held_okI) (use k(2) old new in \<open>auto simp: held_ok_def mutex_ok_def holds_def split: if_splits\<close>)
  moreover have "best_held_priority ?k' s = best_held_priority k s" for s
    by (rule best_held_cong) (simp_all add: priority_of_mutex_def)
  then have "boost_ok ?k'" using k(3) old by (auto simp: boost_ok_def)
  ultimately show ?thesis by (simp add: core_ok_def sched_ok_def)
qed

text \<open>The state in which the waiting calls leave the thread.\<close>

lemma asleep:
  assumes k: "kernel_ok {} k" and idle: "wait_objects (threads k t) = []" and c: "core_ok k'"
    and others: "\<forall>s. s \<noteq> t \<longrightarrow> status (threads k' s) = status (threads k s) \<and>
      wait_objects (threads k' s) = wait_objects (threads k s) \<and> wakeup_cb (threads k' s) = wakeup_cb (threads k s)"
    and t: "status (threads k' t) = st" "wait_objects (threads k' t) = obs" "wakeup_cb (threads k' t) = Some (SVC_SyncCallback b)"
    and w: "\<forall>y. waiting_threads (wobjs k' y) = (if y \<in> set obs then waiting_threads (wobjs k y) @ [t] else waiting_threads (wobjs k y))"
    and sw: "\<forall>y s. ShouldWait k' y s = ShouldWait k y s"
    and must: "st = WaitSynchAny \<and> list_all (\<lambda>y. ShouldWait k y t) obs \<or>
      st = WaitSynchAll \<and> list_ex (\<lambda>y. ShouldWait k y t) obs \<and> distinct obs"
  shows "kernel_ok {} k'"
proof -
  have l: "lists_ok k" and wt: "waiters_ok k" and nl: "no_lost {} k" using k by (simp_all add: kernel_ok_def)
  have nw: "t \<notin> set (waiting_threads (wobjs k y))" for y using l idle by (simp add: lists_ok_def)
  have "y \<in> set (wait_objects (threads k' s)) \<longleftrightarrow> s \<in> set (waiting_threads (wobjs k' y))" for y s
    using l others t(2) nw w by (cases "s = t") (auto simp: lists_ok_def)
  moreover have "distinct (waiting_threads (wobjs k' y))" for y using l nw w by (auto simp: lists_ok_def)
  ultimately have "lists_ok k'" by (simp add: lists_ok_def)
  moreover have "waiter_ok (threads k' s)" for s
    using wt others t must by (cases "s = t") (auto simp: waiters_ok_def waiter_ok_def)
  then have "waiters_ok k'" by (simp add: waiters_ok_def)
  moreover have "\<not> runnable k' y s" if "s \<in> set (waiting_threads (wobjs k' y))" for y s
  proof (cases "s = t")
    case True
    then have "y \<in> set obs" using that nw w by (auto split: if_splits)
    then show ?thesis using must True sw t by (auto simp: runnable_def ready_to_run_def list_all_iff list_ex_iff)
  next
    case False
    then have "s \<in> set (waiting_threads (wobjs k y))" using that w by (auto split: if_splits)
    then have "\<not> runnable k y s" using nl by (auto simp: no_lost_def)
    then show ?thesis by (rule runnable_mono) (use False others sw in simp_all)
  qed
  then have "no_lost {} k'" by (auto simp: no_lost_def)
  ultimately show ?thesis using c by (simp add: kernel_ok_def)
qed

lemma WakeAfterDelay_Some: "\<exists>T. WakeAfterDelay t ns k = Some (k\<lparr>ktiming := T\<rparr>)"
proof (cases "ns = - 1")
  case True
  then show ?thesis by (intro exI [of _ "ktiming k"]) (simp add: WakeAfterDelay_def)
next
  case False
  obtain T where "ScheduleEvent (sint (nsToCycles ns)) (thread_wakeup_type (core_id (threads k t)))
      (thread_id (threads k t)) None (ktiming k) = Some T"
    by (cases "event_queue_locked (ktiming k)") (simp_all add: ScheduleEvent_def Let_def)
  with False show ?thesis by (auto simp: WakeAfterDelay_def schedule_def)
qed

text \<open>A running thread waits for nothing.\<close>

lemma running_idle:
  assumes "kernel_ok X k" "status (threads k t) = Running"
  shows "wait_objects (threads k t) = []" "wakeup_cb (threads k t) = None"
proof -
  have "waiter_ok (threads k t)" using assms(1) by (simp add: kernel_ok_def waiters_ok_def)
  with assms(2) show "wait_objects (threads k t) = []" "wakeup_cb (threads k t) = None" by (auto simp: waiter_ok_def)
qed

lemma go_to_sleep_spec:
  assumes k: "kernel_ok {} k" and r: "status (threads k t) = Running"
    and must: "st = WaitSynchAny \<and> list_all (\<lambda>y. ShouldWait k y t) obs \<or>
      st = WaitSynchAll \<and> list_ex (\<lambda>y. ShouldWait k y t) obs \<and> distinct obs"
  shows "\<exists>k'. go_to_sleep core t obs st ns b k = Some k' \<and> kernel_ok {} k' \<and> status (threads k' t) = st \<and>
    arb_same k k'"
proof -
  let ?k1 = "upd_thread t (\<lambda>th. th\<lparr>status := st\<rparr>) k"
  let ?k2 = "fold (\<lambda>ob. AddWaitingThread ob t) obs ?k1"
  let ?k3 = "upd_thread t (\<lambda>th. th\<lparr>wait_objects := obs\<rparr>) ?k2"
  obtain T where T: "WakeAfterDelay t ns ?k3 = Some (?k3\<lparr>ktiming := T\<rparr>)" using WakeAfterDelay_Some by blast
  let ?k5 = "PrepareReschedule (upd_thread t (\<lambda>th. th\<lparr>wakeup_cb := Some (SVC_SyncCallback b)\<rparr>) (?k3\<lparr>ktiming := T\<rparr>))"
  have c: "core_ok k" and idle: "wait_objects (threads k t) = []"
    using k running_idle [OF k r] by (simp_all add: kernel_ok_def)
  have c1: "core_ok ?k1" by (rule core_ok_status [OF c]) (use r must in auto)
  note a = add_all_spec [OF c1, of t obs]
  have c5: "core_ok ?k5" by (rule core_ok_cong [of ?k2]) (use a in simp_all)
  have nw: "t \<notin> set (waiting_threads (wobjs k y))" for y using k idle by (simp add: kernel_ok_def lists_ok_def)
  have sw1: "ShouldWait ?k1 y s = ShouldWait k y s" for y s
    using r must by (intro ShouldWait_cong) auto
  have sw5: "ShouldWait ?k5 y s = ShouldWait ?k2 y s" for y s by (intro ShouldWait_cong) simp_all
  have same: "same_threads ?k1 ?k2" using a by blast
  have "kernel_ok {} ?k5"
  proof (rule asleep [OF k idle c5 _ _ _ _ _ _ must])
    show "\<forall>s. s \<noteq> t \<longrightarrow> status (threads ?k5 s) = status (threads k s) \<and>
      wait_objects (threads ?k5 s) = wait_objects (threads k s) \<and> wakeup_cb (threads ?k5 s) = wakeup_cb (threads k s)"
      "status (threads ?k5 t) = st"
      using same by (simp_all add: same_threads_def)
    show "wait_objects (threads ?k5 t) = obs" "wakeup_cb (threads ?k5 t) = Some (SVC_SyncCallback b)" by simp_all
    show "\<forall>y. waiting_threads (wobjs ?k5 y) = (if y \<in> set obs then waiting_threads (wobjs k y) @ [t] else waiting_threads (wobjs k y))"
      using a nw by simp
    show "\<forall>y s. ShouldWait ?k5 y s = ShouldWait k y s"
      using sw1 sw5 same by (simp add: same_threads_def)
  qed
  moreover have "status (threads ?k5 t) = st" using same by (simp add: same_threads_def)
  moreover have "go_to_sleep core t obs st ns b k = Some ?k5" using T by (simp add: go_to_sleep_def Let_def)
  moreover have "arb_same k ?k5"
    using same r must by (auto simp: arb_same_def same_threads_def split: if_splits)
  ultimately show ?thesis by blast
qed

section \<open>The waiting calls\<close>

text \<open>A thread that waits for nothing takes something: nobody else has to be woken.\<close>

lemma kernel_ok_after:
  assumes k: "kernel_ok X k" and idle: "wait_objects (threads k t) = []"
    and k': "core_ok k'" "same_waits k k'" "keeps_waiting t k k'"
  shows "kernel_ok X k'"
proof -
  have l: "lists_ok k" and nl: "no_lost X k" using k by (simp_all add: kernel_ok_def)
  have "no_lost X k'"
    unfolding no_lost_def
  proof (intro allI impI)
    fix y s assume s: "s \<in> set (waiting_threads (wobjs k' y))" "runnable k' y s"
    have same: "status (threads k' s) = status (threads k s)" "wait_objects (threads k' s) = wait_objects (threads k s)"
      and sk: "s \<in> set (waiting_threads (wobjs k y))"
      using k'(2) s(1) by (simp_all add: same_waits_def)
    have "s \<noteq> t" using l idle sk by (auto simp: lists_ok_def)
    then have "runnable k y s" using runnable_mono [of k y s k'] k'(3) same s(2) unfolding keeps_waiting_def by blast
    with nl sk show "y \<in> X \<or> status (threads k' s) = WaitSynchAll \<and> set (wait_objects (threads k' s)) \<inter> X \<noteq> {}"
      by (simp add: no_lost_def same)
  qed
  then show ?thesis
    using k k'(1) same_waits_lists [OF k'(2)] same_waits_waiters [OF k'(2)] by (simp add: kernel_ok_def)
qed

lemma Acquire_running:
  assumes k: "kernel_ok {} k" and w: "\<not> ShouldWait k ob t" and r: "status (threads k t) = Running"
  shows "\<exists>k'. Acquire ob t k = Some k' \<and> kernel_ok {} k' \<and> same_waits k k'"
proof -
  have c: "core_ok k" using k by (simp add: kernel_ok_def)
  from Acquire_spec [OF c w] r obtain k' where k': "Acquire ob t k = Some k'" "core_ok k'" "same_waits k k'"
    "keeps_waiting t k k'" by auto
  then show ?thesis using kernel_ok_after [OF k running_idle(1) [OF k r] k'(2-4)] by blast
qed

lemma Acquire_all_running:
  assumes k: "kernel_ok {} k" and w: "list_all (\<lambda>ob. \<not> ShouldWait k ob t) obs" "distinct obs"
    and r: "status (threads k t) = Running"
  shows "\<exists>k'. steps (\<lambda>ob. Acquire ob t) obs k = Some k' \<and> kernel_ok {} k' \<and> same_waits k k'"
proof -
  have c: "core_ok k" using k by (simp add: kernel_ok_def)
  from Acquire_all [OF c _ w] r obtain k' where k': "steps (\<lambda>ob. Acquire ob t) obs k = Some k'" "core_ok k'"
    "same_waits k k'" "keeps_waiting t k k'" by auto
  then show ?thesis using kernel_ok_after [OF k running_idle(1) [OF k r] k'(2-4)] by blast
qed

lemma WaitSynchronization1_spec:
  assumes k: "kernel_ok {} k" and cur: "current_thread (managers k core) = Some t" and r: "status (threads k t) = Running"
  shows "\<exists>code k'. WaitSynchronization1 core lookup h ns k = Some (code, k') \<and> kernel_ok {} k' \<and> arb_same k k' \<and>
    code \<in> {ERR_INVALID_HANDLE, RESULT_TIMEOUT, RESULT_SUCCESS}"
proof (cases "lookup h")
  case None
  then show ?thesis using k by (simp add: WaitSynchronization1_def)
next
  case (Some ob)
  show ?thesis
  proof (cases "ShouldWait k ob t")
    case False
    from Acquire_running [OF k False r] same_waits_arb show ?thesis
      using Some cur False by (fastforce simp: WaitSynchronization1_def)
  next
    case w: True
    show ?thesis
    proof (cases "ns = 0")
      case True
      then show ?thesis using Some cur w k by (simp add: WaitSynchronization1_def)
    next
      case ns: False
      let ?k1 = "upd_thread t (\<lambda>th. th\<lparr>wait_objects := [ob]\<rparr>) k"
      let ?k2 = "AddWaitingThread ob t ?k1"
      let ?k3 = "upd_thread t (\<lambda>th. th\<lparr>status := WaitSynchAny\<rparr>) ?k2"
      obtain T where T: "WakeAfterDelay t ns ?k3 = Some (?k3\<lparr>ktiming := T\<rparr>)" using WakeAfterDelay_Some by blast
      let ?k5 = "PrepareReschedule (upd_thread t (\<lambda>th. th\<lparr>wakeup_cb := Some (SVC_SyncCallback False)\<rparr>) (?k3\<lparr>ktiming := T\<rparr>))"
      have c: "core_ok k" and idle: "wait_objects (threads k t) = []"
        using k running_idle [OF k r] by (simp_all add: kernel_ok_def)
      have nw: "t \<notin> set (waiting_threads (wobjs k y))" for y using k idle by (simp add: kernel_ok_def lists_ok_def)
      have c1: "core_ok ?k1" by (rule core_ok_cong [OF c]) simp_all
      note a = AddWaitingThread_spec [OF c1, of ob t]
      have st2: "status (threads ?k2 s) = status (threads k s)" "wakeup_cb (threads ?k2 s) = wakeup_cb (threads k s)"
        "wait_objects (threads ?k2 s) = (if s = t then [ob] else wait_objects (threads k s))" for s
        using a(2) by (simp_all add: same_threads_def)
      have c3: "core_ok ?k3" by (rule core_ok_status [OF a(1)]) (simp_all add: st2 r)
      have c5: "core_ok ?k5" by (rule core_ok_cong [OF c3]) simp_all
      have sw1: "ShouldWait ?k1 y s = ShouldWait k y s" for y s by (intro ShouldWait_cong) simp_all
      have sw5: "ShouldWait ?k5 y s = ShouldWait ?k2 y s" for y s using r by (intro ShouldWait_cong) (simp_all add: st2)
      have "kernel_ok {} ?k5"
      proof (rule asleep [OF k idle c5, where st = WaitSynchAny and obs = "[ob]" and b = False])
        show "\<forall>s. s \<noteq> t \<longrightarrow> status (threads ?k5 s) = status (threads k s) \<and>
          wait_objects (threads ?k5 s) = wait_objects (threads k s) \<and> wakeup_cb (threads ?k5 s) = wakeup_cb (threads k s)"
          "wait_objects (threads ?k5 t) = [ob]" by (simp_all add: st2)
        show "\<forall>y. waiting_threads (wobjs ?k5 y) = (if y \<in> set [ob] then waiting_threads (wobjs k y) @ [t] else waiting_threads (wobjs k y))"
          using a(3) nw by simp
        show "\<forall>y s. ShouldWait ?k5 y s = ShouldWait k y s"
          using sw1 sw5 a(2) by (simp add: same_threads_def)
      qed (use w in simp_all)
      moreover have "arb_same k ?k5" using r by (simp add: arb_same_def st2) (use a(2) in \<open>simp add: same_threads_def\<close>)
      ultimately show ?thesis using Some cur w ns T by (simp add: WaitSynchronization1_def Let_def)
    qed
  qed
qed

lemma WaitSynchronizationN_spec:
  assumes k: "kernel_ok {} k" and cur: "current_thread (managers k core) = Some t" and r: "status (threads k t) = Running"
    and d: "\<And>obs. wait_all \<Longrightarrow> lookup_all lookup (map handles [0..<nat n]) = Some obs \<Longrightarrow> distinct obs"
  shows "\<exists>code out k'. WaitSynchronizationN core lookup valid n handles wait_all ns k = Some (code, out, k') \<and> kernel_ok {} k' \<and>
    arb_same k k'"
proof (cases "valid \<and> 0 \<le> n \<and> lookup_all lookup (map handles [0..<nat n]) \<noteq> None")
  case False
  then show ?thesis using k cur by (auto simp: WaitSynchronizationN_def)
next
  case True
  then obtain os where os: "lookup_all lookup (map handles [0..<nat n]) = Some os" and v: "valid" "\<not> n < 0" by auto
  note def = WaitSynchronizationN_def
  show ?thesis
  proof (cases wait_all)
    case all: True
    have dist: "distinct os" by (rule d [OF all os])
    show ?thesis
    proof (cases "list_all (\<lambda>ob. \<not> ShouldWait k ob t) os")
      case True
      from Acquire_all_running [OF k True dist r] same_waits_arb show ?thesis
        using cur os v all True by (fastforce simp: def)
    next
      case False
      then have ex: "list_ex (\<lambda>y. ShouldWait k y t) os" by (auto simp: list_all_iff list_ex_iff)
      from go_to_sleep_spec [OF k r, of WaitSynchAll os core ns False] ex dist False show ?thesis
        using cur os v all k by (auto simp: def)
    qed
  next
    case any: False
    show ?thesis
    proof (cases "least_from (\<lambda>i. \<not> ShouldWait k (os ! i) t) 0 (length os)")
      case None
      then have "list_all (\<lambda>y. ShouldWait k y t) os" by (simp add: least_from_None list_all_length)
      from go_to_sleep_spec [OF k r, of WaitSynchAny os core ns True] this None show ?thesis
        using cur os v any k by (auto simp: def)
    next
      case (Some i)
      then have "\<not> ShouldWait k (os ! i) t" using least_from_SomeD(3) by fast
      from Acquire_running [OF k this r] same_waits_arb show ?thesis using cur os v any Some by (fastforce simp: def)
    qed
  qed
qed

section \<open>Timeouts and sleep\<close>

text \<open>What a call of the kernel leaves alone in the tables: threads keep their numbers, and none dies or is
  created.\<close>

definition quiet :: "kernel \<Rightarrow> kernel \<Rightarrow> bool" where
  "quiet k k' \<longleftrightarrow>
     (\<forall>c. wakeup_callback_table (managers k' c) = wakeup_callback_table (managers k c)) \<and>
     (\<forall>t. core_id (threads k' t) = core_id (threads k t) \<and> thread_id (threads k' t) = thread_id (threads k t) \<and>
          (status (threads k' t) = Dead \<longleftrightarrow> status (threads k t) = Dead) \<and>
          (status (threads k' t) = Dormant \<longleftrightarrow> status (threads k t) = Dormant)) \<and>
     (\<forall>t. status (threads k' t) = WaitArb \<or> status (threads k t) = WaitArb \<longrightarrow>
          status (threads k' t) = status (threads k t) \<and> wakeup_cb (threads k' t) = wakeup_cb (threads k t))"

lemma quiet_refl [simp]: "quiet k k"
  by (simp add: quiet_def)

lemma quiet_trans:
  assumes "quiet k k'" "quiet k' k''"
  shows "quiet k k''"
proof -
  note a = assms [unfolded quiet_def]
  note e = a [THEN conjunct2, THEN conjunct2, rule_format]
  have "status (threads k'' t) = status (threads k t) \<and> wakeup_cb (threads k'' t) = wakeup_cb (threads k t)"
    if "status (threads k'' t) = WaitArb \<or> status (threads k t) = WaitArb" for t
    by (rule through [OF _ _ that]) (erule e(1), erule e(2))
  moreover note a [THEN conjunct1] a [THEN conjunct2, THEN conjunct1]
  ultimately show ?thesis by (simp add: quiet_def)
qed

lemma quiet_arb: "quiet k k' \<Longrightarrow> arbiters k' = arbiters k \<Longrightarrow> arb_same k k'"
  by (simp add: quiet_def arb_same_def)

lemma same_waits_quiet: "same_waits k k' \<Longrightarrow> quiet k k'"
  by (simp add: same_waits_def quiet_def)

lemma same_threads_quiet: "same_threads k k' \<Longrightarrow> quiet k k'"
  by (simp add: same_threads_def quiet_def)

lemma wakes_quiet:
  assumes w: "wakes k k'" and k: "waiters_ok k"
  shows "quiet k k'"
proof -
  have "(status (threads k' t) = Dead \<longleftrightarrow> status (threads k t) = Dead) \<and>
      (status (threads k' t) = Dormant \<longleftrightarrow> status (threads k t) = Dormant) \<and>
      (status (threads k' t) = WaitArb \<or> status (threads k t) = WaitArb \<longrightarrow>
        status (threads k' t) = status (threads k t) \<and> wakeup_cb (threads k' t) = wakeup_cb (threads k t))" for t
  proof (cases "wait_objects (threads k t) = []")
    case True
    then show ?thesis using w unfolding wakes_def by metis
  next
    case False
    then have "status (threads k t) \<in> {WaitSynchAny, WaitSynchAll, WaitHleEvent}"
      using k by (auto simp: waiters_ok_def waiter_ok_def)
    moreover have "status (threads k' t) = Ready \<or> status (threads k' t) = status (threads k t)"
      using w False unfolding wakes_def by metis
    ultimately show ?thesis by auto
  qed
  moreover have "\<forall>c. wakeup_callback_table (managers k' c) = wakeup_callback_table (managers k c)"
    "\<forall>t. core_id (threads k' t) = core_id (threads k t) \<and> thread_id (threads k' t) = thread_id (threads k t)"
    using w unfolding wakes_def by blast+
  ultimately show ?thesis by (simp add: quiet_def)
qed

text \<open>A thread that waits for no object is resumed.\<close>

lemma resume_idle:
  assumes k: "kernel_ok X k" and idle: "wait_objects (threads k t) = []"
    and st: "status (threads k t) \<notin> {Running, Dead, Dormant}"
  shows "\<exists>k'. ResumeFromWait t k = Some k' \<and> kernel_ok X k' \<and> (status (threads k t) \<noteq> WaitArb \<longrightarrow> quiet k k') \<and>
    arbiters k' = arbiters k \<and>
    threads k' = (threads k)(t := (threads k t)\<lparr>wakeup_cb := None, status := Ready\<rparr>) \<and> wobjs k' = wobjs k \<and>
    (\<forall>c. current_thread (managers k' c) = current_thread (managers k c))"
proof -
  have c: "core_ok k" and l: "lists_ok k" and wt: "waiters_ok k" and nl: "no_lost X k" using k by (simp_all add: kernel_ok_def)
  have o: "sched_ok k" "held_ok k" "boost_ok k" using c by (simp_all add: core_ok_def)
  have cb: "status (threads k t) = Ready \<longrightarrow> wakeup_cb (threads k t) = None"
    using wt by (simp add: waiters_ok_def waiter_ok_def)
  from ResumeFromWait_spec [OF o(1) idle st cb] obtain k' where k': "ResumeFromWait t k = Some k'" "sched_ok k'"
    "threads k' = (threads k)(t := (threads k t)\<lparr>wakeup_cb := None, status := Ready\<rparr>)" "wobjs k' = wobjs k"
    "arbiters k' = arbiters k"
    "\<forall>c. current_thread (managers k' c) = current_thread (managers k c) \<and>
         wakeup_callback_table (managers k' c) = wakeup_callback_table (managers k c)" by auto
  have "held_ok k'" using o(2) st by (auto simp: held_ok_def mutex_ok_def holds_def k'(3,4))
  moreover have "best_held_priority k' s = best_held_priority k s" for s
    by (rule best_held_cong) (simp_all add: k'(3,4) priority_of_mutex_def)
  then have "boost_ok k'" using o(3) st by (auto simp: boost_ok_def k'(3))
  ultimately have c': "core_ok k'" using k'(2) by (simp add: core_ok_def)
  have sw: "ShouldWait k' y s = ShouldWait k y s" for y s
    using st by (intro ShouldWait_cong) (auto simp: k'(3,4))
  have nw: "t \<notin> set (waiting_threads (wobjs k y))" for y using l idle by (simp add: lists_ok_def)
  have "no_lost X k'"
    unfolding no_lost_def
  proof (intro allI impI)
    fix y s assume s: "s \<in> set (waiting_threads (wobjs k' y))" "runnable k' y s"
    then have "s \<noteq> t" "s \<in> set (waiting_threads (wobjs k y))" using nw by (auto simp: k'(4))
    moreover from this have "runnable k y s" using runnable_mono [of k y s k'] s(2) by (auto simp: k'(3) sw)
    ultimately show "y \<in> X \<or> status (threads k' s) = WaitSynchAll \<and> set (wait_objects (threads k' s)) \<inter> X \<noteq> {}"
      using nl by (auto simp: no_lost_def k'(3))
  qed
  moreover have "lists_ok k'" using l idle by (auto simp: lists_ok_def k'(3,4))
  moreover have "waiters_ok k'" using wt idle by (auto simp: waiters_ok_def waiter_ok_def k'(3))
  ultimately have "kernel_ok X k'" using c' by (simp add: kernel_ok_def)
  moreover have "quiet k k'" if "status (threads k t) \<noteq> WaitArb" using that st k'(6) cb by (auto simp: quiet_def k'(3))
  ultimately show ?thesis using k' by blast
qed

lemma kernel_ok_context:
  fixes t :: nat and f :: "thread \<Rightarrow> thread_context"
  assumes k: "kernel_ok X k"
  defines "k' \<equiv> upd_thread t (\<lambda>th. th\<lparr>thread_ctx := f th\<rparr>) k"
  shows "kernel_ok X k'" "same_waits k k'" "keeps_waiting t k k'"
proof -
  have c: "core_ok k'" unfolding k'_def by (rule core_ok_cong [of k]) (use k in \<open>simp_all add: kernel_ok_def\<close>)
  show s: "same_waits k k'" by (simp add: same_waits_def k'_def)
  have w: "ShouldWait k' y s = ShouldWait k y s" for y s unfolding k'_def by (rule ShouldWait_cong) simp_all
  show "kernel_ok X k'" using kernel_ok_mono [OF k c s, of "{}"] w by simp
  show "keeps_waiting t k k'" by (simp add: keeps_waiting_def w holds_def) (simp add: k'_def)
qed

lemma leave_no_lists:
  assumes "wait_objects (threads k t) = []"
  shows "leave_wait_lists t k = k"
proof -
  have "(threads k t)\<lparr>wait_objects := []\<rparr> = threads k t" using assms by (cases "threads k t") simp
  then show ?thesis using assms by (cases k) (simp add: leave_wait_lists_def upd_thread_def fun_upd_idem)
qed

lemma ThreadWakeupCallback_spec:
  assumes k: "kernel_ok {} k" and tab: "wakeup_callback_table (managers k core) tid = Some t"
    and st: "status (threads k t) \<notin> {Running, Dead, Dormant}"
  shows "\<exists>k'. ThreadWakeupCallback core tid k = Some k' \<and> kernel_ok {} k' \<and> status (threads k' t) = Ready \<and>
    (if status (threads k t) = WaitArb
     then threads k' = (threads k)(t := (threads k t)\<lparr>wakeup_cb := None, status := Ready\<rparr>) \<and>
       arbiters k' = (case wakeup_cb (threads k t) of
         Some (ArbiterCallback a) \<Rightarrow> (arbiters k)(a := removeAll t (arbiters k a)) | _ \<Rightarrow> arbiters k)
     else quiet k k' \<and> arbiters k' = arbiters k)"
proof (cases "status (threads k t) \<in> {WaitSynchAny, WaitSynchAll, WaitArb, WaitHleEvent}")
  case False
  then have "wait_objects (threads k t) = []" using k by (auto simp: kernel_ok_def waiters_ok_def waiter_ok_def)
  from resume_idle [OF k this st] show ?thesis using tab False by (auto simp: ThreadWakeupCallback_def)
next
  case waiting: True
  have wt: "waiter_ok (threads k t)" using k by (simp add: kernel_ok_def waiters_ok_def)
  show ?thesis
  proof (cases "wait_objects (threads k t) = []")
    case True
    obtain k1 where k1: "WakeUp Reason_Timeout t 0 k = Some k1" "kernel_ok {} k1" "quiet k k1"
      "wait_objects (threads k1 t) = []" "status (threads k1 t) = status (threads k t)"
      "status (threads k t) = WaitArb \<longrightarrow> threads k1 = threads k"
      "arbiters k1 = (case wakeup_cb (threads k t) of
         Some (ArbiterCallback a) \<Rightarrow> (arbiters k)(a := removeAll t (arbiters k a)) | _ \<Rightarrow> arbiters k)"
    proof (cases "wakeup_cb (threads k t)")
      case None
      then show thesis using that [of k] k True by (simp add: WakeUp_def)
    next
      case (Some cb)
      show thesis
      proof (cases cb)
        case (SVC_SyncCallback b)
        let ?k1 = "SetWaitSynchronizationResult t RESULT_TIMEOUT k"
        have "kernel_ok {} ?k1" "same_waits k ?k1"
          using kernel_ok_context [OF k] by (simp_all add: SetWaitSynchronizationResult_def)
        moreover have "status (threads k t) \<noteq> WaitArb" using wt Some SVC_SyncCallback by (simp add: waiter_ok_def)
        ultimately show thesis using that [of ?k1] True Some SVC_SyncCallback same_waits_quiet
          by (simp add: WakeUp_def SyncCallback_WakeUp_def same_waits_def)
      next
        case (ArbiterCallback a)
        let ?k1 = "k\<lparr>arbiters := (arbiters k)(a := removeAll t (arbiters k a))\<rparr>"
        have "kernel_ok {} ?k1" by (rule kernel_ok_frame [OF k]) simp_all
        then show thesis using that [of ?k1] True Some ArbiterCallback
          by (simp add: WakeUp_def Arbiter_WakeUp_def quiet_def)
      qed
    qed
    have eq: "leave_wait_lists t k1 = k1" by (rule leave_no_lists [OF k1(4)])
    have "status (threads k1 t) \<notin> {Running, Dead, Dormant}" using k1(5) st by simp
    from resume_idle [OF k1(2,4) this] obtain k2 where k2: "ResumeFromWait t k1 = Some k2" "kernel_ok {} k2"
      "status (threads k1 t) \<noteq> WaitArb \<longrightarrow> quiet k1 k2" "arbiters k2 = arbiters k1"
      "threads k2 = (threads k1)(t := (threads k1 t)\<lparr>wakeup_cb := None, status := Ready\<rparr>)" by blast
    have call: "ThreadWakeupCallback core tid k = Some k2" using tab waiting k1(1) eq k2(1) by (simp add: ThreadWakeupCallback_def)
    have a: "arbiters k2 = arbiters k" if "status (threads k t) \<noteq> WaitArb"
      using that wt k1(7) k2(4) by (auto simp: waiter_ok_def split: option.splits wakeup_callback.splits)
    show ?thesis
    proof (cases "status (threads k t) = WaitArb")
      case True
      then show ?thesis using call k1 k2 by simp
    next
      case False
      then have "quiet k k2" using k1(3,5) k2(3) quiet_trans by auto
      then show ?thesis using call False a k2(2,5) by simp
    qed
  next
    case ne: False
    obtain k1 where k1: "WakeUp Reason_Timeout t 0 k = Some k1" "core_ok k1" "same_waits k k1" "keeps_waiting t k k1"
    proof (cases "wakeup_cb (threads k t)")
      case None
      then show thesis using that [of k] k by (simp add: WakeUp_def kernel_ok_def keeps_waiting_def)
    next
      case (Some cb)
      then obtain b where b: "cb = SVC_SyncCallback b" using wt ne by (cases cb) (auto simp: waiter_ok_def)
      let ?k1 = "SetWaitSynchronizationResult t RESULT_TIMEOUT k"
      have "kernel_ok {} ?k1" "same_waits k ?k1" "keeps_waiting t k ?k1"
        using kernel_ok_context [OF k] by (simp_all add: SetWaitSynchronizationResult_def)
      then show thesis using that [of ?k1] Some b by (simp add: WakeUp_def SyncCallback_WakeUp_def kernel_ok_def)
    qed
    from leave_and_resume [OF k ne k1(2-4)] obtain k2 where k2: "ResumeFromWait t (leave_wait_lists t k1) = Some k2"
      "kernel_ok {} k2" "wakes k k2"
      "\<forall>ob. waiting_threads (wobjs k2 ob) = filter (\<lambda>s. s \<noteq> t) (waiting_threads (wobjs k ob))" by blast
    have "wait_objects (threads k2 t) = []"
    proof -
      have "t \<notin> set (waiting_threads (wobjs k2 y))" for y using k2(4) by simp
      then have "y \<notin> set (wait_objects (threads k2 t))" for y using k2(2) by (simp add: kernel_ok_def lists_ok_def)
      then show ?thesis by (metis list.set_intros(1) neq_Nil_conv)
    qed
    then have "status (threads k2 t) = Ready" using k2(3) ne unfolding wakes_def by blast
    moreover have "quiet k k2" using wakes_quiet [OF k2(3)] k by (simp add: kernel_ok_def)
    moreover have "arbiters k2 = arbiters k" using k2(3) unfolding wakes_def by blast
    moreover have "status (threads k t) \<noteq> WaitArb" using wt ne by (auto simp: waiter_ok_def)
    ultimately show ?thesis using tab waiting k1(1) k2(1,2) by (simp add: ThreadWakeupCallback_def)
  qed
qed

lemma status_idle:
  assumes k: "kernel_ok X k" and r: "status (threads k t) = Running" and st: "st \<in> {WaitSleep, WaitArb, WaitIPC}"
  shows "kernel_ok X (upd_thread t (\<lambda>th. th\<lparr>status := st\<rparr>) k)" (is "kernel_ok X ?k'")
proof -
  have c: "core_ok ?k'" by (rule core_ok_status) (use k r st in \<open>auto simp: kernel_ok_def\<close>)
  note idle = running_idle [OF k r]
  have nw: "t \<notin> set (waiting_threads (wobjs k y))" for y using k idle by (simp add: kernel_ok_def lists_ok_def)
  have sw: "ShouldWait ?k' y s = ShouldWait k y s" for y s using r st by (intro ShouldWait_cong) auto
  have "no_lost X ?k'"
    unfolding no_lost_def
  proof (intro allI impI)
    fix y s assume s: "s \<in> set (waiting_threads (wobjs ?k' y))" "runnable ?k' y s"
    then have n: "s \<noteq> t" "s \<in> set (waiting_threads (wobjs k y))" using nw by auto
    then have "runnable k y s" using runnable_mono [of k y s ?k'] s(2) by (auto simp: sw)
    then show "y \<in> X \<or> status (threads ?k' s) = WaitSynchAll \<and> set (wait_objects (threads ?k' s)) \<inter> X \<noteq> {}"
      using k n by (simp add: kernel_ok_def no_lost_def)
  qed
  moreover have "lists_ok ?k'" using k by (simp add: kernel_ok_def lists_ok_def)
  moreover have "waiters_ok ?k'" using k idle st by (auto simp: kernel_ok_def waiters_ok_def waiter_ok_def)
  ultimately show ?thesis using c by (simp add: kernel_ok_def)
qed

lemma WakeAfterDelay_ok:
  assumes "kernel_ok X k"
  shows "\<exists>k'. WakeAfterDelay t ns k = Some k' \<and> kernel_ok X k' \<and> threads k' = threads k \<and> wobjs k' = wobjs k \<and>
    managers k' = managers k \<and> arbiters k' = arbiters k"
proof -
  obtain T where "WakeAfterDelay t ns k = Some (k\<lparr>ktiming := T\<rparr>)" using WakeAfterDelay_Some by blast
  moreover have "kernel_ok X (k\<lparr>ktiming := T\<rparr>)" by (rule kernel_ok_frame [OF assms]) simp_all
  ultimately show ?thesis by simp
qed

lemma HaveReadyThreads_spec:
  assumes "kernel_ok X k"
  shows "HaveReadyThreads core k = Some (\<exists>t. status (threads k t) = Ready \<and> core_id (threads k t) = core)"
proof -
  let ?q = "ready_queue (managers k core)"
  have h: "queue_inv 64 ?q" "\<And>p t. t \<in> set (level ?q p) \<longleftrightarrow>
      status (threads k t) = Ready \<and> current_priority (threads k t) = p \<and> core_id (threads k t) = core"
    using assms by (auto simp: kernel_ok_def core_ok_def sched_ok_def queues_hold_def)
  have p: "current_priority (threads k t) < 64" for t
    using assms by (simp add: kernel_ok_def core_ok_def sched_ok_def prepared_def)
  have "least_from (\<lambda>j. level ?q j \<noteq> []) 0 64 \<noteq> None \<longleftrightarrow>
      (\<exists>t. status (threads k t) = Ready \<and> core_id (threads k t) = core)"
  proof
    assume "least_from (\<lambda>j. level ?q j \<noteq> []) 0 64 \<noteq> None"
    then obtain i where "level ?q i \<noteq> []" by (auto simp: least_from_Some)
    then have "hd (level ?q i) \<in> set (level ?q i)" by simp
    then show "\<exists>t. status (threads k t) = Ready \<and> core_id (threads k t) = core" using h(2) by blast
  next
    assume "\<exists>t. status (threads k t) = Ready \<and> core_id (threads k t) = core"
    then obtain t where "t \<in> set (level ?q (current_priority (threads k t)))" using h(2) by blast
    then have "level ?q (current_priority (threads k t)) \<noteq> []" by auto
    then show "least_from (\<lambda>j. level ?q j \<noteq> []) 0 64 \<noteq> None" using p by (auto simp: least_from_None)
  qed
  then show ?thesis by (auto simp: HaveReadyThreads_def get_first_def queue_inv_walk(1) [OF h(1)])
qed

lemma SleepThread_spec:
  assumes k: "kernel_ok {} k" and cur: "current_thread (managers k core) = Some t" and r: "status (threads k t) = Running"
  shows "\<exists>k'. SleepThread core ns k = Some k' \<and> kernel_ok {} k' \<and> quiet k k' \<and> arbiters k' = arbiters k"
proof (cases "ns = 0 \<and> \<not> (\<exists>t. status (threads k t) = Ready \<and> core_id (threads k t) = core)")
  case True
  then show ?thesis using k by (simp add: SleepThread_def HaveReadyThreads_spec [OF k])
next
  case False
  let ?k1 = "upd_thread t (\<lambda>th. th\<lparr>status := WaitSleep\<rparr>) k"
  have k1: "kernel_ok {} ?k1" using status_idle [OF k r] by simp
  from WakeAfterDelay_ok [OF k1, of t ns] obtain k2 where k2: "WakeAfterDelay t ns ?k1 = Some k2" "kernel_ok {} k2"
    "threads k2 = threads ?k1" "managers k2 = managers k" "arbiters k2 = arbiters k" by auto
  have "SleepThread core ns k = Some (PrepareReschedule k2)"
    using False cur k2(1) by (auto simp: SleepThread_def HaveReadyThreads_spec [OF k] WaitCurrentThread_Sleep_def)
  moreover have "quiet k k2" using r by (simp add: quiet_def k2(3,4))
  ultimately show ?thesis using k2(2,5) by (simp add: quiet_def)
qed

section \<open>Priorities\<close>

lemma kernel_ok_calm:
  assumes "kernel_ok X k" "calm k k'" "core_ok k'"
  shows "kernel_ok X k'"
  using assms calm_lists_ok calm_waiters_ok calm_no_lost by (simp add: kernel_ok_def)

lemma Mutex_UpdatePriorities_ok:
  "kernel_ok X k \<Longrightarrow> kernel_ok X (fold Mutex_UpdatePriority obs k) \<and> calm k (fold Mutex_UpdatePriority obs k)"
proof (induction obs arbitrary: k)
  case (Cons ob obs)
  let ?k = "Mutex_UpdatePriority ob k"
  have c: "calm k ?k" by (rule calm_Mutex_UpdatePriority)
  have "kernel_ok X ?k"
    using Cons.prems by (intro kernel_ok_calm [OF _ c] core_ok_Mutex_UpdatePriority) (simp_all add: kernel_ok_def)
  from Cons.IH [OF this] c show ?case by (auto intro: calm_trans)
qed simp

text \<open>A thread gets a new priority of its own and then runs at the best it is entitled to.\<close>

lemma set_priority_core:
  fixes t :: nat
  assumes c: "core_ok k" and p: "priority < 64"
  defines "k1 \<equiv> upd_thread t (\<lambda>th. th\<lparr>nominal_priority := priority\<rparr>) (BoostPriority t priority k)"
  shows "core_ok (Thread_UpdatePriority t k1)"
proof -
  have o: "sched_ok k" "held_ok k" "boost_ok k" using c by (simp_all add: core_ok_def)
  have s: "sched_ok (BoostPriority t priority k)" by (rule sched_ok_BoostPriority [OF o(1) p])
  have "sched_ok k1"
    by (rule sched_ok_cong [OF s]) (use o(1) p in \<open>auto simp: k1_def sched_ok_def prepared_def\<close>)
  moreover have "held_ok k1" using o(2) by (simp add: held_ok_def mutex_ok_def holds_def k1_def)
  then have "held_ok (Thread_UpdatePriority t k1)" by (rule calm_held_ok [OF calm_UpdatePriority])
  moreover have "boost_ok (Thread_UpdatePriority t k1)"
  proof (rule boost_ok_UpdatePriority)
    fix s assume s: "s \<noteq> t" "status (threads k1 s) \<noteq> Dead"
    have "best_held_priority k1 s = best_held_priority k s"
      using s by (intro best_held_cong) (simp_all add: k1_def priority_of_mutex_def)
    then show "current_priority (threads k1 s) = best_held_priority k1 s"
      using o(3) s by (simp add: boost_ok_def k1_def)
  qed
  ultimately show ?thesis using sched_ok_UpdatePriority by (simp add: core_ok_def)
qed

lemma SVC_SetThreadPriority_spec:
  assumes k: "kernel_ok {} k"
  shows "\<exists>code k'. SVC_SetThreadPriority limit thread priority k = Some (code, k') \<and> kernel_ok {} k' \<and> quiet k k' \<and>
    arbiters k' = arbiters k"
proof (cases "priority > ThreadPrioLowest \<or> thread = None \<or> limit > priority")
  case True
  then show ?thesis using k by (auto simp: SVC_SetThreadPriority_def split: option.splits)
next
  case False
  then obtain t where t: "thread = Some t" and p: "priority \<le> ThreadPrioLowest" "\<not> limit > priority"
    by (auto simp: not_less)
  let ?k1 = "upd_thread t (\<lambda>th. th\<lparr>nominal_priority := priority\<rparr>) (BoostPriority t priority k)"
  let ?k2 = "Thread_UpdatePriority t ?k1"
  let ?k3 = "fold Mutex_UpdatePriority (pending_mutexes (threads ?k2 t)) ?k2"
  have c2: "core_ok ?k2"
    using k p by (intro set_priority_core) (simp_all add: kernel_ok_def ThreadPrioLowest_def)
  have s1: "same_waits k ?k1" by (simp add: same_waits_def)
  then have s2: "same_waits k ?k2" using same_waits_trans calm_same_waits [OF calm_UpdatePriority] by blast
  have "ShouldWait ?k2 y s = ShouldWait k y s" for y s
    by (rule ShouldWait_cong) (simp_all add: Thread_UpdatePriority_def)
  then have k2: "kernel_ok {} ?k2" using kernel_ok_mono [OF k c2 s2, of "{}"] by simp
  note k3 = Mutex_UpdatePriorities_ok [OF k2, of "pending_mutexes (threads ?k2 t)"]
  have "same_waits k ?k3" using same_waits_trans [OF s2] calm_same_waits k3 by blast
  then have "quiet k ?k3" "arbiters ?k3 = arbiters k" by (auto intro: same_waits_quiet simp: same_waits_def)
  moreover have "SVC_SetThreadPriority limit thread priority k = Some (RESULT_SUCCESS, PrepareReschedule ?k3)"
    using t p by (simp add: SVC_SetThreadPriority_def SetPriority_def Let_def)
  ultimately show ?thesis using k3 by (simp add: quiet_def)
qed

end
