(* ===== verification/KernelThreads.thy ===== *)
theory KernelThreads
  imports KernelSleep
begin

text \<open>
  Threads end, begin and take turns: \<open>Stop\<close> with the release of the mutexes of the thread, the creation of
  threads and objects, and the scheduler, which runs the first of the best threads that may run.
\<close>

section \<open>The end of a thread\<close>

text \<open>The thread is dead but still the holder of the mutex.\<close>

lemma release_for_exit_spec:
  assumes k: "kernel_ok {} k" and dead: "status (threads k t) = Dead" "wait_objects (threads k t) = []"
    and h: "holds k t ob"
  shows "\<exists>k'. release_for_exit ob k = Some k' \<and> kernel_ok {} k' \<and> quiet k k' \<and> arbiters k' = arbiters k \<and>
    (\<forall>y. holds k' t y \<longleftrightarrow> y \<noteq> ob \<and> holds k t y) \<and> wait_objects (threads k' t) = []"
proof -
  obtain m where m: "kind (wobjs k ob) = MutexObj m" "holding_thread m = Some t" using h by (auto simp: holds_def)
  let ?k1 = "upd_kind ob (MutexObj (m\<lparr>lock_count := 0, holding_thread := None\<rparr>)) k"
  have o: "sched_ok k" "held_ok k" "boost_ok k" using k by (simp_all add: kernel_ok_def core_ok_def)
  have notin: "ob \<notin> set (held_mutexes (threads k s))" if "status (threads k s) \<noteq> Dead" for s
    using held_by [OF o(2) _ that m(1)] m(2) dead(1) that by auto
  have "held_ok ?k1"
  proof (rule held_okI)
    show "mutex_ok ?k1 y" for y using o(2) by (auto simp: held_ok_def mutex_ok_def)
    show "holds ?k1 s y" if "y \<in> set (held_mutexes (threads ?k1 s))" "status (threads ?k1 s) \<noteq> Dead" for s y
      using held_holds [OF o(2), of y s] that notin [of s] by (auto simp: holds_def)
  qed (use o(2) in \<open>simp add: held_ok_def\<close>)
  moreover have "best_held_priority ?k1 s = best_held_priority k s" for s
    by (rule best_held_cong) (simp_all add: priority_of_mutex_def m(1))
  then have "boost_ok ?k1" using o(3) by (simp add: boost_ok_def)
  ultimately have c1: "core_ok ?k1" using o(1) by (simp add: core_ok_def sched_ok_kind)
  have "ShouldWait ?k1 y s = ShouldWait k y s" if "y \<noteq> ob" for y s using that by (intro ShouldWait_cong) simp_all
  then have k1: "kernel_ok {ob} ?k1" using kernel_ok_mono [OF k c1 same_waits_kind, of "{ob}"] by simp
  from WakeupAll_spec [OF this] obtain k2 where k2: "WakeupAllWaitingThreads ob ?k1 = Some k2" "kernel_ok {} k2"
    "wakes ?k1 k2" by blast
  have i1: "wait_objects (threads ?k1 t) = []" using dead(2) by simp
  have h2: "holds k2 t y = holds ?k1 t y" "wait_objects (threads k2 t) = []" for y
    using k2(3) i1 unfolding wakes_def by blast+
  have "quiet ?k1 k2" using wakes_quiet [OF k2(3)] k1 by (simp add: kernel_ok_def)
  moreover have "arbiters k2 = arbiters ?k1" using k2(3) by (simp add: wakes_def)
  moreover have "release_for_exit ob k = Some k2" using k2(1) m(1) by (simp add: release_for_exit_def)
  moreover have "holds ?k1 t y \<longleftrightarrow> y \<noteq> ob \<and> holds k t y" for y by (auto simp: holds_def)
  ultimately show ?thesis using k2(2) h2 by (simp add: quiet_def)
qed

lemma release_mutexes_spec:
  assumes "kernel_ok {} k" "status (threads k t) = Dead" "wait_objects (threads k t) = []" "distinct obs"
    "\<forall>ob \<in> set obs. holds k t ob"
  shows "\<exists>k'. steps release_for_exit obs k = Some k' \<and> kernel_ok {} k' \<and> quiet k k' \<and> arbiters k' = arbiters k \<and>
    (\<forall>y. holds k' t y \<longleftrightarrow> y \<notin> set obs \<and> holds k t y) \<and> wait_objects (threads k' t) = []"
  using assms
proof (induction obs arbitrary: k)
  case (Cons ob obs)
  from release_for_exit_spec [OF Cons.prems(1-3), of ob] Cons.prems(5) obtain k1 where k1:
    "release_for_exit ob k = Some k1" "kernel_ok {} k1" "quiet k k1" "arbiters k1 = arbiters k"
    "\<forall>y. holds k1 t y \<longleftrightarrow> y \<noteq> ob \<and> holds k t y" "wait_objects (threads k1 t) = []" by auto
  have "status (threads k1 t) = Dead" using k1(3) Cons.prems(2) by (simp add: quiet_def)
  moreover have "\<forall>y \<in> set obs. holds k1 t y" using k1(5) Cons.prems(4,5) by auto
  ultimately obtain k2 where "steps release_for_exit obs k1 = Some k2" "kernel_ok {} k2" "quiet k1 k2"
    "arbiters k2 = arbiters k1" "\<forall>y. holds k2 t y \<longleftrightarrow> y \<notin> set obs \<and> holds k1 t y" "wait_objects (threads k2 t) = []"
    using Cons.IH [OF k1(2) _ k1(6)] Cons.prems(4) by auto
  with k1 quiet_trans show ?case by auto
qed simp

lemma ReleaseThreadMutexes_spec:
  assumes k: "kernel_ok {} k" and dead: "status (threads k t) = Dead" "wait_objects (threads k t) = []"
    and h: "\<forall>ob \<in> set (held_mutexes (threads k t)). holds k t ob"
  shows "\<exists>k'. ReleaseThreadMutexes t k = Some k' \<and> kernel_ok {} k' \<and> quiet k k' \<and> arbiters k' = arbiters k \<and>
    (\<forall>ob. \<not> holds k' t ob)"
proof -
  have o: "held_ok k" using k by (simp add: kernel_ok_def core_ok_def)
  then have "distinct (held_mutexes (threads k t))" by (simp add: held_ok_def)
  from release_mutexes_spec [OF k dead this h] obtain k1 where k1:
    "steps release_for_exit (held_mutexes (threads k t)) k = Some k1" "kernel_ok {} k1" "quiet k k1"
    "arbiters k1 = arbiters k" "\<forall>y. holds k1 t y \<longleftrightarrow> y \<notin> set (held_mutexes (threads k t)) \<and> holds k t y"
    "wait_objects (threads k1 t) = []" by blast
  have "y \<in> set (held_mutexes (threads k t))" if "holds k t y" for y
    using that o by (auto simp: holds_def held_ok_def mutex_ok_def)
  then have none: "\<not> holds k1 t y" for y using k1(5) by blast
  let ?k2 = "upd_thread t (\<lambda>th. th\<lparr>held_mutexes := []\<rparr>) k1"
  have o1: "sched_ok k1" "held_ok k1" "boost_ok k1" using k1(2) by (simp_all add: kernel_ok_def core_ok_def)
  have d1: "status (threads k1 t) = Dead" using k1(3) dead(1) by (simp add: quiet_def)
  have "held_ok ?k2"
    using o1(2) none by (auto simp: held_ok_def mutex_ok_def holds_def)
  moreover have "sched_ok ?k2" using o1(1) by (intro sched_ok_thread) simp_all
  moreover have "best_held_priority ?k2 s = best_held_priority k1 s" if "s \<noteq> t" for s
    using that by (intro best_held_cong) (simp_all add: priority_of_mutex_def)
  then have "boost_ok ?k2" using o1(3) d1 by (auto simp: boost_ok_def)
  ultimately have c2: "core_ok ?k2" by (simp add: core_ok_def)
  have s2: "same_waits k1 ?k2" by (simp add: same_waits_def)
  have "ShouldWait ?k2 y s = ShouldWait k1 y s" for y s by (rule ShouldWait_cong) simp_all
  then have "kernel_ok {} ?k2" using kernel_ok_mono [OF k1(2) c2 s2, of "{}"] by simp
  moreover have "quiet k ?k2" using quiet_trans [OF k1(3) same_waits_quiet [OF s2]] .
  moreover have "\<not> holds ?k2 t ob" for ob using none [of ob] by (simp add: holds_def)
  ultimately show ?thesis using k1(1,4) by (simp add: ReleaseThreadMutexes_def)
qed

text \<open>The thread leaves the ready queue and dies: those that wait for it have to be woken.\<close>

definition dying :: "nat \<Rightarrow> kernel \<Rightarrow> kernel" where
  "dying t k =
     (let th = threads k t; c = core_id th;
          k1 = k\<lparr>ktiming := UnscheduleEvent (thread_wakeup_type c) (thread_id th) (ktiming k)\<rparr>;
          k2 = upd_manager c (\<lambda>m. m\<lparr>wakeup_callback_table := (wakeup_callback_table m)(thread_id th := None)\<rparr>) k1;
          k3 = (if status th = Ready then upd_queue c (remove_from (current_priority th) t) k2 else k2)
      in upd_thread t (\<lambda>th. th\<lparr>status := Dead\<rparr>) k3)"

lemma dying_simps [simp]:
  "threads (dying t k) = (threads k)(t := (threads k t)\<lparr>status := Dead\<rparr>)" "wobjs (dying t k) = wobjs k"
  "arbiters (dying t k) = arbiters k"
  "current_thread (managers (dying t k) c) = current_thread (managers k c)"
  "wakeup_callback_table (managers (dying t k) c) =
     (if c = core_id (threads k t) then (wakeup_callback_table (managers k c))(thread_id (threads k t) := None)
      else wakeup_callback_table (managers k c))"
  "ready_queue (managers (dying t k) c) =
     (if status (threads k t) = Ready \<and> c = core_id (threads k t)
      then remove_from (current_priority (threads k t)) t (ready_queue (managers k c))
      else ready_queue (managers k c))"
  by (simp_all add: dying_def Let_def)

lemma sched_ok_dying:
  assumes "sched_ok k" "status (threads k t) \<noteq> Dormant"
  shows "sched_ok (dying t k)"
proof -
  have h: "queues_hold k" "prepared k" "one_running k" using assms(1) by (simp_all add: sched_ok_def)
  have q: "queue_inv 64 (ready_queue (managers k c))" for c using h(1) by (simp add: queues_hold_def)
  have p: "current_priority (threads k s) < 64" for s using h(2) by (simp add: prepared_def)
  note r = rq.rm_spec [OF q p]
  have "queues_hold (dying t k)"
    unfolding queues_hold_def
  proof (intro allI conjI)
    fix c p' s
    let ?q = "ready_queue (managers (dying t k) c)"
    show "queue_inv 64 ?q" using q r by simp
    show "distinct (level ?q p')" using h(1) r by (auto simp: queues_hold_def)
    show "s \<in> set (level ?q p') \<longleftrightarrow> status (threads (dying t k) s) = Ready \<and>
      current_priority (threads (dying t k) s) = p' \<and> core_id (threads (dying t k) s) = c"
      using h(1) r by (auto simp: queues_hold_def)
  qed
  moreover have "prepared (dying t k)" using h(2) assms(2) r by (auto simp: prepared_def)
  moreover have "one_running (dying t k)"
    by (rule one_running_cong [OF h(3)]) (simp_all split: if_splits)
  ultimately show ?thesis by (simp add: sched_ok_def)
qed

lemma dying_spec:
  assumes k: "kernel_ok {} k" and idle: "wait_objects (threads k t) = []" and st: "status (threads k t) \<notin> {Dead, Dormant, WaitArb}"
  shows "kernel_ok {t} (dying t k)"
proof -
  let ?k' = "dying t k"
  have o: "sched_ok k" "held_ok k" "boost_ok k" using k by (simp_all add: kernel_ok_def core_ok_def)
  have "held_ok ?k'" using o(2) by (auto simp: held_ok_def mutex_ok_def holds_def)
  moreover have "best_held_priority ?k' s = best_held_priority k s" for s
    by (rule best_held_cong) (simp_all add: priority_of_mutex_def)
  then have "boost_ok ?k'" using o(3) by (auto simp: boost_ok_def)
  ultimately have c: "core_ok ?k'" using sched_ok_dying [OF o(1)] st by (simp add: core_ok_def)
  have nw: "t \<notin> set (waiting_threads (wobjs k y))" for y using k idle by (simp add: kernel_ok_def lists_ok_def)
  have sw: "ShouldWait ?k' y s = ShouldWait k y s" if "y \<noteq> t" for y s using that by (intro ShouldWait_cong) simp_all
  have "no_lost {t} ?k'"
    unfolding no_lost_def
  proof (intro allI impI)
    fix y s assume s: "s \<in> set (waiting_threads (wobjs ?k' y))" "runnable ?k' y s"
    then have n: "s \<noteq> t" "s \<in> set (waiting_threads (wobjs k y))" using nw by auto
    show "y \<in> {t} \<or> status (threads ?k' s) = WaitSynchAll \<and> set (wait_objects (threads ?k' s)) \<inter> {t} \<noteq> {}"
    proof (cases "y = t \<or> status (threads k s) = WaitSynchAll \<and> t \<in> set (wait_objects (threads k s))")
      case False
      then have "runnable k y s"
        using s(2) sw n by (auto simp: runnable_def ready_to_run_def list_all_iff split: if_splits) (metis sw)
      then show ?thesis using k n by (simp add: kernel_ok_def no_lost_def)
    qed (use n in auto)
  qed
  moreover have "lists_ok ?k'" using k by (simp add: kernel_ok_def lists_ok_def)
  moreover have "waiters_ok ?k'"
    using k idle st callback_fits_other by (auto simp: kernel_ok_def waiters_ok_def waiter_ok_def)
  ultimately show ?thesis using c by (simp add: kernel_ok_def)
qed

lemma Stop_spec:
  assumes k: "kernel_ok {} k" and idle: "wait_objects (threads k t) = []" and st: "status (threads k t) \<notin> {Dead, Dormant, WaitArb}"
  shows "\<exists>k'. Stop t k = Some k' \<and> kernel_ok {} k' \<and> quiet (dying t k) k' \<and> arbiters k' = arbiters k \<and>
    status (threads k' t) = Dead \<and> (\<forall>ob. \<not> holds k' t ob)"
proof -
  note d = dying_spec [OF assms]
  from WakeupAll_spec [OF d] obtain k4 where k4: "WakeupAllWaitingThreads t (dying t k) = Some k4" "kernel_ok {} k4"
    "wakes (dying t k) k4" by blast
  have i: "wait_objects (threads (dying t k) t) = []" "status (threads (dying t k) t) = Dead" using idle by simp_all
  have t4: "status (threads k4 t) = Dead" "wait_objects (threads k4 t) = []"
    "held_mutexes (threads k4 t) = held_mutexes (threads k t)" "holds k4 t y = holds (dying t k) t y" for y
    using k4(3) i unfolding wakes_def by (simp, simp, simp, blast)
  have "held_ok k" using k by (simp add: kernel_ok_def core_ok_def)
  then have "\<forall>ob \<in> set (held_mutexes (threads k4 t)). holds k4 t ob"
    using held_holds [of k _ t] st t4(3,4) by (simp add: holds_def)
  from ReleaseThreadMutexes_spec [OF k4(2) t4(1,2) this] obtain k5 where k5: "ReleaseThreadMutexes t k4 = Some k5"
    "kernel_ok {} k5" "quiet k4 k5" "arbiters k5 = arbiters k4" "\<forall>ob. \<not> holds k5 t ob" by blast
  have "quiet (dying t k) k4" using wakes_quiet [OF k4(3)] d by (simp add: kernel_ok_def)
  then have "quiet (dying t k) k5" using quiet_trans k5(3) by blast
  moreover have "Stop t k = Some k5"
    using k4(1) k5(1) leave_no_lists [OF t4(2)] by (simp add: Stop_def dying_def Let_def)
  moreover have "arbiters k4 = arbiters k" using k4(3) by (simp add: wakes_def)
  moreover have "status (threads k5 t) = Dead" using k5(3) t4(1) by (simp add: quiet_def)
  ultimately show ?thesis using k5 by simp
qed

section \<open>The next thread\<close>

text \<open>The threads of the levels below one, in the order in which they are popped.\<close>

definition below :: "nat \<Rightarrow> 'a ready_queue \<Rightarrow> 'a list" where
  "below m q = concat (map (level q) [0..<m])"

definition levels_distinct :: "'a ready_queue \<Rightarrow> bool" where
  "levels_distinct q \<longleftrightarrow> (\<forall>p. distinct (level q p)) \<and>
     (\<forall>p p' x. x \<in> set (level q p) \<longrightarrow> x \<in> set (level q p') \<longrightarrow> p = p')"

text \<open>Both loops of \<open>PopNextReadyThread\<close> set aside what cannot be scheduled and stop at the first that can.\<close>

lemma pop_loop:
  assumes eq: "\<And>q aside. loop q aside = Option.bind (pop q) (\<lambda>(r, q'). case r of
       None \<Rightarrow> Some (None, q', aside)
     | Some t \<Rightarrow> if ok t then Some (Some t, q', aside) else loop q' (aside @ [t]))"
    and pop: "\<And>q. queue_inv 64 q \<Longrightarrow> used_levels q = U \<Longrightarrow>
      (case least_from (\<lambda>j. level q j \<noteq> []) 0 m of
         None \<Rightarrow> pop q = Some (None, q)
       | Some i \<Rightarrow> \<exists>q'. pop q = Some (Some (hd (level q i)), q') \<and> queue_inv 64 q' \<and> used_levels q' = used_levels q \<and>
                     level q' = (level q)(i := tl (level q i)))"
    and q: "queue_inv 64 q" "used_levels q = U" "levels_distinct q"
  shows "\<exists>q'. loop q aside = Some (find ok (below m q), q', aside @ takeWhile (\<lambda>t. \<not> ok t) (below m q)) \<and>
    queue_inv 64 q' \<and> used_levels q' = U \<and>
    level q' = (\<lambda>p. filter (\<lambda>x. x \<notin> set (takeWhile (\<lambda>t. \<not> ok t) (below m q)) \<and> find ok (below m q) \<noteq> Some x) (level q p))"
  using q
proof (induction "length (below m q)" arbitrary: q aside rule: less_induct)
  case less
  show ?case
  proof (cases "least_from (\<lambda>j. level q j \<noteq> []) 0 m")
    case None
    then have "below m q = []" by (auto simp: below_def least_from_None)
    moreover have "loop q aside = Some (None, q, aside)" using pop [OF less.prems(1,2)] None by (subst eq) simp
    ultimately show ?thesis using less.prems by auto
  next
    case (Some i)
    let ?t = "hd (level q i)"
    have i: "i < m" "level q i \<noteq> []" "\<forall>j < i. level q j = []" using Some by (auto simp: least_from_Some)
    from pop [OF less.prems(1,2)] Some obtain q1 where q1: "pop q = Some (Some ?t, q1)" "queue_inv 64 q1"
      "used_levels q1 = U" "level q1 = (level q)(i := tl (level q i))" using less.prems(2) by auto
    have bel: "below m q = ?t # below m q1"
    proof -
      have "level q1 i = tl (level q i)" "level q i = ?t # level q1 i" using q1(4) i(2) by simp_all
      then show ?thesis using pop_level_order [of i m "level q" ?t "level q1 i"] i q1(4)
        by (simp add: below_def)
    qed
    have lev: "level q1 p = filter (\<lambda>x. x \<noteq> ?t) (level q p)" for p
    proof (cases "p = i")
      case True
      have "distinct (?t # tl (level q i))" using less.prems(3) i(2) by (simp add: levels_distinct_def)
      then have "filter (\<lambda>x. x \<noteq> ?t) (?t # tl (level q i)) = tl (level q i)" by (simp add: filter_neq_id)
      then show ?thesis using True i(2) q1(4) by simp
    next
      case False
      have "?t \<in> set (level q i)" using i(2) by simp
      then have "?t \<notin> set (level q p)" using less.prems(3) False by (auto simp: levels_distinct_def)
      then show ?thesis using False q1(4) by (simp add: filter_neq_id)
    qed
    show ?thesis
    proof (cases "ok ?t")
      case True
      have "loop q aside = Some (Some ?t, q1, aside)" using q1(1) True by (subst eq) simp
      moreover have "find ok (below m q) = Some ?t" "takeWhile (\<lambda>t. \<not> ok t) (below m q) = []" using bel True by simp_all
      ultimately show ?thesis using q1(2,3) lev by (auto simp: fun_eq_iff intro!: filter_cong)
    next
      case False
      have "levels_distinct q1" using less.prems(3) by (auto simp: levels_distinct_def lev)
      moreover have "length (below m q1) < length (below m q)" by (simp add: bel)
      ultimately obtain q2 where q2: "loop q1 (aside @ [?t]) = Some (find ok (below m q1), q2,
          (aside @ [?t]) @ takeWhile (\<lambda>t. \<not> ok t) (below m q1))" "queue_inv 64 q2" "used_levels q2 = U"
        "level q2 = (\<lambda>p. filter (\<lambda>x. x \<notin> set (takeWhile (\<lambda>t. \<not> ok t) (below m q1)) \<and> find ok (below m q1) \<noteq> Some x) (level q1 p))"
        using less.hyps [OF _ q1(2,3)] by blast
      have run: "loop q aside = loop q1 (aside @ [?t])" using q1(1) False by (subst eq) simp
      have "find ok (below m q) = find ok (below m q1)"
        "takeWhile (\<lambda>t. \<not> ok t) (below m q) = ?t # takeWhile (\<lambda>t. \<not> ok t) (below m q1)" using bel False by simp_all
      moreover have "level q2 = (\<lambda>p. filter (\<lambda>x. x \<notin> set (?t # takeWhile (\<lambda>t. \<not> ok t) (below m q1)) \<and>
          find ok (below m q1) \<noteq> Some x) (level q p))"
        unfolding q2(4) lev by (auto simp: fun_eq_iff intro!: filter_cong)
      ultimately show ?thesis using q2(1-3) run by auto
    qed
  qed
qed

text \<open>The threads that were set aside go back to their levels.\<close>

lemma push_all:
  assumes "queue_inv 64 q" "\<forall>t \<in> set ts. f t \<in> used_levels q"
  shows "queue_inv 64 (fold (\<lambda>t. push_back (f t) t) ts q) \<and> used_levels (fold (\<lambda>t. push_back (f t) t) ts q) = used_levels q \<and>
    (\<forall>p. level (fold (\<lambda>t. push_back (f t) t) ts q) p = level q p @ filter (\<lambda>t. f t = p) ts)"
  using assms
proof (induction ts arbitrary: q)
  case (Cons t ts)
  have "f t \<in> used_levels q" using Cons.prems(2) by simp
  note b = rq.pushb_spec [OF Cons.prems(1) this, of t]
  with Cons.prems(2) have "\<forall>s \<in> set ts. f s \<in> used_levels (push_back (f t) t q)" by simp
  with Cons.IH [of "push_back (f t) t q"] b show ?case by auto
qed simp

lemma set_below: "x \<in> set (below m q) \<longleftrightarrow> (\<exists>p < m. x \<in> set (level q p))"
  by (auto simp: below_def)

lemma distinct_below: "levels_distinct q \<Longrightarrow> distinct (below m q)"
proof (induction m)
  case (Suc m)
  have "below (Suc m) q = below m q @ level q m" by (simp add: below_def)
  moreover have "set (below m q) \<inter> set (level q m) = {}"
    using Suc.prems by (fastforce simp: set_below levels_distinct_def)
  ultimately show ?case using Suc by (simp add: levels_distinct_def)
qed (simp add: below_def)

text \<open>The thread that \<open>PopNextReadyThread\<close> returns: the first of the better threads that can be scheduled, or the
  thread that runs.\<close>

definition next_thread :: "nat \<Rightarrow> kernel \<Rightarrow> nat option" where
  "next_thread core k =
     (let q = ready_queue (managers k core); ok = (\<lambda>t. can_schedule (threads k t)) in
      case current_thread (managers k core) of
        Some t \<Rightarrow>
          if status (threads k t) = Running
          then (case find ok (below (current_priority (threads k t)) q) of None \<Rightarrow> Some t | Some n \<Rightarrow> Some n)
          else find ok (below 64 q)
      | None \<Rightarrow> find ok (below 64 q))"

lemma ready_levels:
  assumes "sched_ok k"
  shows "queue_inv 64 (ready_queue (managers k c))" "levels_distinct (ready_queue (managers k c))"
    "s \<in> set (level (ready_queue (managers k c)) p) \<longleftrightarrow>
       status (threads k s) = Ready \<and> current_priority (threads k s) = p \<and> core_id (threads k s) = c"
  using assms by (auto simp: sched_ok_def queues_hold_def levels_distinct_def)

lemma set_aside:
  fixes core m :: nat
  assumes s: "sched_ok k"
  defines "q \<equiv> ready_queue (managers k core)" and "ok \<equiv> (\<lambda>t. can_schedule (threads k t))"
  assumes q1: "queue_inv 64 q1" "used_levels q1 = used_levels q"
    "level q1 = (\<lambda>p. filter (\<lambda>x. x \<notin> set (takeWhile (\<lambda>t. \<not> ok t) (below m q)) \<and> find ok (below m q) \<noteq> Some x) (level q p))"
  defines "q' \<equiv> push_aside k (takeWhile (\<lambda>t. \<not> ok t) (below m q)) q1"
  shows "queue_inv 64 q' \<and> used_levels q' = used_levels q \<and>
    (\<forall>p. distinct (level q' p) \<and> (\<forall>x. x \<in> set (level q' p) \<longleftrightarrow> x \<in> set (level q p) \<and> find ok (below m q) \<noteq> Some x))"
proof -
  let ?L = "takeWhile (\<lambda>t. \<not> ok t) (below m q)" and ?f = "\<lambda>t. current_priority (threads k t)"
  note h = ready_levels [OF s, where c = core, folded q_def]
  have L: "x \<in> set (level q (?f x)) \<and> \<not> ok x" if "x \<in> set ?L" for x
    using set_takeWhileD [OF that] h(3) by (auto simp: set_below)
  have d: "distinct ?L" using distinct_below [OF h(2)] by (simp add: distinct_takeWhile)
  have "?f x \<in> used_levels q" if "x \<in> set ?L" for x
    using L [OF that] rq.unused_empty [OF h(1), of "?f x"] by fastforce
  then have "\<forall>x \<in> set (rev ?L). ?f x \<in> used_levels q1" by (simp add: q1(2))
  from push_all [OF q1(1) this] have p: "queue_inv 64 q'" "used_levels q' = used_levels q"
    "\<And>p. level q' p = level q1 p @ filter (\<lambda>t. ?f t = p) (rev ?L)"
    by (simp_all add: q'_def push_aside_def q1(2))
  have notfound: "find ok (below m q) \<noteq> Some x" if "x \<in> set ?L" for x
    using L [OF that] by (auto simp: find_Some_iff)
  have "x \<in> set (level q' p) \<longleftrightarrow> x \<in> set (level q p) \<and> find ok (below m q) \<noteq> Some x" for x p
    using L notfound h(3) by (auto simp: p(3) q1(3))
  moreover have "distinct (level q' p)" for p
    using h(2) d by (auto simp: p(3) q1(3) levels_distinct_def)
  ultimately show ?thesis using p by blast
qed

lemma PopNext_spec:
  fixes core :: nat
  assumes s: "sched_ok k"
  defines "q \<equiv> ready_queue (managers k core)"
  shows "\<exists>q'. PopNextReadyThread core k = Some (next_thread core k, upd_queue core (\<lambda>_. q') k) \<and>
    queue_inv 64 q' \<and> used_levels q' = used_levels q \<and>
    (\<forall>p. distinct (level q' p) \<and> (\<forall>x. x \<in> set (level q' p) \<longleftrightarrow> x \<in> set (level q p) \<and> next_thread core k \<noteq> Some x))"
proof -
  let ?ok = "\<lambda>t. can_schedule (threads k t)"
  note h = ready_levels [OF s, where c = core, folded q_def]
  have popf: "case least_from (\<lambda>j. level q j \<noteq> []) 0 64 of
      None \<Rightarrow> pop_first q = Some (None, q)
    | Some i \<Rightarrow> \<exists>q'. pop_first q = Some (Some (hd (level q i)), q') \<and> queue_inv 64 q' \<and> used_levels q' = used_levels q \<and>
        level q' = (level q)(i := tl (level q i))" if "queue_inv 64 q" for q :: "nat ready_queue"
    using rq.popf_spec [OF that] .
  from pop_loop [where loop = "pop_any ?ok" and ok = ?ok and pop = pop_first and m = 64, OF _ _ h(1) refl h(2), of "[]"]
  obtain q1 where any: "pop_any ?ok q [] = Some (find ?ok (below 64 q), q1, takeWhile (\<lambda>t. \<not> ?ok t) (below 64 q))"
    "queue_inv 64 q1" "used_levels q1 = used_levels q"
    "level q1 = (\<lambda>p. filter (\<lambda>x. x \<notin> set (takeWhile (\<lambda>t. \<not> ?ok t) (below 64 q)) \<and> find ?ok (below 64 q) \<noteq> Some x) (level q p))"
    using popf pop_any.simps [of ?ok] by auto
  note any' = set_aside [OF s, where core = core and m = 64, folded q_def, OF any(2-4)]
  show ?thesis
  proof (cases "\<exists>t. current_thread (managers k core) = Some t \<and> status (threads k t) = Running")
    case False
    then have n: "next_thread core k = find ?ok (below 64 q)"
      by (auto simp: next_thread_def q_def Let_def split: option.splits)
    have "PopNextReadyThread core k = Some (next_thread core k,
        upd_queue core (\<lambda>_. push_aside k (takeWhile (\<lambda>t. \<not> ?ok t) (below 64 q)) q1) k)"
      using False any(1) by (auto simp: PopNextReadyThread_def n q_def Let_def split: option.splits)
    with any' n show ?thesis by auto
  next
    case True
    then obtain t where t: "current_thread (managers k core) = Some t" "status (threads k t) = Running" by blast
    let ?p = "current_priority (threads k t)"
    have "core_id (threads k t) = core" using s t(1) by (simp add: sched_ok_def one_running_def)
    then have u: "?p \<in> used_levels q" using s t(2) by (auto simp: sched_ok_def prepared_def q_def)
    from pop_loop [where loop = "pop_better ?ok ?p" and ok = ?ok and pop = "pop_first_better ?p" and m = ?p,
        OF _ _ h(1) refl h(2), of "[]"]
    obtain q2 where bet: "pop_better ?ok ?p q [] = Some (find ?ok (below ?p q), q2, takeWhile (\<lambda>t. \<not> ?ok t) (below ?p q))"
      "queue_inv 64 q2" "used_levels q2 = used_levels q"
      "level q2 = (\<lambda>p. filter (\<lambda>x. x \<notin> set (takeWhile (\<lambda>t. \<not> ?ok t) (below ?p q)) \<and> find ?ok (below ?p q) \<noteq> Some x) (level q p))"
      using rq.popb_spec [where n = 64] u pop_better.simps [of ?ok ?p] by auto
    note bet' = set_aside [OF s, where core = core and m = ?p, folded q_def, OF bet(2-4)]
    have n: "next_thread core k = (case find ?ok (below ?p q) of None \<Rightarrow> Some t | Some n \<Rightarrow> Some n)"
      using t by (simp add: next_thread_def q_def)
    have "PopNextReadyThread core k = Some (next_thread core k,
        upd_queue core (\<lambda>_. push_aside k (takeWhile (\<lambda>t. \<not> ?ok t) (below ?p q)) q2) k)"
      using t bet(1) by (simp add: PopNextReadyThread_def n q_def)
    moreover have "t \<notin> set (level q p)" for p using h(3) t(2) by simp
    ultimately show ?thesis using bet' n by (auto split: option.splits)
  qed
qed

section \<open>Switching\<close>

lemma next_thread_cases:
  assumes s: "sched_ok k" and n: "next_thread core k = Some n"
  obtains "current_thread (managers k core) = Some n" "status (threads k n) = Running"
  | "status (threads k n) = Ready" "core_id (threads k n) = core" "can_schedule (threads k n)"
proof -
  have *: "status (threads k x) = Ready \<and> core_id (threads k x) = core \<and> can_schedule (threads k x)"
    if "find (\<lambda>t. can_schedule (threads k t)) (below m (ready_queue (managers k core))) = Some x" for m x
  proof -
    have "x \<in> set (below m (ready_queue (managers k core)))" "can_schedule (threads k x)"
      using that by (auto simp: find_Some_iff)
    then show ?thesis using ready_levels(3) [OF s, where c = core] by (auto simp: set_below)
  qed
  from n show thesis
    using that * by (auto simp: next_thread_def Let_def split: option.splits if_splits)
qed

definition switched :: "nat \<Rightarrow> kernel \<Rightarrow> nat \<Rightarrow> ThreadStatus" where
  "switched core k s =
     (if next_thread core k = Some s then Running
      else if current_thread (managers k core) = Some s \<and> status (threads k s) = Running then Ready
      else status (threads k s))"

lemma switch_keeps:
  assumes k: "kernel_ok {} k"
    and st: "\<And>s. status (threads k' s) = switched core k s"
    and th: "\<And>s. current_priority (threads k' s) = current_priority (threads k s) \<and>
      nominal_priority (threads k' s) = nominal_priority (threads k s) \<and> core_id (threads k' s) = core_id (threads k s) \<and>
      held_mutexes (threads k' s) = held_mutexes (threads k s) \<and> wait_objects (threads k' s) = wait_objects (threads k s) \<and>
      wakeup_cb (threads k' s) = wakeup_cb (threads k s) \<and> thread_id (threads k' s) = thread_id (threads k s)"
    and wo: "wobjs k' = wobjs k"
    and q: "\<And>c. queue_inv 64 (ready_queue (managers k' c))"
      "\<And>c. used_levels (ready_queue (managers k' c)) = used_levels (ready_queue (managers k c))"
      "\<And>c p. distinct (level (ready_queue (managers k' c)) p)"
      "\<And>c p s. s \<in> set (level (ready_queue (managers k' c)) p) \<longleftrightarrow>
         switched core k s = Ready \<and> current_priority (threads k s) = p \<and> core_id (threads k s) = c"
    and cur: "\<And>c. current_thread (managers k' c) = (if c = core then next_thread core k else current_thread (managers k c))"
      "\<And>c. wakeup_callback_table (managers k' c) = wakeup_callback_table (managers k c)"
  shows "kernel_ok {} k'" "quiet k k'"
proof -
  have o: "sched_ok k" "held_ok k" "boost_ok k" and l: "lists_ok k" and wt: "waiters_ok k" and nl: "no_lost {} k"
    using k by (simp_all add: kernel_ok_def core_ok_def)
  have running: "current_thread (managers k (core_id (threads k s))) = Some s" if "status (threads k s) = Running" for s
    using o(1) that by (simp add: sched_ok_def one_running_def)
  have at: "core_id (threads k s) = c \<and> status (threads k s) \<noteq> Dormant" if "current_thread (managers k c) = Some s" for s c
    using o(1) that by (simp add: sched_ok_def one_running_def)
  have nxt: "status (threads k s) \<in> {Running, Ready} \<and> core_id (threads k s) = core" if "next_thread core k = Some s" for s
    using next_thread_cases [OF o(1) that] at by blast
  have same: "status (threads k' s) = Dead \<longleftrightarrow> status (threads k s) = Dead"
    "status (threads k' s) = Dormant \<longleftrightarrow> status (threads k s) = Dormant"
    "status (threads k' s) \<in> {Running, Ready} \<longleftrightarrow> status (threads k s) \<in> {Running, Ready}"
    "status (threads k s) \<notin> {Running, Ready} \<Longrightarrow> status (threads k' s) = status (threads k s)" for s
    using nxt [of s] by (auto simp: st switched_def)
  have "queues_hold k'" using q(1,3,4) by (simp add: queues_hold_def st th)
  moreover have "prepared k'" using o(1) same(2) by (simp add: sched_ok_def prepared_def th q(2))
  moreover have "one_running k'"
    unfolding one_running_def
  proof (intro conjI allI impI)
    fix s assume "status (threads k' s) = Running"
    then have "next_thread core k = Some s \<or> core_id (threads k s) \<noteq> core \<and> status (threads k s) = Running"
      using running [of s] by (auto simp: st switched_def split: if_splits)
    then show "current_thread (managers k' (core_id (threads k' s))) = Some s"
      using nxt [of s] running [of s] by (auto simp: cur(1) th)
  next
    fix c s assume "current_thread (managers k' c) = Some s"
    then show "core_id (threads k' s) = c" "status (threads k' s) \<noteq> Dormant"
      using nxt [of s] at [of c s] same(2) [of s] by (auto simp: cur(1) th split: if_splits)
  qed
  ultimately have "sched_ok k'" by (simp add: sched_ok_def)
  moreover have "held_ok k'" using o(2) same(1) by (simp add: held_ok_def mutex_ok_def holds_def th wo)
  moreover have "best_held_priority k' s = best_held_priority k s" for s
    by (rule best_held_cong) (simp_all add: th wo priority_of_mutex_def)
  then have "boost_ok k'" using o(3) same(1) by (simp add: boost_ok_def th)
  ultimately have c: "core_ok k'" by (simp add: core_ok_def)
  have sw: "ShouldWait k' y s = ShouldWait k y s" for y s by (rule ShouldWait_cong) (simp_all add: wo same(1))
  have "no_lost {} k'"
    unfolding no_lost_def
  proof (intro allI impI)
    fix y s assume s: "s \<in> set (waiting_threads (wobjs k' y))" "runnable k' y s"
    then have sk: "s \<in> set (waiting_threads (wobjs k y))" by (simp add: wo)
    then have "wait_objects (threads k s) \<noteq> []" using l by (auto simp: lists_ok_def)
    then have "status (threads k s) \<notin> {Running, Ready}" using wt by (auto simp: waiters_ok_def waiter_ok_def)
    then have "runnable k y s" using runnable_mono [of k y s k'] s(2) same(4) by (auto simp: sw th)
    then show "y \<in> {} \<or> status (threads k' s) = WaitSynchAll \<and> set (wait_objects (threads k' s)) \<inter> {} \<noteq> {}"
      using nl sk by (simp add: no_lost_def)
  qed
  moreover have "waiter_ok (threads k' s)" for s
  proof (cases "status (threads k s) \<in> {Running, Ready}")
    case True
    then have "wait_objects (threads k s) = []" "wakeup_cb (threads k s) = None"
      using wt by (auto simp: waiters_ok_def waiter_ok_def)
    then show ?thesis using True same(3) [of s] by (auto simp: waiter_ok_def th)
  next
    case False
    then show ?thesis using wt same(4) [OF False] by (simp add: waiters_ok_def waiter_ok_def th)
  qed
  ultimately show "kernel_ok {} k'" using c l by (simp add: kernel_ok_def lists_ok_def waiters_ok_def th wo)
  have "status (threads k' s) = status (threads k s)" if "status (threads k' s) = WaitArb \<or> status (threads k s) = WaitArb" for s
    using same(3,4) [of s] that by fastforce
  then show "quiet k k'" using same(1,2) by (simp add: quiet_def th cur(2))
qed

text \<open>The thread that runs is preempted and goes to the front of its level.\<close>

definition leave_current :: "nat \<Rightarrow> kernel \<Rightarrow> kernel" where
  "leave_current core k = (case current_thread (managers k core) of None \<Rightarrow> k | Some p \<Rightarrow> leave_thread core p k)"

definition preempted :: "nat \<Rightarrow> kernel \<Rightarrow> nat \<Rightarrow> bool" where
  "preempted core k s \<longleftrightarrow> current_thread (managers k core) = Some s \<and> status (threads k s) = Running"

lemma leave_current_simps:
  "status (threads (leave_current core k) s) = (if preempted core k s then Ready else status (threads k s))"
  "current_priority (threads (leave_current core k) s) = current_priority (threads k s)"
  "nominal_priority (threads (leave_current core k) s) = nominal_priority (threads k s)"
  "core_id (threads (leave_current core k) s) = core_id (threads k s)"
  "held_mutexes (threads (leave_current core k) s) = held_mutexes (threads k s)"
  "wait_objects (threads (leave_current core k) s) = wait_objects (threads k s)"
  "wakeup_cb (threads (leave_current core k) s) = wakeup_cb (threads k s)"
  "thread_id (threads (leave_current core k) s) = thread_id (threads k s)"
  "owner_process (threads (leave_current core k) s) = owner_process (threads k s)"
  "wobjs (leave_current core k) = wobjs k" "arbiters (leave_current core k) = arbiters k"
  "current_thread (managers (leave_current core k) c) = current_thread (managers k c)"
  "wakeup_callback_table (managers (leave_current core k) c) = wakeup_callback_table (managers k c)"
  by (auto simp: leave_current_def leave_thread_def preempted_def Let_def split: option.splits)

lemma leave_current_queue:
  "ready_queue (managers (leave_current core k) c) =
     (case current_thread (managers k core) of
        Some p \<Rightarrow> if c = core \<and> status (threads k p) = Running
                  then push_front (current_priority (threads k p)) p (ready_queue (managers k c))
                  else ready_queue (managers k c)
      | None \<Rightarrow> ready_queue (managers k c))"
  by (simp add: leave_current_def leave_thread_def Let_def split: option.splits)

lemma leave_current_levels:
  assumes q1: "queue_inv 64 q1" "used_levels q1 = used_levels (ready_queue (managers k core))"
    "\<forall>p. distinct (level q1 p) \<and> (\<forall>x. x \<in> set (level q1 p) \<longleftrightarrow> x \<in> set (level (ready_queue (managers k core)) p) \<and> r \<noteq> Some x)"
    and s: "sched_ok k"
  defines "q \<equiv> ready_queue (managers (leave_current core (upd_queue core (\<lambda>_. q1) k)) core)"
  shows "queue_inv 64 q" "used_levels q = used_levels (ready_queue (managers k core))" "distinct (level q p)"
    "x \<in> set (level q p) \<longleftrightarrow>
       x \<in> set (level (ready_queue (managers k core)) p) \<and> r \<noteq> Some x \<or> preempted core k x \<and> current_priority (threads k x) = p"
proof -
  note h = ready_levels [OF s, where c = core]
  have "queue_inv 64 q \<and> used_levels q = used_levels (ready_queue (managers k core)) \<and> distinct (level q p) \<and>
    (x \<in> set (level q p) \<longleftrightarrow> x \<in> set (level (ready_queue (managers k core)) p) \<and> r \<noteq> Some x \<or>
       preempted core k x \<and> current_priority (threads k x) = p)"
  proof (cases "\<exists>t. preempted core k t")
    case False
    then have "q = q1" by (auto simp: q_def leave_current_queue preempted_def split: option.splits)
    then show ?thesis using q1 False by auto
  next
    case True
    then obtain t where t: "current_thread (managers k core) = Some t" "status (threads k t) = Running"
      by (auto simp: preempted_def)
    let ?p = "current_priority (threads k t)"
    have "core_id (threads k t) = core" using s t(1) by (simp add: sched_ok_def one_running_def)
    then have "?p \<in> used_levels q1" using s t(2) by (auto simp: sched_ok_def prepared_def q1(2))
    note f = rq.pushf_spec [OF q1(1) this, of t]
    have q: "q = push_front ?p t q1" using t by (simp add: q_def leave_current_queue)
    have "t \<notin> set (level (ready_queue (managers k core)) p)" for p using h(3) t(2) by simp
    then show ?thesis using f q1(2,3) t by (auto simp: q preempted_def)
  qed
  then show "queue_inv 64 q" "used_levels q = used_levels (ready_queue (managers k core))" "distinct (level q p)"
    "x \<in> set (level q p) \<longleftrightarrow>
       x \<in> set (level (ready_queue (managers k core)) p) \<and> r \<noteq> Some x \<or> preempted core k x \<and> current_priority (threads k x) = p"
    by simp_all
qed

lemma enter_thread_spec:
  assumes "status (threads k n) = Ready" "owner_process (threads k n) = Some p"
  shows "\<exists>k'. enter_thread core prev n k = Some k' \<and> threads k' = (threads k)(n := (threads k n)\<lparr>status := Running\<rparr>) \<and>
    wobjs k' = wobjs k \<and> arbiters k' = arbiters k \<and>
    (\<forall>c. ready_queue (managers k' c) =
         (if c = core then remove_from (current_priority (threads k n)) n (ready_queue (managers k c))
          else ready_queue (managers k c)) \<and>
       current_thread (managers k' c) = (if c = core then Some n else current_thread (managers k c)) \<and>
       wakeup_callback_table (managers k' c) = wakeup_callback_table (managers k c))"
  using assms by (simp add: enter_thread_def Let_def)

lemma Reschedule_spec:
  assumes k: "kernel_ok {} k"
    and proc: "\<And>n. next_thread core k = Some n \<Longrightarrow> owner_process (threads k n) \<noteq> None"
  shows "\<exists>k'. Reschedule core k = Some k' \<and> kernel_ok {} k' \<and> quiet k k' \<and> arbiters k' = arbiters k \<and> wobjs k' = wobjs k \<and>
    (\<forall>t. owner_process (threads k' t) = owner_process (threads k t)) \<and>
    current_thread (managers k' core) = next_thread core k \<and> (\<forall>s. status (threads k' s) = switched core k s)"
proof -
  have s: "sched_ok k" using k by (simp add: kernel_ok_def core_ok_def)
  let ?r = "next_thread core k" and ?q = "ready_queue (managers k core)"
  from PopNext_spec [OF s, of core] obtain q1 where q1: "PopNextReadyThread core k = Some (?r, upd_queue core (\<lambda>_. q1) k)"
    "queue_inv 64 q1" "used_levels q1 = used_levels ?q" "\<forall>p. distinct (level q1 p) \<and>
       (\<forall>x. x \<in> set (level q1 p) \<longleftrightarrow> x \<in> set (level ?q p) \<and> ?r \<noteq> Some x)" by blast
  let ?k1 = "upd_queue core (\<lambda>_. q1) k"
  let ?k2 = "leave_current core ?k1"
  note h = ready_levels [OF s]
  have hd: "distinct (level (ready_queue (managers k c)) p)" for c p using h(2) [of c] by (simp add: levels_distinct_def)
  note lev = leave_current_levels [OF q1(2-4) s]
  have other: "ready_queue (managers ?k2 c) = ready_queue (managers k c)" if "c \<noteq> core" for c
    using that by (simp add: leave_current_queue split: option.splits)
  have pre: "preempted core ?k1 x = preempted core k x" for x by (simp add: preempted_def)
  have at: "core_id (threads k x) = core" if "current_thread (managers k core) = Some x" for x
    using s that by (simp add: sched_ok_def one_running_def)
  show ?thesis
  proof (cases ?r)
    case None
    let ?k3 = "if current_thread (managers k core) = None then ?k1
      else upd_manager core (\<lambda>m. m\<lparr>current_thread := None\<rparr>) ?k2"
    have np: "\<not> preempted core k x" for x
      using None by (auto simp: preempted_def next_thread_def Let_def split: option.splits)
    have st: "switched core k x = status (threads k x)" for x
      using np [of x] None by (auto simp: switched_def preempted_def)
    have "Reschedule core k = Some ?k3"
      using q1(1) None by (auto simp: Reschedule_def SwitchContext_def leave_current_def Let_def split: option.splits)
    moreover have "kernel_ok {} ?k3" "quiet k ?k3"
      by (rule switch_keeps [OF k, where core = core];
        use q1(2-4) lev h hd other None np in \<open>auto simp: leave_current_simps pre st\<close>)+
    moreover have "status (threads ?k3 x) = switched core k x" "arbiters ?k3 = arbiters k" "wobjs ?k3 = wobjs k"
      "owner_process (threads ?k3 x) = owner_process (threads k x)" "current_thread (managers ?k3 core) = ?r" for x
      using None np st by (simp_all add: leave_current_simps pre)
    ultimately show ?thesis by blast
  next
    case (Some n)
    have n: "preempted core k n \<or> status (threads k n) = Ready \<and> core_id (threads k n) = core"
      using next_thread_cases [OF s Some] by (auto simp: preempted_def)
    then have r2: "status (threads ?k2 n) = Ready" by (auto simp: leave_current_simps pre)
    have nc: "core_id (threads k n) = core" using n at by (auto simp: preempted_def)
    obtain p where "owner_process (threads ?k2 n) = Some p" using proc [OF Some] by (auto simp: leave_current_simps)
    from enter_thread_spec [OF r2 this, of core "Option.bind (current_thread (managers k core)) (\<lambda>p. owner_process (threads k p))"]
    obtain k3 where k3:
      "enter_thread core (Option.bind (current_thread (managers k core)) (\<lambda>p. owner_process (threads k p))) n ?k2 = Some k3"
      "threads k3 = (threads ?k2)(n := (threads ?k2 n)\<lparr>status := Running\<rparr>)" "wobjs k3 = wobjs k" "arbiters k3 = arbiters k"
      "\<And>c. ready_queue (managers k3 c) =
         (if c = core then remove_from (current_priority (threads k n)) n (ready_queue (managers ?k2 c))
          else ready_queue (managers ?k2 c))"
      "\<And>c. current_thread (managers k3 c) = (if c = core then Some n else current_thread (managers k c))"
      "\<And>c. wakeup_callback_table (managers k3 c) = wakeup_callback_table (managers k c)"
      by (auto simp: leave_current_simps)
    have st: "status (threads k3 x) = switched core k x" for x
      using Some by (auto simp: k3(2) switched_def leave_current_simps pre preempted_def)
    have b: "current_priority (threads k n) < 64" using s by (simp add: sched_ok_def prepared_def)
    note rm = rq.rm_spec [OF lev(1) b, of n]
    have run: "Reschedule core k = Some k3"
      using q1(1) k3(1) Some by (simp add: Reschedule_def SwitchContext_def leave_current_def Let_def split: option.splits)
    have same: "current_priority (threads k3 x) = current_priority (threads k x) \<and>
        nominal_priority (threads k3 x) = nominal_priority (threads k x) \<and> core_id (threads k3 x) = core_id (threads k x) \<and>
        held_mutexes (threads k3 x) = held_mutexes (threads k x) \<and> wait_objects (threads k3 x) = wait_objects (threads k x) \<and>
        wakeup_cb (threads k3 x) = wakeup_cb (threads k x) \<and> thread_id (threads k3 x) = thread_id (threads k x)" for x
      by (simp add: k3(2) leave_current_simps)
    have queues: "queue_inv 64 (ready_queue (managers k3 c))"
        "used_levels (ready_queue (managers k3 c)) = used_levels (ready_queue (managers k c))"
        "distinct (level (ready_queue (managers k3 c)) p)" for c p
      using rm lev(1-3) other h(1) hd by (simp_all add: k3(5))
    have members: "x \<in> set (level (ready_queue (managers k3 c)) p) \<longleftrightarrow>
         switched core k x = Ready \<and> current_priority (threads k x) = p \<and> core_id (threads k x) = c" for x c p
      proof (cases "c = core")
        case True
        then have "x \<in> set (level (ready_queue (managers k3 c)) p) \<longleftrightarrow> x \<noteq> n \<and>
            (status (threads k x) = Ready \<and> current_priority (threads k x) = p \<and> core_id (threads k x) = core \<or>
             preempted core k x \<and> current_priority (threads k x) = p)"
          using rm lev(4) Some h(3) by (auto simp: k3(5))
        then show ?thesis using True Some at by (auto simp: switched_def preempted_def)
      next
        case False
        then show ?thesis using other h(3) Some nc at by (auto simp: k3(5) switched_def preempted_def)
      qed
    have cur: "current_thread (managers k3 c) = (if c = core then ?r else current_thread (managers k c))" for c
      using k3(6) Some by simp
    note kept = switch_keeps [OF k st same k3(3) queues members cur k3(7)]
    have "owner_process (threads k3 x) = owner_process (threads k x)" for x by (simp add: k3(2) leave_current_simps)
    with run kept show ?thesis using st k3(3,4,6) Some by simp
  qed
qed

section \<open>The beginning of a thread\<close>

text \<open>A number that names no object yet.\<close>

definition fresh :: "kernel \<Rightarrow> nat \<Rightarrow> bool" where
  "fresh k t \<longleftrightarrow> status (threads k t) = Dormant \<and> kind (wobjs k t) = ThreadObj \<and> (\<forall>ob. \<not> holds k t ob)"

lemma fresh_unused:
  assumes k: "kernel_ok X k" and f: "fresh k t"
  shows "wait_objects (threads k t) = []" "t \<notin> set (waiting_threads (wobjs k ob))"
    "status (threads k s) \<noteq> Dead \<Longrightarrow> t \<notin> set (held_mutexes (threads k s))" "current_thread (managers k c) \<noteq> Some t"
proof -
  have w: "waiter_ok (threads k t)" using k by (simp add: kernel_ok_def waiters_ok_def)
  then show i: "wait_objects (threads k t) = []" using f by (auto simp: waiter_ok_def fresh_def)
  then show "t \<notin> set (waiting_threads (wobjs k ob))" using k by (simp add: kernel_ok_def lists_ok_def)
  show "t \<notin> set (held_mutexes (threads k s))" if "status (threads k s) \<noteq> Dead"
  proof
    assume "t \<in> set (held_mutexes (threads k s))"
    then have "holds k s t" using k held_holds that by (auto simp: kernel_ok_def core_ok_def)
    then show False using f by (simp add: holds_def fresh_def)
  qed
  show "current_thread (managers k c) \<noteq> Some t"
    using k f by (auto simp: kernel_ok_def core_ok_def sched_ok_def one_running_def fresh_def)
qed

lemma newborn:
  assumes k: "kernel_ok {} k" and f: "fresh k t" and nw: "waiting_threads (wobjs k t) = []"
    and th: "status th \<in> {Dormant, WaitSleep}" "held_mutexes th = []" "wait_objects th = []" "wakeup_cb th = None"
      "nominal_priority th = p" "current_priority th = p" "core_id th = c" and p: "p < 64"
    and k': "threads k' = (threads k)(t := th)"
      "\<And>ob. waiting_threads (wobjs k' ob) = waiting_threads (wobjs k ob) \<and> kind (wobjs k' ob) = kind (wobjs k ob)"
      "\<And>d. ready_queue (managers k' d) = (if d = c then prepare p (ready_queue (managers k d)) else ready_queue (managers k d))"
      "\<And>d. current_thread (managers k' d) = current_thread (managers k d)"
  shows "kernel_ok {} k'"
proof -
  have o: "sched_ok k" "held_ok k" "boost_ok k" and l: "lists_ok k" and wt: "waiters_ok k" and nl: "no_lost {} k"
    using k by (simp_all add: kernel_ok_def core_ok_def)
  have d: "status (threads k t) = Dormant" "kind (wobjs k t) = ThreadObj" using f by (simp_all add: fresh_def)
  note u = fresh_unused [OF k f]
  have q: "queue_inv 64 (ready_queue (managers k d))" for d using o(1) by (simp add: sched_ok_def queues_hold_def)
  note pr = rq.prep_spec [OF q p]
  have "queues_hold k'" using o(1) pr th(1) d(1) by (auto simp: sched_ok_def queues_hold_def k'(1,3))
  moreover have "prepared k'" using o(1) pr th p by (auto simp: sched_ok_def prepared_def k'(1,3))
  moreover have "one_running k'"
    unfolding one_running_def
  proof (intro conjI allI impI)
    fix s assume "status (threads k' s) = Running"
    then show "current_thread (managers k' (core_id (threads k' s))) = Some s"
      using o(1) th(1) by (auto simp: sched_ok_def one_running_def k'(1,4) split: if_splits)
  next
    fix d s assume "current_thread (managers k' d) = Some s"
    then show "core_id (threads k' s) = d" "status (threads k' s) \<noteq> Dormant"
      using o(1) u(4) [of d] by (auto simp: sched_ok_def one_running_def k'(1,4))
  qed
  ultimately have "sched_ok k'" by (simp add: sched_ok_def)
  moreover have "held_ok k'"
  proof (rule held_okI)
    show "mutex_ok k' ob" for ob using o(2) f by (auto simp: held_ok_def mutex_ok_def fresh_def holds_def k'(1,2))
    show "distinct (held_mutexes (threads k' s))" for s using o(2) th(2) by (simp add: held_ok_def k'(1))
    show "holds k' s ob" if "ob \<in> set (held_mutexes (threads k' s))" "status (threads k' s) \<noteq> Dead" for s ob
      using held_holds [OF o(2), of ob s] that th(2) by (auto simp: holds_def k'(1,2) split: if_splits)
  qed
  moreover have "best_held_priority k' s = best_held_priority k s" if "s \<noteq> t" for s
    using that by (intro best_held_cong) (simp_all add: k'(1,2) priority_of_mutex_def)
  then have "boost_ok k'" using o(3) th by (auto simp: boost_ok_def k'(1) best_held_priority_def)
  ultimately have c: "core_ok k'" by (simp add: core_ok_def)
  have sw: "ShouldWait k' y s = ShouldWait k y s" for y s
    using d th(1) by (intro ShouldWait_cong) (auto simp: k'(1,2))
  have "no_lost {} k'"
    unfolding no_lost_def
  proof (intro allI impI)
    fix y s assume s: "s \<in> set (waiting_threads (wobjs k' y))" "runnable k' y s"
    then have n: "s \<in> set (waiting_threads (wobjs k y))" "s \<noteq> t" using u(2) by (auto simp: k'(2))
    then have "runnable k y s" using runnable_mono [of k y s k'] s(2) by (auto simp: sw k'(1))
    then show "y \<in> {} \<or> status (threads k' s) = WaitSynchAll \<and> set (wait_objects (threads k' s)) \<inter> {} \<noteq> {}"
      using nl n by (simp add: no_lost_def)
  qed
  moreover have "lists_ok k'" using l u(1,2) th(3) by (auto simp: lists_ok_def k'(1,2))
  moreover have "waiters_ok k'" using wt th by (auto simp: waiters_ok_def waiter_ok_def k'(1))
  ultimately show ?thesis using c by (simp add: kernel_ok_def)
qed

lemma CreateThread_spec:
  assumes k: "kernel_ok {} k" and f: "fresh k t" and nw: "waiting_threads (wobjs k t) = []"
    and core: "0 \<le> processor_id" "processor_id < int cores"
  shows "\<exists>r k'. CreateThread cores t tid valid tls entry priority arg processor_id sp process k = Some (r, k') \<and>
    kernel_ok {} k' \<and> arb_same k k'"
proof (cases "priority > ThreadPrioLowest \<or> processor_id > 4 \<or> \<not> valid")
  case True
  then show ?thesis using k by (auto simp: CreateThread_def)
next
  case False
  let ?c = "nat processor_id"
  let ?ticks = "Timer_GetTicks (timers (ktiming k) ! ?c)"
  let ?k1 = "upd_manager ?c (\<lambda>m. m\<lparr>thread_list := thread_list m @ [t], ready_queue := prepare priority (ready_queue m),
      wakeup_callback_table := (wakeup_callback_table m)(tid \<mapsto> t)\<rparr>) k"
  let ?k2 = "upd_wobj t (\<lambda>_. new_wait_object ThreadObj) (upd_thread t (\<lambda>_. dormant_thread tid priority ?c ?ticks process) ?k1)"
  have p: "priority < 64" using False by (simp add: ThreadPrioLowest_def)
  have dormant: "status (threads k t) = Dormant" using f by (simp add: fresh_def)
  have kd: "kind (wobjs k t) = ThreadObj" using f by (simp add: fresh_def)
  have run: "CreateThread cores t tid valid tls entry priority arg processor_id sp process k =
    (case tls of
       None \<Rightarrow> Some (Inl ERR_OUT_OF_MEMORY, ?k2)
     | Some address \<Rightarrow> Some (Inr (), upd_thread t (\<lambda>th. th\<lparr>status := Ready\<rparr>) (upd_queue ?c (push_back priority t)
         (upd_thread t (\<lambda>th. th\<lparr>tls_address := address, thread_ctx := ResetThreadContext sp entry arg\<rparr>) ?k2))))"
    using False core by (simp add: CreateThread_def Let_def)
  show ?thesis
  proof (cases tls)
    case None
    have "kernel_ok {} ?k2"
      by (rule newborn [OF k f nw, where p = priority and c = ?c and th = "dormant_thread tid priority ?c ?ticks process"])
        (use p nw kd in \<open>simp_all add: dormant_thread_def new_wait_object_def\<close>)
    moreover have "arb_same k ?k2" using dormant by (simp add: arb_same_def dormant_thread_def)
    ultimately show ?thesis using run None by simp
  next
    case (Some address)
    let ?th = "(dormant_thread tid priority ?c ?ticks process)\<lparr>tls_address := address,
        thread_ctx := ResetThreadContext sp entry arg, status := WaitSleep\<rparr>"
    let ?k3 = "upd_thread t (\<lambda>_. ?th) ?k2"
    have k3: "kernel_ok {} ?k3"
      by (rule newborn [OF k f nw, where p = priority and c = ?c and th = ?th])
        (use p nw kd in \<open>simp_all add: dormant_thread_def new_wait_object_def\<close>)
    from resume_idle [OF k3, of t] obtain k4 where k4: "ResumeFromWait t ?k3 = Some k4" "kernel_ok {} k4"
      by (auto simp: dormant_thread_def)
    let ?k5 = "upd_thread t (\<lambda>th. th\<lparr>status := Ready\<rparr>) (upd_queue ?c (push_back priority t)
         (upd_thread t (\<lambda>th. th\<lparr>tls_address := address, thread_ctx := ResetThreadContext sp entry arg\<rparr>) ?k2))"
    have "threads ?k5 = threads k4" "wobjs ?k5 = wobjs k4" "managers ?k5 = managers k4"
      using k4(1) by (auto simp: ResumeFromWait_def Let_def dormant_thread_def)
    then have "kernel_ok {} ?k5" by (rule kernel_ok_frame [OF k4(2)])
    moreover have "arb_same k ?k5" using dormant by (simp add: arb_same_def)
    ultimately show ?thesis using run Some by simp
  qed
qed

section \<open>Creating objects\<close>

lemma create_object:
  assumes k: "kernel_ok {} k" and f: "fresh k ob" and nw: "waiting_threads (wobjs k ob) = []"
    and x: "\<And>m. x = MutexObj m \<Longrightarrow> lock_count m = 0 \<and> holding_thread m = None"
  shows "kernel_ok {} (upd_wobj ob (\<lambda>_. new_wait_object x) k)" (is "kernel_ok {} ?k'")
proof -
  have o: "sched_ok k" "held_ok k" "boost_ok k" and l: "lists_ok k" and nl: "no_lost {} k"
    using k by (simp_all add: kernel_ok_def core_ok_def)
  note u = fresh_unused [OF k f]
  have kd: "kind (wobjs k ob) = ThreadObj" using f by (simp add: fresh_def)
  have "held_ok ?k'"
  proof (rule held_okI)
    show "mutex_ok ?k' y" for y using o(2) x by (auto simp: held_ok_def mutex_ok_def new_wait_object_def)
    show "holds ?k' s y" if "y \<in> set (held_mutexes (threads ?k' s))" "status (threads ?k' s) \<noteq> Dead" for s y
      using held_holds [OF o(2), of y s] that u(3) [of s] by (auto simp: holds_def)
  qed (use o(2) in \<open>simp add: held_ok_def\<close>)
  moreover have "best_held_priority ?k' s = best_held_priority k s" if "status (threads k s) \<noteq> Dead" for s
    using u(3) [OF that] by (intro best_held_cong) (auto simp: priority_of_mutex_def)
  then have "boost_ok ?k'" using o(3) by (simp add: boost_ok_def)
  ultimately have c: "core_ok ?k'" using o(1) by (simp add: core_ok_def sched_ok_wobj)
  have notwaited: "ob \<notin> set (wait_objects (threads k s))" for s
    using l nw unfolding lists_ok_def by (metis empty_iff list.set(1))
  have sw: "ShouldWait ?k' y s = ShouldWait k y s" if "y \<noteq> ob" for y s using that by (intro ShouldWait_cong) simp_all
  have "no_lost {} ?k'"
    unfolding no_lost_def
  proof (intro allI impI)
    fix y s assume s: "s \<in> set (waiting_threads (wobjs ?k' y))" "runnable ?k' y s"
    then have n: "y \<noteq> ob" "s \<in> set (waiting_threads (wobjs k y))" by (auto simp: new_wait_object_def split: if_splits)
    have "\<forall>z \<in> set (wait_objects (threads k s)). ShouldWait ?k' z s = ShouldWait k z s" using sw notwaited by metis
    then have "runnable k y s"
      using s(2) sw [OF n(1)] by (simp add: runnable_def ready_to_run_def list_all_iff split: if_splits)
    then show "y \<in> {} \<or> status (threads ?k' s) = WaitSynchAll \<and> set (wait_objects (threads ?k' s)) \<inter> {} \<noteq> {}"
      using nl n by (simp add: no_lost_def)
  qed
  moreover have "lists_ok ?k'" using l nw notwaited by (auto simp: lists_ok_def new_wait_object_def)
  moreover have "waiters_ok ?k'" using k by (simp add: kernel_ok_def waiters_ok_def)
  ultimately show ?thesis using c by (simp add: kernel_ok_def)
qed

lemma CreateMutex_spec:
  assumes k: "kernel_ok {} k" and f: "fresh k ob" and nw: "waiting_threads (wobjs k ob) = []"
    and r: "\<And>t. locked_by = Some t \<Longrightarrow> status (threads k t) = Running"
  shows "\<exists>k'. CreateMutex ob locked_by k = Some k' \<and> kernel_ok {} k' \<and> quiet k k' \<and> arbiters k' = arbiters k"
proof -
  let ?k1 = "upd_wobj ob (\<lambda>_. new_wait_object (MutexObj \<lparr>lock_count = 0, mutex_priority = 0, holding_thread = None\<rparr>)) k"
  have k1: "kernel_ok {} ?k1" by (rule create_object [OF k f nw]) simp
  show ?thesis
  proof (cases locked_by)
    case None
    then show ?thesis using k1 by (simp add: CreateMutex_def quiet_def)
  next
    case (Some t)
    have "\<not> ShouldWait ?k1 ob t" by (simp add: ShouldWait_def new_wait_object_def)
    moreover have "status (threads ?k1 t) = Running" using r Some by simp
    ultimately obtain k2 where "Acquire ob t ?k1 = Some k2" "kernel_ok {} k2" "same_waits ?k1 k2"
      using Acquire_running [OF k1] by blast
    then show ?thesis using Some same_waits_quiet [of ?k1 k2] by (auto simp: CreateMutex_def quiet_def same_waits_def)
  qed
qed

end
