(* ===== verification/KernelSystem.thy ===== *)
theory KernelSystem
  imports KernelThreads
begin

text \<open>
  The kernel as a state machine. A call is a system call of the thread that runs on a core, an event of the
  timing (a timeout, a timer) or a turn of the scheduler; \<open>admissible\<close> says when the code makes it, and the
  states that calls lead to are \<open>reachable\<close> from a kernel without threads.
\<close>

section \<open>Calls\<close>

datatype kcall =
  SvcWait1 nat "u32 \<Rightarrow> nat option" u32 u64
| SvcWaitN nat "u32 \<Rightarrow> nat option" bool int "nat \<Rightarrow> u32" bool u64
| SvcSetPriority nat "nat option" nat
| SvcSleep nat u64
| SvcExit nat
| SvcReleaseMutex nat nat
| SvcReleaseSemaphore nat int
| SvcSignalEvent nat
| SvcClearEvent nat
| SvcSetTimer nat u64 u64
| SvcCancelTimer nat
| SvcClearTimer nat
| MakeMutex nat "nat option"
| MakeSemaphore nat int int
| MakeEvent nat ResetType
| MakeTimer nat ResetType
| MakeThread nat nat nat bool "nat option" u32 nat u32 int u32 nat
| Timeout nat nat
| TimerFires nat int
| Turn nat

fun exec :: "kcall \<Rightarrow> kernel \<Rightarrow> kernel run" where
  "exec (SvcWait1 core lookup h ns) k = map_option snd (WaitSynchronization1 core lookup h ns k)"
| "exec (SvcWaitN core lookup valid n hs wait_all ns) k =
     map_option (snd \<circ> snd) (WaitSynchronizationN core lookup valid n hs wait_all ns k)"
| "exec (SvcSetPriority limit thread priority) k = map_option snd (SVC_SetThreadPriority limit thread priority k)"
| "exec (SvcSleep core ns) k = SleepThread core ns k"
| "exec (SvcExit core) k = map_option PrepareReschedule (ExitCurrentThread core k)"
| "exec (SvcReleaseMutex ob t) k =
     (case kind (wobjs k ob) of MutexObj m \<Rightarrow> map_option snd (Mutex_Release ob m t k) | _ \<Rightarrow> None)"
| "exec (SvcReleaseSemaphore ob n) k =
     (case kind (wobjs k ob) of SemaphoreObj s \<Rightarrow> map_option snd (Semaphore_Release ob s n k) | _ \<Rightarrow> None)"
| "exec (SvcSignalEvent ob) k = (case kind (wobjs k ob) of EventObj e \<Rightarrow> Event_Signal ob e k | _ \<Rightarrow> None)"
| "exec (SvcClearEvent ob) k = (case kind (wobjs k ob) of EventObj e \<Rightarrow> Some (Event_Clear ob e k) | _ \<Rightarrow> None)"
| "exec (SvcSetTimer ob initial interval) k =
     (case kind (wobjs k ob) of TimerObj x \<Rightarrow> Timer_Set ob x initial interval k | _ \<Rightarrow> None)"
| "exec (SvcCancelTimer ob) k = (case kind (wobjs k ob) of TimerObj x \<Rightarrow> Some (Timer_Cancel x k) | _ \<Rightarrow> None)"
| "exec (SvcClearTimer ob) k = (case kind (wobjs k ob) of TimerObj x \<Rightarrow> Some (Timer_Clear ob x k) | _ \<Rightarrow> None)"
| "exec (MakeMutex ob locked_by) k = CreateMutex ob locked_by k"
| "exec (MakeSemaphore ob initial maximum) k = Some (snd (CreateSemaphore ob initial maximum k))"
| "exec (MakeEvent ob reset) k = Some (CreateEvent ob reset k)"
| "exec (MakeTimer ob reset) k = Some (CreateTimer ob reset k)"
| "exec (MakeThread cores t tid valid tls entry priority arg pid sp process) k =
     map_option snd (CreateThread cores t tid valid tls entry priority arg pid sp process k)"
| "exec (Timeout core tid) k = ThreadWakeupCallback core tid k"
| "exec (TimerFires cb late) k = TimerCallback cb late k"
| "exec (Turn core) k = Reschedule core k"

definition runs_on :: "nat \<Rightarrow> kernel \<Rightarrow> nat \<Rightarrow> bool" where
  "runs_on core k t \<longleftrightarrow> current_thread (managers k core) = Some t \<and> status (threads k t) = Running"

definition unused :: "kernel \<Rightarrow> nat \<Rightarrow> bool" where
  "unused k ob \<longleftrightarrow> fresh k ob \<and> waiting_threads (wobjs k ob) = []"

text \<open>
  A thread that calls runs on its core; objects are what their handles say and are created at unused numbers. A
  thread that waits for all of several objects names no object twice: the code fails an assertion there. A
  timeout is that of a thread that waits, a timer event that of a timer, and a thread that runs has a process.
\<close>

fun admissible :: "kcall \<Rightarrow> kernel \<Rightarrow> bool" where
  "admissible (SvcWait1 core lookup h ns) k \<longleftrightarrow> (\<exists>t. runs_on core k t)"
| "admissible (SvcWaitN core lookup valid n hs wait_all ns) k \<longleftrightarrow> (\<exists>t. runs_on core k t) \<and>
     (wait_all \<longrightarrow> (\<forall>obs. lookup_all lookup (map hs [0..<nat n]) = Some obs \<longrightarrow> distinct obs))"
| "admissible (SvcSetPriority limit thread priority) k \<longleftrightarrow> True"
| "admissible (SvcSleep core ns) k \<longleftrightarrow> (\<exists>t. runs_on core k t)"
| "admissible (SvcExit core) k \<longleftrightarrow> (\<exists>t. runs_on core k t)"
| "admissible (SvcReleaseMutex ob t) k \<longleftrightarrow> status (threads k t) = Running \<and> (\<exists>m. kind (wobjs k ob) = MutexObj m)"
| "admissible (SvcReleaseSemaphore ob n) k \<longleftrightarrow> - (2 ^ 31) \<le> n \<and>
     (\<exists>s. kind (wobjs k ob) = SemaphoreObj s \<and> 0 \<le> available_count s \<and> available_count s \<le> max_count s \<and> max_count s < 2 ^ 31)"
| "admissible (SvcSignalEvent ob) k \<longleftrightarrow> (\<exists>e. kind (wobjs k ob) = EventObj e)"
| "admissible (SvcClearEvent ob) k \<longleftrightarrow> (\<exists>e. kind (wobjs k ob) = EventObj e)"
| "admissible (SvcSetTimer ob initial interval) k \<longleftrightarrow> (\<exists>x. kind (wobjs k ob) = TimerObj x)"
| "admissible (SvcCancelTimer ob) k \<longleftrightarrow> (\<exists>x. kind (wobjs k ob) = TimerObj x)"
| "admissible (SvcClearTimer ob) k \<longleftrightarrow> (\<exists>x. kind (wobjs k ob) = TimerObj x)"
| "admissible (MakeMutex ob locked_by) k \<longleftrightarrow> unused k ob \<and> (\<forall>t. locked_by = Some t \<longrightarrow> status (threads k t) = Running)"
| "admissible (MakeSemaphore ob initial maximum) k \<longleftrightarrow> unused k ob"
| "admissible (MakeEvent ob reset) k \<longleftrightarrow> unused k ob"
| "admissible (MakeTimer ob reset) k \<longleftrightarrow> unused k ob"
| "admissible (MakeThread cores t tid valid tls entry priority arg pid sp process) k \<longleftrightarrow>
     unused k t \<and> 0 \<le> pid \<and> pid < int cores"
| "admissible (Timeout core tid) k \<longleftrightarrow>
     (\<exists>t. wakeup_callback_table (managers k core) tid = Some t \<and> status (threads k t) \<notin> {Running, Dead, Dormant})"
| "admissible (TimerFires cb late) k \<longleftrightarrow> (\<exists>ob x. timer_callback_table k cb = Some ob \<and> kind (wobjs k ob) = TimerObj x)"
| "admissible (Turn core) k \<longleftrightarrow> (\<forall>n. next_thread core k = Some n \<longrightarrow> owner_process (threads k n) \<noteq> None)"

text \<open>A kernel without threads.\<close>

definition empty_kernel :: kernel where
  "empty_kernel =
     \<lparr>threads = (\<lambda>t. \<lparr>thread_ctx = (\<lambda>_. 0), thread_id = 0, can_schedule = True, status = Dormant, nominal_priority = 0,
        current_priority = 0, last_running_ticks = 0, tls_address = 0, held_mutexes = [], pending_mutexes = [],
        owner_process = None, wait_objects = [], wait_address = 0, wakeup_cb = None, core_id = 0\<rparr>),
      wobjs = (\<lambda>_. new_wait_object ThreadObj),
      managers = (\<lambda>_. \<lparr>current_thread = None, ready_queue = new_queue 64, wakeup_callback_table = Map.empty,
        thread_list = [], cpu_context = (\<lambda>_. 0), thread_uro = 0, current_process = None\<rparr>),
      arbiters = (\<lambda>_. []), ktiming = new_timing 4 100, timer_callback_table = Map.empty, next_timer_callback_id = 0,
      reschedule_pending = False, notifications = []\<rparr>"

inductive reachable :: "kernel \<Rightarrow> bool" where
  start: "reachable empty_kernel"
| call: "reachable k \<Longrightarrow> admissible c k \<Longrightarrow> exec c k = Some k' \<Longrightarrow> reachable k'"

section \<open>Every call returns and keeps the invariants\<close>

lemma ExitCurrentThread_spec:
  assumes k: "kernel_ok {} k" and r: "runs_on core k t"
  shows "\<exists>k'. ExitCurrentThread core k = Some k' \<and> kernel_ok {} k' \<and> arb_same k k'"
proof -
  from Stop_spec [OF k, of t] running_idle [OF k, of t] r obtain k1 where k1: "Stop t k = Some k1" "kernel_ok {} k1"
    and q: "quiet (dying t k) k1" "arbiters k1 = arbiters k" by (auto simp: runs_on_def)
  have "arb_same k (dying t k)" using r by (auto simp: arb_same_def runs_on_def)
  moreover have "arb_same (dying t k) k1" by (rule quiet_arb [OF q(1)]) (simp add: q(2))
  ultimately have a: "arb_same k k1" by (rule arb_same_trans)
  let ?k2 = "upd_manager core (\<lambda>m. m\<lparr>thread_list := removeAll t (thread_list m)\<rparr>) k1"
  have o: "sched_ok k1" "held_ok k1" "boost_ok k1" using k1(2) by (simp_all add: kernel_ok_def core_ok_def)
  have eqs: "ready_queue (managers ?k2 c) = ready_queue (managers k1 c)"
    "current_thread (managers ?k2 c) = current_thread (managers k1 c)" "threads ?k2 = threads k1" for c by simp_all
  have "sched_ok ?k2"
    unfolding sched_ok_def queues_hold_def prepared_def one_running_def eqs
    by (fact o(1) [unfolded sched_ok_def queues_hold_def prepared_def one_running_def])
  moreover have "best_held_priority ?k2 s = best_held_priority k1 s" for s
    by (rule best_held_cong) (simp_all add: priority_of_mutex_def)
  ultimately have "core_ok ?k2" using o(2,3) by (simp add: core_ok_def held_ok_def mutex_ok_def holds_def boost_ok_def)
  moreover have "same_waits k1 ?k2" by (simp add: same_waits_def)
  moreover have "ShouldWait ?k2 y s = ShouldWait k1 y s" for y s by (rule ShouldWait_cong) simp_all
  ultimately have "kernel_ok {} ?k2" using kernel_ok_mono [OF k1(2), of ?k2 "{}"] by simp
  moreover have "arb_same k ?k2" using arb_same_trans [OF a arb_same_threads, of ?k2] by simp
  ultimately show ?thesis using k1(1) r by (simp add: ExitCurrentThread_def runs_on_def)
qed

text \<open>The one call that wakes a thread from an arbiter is its timeout.\<close>

definition arb_timeout :: "kcall \<Rightarrow> kernel \<Rightarrow> bool" where
  "arb_timeout c k \<longleftrightarrow>
     (\<exists>core tid t. c = Timeout core tid \<and> wakeup_callback_table (managers k core) tid = Some t \<and> status (threads k t) = WaitArb)"

lemma exec_ok:
  assumes k: "kernel_ok {} k" and a: "admissible c k"
  shows "\<exists>k'. exec c k = Some k' \<and> kernel_ok {} k' \<and> (\<not> arb_timeout c k \<longrightarrow> arb_same k k')"
proof (cases c)
  case (SvcWait1 core lookup h ns)
  then show ?thesis using a WaitSynchronization1_spec [OF k, of core _ lookup h ns] by (fastforce simp: runs_on_def)
next
  case (SvcWaitN core lookup valid n hs all ns)
  then obtain t where t: "current_thread (managers k core) = Some t" "status (threads k t) = Running"
    and d: "\<And>obs. all \<Longrightarrow> lookup_all lookup (map hs [0..<nat n]) = Some obs \<Longrightarrow> distinct obs"
    using a by (auto simp: runs_on_def)
  from WaitSynchronizationN_spec [OF k t d] SvcWaitN show ?thesis by fastforce
next
  case (SvcSetPriority limit thread priority)
  then show ?thesis using SVC_SetThreadPriority_spec [OF k, of limit thread priority] quiet_arb by fastforce
next
  case (SvcSleep core ns)
  then show ?thesis using a SleepThread_spec [OF k, of core _ ns] quiet_arb by (fastforce simp: runs_on_def)
next
  case (SvcExit core)
  then obtain t where "runs_on core k t" using a by auto
  from ExitCurrentThread_spec [OF k this] SvcExit show ?thesis by auto
next
  case (SvcReleaseMutex ob t)
  then show ?thesis using a Mutex_Release_spec [OF k, of ob _ t] by fastforce
next
  case (SvcReleaseSemaphore ob n)
  then show ?thesis using a Semaphore_Release_spec [OF k, of ob _ n] by fastforce
next
  case (SvcSignalEvent ob)
  then show ?thesis using a Event_Signal_spec [OF k, of ob] wakes_arb [of k] k by (fastforce simp: kernel_ok_def)
next
  case (SvcClearEvent ob)
  then show ?thesis using a Event_Clear_spec [OF k, of ob] by (auto simp: Event_Clear_def)
next
  case (SvcSetTimer ob initial interval)
  then show ?thesis using a Timer_Set_spec [OF k, of ob _ initial interval] by auto
next
  case (SvcCancelTimer ob)
  then show ?thesis using a Timer_Cancel_spec [OF k] by (auto simp: arb_same_def Timer_Cancel_def)
next
  case (SvcClearTimer ob)
  then show ?thesis using a Timer_Clear_spec [OF k, of ob] by (auto simp: Timer_Clear_def)
next
  case (MakeMutex ob locked_by)
  then show ?thesis using a CreateMutex_spec [OF k, of ob locked_by] quiet_arb by (fastforce simp: unused_def)
next
  case (MakeSemaphore ob initial maximum)
  then show ?thesis using a k create_object [OF k, of ob] by (auto simp: unused_def CreateSemaphore_def arb_same_def)
next
  case (MakeEvent ob reset)
  then show ?thesis using a create_object [OF k, of ob] by (auto simp: unused_def CreateEvent_def arb_same_def)
next
  case (MakeTimer ob reset)
  let ?n = "Suc (next_timer_callback_id k)"
  let ?k1 = "k\<lparr>next_timer_callback_id := ?n, timer_callback_table := (timer_callback_table k)(?n \<mapsto> ob)\<rparr>"
  have "kernel_ok {} ?k1" by (rule kernel_ok_frame [OF k]) simp_all
  moreover have "fresh ?k1 ob" "waiting_threads (wobjs ?k1 ob) = []"
    using a MakeTimer by (auto simp: unused_def fresh_def holds_def)
  ultimately have "kernel_ok {} (upd_wobj ob (\<lambda>_. new_wait_object (TimerObj x)) ?k1)" for x
    by (rule create_object) simp
  then show ?thesis using MakeTimer by (simp add: CreateTimer_def Let_def arb_same_def)
next
  case (MakeThread cores t tid valid tls entry priority arg pid sp process)
  then show ?thesis using a CreateThread_spec [OF k, of t pid cores tid valid tls entry priority arg sp process]
    by (auto simp: unused_def)
next
  case (Timeout core tid)
  then obtain t where t: "wakeup_callback_table (managers k core) tid = Some t" "status (threads k t) \<notin> {Running, Dead, Dormant}"
    using a by auto
  from ThreadWakeupCallback_spec [OF k t] obtain k' where k': "ThreadWakeupCallback core tid k = Some k'" "kernel_ok {} k'"
    "status (threads k t) \<noteq> WaitArb \<longrightarrow> quiet k k' \<and> arbiters k' = arbiters k" by (auto split: if_splits)
  then show ?thesis using Timeout t quiet_arb by (auto simp: arb_timeout_def)
next
  case (TimerFires cb late)
  then obtain ob x where "timer_callback_table k cb = Some ob" "kind (wobjs k ob) = TimerObj x" using a by auto
  then show ?thesis using TimerFires Timer_Signal_spec [OF k, of ob x late] by (auto simp: TimerCallback_def)
next
  case (Turn core)
  then show ?thesis using a Reschedule_spec [OF k, of core] quiet_arb by fastforce
qed

lemma empty_kernel_simps:
  "threads empty_kernel t = \<lparr>thread_ctx = (\<lambda>_. 0), thread_id = 0, can_schedule = True, status = Dormant,
     nominal_priority = 0, current_priority = 0, last_running_ticks = 0, tls_address = 0, held_mutexes = [],
     pending_mutexes = [], owner_process = None, wait_objects = [], wait_address = 0, wakeup_cb = None, core_id = 0\<rparr>"
  "wobjs empty_kernel ob = new_wait_object ThreadObj" "ready_queue (managers empty_kernel c) = new_queue 64"
  "current_thread (managers empty_kernel c) = None"
  by (simp_all add: empty_kernel_def)

lemma empty_kernel_ok: "kernel_ok {} empty_kernel"
proof -
  note e = empty_kernel_simps
  have l: "level (new_queue 64) p = ([] :: nat list)" for p
    using rq.unused_empty [OF queue_inv_new, of p 64] by simp
  have "sched_ok empty_kernel"
    using queue_inv_new [of 64] by (simp add: sched_ok_def queues_hold_def prepared_def one_running_def e l)
  moreover have "held_ok empty_kernel" by (simp add: held_ok_def mutex_ok_def e new_wait_object_def)
  moreover have "boost_ok empty_kernel" by (simp add: boost_ok_def best_held_priority_def e)
  ultimately show ?thesis
    by (simp add: kernel_ok_def core_ok_def lists_ok_def waiters_ok_def waiter_ok_def no_lost_def e new_wait_object_def)
qed

lemma reachable_ok: "reachable k \<Longrightarrow> kernel_ok {} k"
proof (induction rule: reachable.induct)
  case start
  show ?case by (rule empty_kernel_ok)
next
  case (call k c k')
  then show ?case using exec_ok [of k c] by auto
qed

section \<open>The scheduler's choice\<close>

definition candidate :: "nat \<Rightarrow> kernel \<Rightarrow> nat \<Rightarrow> bool" where
  "candidate core k t \<longleftrightarrow> status (threads k t) = Ready \<and> core_id (threads k t) = core \<and> can_schedule (threads k t)"

lemma find_below:
  fixes core m :: nat
  assumes s: "sched_ok k"
  defines "r \<equiv> find (\<lambda>t. can_schedule (threads k t)) (below m (ready_queue (managers k core)))"
  shows "r = Some n \<Longrightarrow> candidate core k n \<and> current_priority (threads k n) < m"
    "candidate core k t \<Longrightarrow> current_priority (threads k t) < m \<Longrightarrow>
     \<exists>n. r = Some n \<and> current_priority (threads k n) \<le> current_priority (threads k t)"
proof -
  let ?q = "ready_queue (managers k core)" and ?ok = "\<lambda>t. can_schedule (threads k t)"
  note h = ready_levels(3) [OF s, where c = core]
  have r: "r = find ?ok (below m ?q)" by (simp add: r_def)
  show "candidate core k n \<and> current_priority (threads k n) < m" if "r = Some n" for n
  proof -
    have "n \<in> set (below m ?q)" "?ok n" using that by (auto simp: r find_Some_iff)
    then show ?thesis using h by (auto simp: set_below candidate_def)
  qed
  show "\<exists>n. r = Some n \<and> current_priority (threads k n) \<le> current_priority (threads k t)"
    if t: "candidate core k t" "current_priority (threads k t) < m"
  proof -
    let ?p = "current_priority (threads k t)"
    have split: "below m ?q = below (Suc ?p) ?q @ concat (map (level ?q) [Suc ?p..<m])"
    proof -
      have "[0..<m] = [0..<Suc ?p] @ [Suc ?p..<m]" 
        using upt_add_eq_append [of 0 "Suc ?p" "m - Suc ?p"] t(2) by simp
      then show ?thesis by (simp only: below_def map_append concat_append)
    qed
    have "t \<in> set (below (Suc ?p) ?q)" using h t(1) by (auto simp: set_below candidate_def)
    then obtain n where n: "find ?ok (below (Suc ?p) ?q) = Some n" using t(1)
      by (cases "find ?ok (below (Suc ?p) ?q)") (auto simp: find_None_iff candidate_def)
    then have "n \<in> set (below (Suc ?p) ?q)" by (auto simp: find_Some_iff)
    then have "current_priority (threads k n) \<le> ?p" using h by (auto simp: set_below)
    moreover have "find ?ok (xs @ ys) = Some n" if "find ?ok xs = Some n" for xs ys
      using that by (induction xs) (auto split: if_splits)
    ultimately show ?thesis using n split by (simp add: r)
  qed
qed

lemma next_thread_best:
  assumes s: "sched_ok k"
  shows "candidate core k t \<Longrightarrow> \<exists>n. next_thread core k = Some n \<and> current_priority (threads k n) \<le> current_priority (threads k t)"
    "next_thread core k = Some n \<Longrightarrow> candidate core k n \<or> runs_on core k n"
    "runs_on core k p \<Longrightarrow> \<exists>n. next_thread core k = Some n \<and>
       (n = p \<or> current_priority (threads k n) < current_priority (threads k p))"
proof -
  note f = find_below [OF s, where core = core]
  have p: "current_priority (threads k t) < 64" for t using s by (simp add: sched_ok_def prepared_def)
  note d = next_thread_def Let_def runs_on_def
  show "candidate core k n \<or> runs_on core k n" if "next_thread core k = Some n"
    using that f(1) by (auto simp: d split: option.splits if_splits)
  show "\<exists>n. next_thread core k = Some n \<and> (n = p \<or> current_priority (threads k n) < current_priority (threads k p))"
    if "runs_on core k p"
    using that f(1) [of "current_priority (threads k p)"] by (auto simp: d split: option.splits)
  show "\<exists>n. next_thread core k = Some n \<and> current_priority (threads k n) \<le> current_priority (threads k t)"
    if t: "candidate core k t"
  proof (cases "\<exists>r. runs_on core k r")
    case False
    then have "next_thread core k = find (\<lambda>t. can_schedule (threads k t)) (below 64 (ready_queue (managers k core)))"
      by (auto simp: d split: option.splits)
    then show ?thesis using f(2) [OF t p] by simp
  next
    case True
    then obtain r where r: "current_thread (managers k core) = Some r" "status (threads k r) = Running"
      by (auto simp: runs_on_def)
    show ?thesis
    proof (cases "current_priority (threads k t) < current_priority (threads k r)")
      case True
      with f(2) [OF t True] r show ?thesis by (auto simp: d)
    next
      case False
      with r f(1) [of "current_priority (threads k r)"] show ?thesis
        by (fastforce simp: d split: option.splits)
    qed
  qed
qed

section \<open>Properties\<close>

text \<open>C9: In every state that calls lead to, an admissible call returns: no assertion on its way fails, no loop
  runs forever, and the state it leaves is again one that calls lead to.\<close>

theorem kernel_calls_return:
  assumes "reachable k" "admissible c k"
  shows "\<exists>k'. exec c k = Some k' \<and> reachable k'"
  using exec_ok [OF reachable_ok [OF assms(1)] assms(2)] reachable.call [OF assms] by blast

text \<open>C10: No wakeup is lost: in every state that calls lead to, a thread in the list of an object waits for it, and
  the object is not available to it, or, where the thread waits for all of several objects, one of them is not.\<close>

theorem no_lost_wakeup:
  assumes "reachable k" "t \<in> set (waiting_threads (wobjs k ob))"
  shows "ob \<in> set (wait_objects (threads k t)) \<and>
    (if status (threads k t) = WaitSynchAll then \<exists>y \<in> set (wait_objects (threads k t)). ShouldWait k y t
     else status (threads k t) \<in> {WaitSynchAny, WaitHleEvent} \<and> ShouldWait k ob t)"
proof -
  have k: "lists_ok k" "waiters_ok k" "no_lost {} k" using reachable_ok [OF assms(1)] by (simp_all add: kernel_ok_def)
  then have o: "ob \<in> set (wait_objects (threads k t))" using assms(2) by (simp add: lists_ok_def)
  then have "wait_objects (threads k t) \<noteq> []" by auto
  then have "status (threads k t) \<in> {WaitSynchAny, WaitSynchAll, WaitHleEvent}"
    using k(2) by (simp add: waiters_ok_def waiter_ok_def)
  moreover have "\<not> runnable k ob t" using k(3) assms(2) by (auto simp: no_lost_def)
  ultimately show ?thesis using o by (auto simp: runnable_def ready_to_run_def list_all_iff)
qed

text \<open>C12: In every state that calls lead to, the ready queue of a core holds, at each level, exactly the ready
  threads of the core with that priority, each once; and a thread that runs is the current one of its core, so
  that no core runs two.\<close>

theorem ready_queues_exact:
  assumes "reachable k"
  shows "distinct (level (ready_queue (managers k c)) p) \<and>
    (t \<in> set (level (ready_queue (managers k c)) p) \<longleftrightarrow>
       status (threads k t) = Ready \<and> current_priority (threads k t) = p \<and> core_id (threads k t) = c) \<and>
    (status (threads k t) = Running \<longrightarrow> current_thread (managers k (core_id (threads k t))) = Some t)"
proof -
  have s: "sched_ok k" using reachable_ok [OF assms] by (simp add: kernel_ok_def core_ok_def)
  then show ?thesis using ready_levels [OF s] by (auto simp: levels_distinct_def sched_ok_def one_running_def)
qed

text \<open>C14: In every state that calls lead to, a mutex is locked exactly if a thread holds it, its count is not
  negative, and a thread that lives is its holder exactly if the mutex is among those that the thread holds.\<close>

theorem mutex_ownership:
  assumes "reachable k" "kind (wobjs k ob) = MutexObj m"
  shows "0 \<le> lock_count m \<and> (0 < lock_count m \<longleftrightarrow> holding_thread m \<noteq> None) \<and>
    (\<forall>t. status (threads k t) \<noteq> Dead \<longrightarrow> (holding_thread m = Some t \<longleftrightarrow> ob \<in> set (held_mutexes (threads k t))))"
proof -
  have h: "held_ok k" using reachable_ok [OF assms(1)] by (simp add: kernel_ok_def core_ok_def)
  show ?thesis using mutex_okI [OF h assms(2)] held_by [OF h _ _ assms(2)] by blast
qed

lemma best_held_Min:
  "best_held_priority k t = Min (insert (nominal_priority (threads k t)) (priority_of_mutex k ` set (held_mutexes (threads k t))))"
proof -
  have "fold (\<lambda>m best. if f m < best then f m else best) ms n = fold min (map f ms) n" for f :: "nat \<Rightarrow> nat" and ms n
    by (induction ms arbitrary: n) (auto simp: min_def)
  then have "fold (\<lambda>m best. if f m < best then f m else best) ms n = Min (insert n (f ` set ms))" for f :: "nat \<Rightarrow> nat" and ms n
    using Min.set_eq_fold [of n "map f ms"] by simp
  then show ?thesis by (simp add: best_held_priority_def)
qed

text \<open>C15: In every state that calls lead to, a thread that lives runs at the best of its own priority and those of
  the mutexes that it holds (a lower number is better).\<close>

theorem priority_of_holder:
  assumes "reachable k" "status (threads k t) \<noteq> Dead"
  shows "current_priority (threads k t) =
    Min (insert (nominal_priority (threads k t)) (priority_of_mutex k ` set (held_mutexes (threads k t))))"
  using reachable_ok [OF assms(1)] assms(2) by (simp add: kernel_ok_def core_ok_def boost_ok_def best_held_Min)

text \<open>C11: A turn of the scheduler runs the best: in every state that calls lead to, it returns, and afterwards the
  core runs a thread at least as good as every ready thread of the core that may be scheduled; the thread that
  was running gives way only to a strictly better one, and the core idles only where it had neither.\<close>

theorem Reschedule_runs_best:
  assumes "reachable k" "\<forall>n. next_thread core k = Some n \<longrightarrow> owner_process (threads k n) \<noteq> None"
  shows "\<exists>k'. Reschedule core k = Some k' \<and>
    (\<forall>t. candidate core k t \<longrightarrow>
       (\<exists>n. runs_on core k' n \<and> current_priority (threads k n) \<le> current_priority (threads k t))) \<and>
    (\<forall>p. runs_on core k p \<longrightarrow>
       (\<exists>n. runs_on core k' n \<and> (n = p \<or> current_priority (threads k n) < current_priority (threads k p)))) \<and>
    (\<forall>n. runs_on core k' n \<longrightarrow> candidate core k n \<or> runs_on core k n)"
proof -
  have k: "kernel_ok {} k" by (rule reachable_ok [OF assms(1)])
  then have s: "sched_ok k" by (simp add: kernel_ok_def core_ok_def)
  from Reschedule_spec [OF k, of core] assms(2) obtain k' where k': "Reschedule core k = Some k'"
    "current_thread (managers k' core) = next_thread core k" "\<forall>s. status (threads k' s) = switched core k s" by blast
  then have "runs_on core k' n \<longleftrightarrow> next_thread core k = Some n" for n by (auto simp: runs_on_def switched_def)
  with next_thread_best [OF s, where core = core] k'(1) show ?thesis by blast
qed


section \<open>A run\<close>

text \<open>Thread 1 is created and scheduled on core 0.\<close>

lemma example_thread:
  "\<exists>k. reachable k \<and> runs_on 0 k 1 \<and> owner_process (threads k 1) = Some 0 \<and> (\<forall>s. s \<noteq> 1 \<longrightarrow> status (threads k s) = Dormant) \<and>
     (\<forall>ob. wobjs k ob = new_wait_object ThreadObj)"
proof -
  let ?c = "MakeThread 4 1 7 True (Some 0x1FF82000) 0x100000 48 0 0 0x10000000 0"
  note e = empty_kernel_simps
  have u: "unused empty_kernel 1" by (simp add: unused_def fresh_def holds_def e new_wait_object_def)
  obtain k1 where k1: "exec ?c empty_kernel = Some k1" and t1: "status (threads k1 1) = Ready" "core_id (threads k1 1) = 0"
    "can_schedule (threads k1 1)" "owner_process (threads k1 1) = Some 0" and o1: "\<And>s. s \<noteq> 1 \<Longrightarrow> status (threads k1 s) = Dormant"
    and w1: "\<And>ob. wobjs k1 ob = new_wait_object ThreadObj" and c1: "\<And>c. current_thread (managers k1 c) = None"
    by (simp add: CreateThread_def ThreadPrioLowest_def Let_def dormant_thread_def e)
  have r1: "reachable k1" by (rule reachable.call [OF reachable.start _ k1]) (use u in simp)
  then have s1: "sched_ok k1" using reachable_ok by (simp add: kernel_ok_def core_ok_def)
  have "candidate 0 k1 1" using t1 by (simp add: candidate_def)
  with next_thread_best(1) [OF s1] obtain n where n: "next_thread 0 k1 = Some n" by blast
  have "n = 1" using next_thread_best(2) [OF s1 n] o1 [of n] by (auto simp: candidate_def runs_on_def c1)
  then have n1: "next_thread 0 k1 = Some 1" using n by simp
  from Reschedule_spec [OF reachable_ok [OF r1], of 0] n1 t1(4) obtain k2 where k2: "Reschedule 0 k1 = Some k2"
    "wobjs k2 = wobjs k1" "\<forall>t. owner_process (threads k2 t) = owner_process (threads k1 t)"
    "current_thread (managers k2 0) = Some 1" "\<forall>s. status (threads k2 s) = switched 0 k1 s" by auto
  have "reachable k2" by (rule reachable.call [OF r1, of "Turn 0"]) (use k2(1) n1 t1(4) in simp_all)
  then show ?thesis using k2 t1(4) o1 w1 n1 by (intro exI [of _ k2]) (auto simp: runs_on_def switched_def c1)
qed

text \<open>It creates an event and waits for it; or it creates a mutex that it holds.\<close>

lemma example_waiting:
  "\<exists>k. reachable k \<and> waiting_threads (wobjs k 2) = [1] \<and> kind (wobjs k 2) = EventObj \<lparr>event_reset = OneShot, event_signaled = False\<rparr> \<and>
     status (threads k 1) = WaitSynchAny \<and> wait_objects (threads k 1) = [2]"
proof -
  obtain k where k: "reachable k" "runs_on 0 k 1" "\<forall>s. s \<noteq> 1 \<longrightarrow> status (threads k s) = Dormant"
    "\<forall>ob. wobjs k ob = new_wait_object ThreadObj" using example_thread by blast
  let ?k1 = "CreateEvent 2 OneShot k"
  have "reachable ?k1"
    by (rule reachable.call [OF k(1), of "MakeEvent 2 OneShot"])
      (use k in \<open>simp_all add: unused_def fresh_def holds_def new_wait_object_def\<close>)
  moreover have r1: "runs_on 0 ?k1 1" using k(2) by (simp add: runs_on_def CreateEvent_def)
  ultimately have call: "exec (SvcWait1 0 (\<lambda>_. Some 2) 0 (- 1)) ?k1 = Some k2 \<Longrightarrow> reachable k2" for k2
    by (rule_tac reachable.call [of ?k1 "SvcWait1 0 (\<lambda>_. Some 2) 0 (- 1)"]) auto
  have "\<exists>k2. exec (SvcWait1 0 (\<lambda>_. Some 2) 0 (- 1)) ?k1 = Some k2 \<and> waiting_threads (wobjs k2 2) = [1] \<and>
      kind (wobjs k2 2) = EventObj \<lparr>event_reset = OneShot, event_signaled = False\<rparr> \<and>
      status (threads k2 1) = WaitSynchAny \<and> wait_objects (threads k2 1) = [2]"
    using r1 by (simp add: WaitSynchronization1_def runs_on_def CreateEvent_def ShouldWait_def new_wait_object_def
        AddWaitingThread_def is_mutex_def add_waiting_def WakeAfterDelay_def Let_def)
  with call show ?thesis by blast
qed

lemma example_mutex:
  "\<exists>k m. reachable k \<and> kind (wobjs k 3) = MutexObj m \<and> holding_thread m = Some 1 \<and> status (threads k 1) = Running \<and>
     lock_count m = 1"
proof -
  obtain k where k: "reachable k" "runs_on 0 k 1" "\<forall>s. s \<noteq> 1 \<longrightarrow> status (threads k s) = Dormant"
    "\<forall>ob. wobjs k ob = new_wait_object ThreadObj" using example_thread by blast
  have a: "admissible (MakeMutex 3 (Some 1)) k"
    using k by (simp add: unused_def fresh_def holds_def new_wait_object_def runs_on_def)
  have "\<exists>k2 m. exec (MakeMutex 3 (Some 1)) k = Some k2 \<and> kind (wobjs k2 3) = MutexObj m \<and> holding_thread m = Some 1 \<and>
      status (threads k2 1) = Running \<and> lock_count m = 1"
    using k(2) by (simp add: CreateMutex_def Acquire_def ShouldWait_def new_wait_object_def Mutex_Acquire_def
        Thread_UpdatePriority_def runs_on_def Let_def)
  with reachable.call [OF k(1) a] show ?thesis by blast
qed

theorem kernel_calls_return_witness: "\<exists>k k'. reachable k \<and> runs_on 0 k 1 \<and> exec (SvcSleep 0 5) k = Some k' \<and> reachable k'"
proof -
  obtain k where k: "reachable k" "runs_on 0 k 1" using example_thread by blast
  have "admissible (SvcSleep 0 5) k" using k(2) by auto
  from kernel_calls_return [OF k(1) this] k show ?thesis by blast
qed

theorem no_lost_wakeup_witness: "\<exists>k. reachable k \<and> 1 \<in> set (waiting_threads (wobjs k 2)) \<and> ShouldWait k 2 1"
proof -
  obtain k where k: "reachable k" "waiting_threads (wobjs k 2) = [1]" "status (threads k 1) = WaitSynchAny"
    using example_waiting by blast
  then have "1 \<in> set (waiting_threads (wobjs k 2))" by simp
  from no_lost_wakeup [OF k(1) this] k show ?thesis by (intro exI [of _ k]) simp
qed

theorem ready_queues_exact_witness:
  "\<exists>k. reachable k \<and> status (threads k 1) = Running \<and> current_thread (managers k (core_id (threads k 1))) = Some 1"
proof -
  obtain k where k: "reachable k" "runs_on 0 k 1" using example_thread by blast
  with ready_queues_exact [OF k(1), of 0 48 1] show ?thesis by (auto simp: runs_on_def)
qed

theorem mutex_ownership_witness:
  "\<exists>k m. reachable k \<and> kind (wobjs k 3) = MutexObj m \<and> holding_thread m = Some 1 \<and> 3 \<in> set (held_mutexes (threads k 1))"
proof -
  obtain k m where k: "reachable k" "kind (wobjs k 3) = MutexObj m" "holding_thread m = Some 1" "status (threads k 1) = Running"
    using example_mutex by blast
  have "status (threads k 1) \<noteq> Dead" using k(4) by simp
  with mutex_ownership [OF k(1,2)] k(3) have "3 \<in> set (held_mutexes (threads k 1))" by blast
  with k show ?thesis by blast
qed

theorem priority_of_holder_witness:
  "\<exists>k m. reachable k \<and> kind (wobjs k 3) = MutexObj m \<and> holding_thread m = Some 1 \<and>
     current_priority (threads k 1) =
       Min (insert (nominal_priority (threads k 1)) (priority_of_mutex k ` set (held_mutexes (threads k 1))))"
proof -
  obtain k m where k: "reachable k" "kind (wobjs k 3) = MutexObj m" "holding_thread m = Some 1" "status (threads k 1) = Running"
    using example_mutex by blast
  then have "status (threads k 1) \<noteq> Dead" by simp
  from priority_of_holder [OF k(1) this] k show ?thesis by (intro exI [of _ k] exI [of _ m]) simp
qed

theorem Reschedule_runs_best_witness:
  "\<exists>k k'. reachable k \<and> runs_on 0 k 1 \<and> Reschedule 0 k = Some k' \<and> (\<exists>n. runs_on 0 k' n)"
proof -
  obtain k where k: "reachable k" "runs_on 0 k 1" "owner_process (threads k 1) = Some 0" "\<forall>s. s \<noteq> 1 \<longrightarrow> status (threads k s) = Dormant"
    using example_thread by blast
  have "sched_ok k" using reachable_ok [OF k(1)] by (simp add: kernel_ok_def core_ok_def)
  then have "n = 1" if "next_thread 0 k = Some n" for n
    using next_thread_best(2) [OF _ that] k(4) by (force simp: candidate_def runs_on_def)
  then have "\<forall>n. next_thread 0 k = Some n \<longrightarrow> owner_process (threads k n) \<noteq> None" using k(3) by auto
  from Reschedule_runs_best [OF k(1) this] k show ?thesis by blast
qed


section \<open>What the code does not prevent\<close>

text \<open>A mutex that nobody waits for takes over the current priority of the thread that acquires it, also one
  that the thread only inherited from another mutex: it then runs at the inherited priority as long as it holds
  the new mutex, even after it released the one that it inherited from.\<close>

theorem boost_outlives_cause:
  assumes "reachable k" "kind (wobjs k ob) = MutexObj m" "holding_thread m = None" "status (threads k t) = Running"
  shows "\<exists>k'. Acquire ob t k = Some k' \<and> priority_of_mutex k' ob = current_priority (threads k t) \<and>
    (\<forall>l. priority_of_mutex l ob = priority_of_mutex k' ob \<longrightarrow> ob \<in> set (held_mutexes (threads l t)) \<longrightarrow>
       best_held_priority l t \<le> current_priority (threads k t))"
proof -
  have k: "kernel_ok {} k" by (rule reachable_ok [OF assms(1)])
  then have h: "held_ok k" by (simp add: kernel_ok_def core_ok_def)
  have n: "lock_count m = 0" using mutex_okI [OF h assms(2)] assms(3) by simp
  then have "\<not> ShouldWait k ob t" by (simp add: ShouldWait_def assms(2))
  from Acquire_running [OF k this assms(4)] obtain k' where k': "Acquire ob t k = Some k'" by blast
  then have p: "priority_of_mutex k' ob = current_priority (threads k t)"
    using assms(2) n by (auto simp: Acquire_def Mutex_Acquire_def ShouldWait_def priority_of_mutex_def
        Thread_UpdatePriority_def Let_def)
  have "best_held_priority l t \<le> priority_of_mutex l ob" if "ob \<in> set (held_mutexes (threads l t))" for l
    using that by (simp add: best_held_Min)
  with k' p show ?thesis by metis
qed

text \<open>Waiting for all of several objects where one signaled one-shot object is named twice fails the assertion
  of \<open>Event::Acquire\<close>: all are available, but the first acquisition resets the event.\<close>

theorem wait_all_twice_fails:
  assumes "current_thread (managers k core) = Some t" "kind (wobjs k ob) = EventObj e" "event_reset e = OneShot"
    "event_signaled e"
  shows "WaitSynchronizationN core (\<lambda>_. Some ob) True 2 handles True ns k = None"
proof -
  have "[0..<nat 2] = [0, 1]" by (simp add: numeral_2_eq_2 upt_rec)
  with assms show ?thesis
    by (simp add: WaitSynchronizationN_def Acquire_def ShouldWait_def)
qed

text \<open>The counts of a semaphore are not checked: one with a negative count can be created whose release
  overflows the arithmetic of \<open>s32\<close>, and releasing a negative number takes slots away instead of refusing.\<close>

theorem semaphore_counts_unchecked:
  "(\<exists>k'. CreateSemaphore ob (- 1) (2 ^ 31 - 1) k = (Inr (), k') \<and>
     kind (wobjs k' ob) = SemaphoreObj \<lparr>max_count = 2 ^ 31 - 1, available_count = - 1\<rparr> \<and>
     Semaphore_Release ob \<lparr>max_count = 2 ^ 31 - 1, available_count = - 1\<rparr> 1 k' = None) \<and>
   (\<exists>k' l. CreateSemaphore ob 3 5 k = (Inr (), k') \<and>
     Semaphore_Release ob \<lparr>max_count = 5, available_count = 3\<rparr> (- 2) k' = Some (Inr 3, l) \<and>
     kind (wobjs l ob) = SemaphoreObj \<lparr>max_count = 5, available_count = 1\<rparr>)"
  by (simp add: CreateSemaphore_def new_wait_object_def Semaphore_Release_def s32_def WakeupAllWaitingThreads_def
      base_WakeupAllWaitingThreads_def wakeup_loop.simps GetHighestPriorityReadyThread_def end_pulse_def)

theorem boost_outlives_cause_witness:
  "\<exists>k k'. reachable k \<and> status (threads k 1) = Running \<and> Acquire 3 1 k = Some k' \<and>
     priority_of_mutex k' 3 = current_priority (threads k 1)"
proof -
  obtain k where k: "reachable k" "runs_on 0 k 1" "\<forall>s. s \<noteq> 1 \<longrightarrow> status (threads k s) = Dormant"
    "\<forall>ob. wobjs k ob = new_wait_object ThreadObj" using example_thread by blast
  have a: "admissible (MakeMutex 3 None) k" using k by (simp add: unused_def fresh_def holds_def new_wait_object_def)
  obtain k2 where e: "exec (MakeMutex 3 None) k = Some k2" and m: "kind (wobjs k2 3) =
      MutexObj \<lparr>lock_count = 0, mutex_priority = 0, holding_thread = None\<rparr>" "status (threads k2 1) = Running"
    using k(2) by (simp add: CreateMutex_def new_wait_object_def runs_on_def Let_def)
  have r: "reachable k2" by (rule reachable.call [OF k(1) a e])
  have "holding_thread \<lparr>lock_count = 0, mutex_priority = 0, holding_thread = None\<rparr> = None" by simp
  from boost_outlives_cause [OF r m(1) this m(2)] r m(2) show ?thesis by blast
qed

theorem wait_all_twice_fails_witness:
  "\<exists>k :: kernel. current_thread (managers k 0) = Some 1 \<and>
     kind (wobjs k 2) = EventObj \<lparr>event_reset = OneShot, event_signaled = True\<rparr> \<and>
     WaitSynchronizationN 0 (\<lambda>_. Some 2) True 2 (\<lambda>_. 0) True 0 k = None"
proof -
  obtain k where k: "reachable k" "runs_on 0 k 1" using example_thread by blast
  let ?k = "upd_kind 2 (EventObj \<lparr>event_reset = OneShot, event_signaled = True\<rparr>) k"
  have c: "current_thread (managers ?k 0) = Some 1" using k(2) by (simp add: runs_on_def)
  have e: "kind (wobjs ?k 2) = EventObj \<lparr>event_reset = OneShot, event_signaled = True\<rparr>" by simp
  from wait_all_twice_fails [OF c e, of "\<lambda>_. 0" 0] c e show ?thesis by (intro exI [of _ ?k]) simp
qed

end
