(* ===== verification/AddressArbiter.thy ===== *)
theory AddressArbiter
  imports KernelSystem MemorySystem
begin

text \<open>
  Address arbiters, \<open>core/hle/kernel/address_arbiter.cpp\<close>: a thread waits at an address while the word there
  is less than a value, and a signal at the address wakes the best of those that wait. An arbiter is the list of
  its waiting threads, the field \<open>arbiters\<close> of the kernel.
\<close>

section \<open>Data\<close>

datatype ArbitrationType =
  Signal | WaitIfLessThan | DecrementAndWaitIfLessThan | WaitIfLessThanWithTimeout | DecrementAndWaitIfLessThanWithTimeout

text \<open>The number that the system call casts; \<open>None\<close> is one that names no type.\<close>

definition arbitration_type :: "u32 \<Rightarrow> ArbitrationType option" where
  "arbitration_type n =
     (let types = [Signal, WaitIfLessThan, DecrementAndWaitIfLessThan, WaitIfLessThanWithTimeout,
                   DecrementAndWaitIfLessThanWithTimeout]
      in if unat n < length types then Some (types ! unat n) else None)"

definition with_timeout :: "ArbitrationType \<Rightarrow> bool" where
  "with_timeout type \<longleftrightarrow> type \<in> {WaitIfLessThanWithTimeout, DecrementAndWaitIfLessThanWithTimeout}"

definition decrements :: "ArbitrationType \<Rightarrow> bool" where
  "decrements type \<longleftrightarrow> type \<in> {DecrementAndWaitIfLessThan, DecrementAndWaitIfLessThanWithTimeout}"

section \<open>Operations\<close>

definition WaitThread :: "nat \<Rightarrow> nat \<Rightarrow> nat \<Rightarrow> kernel \<Rightarrow> kernel" where
  "WaitThread a t address k =
     (let k1 = upd_thread t (\<lambda>th. th\<lparr>wait_address := address, status := WaitArb\<rparr>) k
      in k1\<lparr>arbiters := (arbiters k1)(a := arbiters k1 a @ [t])\<rparr>)"

text \<open>\<open>stable_partition\<close> with the assertion that the predicate makes: the threads of other addresses, then
  those of the address.\<close>

definition matches :: "nat \<Rightarrow> kernel \<Rightarrow> nat list \<Rightarrow> nat list" where
  "matches address k = filter (\<lambda>t. wait_address (threads k t) = address)"

definition others :: "nat \<Rightarrow> kernel \<Rightarrow> nat list \<Rightarrow> nat list" where
  "others address k = filter (\<lambda>t. wait_address (threads k t) \<noteq> address)"

definition waiting_here :: "nat \<Rightarrow> nat \<Rightarrow> kernel \<Rightarrow> (nat list \<times> nat list) run" where
  "waiting_here a address k =
     do {
       assert_that (list_all (\<lambda>t. status (threads k t) = WaitArb) (arbiters k a));
       Some (others address k (arbiters k a), matches address k (arbiters k a))
     }"

definition ResumeAllThreads :: "nat \<Rightarrow> nat \<Rightarrow> kernel \<Rightarrow> kernel run" where
  "ResumeAllThreads a address k =
     do {
       (os, ms) \<leftarrow> waiting_here a address k;
       k' \<leftarrow> steps ResumeFromWait ms k;
       Some (k'\<lparr>arbiters := (arbiters k')(a := os)\<rparr>)
     }"

fun min_element :: "('a \<Rightarrow> nat) \<Rightarrow> 'a list \<Rightarrow> 'a option" where
  "min_element f [] = None"
| "min_element f (x # xs) = Some (fold (\<lambda>y best. if f y < f best then y else best) xs x)"

definition ResumeHighestPriorityThread :: "nat \<Rightarrow> nat \<Rightarrow> kernel \<Rightarrow> (nat option \<times> kernel) run" where
  "ResumeHighestPriorityThread a address k =
     do {
       (os, ms) \<leftarrow> waiting_here a address k;
       let k = k\<lparr>arbiters := (arbiters k)(a := os @ ms)\<rparr>;
       case min_element (\<lambda>t. current_priority (threads k t)) ms of
         None \<Rightarrow> Some (None, k)
       | Some t \<Rightarrow>
           do {
             k' \<leftarrow> ResumeFromWait t k;
             Some (Some t, k'\<lparr>arbiters := (arbiters k')(a := os @ remove1 t ms)\<rparr>)
           }
     }"

primrec ResumeFirst :: "nat \<Rightarrow> nat \<Rightarrow> nat \<Rightarrow> kernel \<Rightarrow> kernel run" where
  "ResumeFirst a address 0 k = Some k"
| "ResumeFirst a address (Suc n) k =
     do { (_, k') \<leftarrow> ResumeHighestPriorityThread a address k; ResumeFirst a address n k' }"

text \<open>A word read as a signed integer, and the word of a decremented one.\<close>

definition as_s32 :: "nat \<Rightarrow> int" where
  "as_s32 n = sint (word_of_nat n :: u32)"

definition decremented :: "int \<Rightarrow> nat" where
  "decremented v = unat (word_of_int (v - 1) :: u32)"

definition wait_with ::
  "nat \<Rightarrow> nat \<Rightarrow> nat \<Rightarrow> u64 option \<Rightarrow> kernel \<Rightarrow> kernel run" where
  "wait_with a t address timeout k =
     (case timeout of
        None \<Rightarrow> Some (WaitThread a t address k)
      | Some nanoseconds \<Rightarrow>
          do {
            k' \<leftarrow> WakeAfterDelay t nanoseconds (upd_thread t (\<lambda>th. th\<lparr>wakeup_cb := Some (ArbiterCallback a)\<rparr>) k);
            Some (WaitThread a t address k')
          })"

definition ArbitrateAddress ::
  "'d memory_env \<Rightarrow> nat \<Rightarrow> nat \<Rightarrow> ArbitrationType option \<Rightarrow> nat \<Rightarrow> int \<Rightarrow> u64 \<Rightarrow> kernel \<times> 'd memory_system \<Rightarrow>
   (u32 \<times> kernel \<times> 'd memory_system) run" where
  "ArbitrateAddress env a t type address value nanoseconds = (\<lambda>(k, ms).
     case type of
       None \<Rightarrow> Some (ERR_INVALID_ENUM_VALUE_FND, k, ms)
     | Some Signal \<Rightarrow>
         do {
           k' \<leftarrow> (if value < 0 then ResumeAllThreads a address k else ResumeFirst a address (nat value) k);
           Some (RESULT_SUCCESS, k', ms)
         }
     | Some type \<Rightarrow>
         do {
           (word, ms) \<leftarrow> Read32 env address ms;
           (k', ms') \<leftarrow>
             (if as_s32 word < value
              then do {
                ms' \<leftarrow> (if decrements type then Write32 env address (decremented (as_s32 word)) ms else Some ms);
                k' \<leftarrow> wait_with a t address (if with_timeout type then Some nanoseconds else None) k;
                Some (k', ms')
              }
              else Some (k, ms));
           Some (if with_timeout type then RESULT_TIMEOUT else RESULT_SUCCESS, k', ms')
         })"

text \<open>The system call: the arbiter is what the handle names, the thread the one that runs on the core.\<close>

definition SVC_ArbitrateAddress ::
  "'d memory_env \<Rightarrow> (u32 \<Rightarrow> nat option) \<Rightarrow> nat \<Rightarrow> u32 \<Rightarrow> nat \<Rightarrow> u32 \<Rightarrow> u32 \<Rightarrow> u64 \<Rightarrow> kernel \<times> 'd memory_system \<Rightarrow>
   (u32 \<times> kernel \<times> 'd memory_system) run" where
  "SVC_ArbitrateAddress env lookup core h address type value nanoseconds s =
     (case lookup h of
        None \<Rightarrow> Some (ERR_INVALID_HANDLE, s)
      | Some a \<Rightarrow>
          do {
            t \<leftarrow> current_thread (managers (fst s) core);
            (res, k', ms') \<leftarrow> ArbitrateAddress env a t (arbitration_type type) address (sint value) nanoseconds s;
            Some (res, PrepareReschedule k', ms')
          })"

section \<open>The best first\<close>

lemma fold_min_element:
  fixes f :: "'a \<Rightarrow> nat"
  defines "step \<equiv> \<lambda>y best. if f y < f best then y else best"
  shows "\<exists>ps qs. x # xs = ps @ fold step xs x # qs \<and> (\<forall>p \<in> set ps. f (fold step xs x) < f p) \<and>
    (\<forall>q \<in> set qs. f (fold step xs x) \<le> f q)"
proof (induction xs arbitrary: x rule: rev_induct)
  case Nil
  show ?case by (rule exI [of _ "[]"]) simp
next
  case (snoc y xs)
  from snoc.IH [of x] obtain m ps qs where m: "fold step xs x = m" and i: "x # xs = ps @ m # qs"
    "\<forall>p \<in> set ps. f m < f p" "\<forall>q \<in> set qs. f m \<le> f q" by blast
  have e: "fold step (xs @ [y]) x = (if f y < f m then y else m)" by (simp add: m) (simp add: step_def)
  show ?case
  proof (cases "f y < f m")
    case True
    then have "\<forall>p \<in> set (x # xs). f y < f p" unfolding i(1) using i(2,3) by auto
    then show ?thesis using True by - (rule exI [of _ "x # xs"], rule exI [of _ "[]"], simp add: e del: fold_append)
  next
    case False
    have "x # xs @ [y] = ps @ m # qs @ [y]" using i(1) by (metis append.assoc append_Cons)
    then show ?thesis using i(2,3) False by - (rule exI [of _ ps], rule exI [of _ "qs @ [y]"], simp add: e del: fold_append)
  qed
qed

text \<open>The first least element heads the list sorted by the key; sorting keeps the order of equal keys.\<close>

lemma min_element_sort:
  assumes "xs \<noteq> []"
  shows "\<exists>m. min_element f xs = Some m \<and> m \<in> set xs \<and> sort_key f xs = m # sort_key f (remove1 m xs)"
proof -
  obtain x ys where xs: "xs = x # ys" using assms by (cases xs) auto
  obtain m ps qs where m: "min_element f xs = Some m" "xs = ps @ m # qs" "\<forall>p \<in> set ps. f m < f p" "\<forall>q \<in> set qs. f m \<le> f q"
    using fold_min_element [of x ys f] by (auto simp: xs)
  have n: "m \<notin> set ps" using m(3) by auto
  then have r: "remove1 m xs = ps @ qs" by (simp add: m(2) remove1_append)
  have "sort_key f xs = m # sort_key f (ps @ qs)"
  proof (rule properties_for_sort_key)
    show "mset (m # sort_key f (ps @ qs)) = mset xs" by (simp add: m(2))
    have "filter (\<lambda>z. f k = f z) ps = []" if "f k = f m" for k using m(3) that by (auto simp: filter_empty_conv)
    then show "filter (\<lambda>z. f k = f z) (m # sort_key f (ps @ qs)) = filter (\<lambda>z. f k = f z) xs" for k
      using sort_key_stable [of f "f k" "ps @ qs"] by (auto simp: m(2) eq_commute [of "f k"])
    show "sorted (map f (m # sort_key f (ps @ qs)))" using m(3,4) by (auto intro: less_imp_le)
  qed
  then show ?thesis using m(1,2) by (auto simp: r [unfolded m(2)])
qed

section \<open>The invariant\<close>

text \<open>The lists of the arbiters hold exactly the threads that wait for one, each in one list and once; a thread
  that has a timeout is to leave the list that it is in.\<close>

definition arb_ok :: "kernel \<Rightarrow> bool" where
  "arb_ok k \<longleftrightarrow>
     (\<forall>a. distinct (arbiters k a)) \<and>
     (\<forall>a t. t \<in> set (arbiters k a) \<longrightarrow>
        status (threads k t) = WaitArb \<and> wakeup_cb (threads k t) \<in> {None, Some (ArbiterCallback a)}) \<and>
     (\<forall>a b t. t \<in> set (arbiters k a) \<longrightarrow> t \<in> set (arbiters k b) \<longrightarrow> a = b) \<and>
     (\<forall>t. status (threads k t) = WaitArb \<longrightarrow> (\<exists>a. t \<in> set (arbiters k a)))"

lemma arb_okD:
  assumes "arb_ok k"
  shows "distinct (arbiters k a)" "t \<in> set (arbiters k a) \<Longrightarrow> status (threads k t) = WaitArb"
    "t \<in> set (arbiters k a) \<Longrightarrow> wakeup_cb (threads k t) = None \<or> wakeup_cb (threads k t) = Some (ArbiterCallback a)"
    "t \<in> set (arbiters k a) \<Longrightarrow> t \<in> set (arbiters k b) \<Longrightarrow> a = b"
    "status (threads k t) = WaitArb \<Longrightarrow> \<exists>a. t \<in> set (arbiters k a)"
  using assms by (auto simp: arb_ok_def)

lemma arb_ok_same:
  assumes ok: "arb_ok k" and s: "arb_same k k'"
  shows "arb_ok k'"
proof -
  have a: "arbiters k' = arbiters k" using s by (simp add: arb_same_def)
  have t: "status (threads k' t) = status (threads k t) \<and> wakeup_cb (threads k' t) = wakeup_cb (threads k t)"
    if "status (threads k' t) = WaitArb \<or> status (threads k t) = WaitArb" for t
    using s that unfolding arb_same_def by blast
  have m: "status (threads k' t) = WaitArb \<and> wakeup_cb (threads k' t) \<in> {None, Some (ArbiterCallback b)}"
    if "t \<in> set (arbiters k b)" for t b
    using arb_okD(2,3) [OF ok that] t [of t] by simp
  have "\<exists>b. t \<in> set (arbiters k b)" if "status (threads k' t) = WaitArb" for t
    using arb_okD(5) [OF ok, of t] t [of t] that by simp
  then show ?thesis using m ok unfolding arb_ok_def a by blast
qed

text \<open>Threads that an arbiter loses are resumed.\<close>

lemma arb_ok_resumed:
  assumes ok: "arb_ok k" and W: "W \<subseteq> set (arbiters k a)"
    and th: "\<And>t. threads k' t = (if t \<in> W then (threads k t)\<lparr>wakeup_cb := None, status := Ready\<rparr> else threads k t)"
    and ar: "arbiters k' = (arbiters k)(a := ts)" "distinct ts" "set ts = set (arbiters k a) - W"
  shows "arb_ok k'"
proof -
  note d = arb_okD [OF ok]
  have W': "t \<notin> W" if "t \<in> set (arbiters k b)" "b \<noteq> a" for t b using that W d(4) [of t a b] by blast
  show ?thesis
    unfolding arb_ok_def
  proof (intro conjI allI impI)
    show "distinct (arbiters k' b)" for b using d(1) [of b] ar(2) by (simp add: ar(1))
    show "status (threads k' t) = WaitArb" if "t \<in> set (arbiters k' b)" for t b
      using that d(2) [of t b] W' [of t b] ar(3) by (auto simp: ar(1) th split: if_splits)
    show "wakeup_cb (threads k' t) \<in> {None, Some (ArbiterCallback b)}" if "t \<in> set (arbiters k' b)" for t b
      using that d(3) [of t b] W' [of t b] ar(3) by (auto simp: ar(1) th split: if_splits)
    show "b = c" if "t \<in> set (arbiters k' b)" "t \<in> set (arbiters k' c)" for t b c
      using that d(4) [of t b c] ar(3) by (auto simp: ar(1) split: if_splits)
    show "\<exists>b. t \<in> set (arbiters k' b)" if "status (threads k' t) = WaitArb" for t
    proof -
      have t: "t \<notin> W" "status (threads k t) = WaitArb" using that by (auto simp: th split: if_splits)
      then obtain b where "t \<in> set (arbiters k b)" using d(5) by blast
      then have "t \<in> set (arbiters k' b)" using t(1) ar(3) by (cases "b = a") (auto simp: ar(1))
      then show ?thesis ..
    qed
  qed
qed

section \<open>Waiting and resuming\<close>

lemma waiting_idle:
  assumes k: "kernel_ok X k" and w: "status (threads k t) = WaitArb"
  shows "wait_objects (threads k t) = []"
proof -
  have "waiter_ok (threads k t)" using k by (simp add: kernel_ok_def waiters_ok_def)
  then show ?thesis using w by (auto simp: waiter_ok_def)
qed

lemma resume_many:
  assumes "kernel_ok X k" "distinct ts" "\<forall>t \<in> set ts. status (threads k t) = WaitArb"
  shows "\<exists>k'. steps ResumeFromWait ts k = Some k' \<and> kernel_ok X k' \<and> arbiters k' = arbiters k \<and>
    (\<forall>t. threads k' t = (if t \<in> set ts then (threads k t)\<lparr>wakeup_cb := None, status := Ready\<rparr> else threads k t)) \<and>
    wobjs k' = wobjs k \<and> (\<forall>c. current_thread (managers k' c) = current_thread (managers k c))"
  using assms
proof (induction ts arbitrary: k)
  case (Cons t ts)
  have w: "status (threads k t) = WaitArb" using Cons.prems(3) by simp
  from resume_idle [OF Cons.prems(1) waiting_idle [OF Cons.prems(1) w]] w obtain k1 where k1: "ResumeFromWait t k = Some k1"
    "kernel_ok X k1" "arbiters k1 = arbiters k"
    "threads k1 = (threads k)(t := (threads k t)\<lparr>wakeup_cb := None, status := Ready\<rparr>)" "wobjs k1 = wobjs k"
    "\<forall>c. current_thread (managers k1 c) = current_thread (managers k c)" by auto
  have "\<forall>s \<in> set ts. status (threads k1 s) = WaitArb" using Cons.prems(2,3) by (auto simp: k1(4))
  with Cons.IH [OF k1(2)] Cons.prems(2) obtain k2 where k2: "steps ResumeFromWait ts k1 = Some k2" "kernel_ok X k2"
    "arbiters k2 = arbiters k1"
    "\<forall>s. threads k2 s = (if s \<in> set ts then (threads k1 s)\<lparr>wakeup_cb := None, status := Ready\<rparr> else threads k1 s)"
    "wobjs k2 = wobjs k1" "\<forall>c. current_thread (managers k2 c) = current_thread (managers k1 c)" by auto
  then show ?case using k1 Cons.prems(2) by (intro exI [of _ k2]) auto
qed simp

text \<open>What a signal comes to: the threads \<open>W\<close> of an arbiter are resumed and \<open>ts\<close> are left in its list.\<close>

definition resumed :: "nat \<Rightarrow> nat set \<Rightarrow> nat list \<Rightarrow> kernel \<Rightarrow> kernel \<Rightarrow> bool" where
  "resumed a W ts k k' \<longleftrightarrow>
     (\<forall>t. threads k' t = (if t \<in> W then (threads k t)\<lparr>wakeup_cb := None, status := Ready\<rparr> else threads k t)) \<and>
     arbiters k' = (arbiters k)(a := ts) \<and> wobjs k' = wobjs k \<and>
     (\<forall>c. current_thread (managers k' c) = current_thread (managers k c))"

lemma waiting_here_ok:
  "arb_ok k \<Longrightarrow> waiting_here a address k = Some (others address k (arbiters k a), matches address k (arbiters k a))"
  using arb_okD(2) by (auto simp: waiting_here_def list_all_iff)

lemma split_waiting:
  "set (matches address k ts) \<union> set (others address k ts) = set ts" "set (matches address k ts) \<inter> set (others address k ts) = {}"
  "distinct ts \<Longrightarrow> distinct (matches address k ts)" "distinct ts \<Longrightarrow> distinct (others address k ts)"
  by (auto simp: matches_def others_def)

lemma ResumeAllThreads_spec:
  assumes k: "kernel_ok {} k" and ok: "arb_ok k"
  shows "\<exists>k'. ResumeAllThreads a address k = Some k' \<and> kernel_ok {} k' \<and> arb_ok k' \<and>
    resumed a (set (matches address k (arbiters k a))) (others address k (arbiters k a)) k k'"
proof -
  let ?ms = "matches address k (arbiters k a)" and ?os = "others address k (arbiters k a)"
  note sp = split_waiting [where address = address and k = k and ts = "arbiters k a"]
  have m: "distinct ?ms" "\<forall>t \<in> set ?ms. status (threads k t) = WaitArb"
    using sp(1,3) arb_okD(1,2) [OF ok, where a = a] by auto
  from resume_many [OF k m] obtain k1 where k1: "steps ResumeFromWait ?ms k = Some k1" "kernel_ok {} k1"
    "arbiters k1 = arbiters k"
    "\<forall>t. threads k1 t = (if t \<in> set ?ms then (threads k t)\<lparr>wakeup_cb := None, status := Ready\<rparr> else threads k t)"
    "wobjs k1 = wobjs k" "\<forall>c. current_thread (managers k1 c) = current_thread (managers k c)" by blast
  let ?k2 = "k1\<lparr>arbiters := (arbiters k1)(a := ?os)\<rparr>"
  have "kernel_ok {} ?k2" by (rule kernel_ok_frame [OF k1(2)]) simp_all
  moreover have r: "resumed a (set ?ms) ?os k ?k2" using k1(3-6) by (simp add: resumed_def)
  moreover have "arb_ok ?k2"
    by (rule arb_ok_resumed [OF ok, of "set ?ms" a _ ?os])
      (use sp arb_okD(1) [OF ok, of a] k1(3,4) in auto)
  ultimately show ?thesis using k1(1) waiting_here_ok [OF ok] by (simp add: ResumeAllThreads_def)
qed

lemma resumed_trans:
  "resumed a W ts k k' \<Longrightarrow> resumed a W' ts' k' k'' \<Longrightarrow> resumed a (W \<union> W') ts' k k''"
  by (auto simp: resumed_def)

lemma resumed_lists:
  assumes r: "resumed a W ts k k'"
  shows "matches address k' xs = matches address k xs" "others address k' xs = others address k xs"
    "sort_key (\<lambda>t. current_priority (threads k' t)) xs = sort_key (\<lambda>t. current_priority (threads k t)) xs"
proof -
  have th: "wait_address (threads k' t) = wait_address (threads k t) \<and> current_priority (threads k' t) = current_priority (threads k t)" for t
    using r by (simp add: resumed_def)
  show "matches address k' xs = matches address k xs" "others address k' xs = others address k xs"
    "sort_key (\<lambda>t. current_priority (threads k' t)) xs = sort_key (\<lambda>t. current_priority (threads k t)) xs"
    by (simp_all add: matches_def others_def th)
qed

text \<open>The threads that wait at an address, the best first and among equals the one that waits longest.\<close>

definition by_priority :: "nat \<Rightarrow> nat \<Rightarrow> kernel \<Rightarrow> nat list" where
  "by_priority a address k = sort_key (\<lambda>t. current_priority (threads k t)) (matches address k (arbiters k a))"

lemma ResumeHighest_spec:
  fixes a address :: nat
  assumes k: "kernel_ok {} k" and ok: "arb_ok k"
  defines "ms \<equiv> matches address k (arbiters k a)" and "os \<equiv> others address k (arbiters k a)"
  shows "case by_priority a address k of
      [] \<Rightarrow> ms = [] \<and> ResumeHighestPriorityThread a address k = Some (None, k)
    | t # _ \<Rightarrow> \<exists>k'. ResumeHighestPriorityThread a address k = Some (Some t, k') \<and> kernel_ok {} k' \<and> arb_ok k' \<and>
        t \<in> set ms \<and> resumed a {t} (os @ remove1 t ms) k k' \<and>
        by_priority a address k = t # sort_key (\<lambda>t. current_priority (threads k t)) (remove1 t ms)"
proof (cases "ms = []")
  case True
  then have "os = arbiters k a" unfolding os_def ms_def others_def matches_def by (induction "arbiters k a") (auto simp: filter_empty_conv)
  moreover have "k\<lparr>arbiters := (arbiters k)(a := arbiters k a)\<rparr> = k" by simp
  ultimately show ?thesis using True waiting_here_ok [OF ok, of a address]
    by (simp add: ResumeHighestPriorityThread_def by_priority_def ms_def os_def Let_def)
next
  case False
  note sp = split_waiting [where address = address and k = k and ts = "arbiters k a", folded ms_def os_def]
  note d = arb_okD(1,2) [OF ok, where a = a]
  from min_element_sort [OF False, of "\<lambda>t. current_priority (threads k t)"] obtain t where
    t: "min_element (\<lambda>t. current_priority (threads k t)) ms = Some t" "t \<in> set ms"
    "by_priority a address k = t # sort_key (\<lambda>t. current_priority (threads k t)) (remove1 t ms)"
    by (auto simp: by_priority_def ms_def)
  let ?k1 = "k\<lparr>arbiters := (arbiters k)(a := os @ ms)\<rparr>"
  have k1: "kernel_ok {} ?k1" by (rule kernel_ok_frame [OF k]) simp_all
  have w: "status (threads ?k1 t) = WaitArb" using t(2) sp(1) d(2) [of t] by auto
  from resume_idle [OF k1 waiting_idle [OF k1 w]] w obtain k2 where k2: "ResumeFromWait t ?k1 = Some k2" "kernel_ok {} k2"
    "arbiters k2 = arbiters ?k1" "threads k2 = (threads k)(t := (threads k t)\<lparr>wakeup_cb := None, status := Ready\<rparr>)"
    "wobjs k2 = wobjs k" "\<forall>c. current_thread (managers k2 c) = current_thread (managers k c)" by auto
  let ?ts = "os @ remove1 t ms"
  let ?k3 = "k2\<lparr>arbiters := (arbiters k2)(a := ?ts)\<rparr>"
  have "kernel_ok {} ?k3" by (rule kernel_ok_frame [OF k2(2)]) simp_all
  moreover have "resumed a {t} ?ts k ?k3" using k2(3-6) by (simp add: resumed_def)
  moreover have "arb_ok ?k3"
  proof (rule arb_ok_resumed [OF ok, of "{t}" a _ ?ts])
    have "distinct ms" "distinct os" using sp(3,4) d(1) by simp_all
    then show "distinct ?ts" "set ?ts = set (arbiters k a) - {t}" using sp(1,2) t(2) by auto
  qed (use sp(1) t(2) k2(3,4) in auto)
  moreover have "ResumeHighestPriorityThread a address k = Some (Some t, ?k3)"
    using t(1) k2(1) waiting_here_ok [OF ok, of a address, folded ms_def os_def]
    by (simp add: ResumeHighestPriorityThread_def Let_def)
  ultimately show ?thesis using t(2,3) by simp
qed

lemma ResumeFirst_spec:
  assumes "kernel_ok {} k" "arb_ok k"
  shows "\<exists>k' ts. ResumeFirst a address n k = Some k' \<and> kernel_ok {} k' \<and> arb_ok k' \<and>
    resumed a (set (take n (by_priority a address k))) ts k k' \<and>
    ts = (if n = 0 then arbiters k a
          else others address k (arbiters k a) @
            filter (\<lambda>t. t \<notin> set (take n (by_priority a address k))) (matches address k (arbiters k a)))"
  using assms
proof (induction n arbitrary: k)
  case 0
  then show ?case by (simp add: resumed_def)
next
  case (Suc n)
  let ?ms = "matches address k (arbiters k a)" and ?os = "others address k (arbiters k a)"
  note sp = split_waiting [where address = address and k = k and ts = "arbiters k a"]
  note h = ResumeHighest_spec [OF Suc.prems, of address a]
  show ?case
  proof (cases "by_priority a address k")
    case Nil
    then have e: "?ms = []" "ResumeHighestPriorityThread a address k = Some (None, k)" using h by simp_all
    have "?os = arbiters k a" using sp(1) e(1) by (auto simp: others_def matches_def filter_id_conv filter_empty_conv)
    with Suc.IH [OF Suc.prems] show ?thesis using e Nil by (auto split: if_splits)
  next
    case (Cons t S)
    then obtain k1 where k1: "ResumeHighestPriorityThread a address k = Some (Some t, k1)" "kernel_ok {} k1" "arb_ok k1"
      "t \<in> set ?ms" "resumed a {t} (?os @ remove1 t ?ms) k k1"
      "S = sort_key (\<lambda>t. current_priority (threads k t)) (remove1 t ?ms)" using h by auto
    have l: "arbiters k1 a = ?os @ remove1 t ?ms" using k1(5) by (simp add: resumed_def)
    have dm: "distinct ?ms" using sp(3) arb_okD(1) [OF Suc.prems(2)] by blast
    then have rm: "remove1 t ?ms = filter (\<lambda>s. s \<noteq> t) ?ms" by (rule remove1_distinct)
    have "matches address k ?os = []" "others address k ?ms = []" "others address k ?os = ?os" "matches address k ?ms = ?ms"
      by (simp_all add: others_def matches_def filter_empty_conv)
    then have m1: "matches address k1 (arbiters k1 a) = remove1 t ?ms" and o1: "others address k1 (arbiters k1 a) = ?os"
      unfolding resumed_lists(1,2) [OF k1(5)] l rm
      by (auto simp: matches_def others_def filter_empty_conv intro: filter_cong)
    have S: "by_priority a address k1 = S" by (simp add: by_priority_def m1 resumed_lists(3) [OF k1(5)] k1(6))
    from Suc.IH [OF k1(2,3)] obtain k2 ts where k2: "ResumeFirst a address n k1 = Some k2" "kernel_ok {} k2" "arb_ok k2"
      "resumed a (set (take n S)) ts k1 k2"
      "ts = (if n = 0 then ?os @ remove1 t ?ms else ?os @ filter (\<lambda>t. t \<notin> set (take n S)) (remove1 t ?ms))"
      unfolding S m1 o1 unfolding l by blast
    have "ts = ?os @ filter (\<lambda>s. s \<notin> set (take (Suc n) (t # S))) ?ms" unfolding k2(5) rm by (auto intro: filter_cong)
    moreover have "resumed a (set (take (Suc n) (t # S))) ts k k2" using resumed_trans [OF k1(5) k2(4)] by simp
    ultimately show ?thesis using k1(1) k2(1-3) Cons by auto
  qed
qed

lemma WaitThread_ok:
  assumes k: "kernel_ok {} k" and ok: "arb_ok k" and r: "status (threads k t) = Running"
    and cb: "cb \<in> {None, Some (ArbiterCallback a)}"
    and k': "threads k' = (threads k)(t := (threads k t)\<lparr>wakeup_cb := cb, wait_address := address, status := WaitArb\<rparr>)"
      "arbiters k' = (arbiters k)(a := arbiters k a @ [t])" "wobjs k' = wobjs k" "managers k' = managers k"
  shows "kernel_ok {} k'" "arb_ok k'"
proof -
  let ?k1 = "upd_thread t (\<lambda>th. th\<lparr>status := WaitArb\<rparr>) k"
  have k1: "kernel_ok {} ?k1" by (rule status_idle [OF k r]) simp
  have c: "core_ok k'" by (rule core_ok_cong [of ?k1]) (use k1 k' in \<open>auto simp: kernel_ok_def\<close>)
  have sw: "ShouldWait k' y s = ShouldWait ?k1 y s" for y s by (rule ShouldWait_cong) (simp_all add: k')
  have th: "status (threads k' s) = status (threads ?k1 s) \<and> wait_objects (threads k' s) = wait_objects (threads ?k1 s)" for s
    by (simp add: k'(1))
  have "runnable k' = runnable ?k1" by (intro ext) (simp add: runnable_def ready_to_run_def sw th)
  then have "no_lost {} k'" using k1 by (simp add: kernel_ok_def no_lost_def th k'(3))
  moreover have "lists_ok k'" using k1 by (simp add: kernel_ok_def lists_ok_def th k'(3))
  moreover have "waiter_ok (threads k' s)" for s
  proof (cases "s = t")
    case True
    then show ?thesis using running_idle(1) [OF k r] cb by (auto simp: waiter_ok_def k'(1))
  next
    case False
    have "waiter_ok (threads k s)" using k by (simp add: kernel_ok_def waiters_ok_def)
    then show ?thesis using False by (simp add: k'(1))
  qed
  ultimately show "kernel_ok {} k'" using c by (simp add: kernel_ok_def waiters_ok_def)
  note d = arb_okD [OF ok]
  have t: "t \<notin> set (arbiters k b)" for b using d(2) [of t b] r by auto
  show "arb_ok k'"
    unfolding arb_ok_def
  proof (intro conjI allI impI)
    show "distinct (arbiters k' b)" for b using d(1) [of b] t by (auto simp: k'(2))
    show "status (threads k' s) = WaitArb" if "s \<in> set (arbiters k' b)" for s b
      using that d(2) [of s] by (auto simp: k'(1,2) split: if_splits)
    show "wakeup_cb (threads k' s) \<in> {None, Some (ArbiterCallback b)}" if "s \<in> set (arbiters k' b)" for s b
      using that d(3) [of s b] t [of b] cb by (auto simp: k'(1,2) split: if_splits)
    show "b = c" if "s \<in> set (arbiters k' b)" "s \<in> set (arbiters k' c)" for s b c
      using that d(4) [of s b c] t by (auto simp: k'(2) split: if_splits)
    show "\<exists>b. s \<in> set (arbiters k' b)" if "status (threads k' s) = WaitArb" for s
    proof (cases "s = t")
      case False
      then have "status (threads k s) = WaitArb" using that by (simp add: k'(1))
      then obtain b where "s \<in> set (arbiters k b)" using d(5) by blast
      then have "s \<in> set (arbiters k' b)" by (auto simp: k'(2))
      then show ?thesis ..
    qed (auto simp: k'(2) intro: exI [of _ a])
  qed
qed

text \<open>The thread that calls waits at the address, and times out if it said so.\<close>

definition waits_at :: "nat \<Rightarrow> nat \<Rightarrow> nat \<Rightarrow> bool \<Rightarrow> kernel \<Rightarrow> kernel \<Rightarrow> bool" where
  "waits_at a t address timeout k k' \<longleftrightarrow>
     threads k' = (threads k)(t := (threads k t)\<lparr>wakeup_cb := if timeout then Some (ArbiterCallback a) else None,
       wait_address := address, status := WaitArb\<rparr>) \<and>
     arbiters k' = (arbiters k)(a := arbiters k a @ [t]) \<and> wobjs k' = wobjs k \<and> managers k' = managers k"

lemma wait_with_spec:
  assumes k: "kernel_ok {} k" and ok: "arb_ok k" and r: "status (threads k t) = Running"
  shows "\<exists>k'. wait_with a t address timeout k = Some k' \<and> kernel_ok {} k' \<and> arb_ok k' \<and>
    waits_at a t address (timeout \<noteq> None) k k'"
proof -
  obtain k' where k': "wait_with a t address timeout k = Some k'" "waits_at a t address (timeout \<noteq> None) k k'"
  proof (cases timeout)
    case None
    have "(threads k t)\<lparr>wakeup_cb := None\<rparr> = threads k t"
      using running_idle(2) [OF k r] by (cases "threads k t") simp
    then have "waits_at a t address False k (WaitThread a t address k)"
      by (cases "threads k t") (simp add: waits_at_def WaitThread_def upd_thread_def Let_def)
    then show thesis using that None by (simp add: wait_with_def)
  next
    case (Some ns)
    let ?k1 = "upd_thread t (\<lambda>th. th\<lparr>wakeup_cb := Some (ArbiterCallback a)\<rparr>) k"
    obtain T where T: "WakeAfterDelay t ns ?k1 = Some (?k1\<lparr>ktiming := T\<rparr>)" using WakeAfterDelay_Some by blast
    then have "wait_with a t address timeout k = Some (WaitThread a t address (?k1\<lparr>ktiming := T\<rparr>))"
      using Some by (simp add: wait_with_def)
    moreover have "waits_at a t address True k (WaitThread a t address (?k1\<lparr>ktiming := T\<rparr>))"
      by (simp add: waits_at_def WaitThread_def upd_thread_def Let_def)
    ultimately show thesis using that Some by simp
  qed
  note w = k'(2) [unfolded waits_at_def]
  from WaitThread_ok [OF k ok r _ conjunct1 [OF w]] w k' show ?thesis by (auto split: if_splits)
qed

section \<open>Runs\<close>

text \<open>A timeout is one that the thread asked for.\<close>

definition timely :: "kcall \<Rightarrow> kernel \<Rightarrow> bool" where
  "timely c k \<longleftrightarrow>
     (\<forall>core tid t. c = Timeout core tid \<longrightarrow> wakeup_callback_table (managers k core) tid = Some t \<longrightarrow>
        status (threads k t) = WaitArb \<longrightarrow> wakeup_cb (threads k t) \<noteq> None)"

inductive arb_reachable :: "kernel \<Rightarrow> bool" where
  arb_start: "arb_reachable empty_kernel"
| arb_call: "arb_reachable k \<Longrightarrow> admissible c k \<Longrightarrow> timely c k \<Longrightarrow> exec c k = Some k' \<Longrightarrow> arb_reachable k'"
| arb_signal_all: "arb_reachable k \<Longrightarrow> ResumeAllThreads a address k = Some k' \<Longrightarrow> arb_reachable (PrepareReschedule k')"
| arb_signal: "arb_reachable k \<Longrightarrow> ResumeFirst a address n k = Some k' \<Longrightarrow> arb_reachable (PrepareReschedule k')"
| arb_wait: "arb_reachable k \<Longrightarrow> runs_on core k t \<Longrightarrow> wait_with a t address timeout k = Some k' \<Longrightarrow>
    arb_reachable (PrepareReschedule k')"

lemma arb_ok_Prepare [simp]: "arb_ok (PrepareReschedule k) = arb_ok k"
  by (simp add: arb_ok_def)

lemma timeout_arb_ok:
  assumes k: "kernel_ok {} k" and ok: "arb_ok k" and a: "arb_timeout c k" "timely c k" and e: "exec c k = Some k'"
  shows "arb_ok k'"
proof -
  obtain core tid t where c: "c = Timeout core tid" "wakeup_callback_table (managers k core) tid = Some t"
    "status (threads k t) = WaitArb" using a(1) by (auto simp: arb_timeout_def)
  obtain b where b: "t \<in> set (arbiters k b)" using arb_okD(5) [OF ok c(3)] by blast
  then have cb: "wakeup_cb (threads k t) = Some (ArbiterCallback b)"
    using arb_okD(3) [OF ok b] a(2) c by (auto simp: timely_def)
  from ThreadWakeupCallback_spec [OF k c(2)] c(1,3) e cb have
    k': "threads k' = (threads k)(t := (threads k t)\<lparr>wakeup_cb := None, status := Ready\<rparr>)"
      "arbiters k' = (arbiters k)(b := removeAll t (arbiters k b))" by auto
  show ?thesis
    by (rule arb_ok_resumed [OF ok, of "{t}" b _ "removeAll t (arbiters k b)"])
      (use b k' arb_okD(1) [OF ok, of b] in \<open>auto simp: distinct_removeAll\<close>)
qed

lemma arb_reachable_ok: "arb_reachable k \<Longrightarrow> kernel_ok {} k \<and> arb_ok k"
proof (induction rule: arb_reachable.induct)
  case arb_start
  have "arb_ok empty_kernel" by (simp add: arb_ok_def empty_kernel_simps) (simp add: empty_kernel_def)
  then show ?case using empty_kernel_ok by simp
next
  case (arb_call k c k')
  then have k: "kernel_ok {} k" "arb_ok k" by simp_all
  from exec_ok [OF k(1) arb_call(2)] arb_call(4) have k': "kernel_ok {} k'" "\<not> arb_timeout c k \<longrightarrow> arb_same k k'" by auto
  then show ?case using arb_ok_same [OF k(2)] timeout_arb_ok [OF k _ arb_call(3,4)] by blast
next
  case (arb_signal_all k a address k')
  then show ?case using ResumeAllThreads_spec [of k a address] by auto
next
  case (arb_signal k a address n k')
  then show ?case using ResumeFirst_spec [of k a address n] by auto
next
  case (arb_wait k core t a address timeout k')
  then show ?case using wait_with_spec [of k t a address timeout] by (auto simp: runs_on_def)
qed

section \<open>Properties\<close>

text \<open>C13: A signal wakes the best: in every state that calls lead to, a signal with a count that is not negative
  returns, and it has made ready the first that many of the threads that wait at the address, ordered by priority
  and among equals by the time they wait; every other thread is as it was, and the woken threads and no others
  have left the list of the arbiter. A negative count wakes all that wait at the address.\<close>

theorem signal_wakes_best:
  assumes "arb_reachable k"
  shows "\<exists>k'. ArbitrateAddress env a t (Some Signal) address value ns (k, ms) = Some (RESULT_SUCCESS, k', ms) \<and>
    (let queue = sort_key (\<lambda>s. current_priority (threads k s)) (filter (\<lambda>s. wait_address (threads k s) = address) (arbiters k a));
         woken = (if value < 0 then set queue else set (take (nat value) queue))
     in (\<forall>s. threads k' s = (if s \<in> woken then (threads k s)\<lparr>wakeup_cb := None, status := Ready\<rparr> else threads k s)) \<and>
        (\<forall>b. set (arbiters k' b) = (if b = a then set (arbiters k a) - woken else set (arbiters k b))) \<and>
        (\<forall>s \<in> woken. s \<in> set (level (ready_queue (managers k' (core_id (threads k s)))) (current_priority (threads k s)))))"
proof -
  have k: "kernel_ok {} k" and ok: "arb_ok k" using arb_reachable_ok [OF assms] by simp_all
  note sp = split_waiting(1,2) [where address = address and k = k and ts = "arbiters k a"]
  have sub: "set (by_priority a address k) = set (matches address k (arbiters k a))" by (simp add: by_priority_def)
  have sorted: "sort_key (\<lambda>s. current_priority (threads k s)) (filter (\<lambda>s. wait_address (threads k s) = address) (arbiters k a))
      = by_priority a address k" by (simp add: by_priority_def matches_def)
  define woken where "woken = (if value < 0 then set (by_priority a address k) else set (take (nat value) (by_priority a address k)))"
  obtain k' ts where k': "(if value < 0 then ResumeAllThreads a address k else ResumeFirst a address (nat value) k) = Some k'"
    "kernel_ok {} k'" "resumed a woken ts k k'" "set ts = set (arbiters k a) - woken"
  proof (cases "value < 0")
    case True
    then have w: "woken = set (matches address k (arbiters k a))" by (simp add: woken_def sub)
    from ResumeAllThreads_spec [OF k ok, of a address] obtain k' where r: "ResumeAllThreads a address k = Some k'"
      "kernel_ok {} k'" "resumed a woken (others address k (arbiters k a)) k k'" unfolding w by blast
    have "set (others address k (arbiters k a)) = set (arbiters k a) - woken" unfolding w using sp by blast
    with that [OF _ r(2,3)] True r(1) show thesis by simp
  next
    case False
    let ?W = "set (take (nat value) (by_priority a address k))"
    have "?W \<subseteq> set (matches address k (arbiters k a))" unfolding sub [symmetric] by (rule set_take_subset)
    then have W: "set (others address k (arbiters k a) @ filter (\<lambda>t. t \<notin> ?W) (matches address k (arbiters k a))) =
        set (arbiters k a) - ?W" using sp by auto
    from ResumeFirst_spec [OF k ok, of a address "nat value"] obtain k' ts where r: "ResumeFirst a address (nat value) k = Some k'"
      "kernel_ok {} k'" "resumed a ?W ts k k'" "ts = (if nat value = 0 then arbiters k a else others address k (arbiters k a) @
        filter (\<lambda>t. t \<notin> ?W) (matches address k (arbiters k a)))" by blast
    have "set ts = set (arbiters k a) - ?W" unfolding r(4) if_distrib [where f = set] W by simp
    moreover have "woken = ?W" using False by (simp add: woken_def)
    ultimately show thesis using that [of k' ts] False r(1-3) by simp
  qed
  have "s \<in> set (level (ready_queue (managers k' (core_id (threads k s)))) (current_priority (threads k s)))" if "s \<in> woken" for s
    using k'(2,3) that by (simp add: kernel_ok_def core_ok_def sched_ok_def queues_hold_def resumed_def)
  moreover have "ArbitrateAddress env a t (Some Signal) address value ns (k, ms) = Some (RESULT_SUCCESS, k', ms)"
    using k'(1) by (simp add: ArbitrateAddress_def)
  ultimately show ?thesis
    using k'(3,4) unfolding sorted Let_def woken_def [symmetric] by (intro exI [of _ k']) (simp add: resumed_def)
qed

text \<open>C16: In every state that calls lead to, a thread waits for an arbiter exactly if it is in the list of one;
  it is in one list only, and once.\<close>

theorem arbiter_lists_exact:
  assumes "arb_reachable k"
  shows "(status (threads k t) = WaitArb \<longleftrightarrow> (\<exists>a. t \<in> set (arbiters k a))) \<and> distinct (arbiters k a) \<and>
    (t \<in> set (arbiters k a) \<and> t \<in> set (arbiters k b) \<longrightarrow> a = b)"
  using arb_okD [OF conjunct2 [OF arb_reachable_ok [OF assms]]] by blast


section \<open>A run with an arbiter\<close>

text \<open>Where no call arbitrates, the arbiters stay empty.\<close>

lemma reachable_arb: "reachable k \<Longrightarrow> arb_reachable k \<and> arbiters k = (\<lambda>_. [])"
proof (induction rule: reachable.induct)
  case start
  show ?case using arb_start by (simp add: empty_kernel_def)
next
  case (call k c k')
  then have k: "kernel_ok {} k" and ok: "arb_ok k" using arb_reachable_ok by auto
  have n: "status (threads k t) \<noteq> WaitArb" for t using arb_okD(5) [OF ok, of t] call.IH by auto
  then have "timely c k" "\<not> arb_timeout c k" by (auto simp: timely_def arb_timeout_def)
  moreover from this exec_ok [OF k call.hyps(2)] call.hyps(3) have "arb_same k k'" by auto
  ultimately show ?case using arb_call [OF _ call.hyps(2) _ call.hyps(3)] call.IH by (simp add: arb_same_def)
qed

text \<open>Thread 1 waits at address 256 of arbiter 5.\<close>

lemma example_arbiter:
  "\<exists>k. arb_reachable k \<and> arbiters k 5 = [1] \<and> wait_address (threads k 1) = 256"
proof -
  obtain k where k: "reachable k" "runs_on 0 k 1" using example_thread by blast
  then have a: "arb_reachable k" "arbiters k = (\<lambda>_. [])" using reachable_arb by simp_all
  have "status (threads k 1) = Running" using k(2) by (simp add: runs_on_def)
  from wait_with_spec [OF _ _ this, of 5 256 None] arb_reachable_ok [OF a(1)] obtain k' where
    k': "wait_with 5 1 256 None k = Some k'" "waits_at 5 1 256 False k k'" by auto
  have "arb_reachable (PrepareReschedule k')" by (rule arb_wait [OF a(1) k(2) k'(1)])
  then show ?thesis using k'(2) a(2) by (intro exI [of _ "PrepareReschedule k'"]) (simp add: waits_at_def)
qed

theorem signal_wakes_best_witness:
  "\<exists>k k'. arb_reachable k \<and> arbiters k 5 = [1] \<and>
     ArbitrateAddress no_devices 5 2 (Some Signal) 256 1 0 (k, boot_memory) = Some (RESULT_SUCCESS, k', boot_memory) \<and>
     status (threads k' 1) = Ready \<and> arbiters k' 5 = []"
proof -
  obtain k where k: "arb_reachable k" "arbiters k 5 = [1]" "wait_address (threads k 1) = 256" using example_arbiter by blast
  have q: "sort_key (\<lambda>s. current_priority (threads k s)) (filter (\<lambda>s. wait_address (threads k s) = 256) (arbiters k 5)) = [1]"
    using k(3) by (simp add: k(2))
  have left: "set (arbiters k 5) - {1} = {}" by (simp add: k(2))
  have one: "(if (1::int) < 0 then set [1 :: nat] else set (take (nat 1) [1])) = {1}" by simp
  obtain k' where k': "ArbitrateAddress no_devices 5 2 (Some Signal) 256 1 0 (k, boot_memory) = Some (RESULT_SUCCESS, k', boot_memory)"
    "\<forall>s. threads k' s = (if s \<in> {1} then (threads k s)\<lparr>wakeup_cb := None, status := Ready\<rparr> else threads k s)"
    "\<forall>b. set (arbiters k' b) = (if b = 5 then {} else set (arbiters k b))"
    using signal_wakes_best [OF k(1), of no_devices 5 2 256 1 0 boot_memory] unfolding q Let_def one left by blast
  have "status (threads k' 1) = Ready" "set (arbiters k' 5) = {}" using k'(2,3) by simp_all
  then show ?thesis using k(1,2) k'(1) by auto
qed

theorem arbiter_lists_exact_witness: "\<exists>k. arb_reachable k \<and> arbiters k 5 = [1] \<and> status (threads k 1) = WaitArb"
proof -
  obtain k where k: "arb_reachable k" "arbiters k 5 = [1]" using example_arbiter by blast
  with arbiter_lists_exact [OF k(1), of 1 5 5] have "\<exists>a. 1 \<in> set (arbiters k a)" by (intro exI [of _ 5]) simp
  with arbiter_lists_exact [OF k(1), of 1 5 5] k show ?thesis by blast
qed


end
