(* ===== verification/ProcessMemory.thy ===== *)
theory ProcessMemory
  imports VMOperations MemoryRegion ResultCodes
begin

text \<open>
  The memory of a process, \<open>core/hle/kernel/process.cpp\<close>: its heap and its linear heap, which take frames of
  FCRAM from a memory region and map them, and the aliases that it makes of its own memory. The address space
  is that of \<open>VMManager\<close>, the region one of \<open>MemoryRegion\<close>; what they guarantee comes together here.
\<close>

section \<open>The process\<close>

definition HEAP_VADDR :: nat where "HEAP_VADDR = 0x08000000"
definition HEAP_SIZE :: nat where "HEAP_SIZE = 0x08000000"
definition HEAP_VADDR_END :: nat where "HEAP_VADDR_END = HEAP_VADDR + HEAP_SIZE"

record process_memory =
  pm_vm :: vm_manager
  pm_region :: region
  memory_used :: nat
  current_commit :: nat
  kernel_version :: nat

type_synonym 'd pm_state = "process_memory \<times> 'd memory_system"

definition vm_code :: "vm_error \<Rightarrow> u32" where
  "vm_code e =
     (case e of
        vm_error.ERR_INVALID_ADDRESS \<Rightarrow> ResultCodes.ERR_INVALID_ADDRESS
      | vm_error.ERR_INVALID_ADDRESS_STATE \<Rightarrow> ResultCodes.ERR_INVALID_ADDRESS_STATE
      | vm_error.ERR_OUT_OF_MEMORY \<Rightarrow> ResultCodes.ERR_OUT_OF_MEMORY)"

definition GetLinearHeapAreaAddress :: "process_memory \<Rightarrow> nat" where
  "GetLinearHeapAreaAddress p = (if kernel_version p < 0x22C then LINEAR_HEAP_VADDR else NEW_LINEAR_HEAP_VADDR)"

definition GetLinearHeapBase :: "process_memory \<Rightarrow> nat" where
  "GetLinearHeapBase p = add32 (GetLinearHeapAreaAddress p) (rg_base (pm_region p))"

definition GetLinearHeapLimit :: "process_memory \<Rightarrow> nat" where
  "GetLinearHeapLimit p = add32 (GetLinearHeapBase p) (rg_size (pm_region p))"

text \<open>The range checks, and what the operations book.\<close>

definition outside :: "nat \<Rightarrow> nat \<Rightarrow> nat \<Rightarrow> nat \<Rightarrow> bool" where
  "outside lo hi target sz \<longleftrightarrow> target < lo \<or> add32 target sz > hi \<or> add32 target sz < target"

definition book :: "nat \<Rightarrow> process_memory \<Rightarrow> process_memory" where
  "book sz p = p\<lparr>memory_used := add32 (memory_used p) sz, current_commit := add32 (current_commit p) sz\<rparr>"

definition unbook :: "nat \<Rightarrow> process_memory \<Rightarrow> process_memory" where
  "unbook sz p = p\<lparr>memory_used := sub32 (memory_used p) sz, current_commit := sub32 (current_commit p) sz\<rparr>"

section \<open>The heap\<close>

text \<open>\<open>std::fill\<close> of the frames from one offset to another.\<close>

definition fill_zero :: "nat \<Rightarrow> nat \<Rightarrow> 'd memory_system \<Rightarrow> 'd memory_system run" where
  "fill_zero lower upper ms =
     do {
       p \<leftarrow> GetFCRAMPointer lower ms;
       q \<leftarrow> GetFCRAMPointer upper ms;
       Some (store p (replicate (q - p) 0) ms)
     }"

text \<open>Mapping memory and setting its permissions, which is asserted to succeed.\<close>

definition map_protected ::
  "'d memory_env \<Rightarrow> nat \<Rightarrow> memory_ref \<Rightarrow> nat \<Rightarrow> MemoryState \<Rightarrow> VMAPermission \<Rightarrow> vm_manager \<times> 'd memory_system \<Rightarrow>
   (vm_manager \<times> 'd memory_system) run" where
  "map_protected env target r sz st perms s =
     do {
       (result, s1) \<leftarrow> MapBackingMemory env target r sz st s;
       k \<leftarrow> (case result of Inl _ \<Rightarrow> None | Inr k \<Rightarrow> Some k);
       (_, s2) \<leftarrow> Reprotect env perms k s1;
       Some s2
     }"

definition map_block ::
  "'d memory_env \<Rightarrow> MemoryState \<Rightarrow> VMAPermission \<Rightarrow> nat \<Rightarrow> interval \<Rightarrow> vm_manager \<times> 'd memory_system \<Rightarrow>
   (vm_manager \<times> 'd memory_system) run" where
  "map_block env st perms target i = (\<lambda>(vm, ms).
     do {
       ms1 \<leftarrow> fill_zero (fst i) (snd i) ms;
       r \<leftarrow> GetFCRAMRef (fst i) ms1;
       map_protected env target r (snd i - fst i) st perms (vm, ms1)
     })"

fun map_blocks ::
  "'d memory_env \<Rightarrow> MemoryState \<Rightarrow> VMAPermission \<Rightarrow> nat \<Rightarrow> interval_set \<Rightarrow> vm_manager \<times> 'd memory_system \<Rightarrow>
   (vm_manager \<times> 'd memory_system) run" where
  "map_blocks env st perms interval_target [] s = Some s"
| "map_blocks env st perms interval_target (i # is) s =
     do {
       s' \<leftarrow> map_block env st perms interval_target i s;
       map_blocks env st perms (add32 interval_target (snd i - fst i)) is s'
     }"

text \<open>Whether the area of the target is free and has room; \<open>FindVMA\<close> may not return the end.\<close>

definition room_at :: "nat \<Rightarrow> nat \<Rightarrow> vm_manager \<Rightarrow> bool run" where
  "room_at target sz vm =
     do {
       it \<leftarrow> FindVMA target (vma_map vm);
       k \<leftarrow> it;
       v \<leftarrow> at_key k (vma_map vm);
       Some (\<not> (vma_type v \<noteq> VMAType.Free \<or> add32 (vma_base v) (vma_size v) < add32 target sz))
     }"

definition Process_HeapAllocate ::
  "'d memory_env \<Rightarrow> nat \<Rightarrow> nat \<Rightarrow> VMAPermission \<Rightarrow> MemoryState \<Rightarrow> bool \<Rightarrow> 'd pm_state \<Rightarrow>
   ((u32 + nat) \<times> 'd pm_state) run" where
  "Process_HeapAllocate env target sz perms st skip_range_check = (\<lambda>(p, ms).
     if outside HEAP_VADDR HEAP_VADDR_END target sz \<and> \<not> skip_range_check
     then Some (Inl ResultCodes.ERR_INVALID_ADDRESS, p, ms)
     else do {
       room \<leftarrow> room_at target sz (pm_vm p);
       if \<not> room then Some (Inl ResultCodes.ERR_INVALID_ADDRESS_STATE, p, ms)
       else do {
         (allocated_fcram, rg) \<leftarrow> MemoryRegion.HeapAllocate sz (pm_region p);
         if allocated_fcram = [] then Some (Inl ERR_OUT_OF_HEAP_MEMORY, p\<lparr>pm_region := rg\<rparr>, ms)
         else do {
           (vm', ms') \<leftarrow> map_blocks env st perms target allocated_fcram (pm_vm p, ms);
           Some (Inr target, book sz (p\<lparr>pm_vm := vm', pm_region := rg\<rparr>), ms')
         }
       }
     })"

fun free_blocks_of :: "(memory_ref \<times> nat) list \<Rightarrow> 'd memory_system \<Rightarrow> region \<Rightarrow> region run" where
  "free_blocks_of [] ms rg = Some rg"
| "free_blocks_of ((backing, block_size) # bs) ms rg =
     do {
       off \<leftarrow> GetFCRAMOffset (GetPtr backing) ms;
       rg' \<leftarrow> MemoryRegion.Free off block_size rg;
       free_blocks_of bs ms rg'
     }"

definition Process_HeapFree ::
  "'d memory_env \<Rightarrow> nat \<Rightarrow> nat \<Rightarrow> 'd pm_state \<Rightarrow> (u32 \<times> 'd pm_state) run" where
  "Process_HeapFree env target sz = (\<lambda>(p, ms).
     if outside HEAP_VADDR HEAP_VADDR_END target sz then Some (ResultCodes.ERR_INVALID_ADDRESS, p, ms)
     else if sz = 0 then Some (RESULT_SUCCESS, p, ms)
     else do {
       blocks \<leftarrow> GetBackingBlocksForRange target sz (pm_vm p);
       case blocks of
         Inl e \<Rightarrow> Some (vm_code e, p, ms)
       | Inr bs \<Rightarrow>
           do {
             rg \<leftarrow> free_blocks_of bs ms (pm_region p);
             (result, vm', ms') \<leftarrow> UnmapRange env target sz (pm_vm p, ms);
             assert_that (result = Inr ());
             Some (RESULT_SUCCESS, unbook sz (p\<lparr>pm_vm := vm', pm_region := rg\<rparr>), ms')
           }
     })"

section \<open>The linear heap\<close>

text \<open>Where in FCRAM the memory lies, and at which address: what the caller asked for or the first room.\<close>

definition linear_place ::
  "nat \<Rightarrow> nat \<Rightarrow> process_memory \<Rightarrow> ((u32 + nat \<times> nat) \<times> region) run" where
  "linear_place target sz p =
     (if target = 0
      then do {
        (offset, rg) \<leftarrow> MemoryRegion.LinearAllocate sz (pm_region p);
        Some (case offset of
                None \<Rightarrow> Inl ERR_OUT_OF_HEAP_MEMORY
              | Some physical_offset \<Rightarrow> Inr (physical_offset, add32 physical_offset (GetLinearHeapAreaAddress p)), rg)
      }
      else if outside (GetLinearHeapBase p) (GetLinearHeapLimit p) target sz
      then Some (Inl ResultCodes.ERR_INVALID_ADDRESS, pm_region p)
      else do {
        let physical_offset = sub32 target (GetLinearHeapAreaAddress p);
        (ok, rg) \<leftarrow> LinearAllocate_at physical_offset sz (pm_region p);
        Some (if ok then Inr (physical_offset, target) else Inl ResultCodes.ERR_INVALID_ADDRESS_STATE, rg)
      })"

definition Process_LinearAllocate ::
  "'d memory_env \<Rightarrow> nat \<Rightarrow> nat \<Rightarrow> VMAPermission \<Rightarrow> 'd pm_state \<Rightarrow> ((u32 + nat) \<times> 'd pm_state) run" where
  "Process_LinearAllocate env target sz perms = (\<lambda>(p, ms).
     do {
       (place, rg) \<leftarrow> linear_place target sz p;
       case place of
         Inl e \<Rightarrow> Some (Inl e, p\<lparr>pm_region := rg\<rparr>, ms)
       | Inr (physical_offset, target) \<Rightarrow>
           do {
             backing \<leftarrow> GetFCRAMRef physical_offset ms;
             let ms1 = store (GetPtr backing) (replicate sz 0) ms;
             (vm', ms') \<leftarrow> map_protected env target backing sz Continuous perms (pm_vm p, ms1);
             Some (Inr target, book sz (p\<lparr>pm_vm := vm', pm_region := rg\<rparr>), ms')
           }
     })"

definition Process_LinearFree ::
  "'d memory_env \<Rightarrow> nat \<Rightarrow> nat \<Rightarrow> 'd pm_state \<Rightarrow> (u32 \<times> 'd pm_state) run" where
  "Process_LinearFree env target sz = (\<lambda>(p, ms).
     if outside (GetLinearHeapBase p) (GetLinearHeapLimit p) target sz then Some (ResultCodes.ERR_INVALID_ADDRESS, p, ms)
     else if sz = 0 then Some (RESULT_SUCCESS, p, ms)
     else do {
       (result, vm', ms') \<leftarrow> UnmapRange env target sz (pm_vm p, ms);
       case result of
         Inl e \<Rightarrow> Some (vm_code e, p\<lparr>pm_vm := vm'\<rparr>, ms')
       | Inr _ \<Rightarrow>
           do {
             rg \<leftarrow> MemoryRegion.Free (sub32 target (GetLinearHeapAreaAddress p)) sz (pm_region p);
             Some (RESULT_SUCCESS, (unbook sz p)\<lparr>pm_vm := vm', pm_region := rg\<rparr>, ms')
           }
     })"

section \<open>Aliases\<close>

definition overlapping :: "nat \<Rightarrow> nat \<Rightarrow> nat \<Rightarrow> bool" where
  "overlapping source target sz \<longleftrightarrow> sub32 source target < sz \<or> sub32 target source < sz"

fun alias_blocks ::
  "'d memory_env \<Rightarrow> MemoryState \<Rightarrow> VMAPermission \<Rightarrow> nat \<Rightarrow> (memory_ref \<times> nat) list \<Rightarrow>
   vm_manager \<times> 'd memory_system \<Rightarrow> (vm_manager \<times> 'd memory_system) run" where
  "alias_blocks env st perms interval_target [] s = Some s"
| "alias_blocks env st perms interval_target ((backing, block_size) # bs) s =
     do {
       s' \<leftarrow> map_protected env interval_target backing block_size st perms s;
       alias_blocks env st perms (add32 interval_target block_size) bs s'
     }"

definition vm_result :: "vm_error + unit \<Rightarrow> u32" where
  "vm_result r = (case r of Inl e \<Rightarrow> vm_code e | Inr _ \<Rightarrow> RESULT_SUCCESS)"

definition Process_Map ::
  "'d memory_env \<Rightarrow> nat \<Rightarrow> nat \<Rightarrow> nat \<Rightarrow> VMAPermission \<Rightarrow> bool \<Rightarrow> vm_manager \<times> 'd memory_system \<Rightarrow>
   (u32 \<times> vm_manager \<times> 'd memory_system) run" where
  "Process_Map env target source sz perms privileged s =
     (if \<not> privileged \<and> outside HEAP_VADDR HEAP_VADDR_END source sz then Some (ResultCodes.ERR_INVALID_ADDRESS, s)
      else if overlapping source target sz
      then if \<not> privileged then Some (ResultCodes.ERR_INVALID_ADDRESS_STATE, s)
           else if source \<noteq> target then Some (ResultCodes.ERR_INVALID_ADDRESS, s)
           else map_option (apfst vm_result) (ChangeMemoryState env source sz Private ReadWrite AliasCode perms s)
      else do {
        room \<leftarrow> room_at target sz (fst s);
        if \<not> room then Some (ResultCodes.ERR_INVALID_ADDRESS_STATE, s)
        else do {
          let source_state = (if privileged then Locked else Aliased);
          let target_state = (if privileged then AliasCode else Alias);
          let source_perm = (if privileged then 0 else ReadWrite);
          (result, s1) \<leftarrow> ChangeMemoryState env source sz Private ReadWrite source_state source_perm s;
          case result of
            Inl e \<Rightarrow> Some (vm_code e, s1)
          | Inr _ \<Rightarrow>
              do {
                blocks \<leftarrow> GetBackingBlocksForRange source sz (fst s1);
                case blocks of
                  Inl e \<Rightarrow> Some (vm_code e, s1)
                | Inr bs \<Rightarrow> do { s2 \<leftarrow> alias_blocks env target_state perms target bs s1; Some (RESULT_SUCCESS, s2) }
              }
        }
      })"

definition Process_Unmap ::
  "'d memory_env \<Rightarrow> nat \<Rightarrow> nat \<Rightarrow> nat \<Rightarrow> VMAPermission \<Rightarrow> bool \<Rightarrow> vm_manager \<times> 'd memory_system \<Rightarrow>
   (u32 \<times> vm_manager \<times> 'd memory_system) run" where
  "Process_Unmap env target source sz perms privileged s =
     (if \<not> privileged \<and> outside HEAP_VADDR HEAP_VADDR_END source sz then Some (ResultCodes.ERR_INVALID_ADDRESS, s)
      else if overlapping source target sz
      then if \<not> privileged then Some (ResultCodes.ERR_INVALID_ADDRESS_STATE, s)
           else if source \<noteq> target then Some (ResultCodes.ERR_INVALID_ADDRESS, s)
           else map_option (apfst vm_result) (ChangeMemoryState env source sz AliasCode 0 Private perms s)
      else do {
        (result, s1) \<leftarrow> UnmapRange env target sz s;
        case result of
          Inl e \<Rightarrow> Some (vm_code e, s1)
        | Inr _ \<Rightarrow>
            map_option (apfst vm_result)
              (ChangeMemoryState env source sz (if privileged then Locked else Aliased) 0 Private perms s1)
      })"

section \<open>FCRAM stays where it is\<close>

lemma map_pages_region_ptr: "map_pages t b n r type ms = Some ms' \<Longrightarrow> region_ptr ms' = region_ptr ms"
proof (induction n arbitrary: b r ms)
  case (Suc n)
  then show ?case by (fastforce simp: Let_def bind_eq_Some_conv split: if_splits)
qed simp

lemma mark_region_region_ptr: "mark_region c p n ms = Some ms' \<Longrightarrow> region_ptr ms' = region_ptr ms"
proof (induction n arbitrary: p ms)
  case (Suc n)
  then obtain ms1 where ms1: "iterate (mark_vaddr c) (PhysicalToVirtualAddressForRasterizer p ms) ms = Some ms1"
    "mark_region c (add32 p CITRA_PAGE_SIZE) n ms1 = Some ms'" by (auto simp: bind_eq_Some_conv)
  have page: "mark_page v c t s = Some s' \<Longrightarrow> region_ptr s' = region_ptr s" for v t and s s' :: "'a memory_system"
    by (auto simp: mark_page_def Let_def bind_eq_Some_conv split: if_splits PageType.splits)
  have "mark_vaddr c v s = Some s' \<Longrightarrow> region_ptr s' = region_ptr s" for v and s s' :: "'a memory_system"
    unfolding mark_vaddr_def Let_def
    by (erule iterate_invariant [where P = "\<lambda>x. region_ptr x = region_ptr s"])
      (auto simp: Mark_def page split: option.splits)
  then have "region_ptr ms1 = region_ptr ms"
    by (intro iterate_invariant [OF ms1(1), where P = "\<lambda>x. region_ptr x = region_ptr ms"]) auto
  then show ?case using Suc.IH [OF ms1(2)] by simp
qed simp

lemma flush_region_ptr:
  assumes "rasterizer_ok env"
  shows "region_ptr (RasterizerFlushVirtualRegion env a n mode ms) = region_ptr ms"
  by (rule flush_invariant [OF assms, where P = "\<lambda>x. region_ptr x = region_ptr ms"])
    (auto simp: RasterizerMarkRegionCached_def Let_def mark_region_region_ptr split: if_splits)

lemma UpdatePageTable_region_ptr:
  assumes "UpdatePageTableForVMA env t v ms = Some ms'" "rasterizer_ok env"
  shows "region_ptr ms' = region_ptr ms"
proof -
  have mp: "MapPages env t b n r type s = Some s' \<Longrightarrow> region_ptr s' = region_ptr s" for t b n r type and s s' :: "'a memory_system"
    unfolding MapPages_def by (drule map_pages_region_ptr) (simp add: flush_region_ptr [OF assms(2)])
  show ?thesis using assms(1)
    by (auto simp: UpdatePageTableForVMA_def UnmapRegion_def MapMemoryRegion_def MapIoRegion_def bind_eq_Some_conv mp
        split: VMAType.splits if_splits)
qed

lemma modify_vma_region_ptr:
  "modify_vma env f k (vm, ms) = Some (k', vm', ms') \<Longrightarrow> rasterizer_ok env \<Longrightarrow> region_ptr ms' = region_ptr ms"
  by (auto simp: modify_vma_def bind_eq_Some_conv UpdatePageTable_region_ptr)

lemma Reset_region_ptr:
  "Reset env vm ms = Some (vm', ms') \<Longrightarrow> rasterizer_ok env \<Longrightarrow> region_ptr ms' = region_ptr ms"
  by (auto simp: Reset_def bind_eq_Some_conv Let_def dest!: UpdatePageTable_region_ptr split: if_splits)

lemma range_loop_region_ptr:
  assumes "range_loop env f b it s = Some s'" "rasterizer_ok env"
  shows "region_ptr (snd s') = region_ptr (snd s)"
proof -
  have "rasterizer_ok env \<longrightarrow> region_ptr (snd s') = region_ptr (snd s)"
  proof (rule range_loop.raw_induct [OF _ assms(1)], goal_cases)
    case (1 rl env f b it s y)
    show ?case
    proof (cases "\<exists>k. it = Some k \<and> k < b")
      case False
      then show ?thesis using 1(2) by (auto split: option.splits)
    next
      case True
      then obtain k where k: "it = Some k" "k < b" by blast
      obtain vm ms where s: "s = (vm, ms)" by (cases s)
      from 1(2) k s obtain k' vm' ms' where m: "modify_vma env f k (vm, ms) = Some (k', vm', ms')"
        "rl env f b (next_iter k' (vma_map vm')) (vm', ms') = Some y" by (auto simp: bind_eq_Some_conv)
      show ?thesis using 1(1) [OF m(2)] modify_vma_region_ptr [OF m(1)] by (simp add: s)
    qed
  qed
  with assms(2) show ?thesis by simp
qed

lemma UnmapRange_region_ptr:
  assumes "UnmapRange env target sz (vm, ms) = Some (r, vm', ms')" "rasterizer_ok env"
  shows "region_ptr ms' = region_ptr ms"
proof -
  from assms(1) obtain c where c: "UnmapRange env target sz (vm, ms) = Some (r, vm', ms')"
    "CarveVMARange target sz (vma_map vm) = Some c" by (auto simp: UnmapRange_def bind_eq_Some_conv split: if_splits)
  show ?thesis
  proof (cases c)
    case (Inl x)
    then show ?thesis using c by (simp add: UnmapRange_def split: if_splits)
  next
    case (Inr p)
    obtain k xs where p: "p = (k, xs)" by (cases p)
    with c Inr have "range_loop env to_free (add32 target sz) (Some k) (vm\<lparr>vma_map := xs\<rparr>, ms) = Some (vm', ms')"
      by (auto simp: UnmapRange_def bind_eq_Some_conv split: if_splits)
    from range_loop_region_ptr [OF this assms(2)] show ?thesis by simp
  qed
qed

section \<open>Mapping and protecting\<close>

text \<open>Mapping merges the new area with its neighbours where they have what it has at first: the write and
  read permissions. \<open>Reprotect\<close> then reaches the neighbours, too.\<close>

definition reprotected :: "MemoryState \<Rightarrow> VMAPermission \<Rightarrow> area \<Rightarrow> area \<Rightarrow> bool" where
  "reprotected st perms x y \<longleftrightarrow> y = x \<or> (\<exists>ptr. x = Backed ReadWrite st ptr \<and> y = Backed perms st ptr)"

lemma Reprotect_run:
  assumes ok: "vm_ok e (vm, ms)" and r: "rasterizer_ok env" and l: "\<not> is_locked vm"
    and c: "covered_by k target sz (vma_map vm)" and sz: "0 < sz"
    and at: "view (vma_map vm) target = Backed ReadWrite st ptr"
  shows "\<exists>k' ys ms'. Reprotect env perms k (vm, ms) = Some (k', vm\<lparr>vma_map := ys\<rparr>, ms') \<and> vm_ok e (vm\<lparr>vma_map := ys\<rparr>, ms') \<and>
    region_ptr ms' = region_ptr ms \<and>
    (\<forall>a < 2 ^ 32. reprotected st perms (view (vma_map vm) a) (view ys a) \<and>
       (target \<le> a \<and> a < target + sz \<longrightarrow> view ys a = with_perms_at perms (view (vma_map vm) a)))"
proof -
  have s: "space_ok e (vma_map vm)" and e: "separated e" and i: "in_sync (vma_map vm) ms (page_table vm)"
    using ok by (simp_all add: vm_ok_def)
  obtain m where m: "m \<in> set (vma_map vm)" "vma_base m = k" "vma_base m \<le> target" "target + sz \<le> vma_base m + vma_size m"
    using c by (auto simp: covered_by_def)
  then obtain as bs where x: "vma_map vm = as @ m # bs" by (meson split_list)
  have t: "tiles 0 (as @ m # bs) MAX_ADDRESS" and okv: "list_all (vma_ok e) (as @ m # bs)"
    and nf: "successively not_both_free (as @ m # bs)" using s by (simp_all add: space_ok_def x)
  have "inside m target" using m(3,4) sz by (simp add: inside_def)
  then have mt: "area_at m target = Backed ReadWrite st ptr" using view_inside [OF t] at by (simp add: x)
  then have m': "vma_type m = BackingMemory" "permissions m = ReadWrite" "meminfo_state m = st"
    by (auto simp: area_at_def split: VMAType.splits)
  have okm: "vma_ok e (with_perms perms m)" using okv m'(1) by (simp add: vma_ok_def with_perms_def)
  have same: "vma_base (with_perms perms m) = vma_base m" "vma_size (with_perms perms m) = vma_size m"
    by (simp_all add: with_perms_def)
  have free: "successively not_both_free as" "successively not_both_free bs"
    using nf by (auto simp: successively_append_iff successively_Cons)
  have okr: "list_all (vma_ok e) (as @ bs)" using okv by simp
  obtain as' n bs' ms' where n:
    "modify_vma env (with_perms perms) (vma_base m) (vm, ms) = Some (vma_base n, vm\<lparr>vma_map := as' @ n # bs'\<rparr>, ms')"
    "space_ok e (as' @ n # bs')"
    "\<forall>a < 2 ^ 32. view (as' @ n # bs') a = (if inside m a then area_at (with_perms perms m) a else view (as @ m # bs) a)"
    "in_sync (as @ m # bs) ms (page_table vm) \<longrightarrow> in_sync (as' @ n # bs') ms' (page_table vm)"
    by (rule modify_vma_spec [where f = "with_perms perms", OF t e okr okm same free r x]) (rule that; assumption)
  have in_m: "view (as @ m # bs) a = Backed ReadWrite st (GetPtr (backing_memory m) + (a - vma_base m))"
    "area_at (with_perms perms m) a = Backed perms st (GetPtr (backing_memory m) + (a - vma_base m))" if "inside m a" for a
    using view_inside [OF t that] m' by (simp_all add: area_at_def with_perms_def)
  have eff: "reprotected st perms (view (vma_map vm) a) (view (as' @ n # bs') a)"
    "target \<le> a \<Longrightarrow> a < target + sz \<Longrightarrow> view (as' @ n # bs') a = with_perms_at perms (view (vma_map vm) a)"
    if "a < 2 ^ 32" for a
  proof -
    show "reprotected st perms (view (vma_map vm) a) (view (as' @ n # bs') a)"
      using n(3) that in_m [of a] by (cases "inside m a") (auto simp: reprotected_def x)
    show "view (as' @ n # bs') a = with_perms_at perms (view (vma_map vm) a)" if "target \<le> a" "a < target + sz"
    proof -
      have "inside m a" using that m(3,4) by (simp add: inside_def)
      then show ?thesis using n(3) \<open>a < 2 ^ 32\<close> in_m [of a] by (simp add: x)
    qed
  qed
  have "region_ptr ms' = region_ptr ms" by (rule modify_vma_region_ptr [OF n(1) r])
  with n(1,2,4) i e l m(2) eff show ?thesis
    by (intro exI [of _ "vma_base n"] exI [of _ "as' @ n # bs'"] exI [of _ ms']) (simp add: Reprotect_def vm_ok_def x)
qed

lemma MapBackingMemory_region_ptr:
  assumes "MapBackingMemory env target r sz st (vm, ms) = Some (res, vm', ms')" "rasterizer_ok env"
  shows "region_ptr ms' = region_ptr ms"
proof -
  have "CarveVMA target sz (vma_map vm) \<bind>
      case_sum (\<lambda>x. Some (Inl x, vm, ms))
        (\<lambda>(k, xs). at_key k xs \<bind> (\<lambda>final_vma. if vma_size final_vma = sz
          then modify_vma env (to_backing r st) k (vm\<lparr>vma_map := xs\<rparr>, ms) \<bind> (\<lambda>(k', s). Some (Inr k', s))
          else None)) = Some (res, vm', ms')"
    using assms(1) by (simp add: MapBackingMemory_def split: if_splits)
  then obtain c where c: "case_sum (\<lambda>x. Some (Inl x, vm, ms))
        (\<lambda>(k, xs). at_key k xs \<bind> (\<lambda>final_vma. if vma_size final_vma = sz
          then modify_vma env (to_backing r st) k (vm\<lparr>vma_map := xs\<rparr>, ms) \<bind> (\<lambda>(k', s). Some (Inr k', s))
          else None)) c = Some (res, vm', ms')"
    unfolding bind_eq_Some_conv by blast
  show ?thesis
  proof (cases c)
    case (Inr q)
    obtain k xs where q: "q = (k, xs)" by (cases q)
    have "\<exists>f k' w. modify_vma env f k (vm\<lparr>vma_map := xs\<rparr>, ms) = Some (k', w, ms')"
      using c Inr q by (auto simp: bind_eq_Some_conv split: if_splits)
    then show ?thesis using modify_vma_region_ptr assms(2) by blast
  qed (use c in simp)
qed

text \<open>What is at each address when \<open>n\<close> bytes from \<open>ptr\<close> on are mapped: the rest keeps all but permissions.\<close>

definition mapped_as ::
  "nat \<Rightarrow> nat list \<Rightarrow> MemoryState \<Rightarrow> VMAPermission \<Rightarrow> (nat \<Rightarrow> area) \<Rightarrow> (nat \<Rightarrow> area) \<Rightarrow> bool" where
  "mapped_as target ptrs st perms V W \<longleftrightarrow>
     (\<forall>a. if target \<le> a \<and> a < target + length ptrs then W a = Backed perms st (ptrs ! (a - target))
          else reprotected st perms (V a) (W a))"

lemma reprotected_refl [simp]: "reprotected st perms x x"
  by (simp add: reprotected_def)

lemma reprotected_trans: "reprotected st perms x y \<Longrightarrow> reprotected st perms y z \<Longrightarrow> reprotected st perms x z"
  by (auto simp: reprotected_def)

lemma reprotected_done: "reprotected st perms (Backed perms st ptr) y \<Longrightarrow> y = Backed perms st ptr"
  by (auto simp: reprotected_def)

lemma mapped_as_Nil [simp]: "mapped_as target [] st perms V V"
  by (auto simp: mapped_as_def)

lemma mapped_as_append:
  assumes "mapped_as target ps st perms U V" "mapped_as (target + length ps) qs st perms V W"
  shows "mapped_as target (ps @ qs) st perms U W"
  unfolding mapped_as_def
proof
  fix a
  have u: "if target \<le> a \<and> a < target + length ps then V a = Backed perms st (ps ! (a - target))
      else reprotected st perms (U a) (V a)" using assms(1) by (simp add: mapped_as_def)
  have v: "if target + length ps \<le> a \<and> a < target + length ps + length qs
      then W a = Backed perms st (qs ! (a - (target + length ps))) else reprotected st perms (V a) (W a)"
    using assms(2) by (simp add: mapped_as_def)
  consider "a < target" | "target \<le> a" "a < target + length ps"
    | "target + length ps \<le> a" "a < target + length ps + length qs" | "target + length ps + length qs \<le> a" by linarith
  then show "if target \<le> a \<and> a < target + length (ps @ qs) then W a = Backed perms st ((ps @ qs) ! (a - target))
      else reprotected st perms (U a) (W a)"
  proof cases
    case 2
    then have "V a = Backed perms st (ps ! (a - target))" "reprotected st perms (V a) (W a)" using u v by simp_all
    then show ?thesis using 2 reprotected_done by (auto simp: nth_append)
  next
    case 3
    then have "\<not> a - target < length ps" "a - target - length ps = a - (target + length ps)" by arith+
    then show ?thesis using 3 v by (simp add: nth_append)
  qed (use u v reprotected_trans in \<open>auto split: if_splits\<close>)
qed

lemma map_protected_run:
  assumes ok: "vm_ok e (vm, ms)" and r: "rasterizer_ok env" and p: "page_range target sz"
    and free: "all_free target sz (vma_map vm)" and ref: "ref_ok e r sz" and l: "\<not> is_locked vm"
  shows "\<exists>ys ms'. map_protected env target r sz st perms (vm, ms) = Some (vm\<lparr>vma_map := ys\<rparr>, ms') \<and>
    vm_ok e (vm\<lparr>vma_map := ys\<rparr>, ms') \<and> region_ptr ms' = region_ptr ms \<and>
    mapped_as target [GetPtr r..<GetPtr r + sz] st perms (view (vma_map vm)) (view ys)"
proof -
  have sz: "0 < sz" "target + sz \<le> MAX_ADDRESS" using p by (simp_all add: page_range_def)
  from MapBackingMemory_run [OF assms, of st] obtain k ys1 ms1 where 1:
    "MapBackingMemory env target r sz st (vm, ms) = Some (Inr k, vm\<lparr>vma_map := ys1\<rparr>, ms1)"
    "places target sz (backed ReadWrite st (GetPtr r)) (vma_map vm) ys1" "vm_ok e (vm\<lparr>vma_map := ys1\<rparr>, ms1)"
    "covered_by k target sz ys1" by blast
  have s: "space_ok e (vma_map vm)" "space_ok e ys1" using ok 1(3) by (simp_all add: vm_ok_def)
  have v1: "view ys1 a = (if target \<le> a \<and> a < target + sz then Backed ReadWrite st (GetPtr r + (a - target)) else view (vma_map vm) a)" for a
    using places_view [OF 1(2) s sz(2)] by (simp add: backed_def)
  have at: "view ys1 target = Backed ReadWrite st (GetPtr r)" using sz by (simp add: v1)
  from Reprotect_run [OF 1(3) r, of k target sz st "GetPtr r" perms] 1(4) at l sz(1) obtain k' ys2 ms2 where 2:
    "Reprotect env perms k (vm\<lparr>vma_map := ys1\<rparr>, ms1) = Some (k', vm\<lparr>vma_map := ys2\<rparr>, ms2)"
    "vm_ok e (vm\<lparr>vma_map := ys2\<rparr>, ms2)" "region_ptr ms2 = region_ptr ms1"
    "\<forall>a < 2 ^ 32. reprotected st perms (view ys1 a) (view ys2 a) \<and>
       (target \<le> a \<and> a < target + sz \<longrightarrow> view ys2 a = with_perms_at perms (view ys1 a))" by auto
  have s2: "space_ok e ys2" using 2(2) by (simp add: vm_ok_def)
  have "mapped_as target [GetPtr r..<GetPtr r + sz] st perms (view (vma_map vm)) (view ys2)"
    unfolding mapped_as_def
  proof
    fix a
    show "if target \<le> a \<and> a < target + length [GetPtr r..<GetPtr r + sz]
      then view ys2 a = Backed perms st ([GetPtr r..<GetPtr r + sz] ! (a - target))
      else reprotected st perms (view (vma_map vm) a) (view ys2 a)"
    proof (cases "a < 2 ^ 32")
      case True
      then show ?thesis using 2(4) [rule_format, OF True] v1 [of a] by (auto simp: less_diff_conv2)
    next
      case False
      then have "MAX_ADDRESS \<le> a" by (simp add: MAX_ADDRESS_def)
      then show ?thesis using view_above [OF s(1)] view_above [OF s2] sz(2) by auto
    qed
  qed
  with 1(1) 2(1-3) MapBackingMemory_region_ptr [OF 1(1) r] show ?thesis
    by (intro exI [of _ ys2] exI [of _ ms2]) (simp add: map_protected_def)
qed

text \<open>FCRAM is one block of host memory.\<close>

definition fcram_ok :: "(nat \<Rightarrow> nat) \<Rightarrow> nat \<Rightarrow> bool" where
  "fcram_ok e fc \<longleftrightarrow> 0 < fc \<and> (\<forall>i < FCRAM_N3DS_SIZE. e (fc + i) = fc + FCRAM_N3DS_SIZE)"

lemma store_simps [simp]:
  "region_ptr (store p bs ms) = region_ptr ms" "tables (store p bs ms) = tables ms"
  by (simp_all add: store_def)

lemma vm_ok_store [simp]: "vm_ok e (vm, store p bs ms) = vm_ok e (vm, ms)"
  by (simp add: vm_ok_def in_sync_def kind_at_def)

definition frames_of :: "interval_set \<Rightarrow> nat list" where
  "frames_of is = concat (map (\<lambda>(l, h). [l..<h]) is)"

definition page_intervals :: "interval_set \<Rightarrow> bool" where
  "page_intervals is \<longleftrightarrow> (\<forall>(l, h) \<in> set is. page_aligned l \<and> page_aligned h)"

lemma frames_of_simps [simp]:
  "frames_of [] = []" "frames_of ((l, h) # is) = [l..<h] @ frames_of is" "set (frames_of is) = elems is"
  by (auto simp: frames_of_def elems_def)

lemma map_block_run:
  assumes ok: "vm_ok e (vm, ms)" and r: "rasterizer_ok env" and fc: "fcram_ok e (region_ptr ms FCRAM)"
    and i: "l < h" "h \<le> FCRAM_N3DS_SIZE" "page_aligned l" "page_aligned h"
    and t: "page_aligned target" "target + (h - l) \<le> MAX_ADDRESS"
    and free: "all_free target (h - l) (vma_map vm)" and lk: "\<not> is_locked vm"
  shows "\<exists>ys ms'. map_block env st perms target (l, h) (vm, ms) = Some (vm\<lparr>vma_map := ys\<rparr>, ms') \<and>
    vm_ok e (vm\<lparr>vma_map := ys\<rparr>, ms') \<and> region_ptr ms' = region_ptr ms \<and>
    mapped_as target (map ((+) (region_ptr ms FCRAM)) [l..<h]) st perms (view (vma_map vm)) (view ys)"
proof -
  let ?fc = "region_ptr ms FCRAM"
  obtain ms1 where ms1: "fill_zero l h ms = Some ms1" "region_ptr ms1 = region_ptr ms" "vm_ok e (vm, ms1)"
    using i ok by (simp add: fill_zero_def GetFCRAMPointer_def)
  let ?r = "\<lparr>GetPtr = ?fc + l, ref_size = FCRAM_N3DS_SIZE - l\<rparr>"
  have ref: "GetFCRAMRef l ms1 = Some ?r" using i ms1(2) by (simp add: GetFCRAMRef_def region_ref_def GetSize_def)
  have "e (?fc + l) = ?fc + FCRAM_N3DS_SIZE" using fc i by (simp add: fcram_ok_def)
  then have rok: "ref_ok e ?r (h - l)" using fc i by (simp add: ref_ok_def fcram_ok_def)
  have "page_aligned (h - l)" using i(1,3,4) by (auto simp: page_aligned_def mod_eq_0_iff_dvd)
  then have p: "page_range target (h - l)" using t i(1) by (simp add: page_range_def)
  have upt: "[?fc + l..<?fc + l + (h - l)] = map ((+) ?fc) [l..<h]"
    using i(1) by (intro nth_equalityI) simp_all
  from map_protected_run [OF ms1(3) r p free rok lk, of st perms] obtain ys ms' where
    "map_protected env target ?r (h - l) st perms (vm, ms1) = Some (vm\<lparr>vma_map := ys\<rparr>, ms')"
    "vm_ok e (vm\<lparr>vma_map := ys\<rparr>, ms')" "region_ptr ms' = region_ptr ms1"
    "mapped_as target [?fc + l..<?fc + l + (h - l)] st perms (view (vma_map vm)) (view ys)" by auto
  with ms1(1,2) ref show ?thesis unfolding upt by (intro exI [of _ ys] exI [of _ ms']) (simp add: map_block_def)
qed

lemma map_blocks_run:
  assumes "vm_ok e (vm, ms)" "rasterizer_ok env" "fcram_ok e (region_ptr ms FCRAM)"
    "\<forall>(l, h) \<in> set is. l < h \<and> h \<le> FCRAM_N3DS_SIZE" "page_intervals is"
    "page_aligned target" "target + length (frames_of is) \<le> MAX_ADDRESS"
    "all_free target (length (frames_of is)) (vma_map vm)" "\<not> is_locked vm"
  shows "\<exists>ys ms'. map_blocks env st perms target is (vm, ms) = Some (vm\<lparr>vma_map := ys\<rparr>, ms') \<and>
    vm_ok e (vm\<lparr>vma_map := ys\<rparr>, ms') \<and> region_ptr ms' = region_ptr ms \<and>
    mapped_as target (map ((+) (region_ptr ms FCRAM)) (frames_of is)) st perms (view (vma_map vm)) (view ys)"
  using assms
proof (induction "is" arbitrary: target vm ms)
  case Nil
  then show ?case by (intro exI [of _ "vma_map vm"] exI [of _ ms]) simp
next
  case (Cons i "is")
  obtain l h where i: "i = (l, h)" by (cases i)
  have lh: "l < h" "h \<le> FCRAM_N3DS_SIZE" "page_aligned l" "page_aligned h"
    using Cons.prems(4,5) by (auto simp: i page_intervals_def)
  have len: "length (frames_of (i # is)) = (h - l) + length (frames_of is)" by (simp add: i)
  have b: "target + (h - l) \<le> MAX_ADDRESS" "all_free target (h - l) (vma_map vm)"
    using Cons.prems(7,8) len by (auto simp: all_free_def)
  from map_block_run [OF Cons.prems(1-3) lh Cons.prems(6) b Cons.prems(9), of st perms] obtain ys1 ms1 where 1:
    "map_block env st perms target (l, h) (vm, ms) = Some (vm\<lparr>vma_map := ys1\<rparr>, ms1)"
    "vm_ok e (vm\<lparr>vma_map := ys1\<rparr>, ms1)" "region_ptr ms1 = region_ptr ms"
    "mapped_as target (map ((+) (region_ptr ms FCRAM)) [l..<h]) st perms (view (vma_map vm)) (view ys1)" by blast
  let ?t = "target + (h - l)"
  have t: "add32 target (h - l) = ?t" using b(1) by (intro add32_id) (simp add: MAX_ADDRESS_def)
  have "page_aligned ?t" using Cons.prems(6) lh by (auto simp: page_aligned_def mod_eq_0_iff_dvd)
  moreover have "all_free ?t (length (frames_of is)) ys1"
    unfolding all_free_def
  proof
    fix a assume a: "a \<in> {?t..<?t + length (frames_of is)}"
    then have "view (vma_map vm) a = Free_area" using Cons.prems(8) len by (auto simp: all_free_def)
    moreover have "reprotected st perms (view (vma_map vm) a) (view ys1 a)"
      using 1(4) a unfolding mapped_as_def by (auto dest: spec [of _ a])
    ultimately show "view ys1 a = Free_area" by (simp add: reprotected_def)
  qed
  ultimately obtain ys2 ms2 where 2: "map_blocks env st perms ?t is (vm\<lparr>vma_map := ys1\<rparr>, ms1) = Some (vm\<lparr>vma_map := ys2\<rparr>, ms2)"
    "vm_ok e (vm\<lparr>vma_map := ys2\<rparr>, ms2)" "region_ptr ms2 = region_ptr ms1"
    "mapped_as ?t (map ((+) (region_ptr ms1 FCRAM)) (frames_of is)) st perms (view ys1) (view ys2)"
    using Cons.IH [of "vm\<lparr>vma_map := ys1\<rparr>" ms1 ?t] Cons.prems 1(2,3) len by (auto simp: page_intervals_def)
  have "mapped_as target (map ((+) (region_ptr ms FCRAM)) ([l..<h] @ frames_of is)) st perms (view (vma_map vm)) (view ys2)"
    using mapped_as_append [OF 1(4), of "map ((+) (region_ptr ms1 FCRAM)) (frames_of is)"] 2(4) 1(3) by simp
  with 1 2 t show ?case by (intro exI [of _ ys2] exI [of _ ms2]) (simp add: i)
qed

end
