(* ===== verification/ProcessHeaps.thy ===== *)
theory ProcessHeaps
  imports ProcessMemory
begin

text \<open>
  What the memory operations of a process keep: which frames of its region its addresses stand for. A frame
  that an address stands for is not free in the region, no two addresses stand for the same frame, the heap
  is made of such frames, and in the linear heap the address says which frame it is.
\<close>

section \<open>Whole pages of a region\<close>

definition page_set :: "nat set \<Rightarrow> bool" where
  "page_set S \<longleftrightarrow> (\<forall>x. x \<in> S \<longleftrightarrow> x div CITRA_PAGE_SIZE * CITRA_PAGE_SIZE \<in> S)"

lemma page_set_ops:
  "page_set S \<Longrightarrow> page_set T \<Longrightarrow> page_set (S \<union> T)" "page_set S \<Longrightarrow> page_set T \<Longrightarrow> page_set (S - T)"
  unfolding page_set_def by blast+

lemma page_set_piece: "page_aligned l \<Longrightarrow> page_aligned h \<Longrightarrow> page_set {l..<h}"
  by (auto simp: page_set_def page_aligned_def CITRA_PAGE_SIZE_def)

lemma page_set_intervals: "page_intervals s \<Longrightarrow> page_set (elems s)"
proof (induction s)
  case Nil
  then show ?case by (simp add: page_set_def)
next
  case (Cons i s)
  then show ?case by (cases i) (auto simp: page_intervals_def intro: page_set_ops page_set_piece)
qed

text \<open>The intervals of a set are maximal, so those of whole pages end at pages.\<close>

lemma gap_before:
  "iset_ok s \<Longrightarrow> (l, h) \<in> set s \<Longrightarrow> 0 < l \<Longrightarrow> l - 1 \<notin> elems s"
  "iset_ok s \<Longrightarrow> (l, h) \<in> set s \<Longrightarrow> h \<notin> elems s"
proof -
  assume "iset_ok s" "(l, h) \<in> set s"
  then obtain as bs where s: "s = as @ (l, h) # bs" by (meson split_list)
  have o: "\<forall>p \<in> set as. snd p < l" "\<forall>p \<in> set bs. h < fst p" "l < h"
    using \<open>iset_ok s\<close> by (auto simp: s iset_ok_append iset_ok_Cons)
  show "h \<notin> elems s" using o by (fastforce simp: s elems_def)
  show "l - 1 \<notin> elems s" if "0 < l" using o that by (fastforce simp: s elems_def)
qed

lemma interval_pages: "iset_ok s \<Longrightarrow> page_set (elems s) \<Longrightarrow> page_intervals s"
  unfolding page_intervals_def
proof (clarify)
  fix l h assume ok: "iset_ok s" and p: "page_set (elems s)" and m: "(l, h) \<in> set s"
  have lh: "l < h" "{l..<h} \<subseteq> elems s" using iset_ok_mem [OF ok m] m by (auto simp: elems_def)
  let ?fl = "\<lambda>x :: nat. x div 0x1000 * 0x1000"
  have fl: "x \<in> elems s \<longleftrightarrow> ?fl x \<in> elems s" for x using p by (simp add: page_set_def CITRA_PAGE_SIZE_def)
  have "l mod 0x1000 = 0"
  proof (rule ccontr)
    assume n: "l mod 0x1000 \<noteq> 0"
    then obtain m where m': "l = Suc m" by (cases l) simp_all
    then have "?fl (l - 1) = ?fl l" "0 < l" using n by (simp_all add: div_Suc)
    then show False using fl [of l] fl [of "l - 1"] gap_before(1) [OF ok m] lh by auto
  qed
  moreover have "h mod 0x1000 = 0"
  proof (rule ccontr)
    assume n: "h mod 0x1000 \<noteq> 0"
    then obtain m where m': "h = Suc m" by (cases h) simp_all
    then have "?fl (h - 1) = ?fl h" "h - 1 \<in> {l..<h}" using n lh(1) by (simp_all add: div_Suc)
    then show False using fl [of h] fl [of "h - 1"] gap_before(2) [OF ok m] lh(2) by auto
  qed
  ultimately show "page_aligned l \<and> page_aligned h" by (simp add: page_aligned_def CITRA_PAGE_SIZE_def)
qed

lemma page_intervals_insert:
  "page_aligned a \<Longrightarrow> page_aligned b \<Longrightarrow> page_intervals s \<Longrightarrow> page_intervals (insert_joined a b s)"
proof (induction a b s rule: insert_joined.induct)
  case (2 a b l h s)
  then show ?case by (auto simp: page_intervals_def min_def max_def)
qed (simp add: page_intervals_def)

lemma page_intervals_take:
  "page_intervals bs \<Longrightarrow> page_intervals r \<Longrightarrow> page_aligned n \<Longrightarrow> page_intervals (fst (take_high bs n r))"
proof (induction bs n r rule: take_high.induct)
  case (2 l h bs rest result)
  have lh: "page_aligned l" "page_aligned h" "page_intervals bs" using 2(2) by (auto simp: page_intervals_def)
  have d: "page_aligned (x - y)" if "page_aligned x" "page_aligned y" for x y
    using that by (cases "y \<le> x") (auto simp: page_aligned_def mod_eq_0_iff_dvd)
  show ?case using 2(1,3,4) lh d by (simp add: iset_add_def page_intervals_insert)
qed simp

lemma HeapAllocate_pages:
  assumes "HeapAllocate n r = Some (res, r')" "region_inv r" "page_set (avail r)" "page_aligned n"
  shows "page_intervals res"
proof -
  have p: "page_intervals (rev (free_blocks r))" "page_intervals []"
    using interval_pages [of "free_blocks r"] assms(2,3) by (simp_all add: region_inv_def avail_def page_intervals_def)
  show ?thesis using page_intervals_take [OF p assms(4)] assms(1)
    by (auto simp: MemoryRegion.HeapAllocate_def Let_def case_prod_unfold page_intervals_def split: if_splits)
qed

lemma region_shape:
  "HeapAllocate n r = Some (res, r') \<Longrightarrow> rg_base r' = rg_base r \<and> rg_size r' = rg_size r"
  "LinearAllocate n r = Some (off, r') \<Longrightarrow> rg_base r' = rg_base r \<and> rg_size r' = rg_size r"
  "LinearAllocate_at a n r = Some (b, r') \<Longrightarrow> rg_base r' = rg_base r \<and> rg_size r' = rg_size r"
  "MemoryRegion.Free a n r = Some r' \<Longrightarrow> rg_base r' = rg_base r \<and> rg_size r' = rg_size r"
  by (auto simp: HeapAllocate_def LinearAllocate_def LinearAllocate_at_def MemoryRegion.Free_def Let_def
      split: if_splits option.splits prod.splits)

section \<open>The frames that a process holds\<close>

definition frame_at :: "nat \<Rightarrow> nat set \<Rightarrow> area \<Rightarrow> nat option" where
  "frame_at fc F x = (case x of Backed _ _ ptr \<Rightarrow> if fc \<le> ptr \<and> ptr - fc \<in> F then Some (ptr - fc) else None | _ \<Rightarrow> None)"

definition owned :: "nat \<Rightarrow> nat set \<Rightarrow> (nat \<Rightarrow> area) \<Rightarrow> nat set" where
  "owned fc F V = {a. frame_at fc F (V a) \<noteq> None}"

definition same_page :: "nat \<Rightarrow> nat \<Rightarrow> bool" where
  "same_page a b \<longleftrightarrow> a div CITRA_PAGE_SIZE = b div CITRA_PAGE_SIZE"

definition holds ::
  "nat \<Rightarrow> nat \<Rightarrow> nat set \<Rightarrow> nat set \<Rightarrow> nat set \<Rightarrow> (nat \<Rightarrow> area) \<Rightarrow> nat \<Rightarrow> bool" where
  "holds fc area F L A V used \<longleftrightarrow>
     (\<forall>a f. frame_at fc F (V a) = Some f \<longrightarrow> f \<notin> A \<and>
        (\<forall>b. same_page a b \<longrightarrow> frame_at fc F (V b) = Some (f div CITRA_PAGE_SIZE * CITRA_PAGE_SIZE + b mod CITRA_PAGE_SIZE))) \<and>
     (\<forall>a b f. frame_at fc F (V a) = Some f \<and> frame_at fc F (V b) = Some f \<longrightarrow> a = b) \<and>
     (\<forall>a. HEAP_VADDR \<le> a \<and> a < HEAP_VADDR_END \<and> is_backed (V a) \<longrightarrow> a \<in> owned fc F V) \<and>
     (\<forall>a \<in> L. V a \<noteq> Free_area \<longrightarrow> frame_at fc F (V a) = Some (a - area)) \<and>
     finite (owned fc F V) \<and> used = card (owned fc F V)"

lemma reprotected_frame:
  "reprotected st perms x y \<Longrightarrow> frame_at fc F y = frame_at fc F x \<and> is_backed y = is_backed x \<and> (y = Free_area \<longleftrightarrow> x = Free_area)"
  by (auto simp: reprotected_def frame_at_def is_backed_def)

lemma holds_same:
  assumes "holds fc area F L A V used"
    "\<forall>a. frame_at fc F (W a) = frame_at fc F (V a) \<and> is_backed (W a) = is_backed (V a) \<and> (W a = Free_area \<longleftrightarrow> V a = Free_area)"
  shows "holds fc area F L A W used"
proof -
  have "owned fc F W = owned fc F V" using assms(2) by (simp add: owned_def)
  with assms show ?thesis by (simp add: holds_def)
qed

lemma page_quotient: "page_aligned t \<Longrightarrow> t = CITRA_PAGE_SIZE * (t div CITRA_PAGE_SIZE)"
  by (simp add: page_aligned_def mod_eq_0_iff_dvd)

lemma same_page_le: "page_aligned t \<Longrightarrow> same_page a b \<Longrightarrow> t \<le> a \<longleftrightarrow> t \<le> b"
proof -
  assume t: "page_aligned t" and ab: "same_page a b"
  obtain q where q: "t = q * CITRA_PAGE_SIZE" using page_quotient [OF t] mult.commute by metis
  have "0 < CITRA_PAGE_SIZE" by (simp add: CITRA_PAGE_SIZE_def)
  then show ?thesis using ab unfolding q same_page_def by (metis less_eq_div_iff_mult_less_eq)
qed

lemma same_page_range:
  "page_aligned t \<Longrightarrow> page_aligned n \<Longrightarrow> same_page a b \<Longrightarrow> t \<le> a \<and> a < t + n \<longleftrightarrow> t \<le> b \<and> b < t + n"
  using same_page_le [of t a b] same_page_le [of "t + n" a b] by (auto simp: page_aligned_def not_le [symmetric] mod_add_eq [symmetric])

lemma same_page_offset:
  assumes "page_aligned t" "same_page a b" "t \<le> a" "t \<le> b"
  shows "(a - t) div CITRA_PAGE_SIZE = (b - t) div CITRA_PAGE_SIZE" "(b - t) mod CITRA_PAGE_SIZE = b mod CITRA_PAGE_SIZE"
proof -
  obtain q where q: "t = CITRA_PAGE_SIZE * q" using page_quotient [OF assms(1)] by blast
  have p: "0 < CITRA_PAGE_SIZE" by (simp add: CITRA_PAGE_SIZE_def)
  obtain i j where ij: "a = t + i" "b = t + j" using assms(3,4) by (meson le_Suc_ex)
  have "a div CITRA_PAGE_SIZE = q + i div CITRA_PAGE_SIZE" "b div CITRA_PAGE_SIZE = q + j div CITRA_PAGE_SIZE"
    "b mod CITRA_PAGE_SIZE = j mod CITRA_PAGE_SIZE" using p by (simp_all add: ij q)
  with assms(2) show "(a - t) div CITRA_PAGE_SIZE = (b - t) div CITRA_PAGE_SIZE" "(b - t) mod CITRA_PAGE_SIZE = b mod CITRA_PAGE_SIZE"
    by (simp_all add: ij same_page_def)
qed

text \<open>A list of frames page by page.\<close>

definition by_pages :: "nat list \<Rightarrow> bool" where
  "by_pages fs \<longleftrightarrow> (\<forall>i < length fs.
     fs ! i = fs ! (i div CITRA_PAGE_SIZE * CITRA_PAGE_SIZE) + i mod CITRA_PAGE_SIZE \<and>
     fs ! (i div CITRA_PAGE_SIZE * CITRA_PAGE_SIZE) mod CITRA_PAGE_SIZE = 0)"

lemma holds_take:
  assumes h: "holds fc area F L A V used" and m: "mapped_as target (map ((+) fc) fs) st perms V W"
    and free: "\<forall>a. target \<le> a \<and> a < target + length fs \<longrightarrow> V a = Free_area"
    and fs: "distinct fs" "set fs \<subseteq> A" "A \<subseteq> F"
    and al: "page_aligned target" "page_aligned (length fs)" "by_pages fs"
    and lin: "\<forall>i < length fs. target + i \<in> L \<longrightarrow> fs ! i = target + i - area"
  shows "holds fc area F L (A - set fs) W (used + length fs)"
proof -
  let ?R = "\<lambda>a. target \<le> a \<and> a < target + length fs"
  have into: "frame_at fc F (W a) = Some (fs ! (a - target))" "W a \<noteq> Free_area" "fs ! (a - target) \<in> set fs" if "?R a" for a
  proof -
    have *: "W a = Backed perms st (fc + fs ! (a - target))" using m that by (auto simp: mapped_as_def dest: spec [of _ a])
    show "fs ! (a - target) \<in> set fs" using that by (intro nth_mem) linarith
    with * fs(2,3) show "frame_at fc F (W a) = Some (fs ! (a - target))" "W a \<noteq> Free_area" by (auto simp: frame_at_def)
  qed
  have out: "frame_at fc F (W a) = frame_at fc F (V a)" "is_backed (W a) = is_backed (V a)"
    "W a = Free_area \<longleftrightarrow> V a = Free_area" if "\<not> ?R a" for a
  proof -
    have "reprotected st perms (V a) (W a)" using m that by (auto simp: mapped_as_def dest: spec [of _ a])
    then show "frame_at fc F (W a) = frame_at fc F (V a)" "is_backed (W a) = is_backed (V a)"
      "W a = Free_area \<longleftrightarrow> V a = Free_area" using reprotected_frame by blast+
  qed
  have o: "owned fc F W = owned fc F V \<union> {target..<target + length fs}"
  proof (intro set_eqI)
    fix a show "a \<in> owned fc F W \<longleftrightarrow> a \<in> owned fc F V \<union> {target..<target + length fs}"
      using into(1) [of a] out(1) [of a] by (cases "?R a") (auto simp: owned_def)
  qed
  have none: "frame_at fc F (V a) = None" if "?R a" for a using free that by (simp add: frame_at_def)
  then have "owned fc F V \<inter> {target..<target + length fs} = {}" by (auto simp: owned_def)
  then have card: "card (owned fc F W) = used + length fs" "finite (owned fc F W)"
    using h by (simp_all add: o card_Un_disjoint holds_def)
  have at: "f \<notin> A - set fs" if "frame_at fc F (W a) = Some f" for a f
    using that h into [of a] out [of a] by (cases "?R a") (auto simp: holds_def)
  have page: "frame_at fc F (W b) = Some (f div CITRA_PAGE_SIZE * CITRA_PAGE_SIZE + b mod CITRA_PAGE_SIZE)"
    if f: "frame_at fc F (W a) = Some f" and ab: "same_page a b" for a b f
  proof (cases "?R a")
    case True
    then have b: "?R b" using same_page_range [OF al(1,2) ab] by simp
    let ?i = "a - target" and ?j = "b - target" and ?P = CITRA_PAGE_SIZE
    have ij: "?i < length fs" "?j < length fs" using True b by arith+
    have o: "?i div ?P = ?j div ?P" "?j mod ?P = b mod ?P" using same_page_offset [OF al(1) ab] True b by simp_all
    let ?s = "fs ! (?i div ?P * ?P)"
    have "fs ! ?i = ?s + ?i mod ?P" "fs ! ?j = ?s + ?j mod ?P" "?s mod ?P = 0"
      using al(3) ij o(1) unfolding by_pages_def by metis+
    moreover have "f = fs ! ?i" using into(1) [OF True] f by simp
    moreover have "x div ?P * ?P = ?s" if "x = ?s + ?i mod ?P" "?s mod ?P = 0" for x
      using that by (auto simp: CITRA_PAGE_SIZE_def mod_eq_0_iff_dvd elim!: dvdE)
    ultimately show ?thesis using into(1) [OF b] o(2) by simp
  next
    case False
    then have "\<not> ?R b" using same_page_range [OF al(1,2) ab] by simp
    then show ?thesis using out [OF False] out f h ab by (simp add: holds_def)
  qed
  have inj: "a = b" if "frame_at fc F (W a) = Some f" "frame_at fc F (W b) = Some f" for a b f
  proof -
    have old: "f \<notin> set fs" if "frame_at fc F (V c) = Some f" for c using that h fs(2) by (auto simp: holds_def)
    show ?thesis
    proof (cases "?R a"; cases "?R b")
      assume "?R a" "?R b"
      then have "fs ! (a - target) = fs ! (b - target)" "a - target < length fs" "b - target < length fs"
        using into(1) that by (simp, arith, arith)
      then have "a - target = b - target" using fs(1) by (simp add: nth_eq_iff_index_eq)
      then show ?thesis using \<open>?R a\<close> \<open>?R b\<close> by arith
    next
      assume "?R a" "\<not> ?R b" then show ?thesis using into [of a] out [of b] old [of b] that by auto
    next
      assume "\<not> ?R a" "?R b" then show ?thesis using into [of b] out [of a] old [of a] that by auto
    next
      assume "\<not> ?R a" "\<not> ?R b" then show ?thesis using out that h by (auto simp: holds_def)
    qed
  qed
  have heap: "a \<in> owned fc F W" if "HEAP_VADDR \<le> a" "a < HEAP_VADDR_END" "is_backed (W a)" for a
  proof (cases "?R a")
    case True then show ?thesis by (simp add: o)
  next
    case False then show ?thesis using out(2) [OF False] that h by (simp add: o holds_def)
  qed
  have linear: "frame_at fc F (W a) = Some (a - area)" if "a \<in> L" "W a \<noteq> Free_area" for a
  proof (cases "?R a")
    case True
    then have "a - target < length fs" "target + (a - target) = a" by arith+
    then show ?thesis using lin [rule_format, of "a - target"] that(1) into(1) [OF True] by simp
  next
    case False then show ?thesis using out [OF False] that h by (simp add: holds_def)
  qed
  show ?thesis unfolding holds_def
  proof (intro conjI allI ballI impI)
    fix a b f assume "frame_at fc F (W a) = Some f \<and> frame_at fc F (W b) = Some f"
    then show "a = b" using inj by blast
  qed (use at page heap linear card in auto)
qed

lemma holds_give:
  assumes h: "holds fc area F L A V used" and own: "{target..<target + n} \<subseteq> owned fc F V"
    and al: "page_aligned target" "page_aligned n"
  shows "holds fc area F L (A \<union> {f. \<exists>a \<in> {target..<target + n}. frame_at fc F (V a) = Some f})
    (\<lambda>a. if target \<le> a \<and> a < target + n then Free_area else V a) (used - n)"
proof -
  let ?W = "\<lambda>a. if target \<le> a \<and> a < target + n then Free_area else V a"
  have o: "owned fc F ?W = owned fc F V - {target..<target + n}" by (auto simp: owned_def frame_at_def)
  have card: "card (owned fc F ?W) = used - n" "finite (owned fc F ?W)"
    using h own by (simp_all add: o card_Diff_subset holds_def)
  have at: "frame_at fc F (V a) = Some f \<and> a \<notin> {target..<target + n}" if "frame_at fc F (?W a) = Some f" for a f
    using that by (auto simp: frame_at_def split: if_splits)
  have inj: "a = b" if "frame_at fc F (V a) = Some f" "frame_at fc F (V b) = Some f" for a b f
    using h that by (auto simp: holds_def)
  show ?thesis unfolding holds_def
  proof (intro conjI allI ballI impI)
    fix a f assume "frame_at fc F (?W a) = Some f"
    then have fa: "frame_at fc F (V a) = Some f" "a \<notin> {target..<target + n}" using at by blast+
    have "f \<notin> {f. \<exists>a \<in> {target..<target + n}. frame_at fc F (V a) = Some f}" using inj [OF fa(1)] fa(2) by blast
    with fa(1) h show "f \<notin> A \<union> {f. \<exists>a \<in> {target..<target + n}. frame_at fc F (V a) = Some f}"
      by (auto simp: holds_def)
    fix b assume ab: "same_page a b"
    then have "\<not> (target \<le> b \<and> b < target + n)" using same_page_range [OF al ab] fa(2) by simp
    then have "?W b = V b" by auto
    with fa(1) h ab show "frame_at fc F (?W b) = Some (f div CITRA_PAGE_SIZE * CITRA_PAGE_SIZE + b mod CITRA_PAGE_SIZE)"
      by (simp add: holds_def)
  next
    fix a b f assume "frame_at fc F (?W a) = Some f \<and> frame_at fc F (?W b) = Some f"
    then show "a = b" using at inj by blast
  next
    fix a assume "HEAP_VADDR \<le> a \<and> a < HEAP_VADDR_END \<and> is_backed (?W a)"
    then show "a \<in> owned fc F ?W" using h by (auto simp: o holds_def is_backed_def split: if_splits)
  next
    fix a assume "a \<in> L" "?W a \<noteq> Free_area"
    then show "frame_at fc F (?W a) = Some (a - area)" using h by (auto simp: holds_def split: if_splits)
  qed (simp_all add: card)
qed

definition pm_ok :: "(nat \<Rightarrow> nat) \<Rightarrow> 'd pm_state \<Rightarrow> bool" where
  "pm_ok e = (\<lambda>(p, ms).
     vm_ok e (pm_vm p, ms) \<and> \<not> is_locked (pm_vm p) \<and> fcram_ok e (region_ptr ms FCRAM) \<and>
     region_inv (pm_region p) \<and> page_set (avail (pm_region p)) \<and>
     rg_base (pm_region p) + rg_size (pm_region p) \<le> FCRAM_N3DS_SIZE \<and>
     holds (region_ptr ms FCRAM) (GetLinearHeapAreaAddress p) (frames (pm_region p))
       {GetLinearHeapBase p..<GetLinearHeapLimit p} (avail (pm_region p)) (view (vma_map (pm_vm p))) (memory_used p))"

lemma linear_bounds:
  assumes "rg_base (pm_region p) + rg_size (pm_region p) \<le> FCRAM_N3DS_SIZE"
  shows "GetLinearHeapBase p = GetLinearHeapAreaAddress p + rg_base (pm_region p)"
    "GetLinearHeapLimit p = GetLinearHeapAreaAddress p + rg_base (pm_region p) + rg_size (pm_region p)"
    "HEAP_VADDR_END \<le> GetLinearHeapAreaAddress p" "GetLinearHeapAreaAddress p + FCRAM_N3DS_SIZE \<le> MAX_ADDRESS"
    "page_aligned (GetLinearHeapAreaAddress p)"
proof -
  have a: "HEAP_VADDR_END \<le> GetLinearHeapAreaAddress p" "GetLinearHeapAreaAddress p + FCRAM_N3DS_SIZE \<le> MAX_ADDRESS"
    "page_aligned (GetLinearHeapAreaAddress p)"
    by (simp_all add: GetLinearHeapAreaAddress_def memory_map HEAP_VADDR_END_def HEAP_VADDR_def HEAP_SIZE_def MAX_ADDRESS_def
        page_aligned_def)
  then show "HEAP_VADDR_END \<le> GetLinearHeapAreaAddress p" "GetLinearHeapAreaAddress p + FCRAM_N3DS_SIZE \<le> MAX_ADDRESS"
    "page_aligned (GetLinearHeapAreaAddress p)" by simp_all
  show b: "GetLinearHeapBase p = GetLinearHeapAreaAddress p + rg_base (pm_region p)"
    unfolding GetLinearHeapBase_def using a(2) assms by (intro add32_id) (simp add: MAX_ADDRESS_def)
  show "GetLinearHeapLimit p = GetLinearHeapAreaAddress p + rg_base (pm_region p) + rg_size (pm_region p)"
    unfolding GetLinearHeapLimit_def b using a(2) assms by (intro add32_id) (simp add: MAX_ADDRESS_def)
qed

lemma room_at_spec:
  assumes s: "space_ok e (vma_map vm)" and sz: "0 < sz" "target + sz \<le> MAX_ADDRESS"
  shows "room_at target sz vm = Some (all_free target sz (vma_map vm))"
proof -
  have lt: "target < MAX_ADDRESS" using sz by simp
  have t: "tiles 0 (vma_map vm) MAX_ADDRESS" using s by (simp add: space_ok_def)
  obtain as v bs where x: "vma_map vm = as @ v # bs" "vma_base v \<le> target" "target < vma_base v + vma_size v"
    by (rule tiles_find [OF t le0 [of target] lt]) (rule that; assumption)
  note t' = t [unfolded x(1)]
  have f: "FindVMA target (vma_map vm) = Some (Some (vma_base v))" "at_key (vma_base v) (vma_map vm) = Some v"
    using FindVMA_cut [OF t' x(2,3) lt] at_key_cut [OF t'] by (simp_all add: x(1))
  have "vma_base v + vma_size v \<le> MAX_ADDRESS" using tiles_bases [OF t, of v] x(1) by simp
  then have w: "add32 (vma_base v) (vma_size v) = vma_base v + vma_size v" "add32 target sz = target + sz"
    using sz(2) by (intro add32_id, simp add: MAX_ADDRESS_def)+
  have "vma_type v = VMAType.Free \<and> target + sz \<le> vma_base v + vma_size v \<longleftrightarrow> all_free target sz (vma_map vm)"
  proof
    assume *: "vma_type v = VMAType.Free \<and> target + sz \<le> vma_base v + vma_size v"
    show "all_free target sz (vma_map vm)" unfolding all_free_def
    proof
      fix a assume "a \<in> {target..<target + sz}"
      then have "inside v a" using * x(2) by (simp add: inside_def)
      then show "view (vma_map vm) a = Free_area" using view_inside [OF t'] * by (simp add: x(1) view_Free_iff)
    qed
  next
    assume fr: "all_free target sz (vma_map vm)"
    obtain as' u bs' where u: "vma_map vm = as' @ u # bs'" "FindVMA target (vma_map vm) = Some (Some (vma_base u))"
      "vma_type u = VMAType.Free" "vma_base u \<le> target" "target + sz \<le> vma_base u + vma_size u"
      by (rule freed_room [OF s lt sz fr]) (rule that; assumption)
    have k: "vma_base u = vma_base v" using u(2) f(1) by simp
    have "at_key (vma_base u) (vma_map vm) = Some u" unfolding u(1) by (rule at_key_cut [OF t [unfolded u(1)]])
    then have "u = v" using f(2) unfolding k by simp
    with u(3,5) show "vma_type v = VMAType.Free \<and> target + sz \<le> vma_base v + vma_size v" by simp
  qed
  then show ?thesis using f w by (auto simp: room_at_def)
qed

lemma frames_of_sorted: "iset_ok is \<Longrightarrow> sorted_wrt (<) (frames_of is)"
proof (induction "is")
  case (Cons i "is")
  obtain l h where i: "i = (l, h)" by (cases i)
  have "\<forall>x \<in> elems is. h < x" using Cons.prems elems_above by (auto simp: i iset_ok_Cons)
  then show ?case using Cons by (auto simp: i iset_ok_Cons sorted_wrt_append)
qed simp

lemma frames_of_card:
  assumes "iset_ok is"
  shows "distinct (frames_of is)" "length (frames_of is) = card (elems is)"
proof -
  show "distinct (frames_of is)" using frames_of_sorted [OF assms] by (simp add: strict_sorted_iff)
  then show "length (frames_of is) = card (elems is)" using distinct_card [of "frames_of is"] by simp
qed

lemma by_pages_append:
  assumes "by_pages fs" "by_pages gs" "page_aligned (length fs)"
  shows "by_pages (fs @ gs)"
  unfolding by_pages_def
proof (intro allI impI)
  fix i assume i: "i < length (fs @ gs)"
  let ?P = CITRA_PAGE_SIZE
  obtain q where q: "length fs = ?P * q" using page_quotient [OF assms(3)] by blast
  have p: "0 < ?P" by (simp add: CITRA_PAGE_SIZE_def)
  have fl: "i div ?P * ?P \<le> i" by simp
  show "(fs @ gs) ! i = (fs @ gs) ! (i div ?P * ?P) + i mod ?P \<and> (fs @ gs) ! (i div ?P * ?P) mod ?P = 0"
  proof (cases "i < length fs")
    case True
    then have "i div ?P * ?P < length fs" using fl by linarith
    then have "(fs @ gs) ! i = fs ! i" "(fs @ gs) ! (i div ?P * ?P) = fs ! (i div ?P * ?P)"
      using True by (simp_all only: nth_append if_True)
    then show ?thesis using assms(1) [unfolded by_pages_def, rule_format, OF True] by (simp only:)
  next
    case False
    define j where "j = i - length fs"
    with False have j: "i = length fs + j" by simp
    have c: "i div ?P * ?P = length fs + j div ?P * ?P" "i mod ?P = j mod ?P" "j < length gs"
      using p i by (simp_all add: j q algebra_simps)
    have "(fs @ gs) ! i = gs ! j" "(fs @ gs) ! (i div ?P * ?P) = gs ! (j div ?P * ?P)"
      unfolding c(1) by (simp_all add: j nth_append)
    then show ?thesis using assms(2) [unfolded by_pages_def, rule_format, OF c(3)] c(2) by (simp only:)
  qed
qed

lemma by_pages_upt: "page_aligned l \<Longrightarrow> by_pages [l..<h]"
  unfolding by_pages_def
proof (intro allI impI)
  fix i assume l: "page_aligned l" and i: "i < length [l..<h]"
  define c where "c = i div CITRA_PAGE_SIZE * CITRA_PAGE_SIZE"
  have c: "c + i mod CITRA_PAGE_SIZE = i" "c mod CITRA_PAGE_SIZE = 0" by (simp_all add: c_def)
  have n: "[l..<h] ! i = l + i" "[l..<h] ! c = l + c" using i c(1) by (intro nth_upt, simp)+
  have "(l + c) mod CITRA_PAGE_SIZE = 0" using l c(2) by (simp add: page_aligned_def mod_add_eq [symmetric, of l])
  with c n show "[l..<h] ! i = [l..<h] ! (i div CITRA_PAGE_SIZE * CITRA_PAGE_SIZE) + i mod CITRA_PAGE_SIZE \<and>
      [l..<h] ! (i div CITRA_PAGE_SIZE * CITRA_PAGE_SIZE) mod CITRA_PAGE_SIZE = 0"
    unfolding c_def [symmetric] by simp
qed

lemma frames_of_by_pages: "page_intervals is \<Longrightarrow> by_pages (frames_of is)"
proof (induction "is")
  case Nil
  then show ?case by (simp add: by_pages_def)
next
  case (Cons x "is")
  obtain l h where x: "x = (l, h)" by (cases x)
  have lh: "page_aligned l" "page_aligned h" "page_intervals is" using Cons.prems by (auto simp: x page_intervals_def)
  then have "page_aligned (h - l)" by (cases "l \<le> h") (auto simp: page_aligned_def mod_eq_0_iff_dvd)
  then show ?case using by_pages_append [OF by_pages_upt [OF lh(1)] Cons.IH [OF lh(3)], of h] by (simp add: x)
qed

lemma holds_bound:
  assumes "holds fc area F L A V used" "finite F"
  shows "used \<le> card F"
proof -
  have "inj_on (\<lambda>a. the (frame_at fc F (V a))) (owned fc F V)"
    using assms(1) by (fastforce simp: inj_on_def owned_def holds_def)
  moreover have "(\<lambda>a. the (frame_at fc F (V a))) ` owned fc F V \<subseteq> F"
    by (auto simp: owned_def frame_at_def split: area.splits if_splits)
  ultimately have "card (owned fc F V) \<le> card F" using assms(2) by (rule card_inj_on_le)
  then show ?thesis using assms(1) by (simp add: holds_def)
qed

text \<open>What a successful allocation of heap leaves behind: the frames \<open>fs\<close>, the highest that were free, stand
  behind the range in order.\<close>

definition heap_allocated ::
  "nat \<Rightarrow> nat \<Rightarrow> VMAPermission \<Rightarrow> MemoryState \<Rightarrow> nat \<Rightarrow> nat list \<Rightarrow> process_memory \<Rightarrow> process_memory \<Rightarrow> bool" where
  "heap_allocated target sz perms st fc fs p p' \<longleftrightarrow>
     kernel_version p' = kernel_version p \<and> frames (pm_region p') = frames (pm_region p) \<and>
     memory_used p' = memory_used p + sz \<and> length fs = sz \<and> sorted_wrt (<) fs \<and> set fs \<subseteq> avail (pm_region p) \<and>
     avail (pm_region p') = avail (pm_region p) - set fs \<and> (\<forall>x \<in> set fs. \<forall>y \<in> avail (pm_region p'). y < x) \<and>
     mapped_as target (map ((+) fc) fs) st perms (view (vma_map (pm_vm p))) (view (vma_map (pm_vm p')))"

lemma heap_allocate_run:
  assumes ok: "pm_ok e (p, ms)" and r: "rasterizer_ok env" and pr: "page_range target sz"
    and range: "skip \<or> \<not> outside HEAP_VADDR HEAP_VADDR_END target sz"
    and apart: "{target..<target + sz} \<inter> {GetLinearHeapBase p..<GetLinearHeapLimit p} = {}"
  shows "if \<not> all_free target sz (vma_map (pm_vm p))
    then Process_HeapAllocate env target sz perms st skip (p, ms) = Some (Inl ResultCodes.ERR_INVALID_ADDRESS_STATE, p, ms)
    else if card (avail (pm_region p)) < sz
    then Process_HeapAllocate env target sz perms st skip (p, ms) = Some (Inl ERR_OUT_OF_HEAP_MEMORY, p, ms)
    else \<exists>fs p' ms'. Process_HeapAllocate env target sz perms st skip (p, ms) = Some (Inr target, p', ms') \<and>
      pm_ok e (p', ms') \<and> region_ptr ms' = region_ptr ms \<and> heap_allocated target sz perms st (region_ptr ms FCRAM) fs p p'"
proof -
  let ?fc = "region_ptr ms FCRAM" and ?V = "view (vma_map (pm_vm p))" and ?rg = "pm_region p"
  have o: "vm_ok e (pm_vm p, ms)" "\<not> is_locked (pm_vm p)" "fcram_ok e ?fc" "region_inv ?rg" "page_set (avail ?rg)"
    "rg_base ?rg + rg_size ?rg \<le> FCRAM_N3DS_SIZE"
    "holds ?fc (GetLinearHeapAreaAddress p) (frames ?rg) {GetLinearHeapBase p..<GetLinearHeapLimit p} (avail ?rg) ?V (memory_used p)"
    using ok by (simp_all add: pm_ok_def)
  have s: "space_ok e (vma_map (pm_vm p))" using o(1) by (simp add: vm_ok_def)
  have p: "0 < sz" "target + sz \<le> MAX_ADDRESS" "page_aligned target" "page_aligned sz" using pr by (simp_all add: page_range_def)
  note room = room_at_spec [OF s p(1,2)]
  have go: "\<not> (outside HEAP_VADDR HEAP_VADDR_END target sz \<and> \<not> skip)" using range by blast
  obtain res r' where h: "HeapAllocate sz ?rg = Some (res, r')" "region_inv r'" "frames r' = frames ?rg"
    "iset_ok res" "elems res \<subseteq> avail ?rg" "avail r' = avail ?rg - elems res"
    "\<forall>x \<in> elems res. \<forall>y \<in> avail r'. y < x" "card (elems res) = (if sz \<le> card (avail ?rg) then sz else 0)"
    "card (avail ?rg) < sz \<longrightarrow> res = [] \<and> r' = ?rg"
    by (rule HeapAllocate_spec [OF o(4), of sz]) (rule that; blast)
  consider (taken) "\<not> all_free target sz (vma_map (pm_vm p))"
    | (full) "all_free target sz (vma_map (pm_vm p))" "card (avail ?rg) < sz"
    | (fits) "all_free target sz (vma_map (pm_vm p))" "sz \<le> card (avail ?rg)" by linarith
  then show ?thesis
  proof cases
    case taken
    then show ?thesis using room by (simp add: Process_HeapAllocate_def go)
  next
    case full
    then show ?thesis using room h(1,9) by (simp add: Process_HeapAllocate_def go)
  next
    case fits
    define fs where "fs = frames_of res"
    have fs: "length fs = sz" "distinct fs" "sorted_wrt (<) fs" "set fs = elems res"
      using frames_of_card [OF h(4)] frames_of_sorted [OF h(4)] h(8) fits(2) by (simp_all add: fs_def)
    have ne: "res \<noteq> []" using fs p(1) by (auto simp: fs_def)
    have pi: "page_intervals res" by (rule HeapAllocate_pages [OF h(1) o(4,5) p(4)])
    have sub: "avail ?rg \<subseteq> frames ?rg" using o(4) by (simp add: region_inv_def)
    have lim: "\<forall>(l, h) \<in> set res. l < h \<and> h \<le> FCRAM_N3DS_SIZE"
    proof (clarify)
      fix l h' assume m: "(l, h') \<in> set res"
      then have lh: "l < h'" using iset_ok_mem [OF h(4)] by blast
      then have "h' - 1 \<in> {l..<h'}" by auto
      then have "h' - 1 \<in> elems res" using m unfolding elems_def by blast
      then have "h' - 1 \<in> frames ?rg" using h(5) sub by blast
      then show "l < h' \<and> h' \<le> FCRAM_N3DS_SIZE" using lh o(6) by (auto simp: frames_def)
    qed
    have len: "target + length (frames_of res) \<le> MAX_ADDRESS" "all_free target (length (frames_of res)) (vma_map (pm_vm p))"
      using fs(1) p(2) fits(1) by (simp_all add: fs_def)
    from map_blocks_run [OF o(1) r o(3) lim pi p(3) len o(2), of st perms] obtain ys ms' where
      m: "map_blocks env st perms target res (pm_vm p, ms) = Some ((pm_vm p)\<lparr>vma_map := ys\<rparr>, ms')"
        "vm_ok e ((pm_vm p)\<lparr>vma_map := ys\<rparr>, ms')" "region_ptr ms' = region_ptr ms"
        "mapped_as target (map ((+) ?fc) fs) st perms ?V (view ys)" by (auto simp: fs_def)
    have lin: "\<forall>i < length fs. target + i \<in> {GetLinearHeapBase p..<GetLinearHeapLimit p} \<longrightarrow> fs ! i = target + i - GetLinearHeapAreaAddress p"
    proof (intro allI impI)
      fix i assume "i < length fs" and l: "target + i \<in> {GetLinearHeapBase p..<GetLinearHeapLimit p}"
      then have "target + i \<in> {target..<target + sz}" using fs(1) by simp
      with l apart show "fs ! i = target + i - GetLinearHeapAreaAddress p" by blast
    qed
    have al: "page_aligned (length fs)" "by_pages fs" using p(4) fs(1) frames_of_by_pages [OF pi] by (simp_all add: fs_def)
    have fr: "\<forall>a. target \<le> a \<and> a < target + length fs \<longrightarrow> ?V a = Free_area"
      using fits(1) fs(1) by (simp add: all_free_def)
    have sub': "set fs \<subseteq> avail ?rg" using fs(4) h(5) by simp
    note ht = holds_take [OF o(7) m(4) fr fs(2) sub' sub p(3) al lin]
    have fin: "finite (frames ?rg)" "card (frames ?rg) = rg_size ?rg" by (simp_all add: frames_def)
    have used: "add32 (memory_used p) sz = memory_used p + sz"
      using holds_bound [OF ht fin(1)] fin(2) fs(1) o(6) by (intro add32_id) (simp add: FCRAM_N3DS_SIZE_def)
    have av: "avail r' = avail ?rg - set fs" using h(6) fs(4) by simp
    let ?p = "book sz (p\<lparr>pm_vm := (pm_vm p)\<lparr>vma_map := ys\<rparr>, pm_region := r'\<rparr>)"
    have run: "Process_HeapAllocate env target sz perms st skip (p, ms) = Some (Inr target, ?p, ms')"
      using room fits(1) h(1) ne m(1) by (simp add: Process_HeapAllocate_def go)
    have ps: "page_set (avail r')"
      using page_set_ops(2) [OF o(5) page_set_intervals [OF pi]] h(6) by simp
    have lb: "GetLinearHeapAreaAddress ?p = GetLinearHeapAreaAddress p" "GetLinearHeapBase ?p = GetLinearHeapBase p"
      "GetLinearHeapLimit ?p = GetLinearHeapLimit p"
      using region_shape(1) [OF h(1)]
      by (simp_all add: book_def GetLinearHeapAreaAddress_def GetLinearHeapBase_def GetLinearHeapLimit_def)
    have "pm_ok e (?p, ms')"
      using m(2,3) o(2,3,6) h(2,3) ps av ht fs(1) used region_shape(1) [OF h(1)]
      by (simp add: pm_ok_def lb) (simp add: book_def)
    moreover have "heap_allocated target sz perms st ?fc fs p ?p"
      using m(4) h(3,7) fs(1,3,4) sub' av used by (simp add: heap_allocated_def book_def)
    moreover have "\<not> card (avail ?rg) < sz" using fits(2) by simp
    ultimately show ?thesis using run fits(1) m(3) by (simp only: if_True if_False not_True_eq_False) blast
  qed
qed

lemma free_blocks_run:
  "region_inv rg \<Longrightarrow> rg_base rg + rg_size rg \<le> FCRAM_N3DS_SIZE \<Longrightarrow> \<forall>b \<in> set bs. 0 < snd b \<Longrightarrow>
   concat (map block_ptrs bs) = map ((+) (region_ptr ms FCRAM)) fs \<Longrightarrow> distinct fs \<Longrightarrow>
   set fs \<subseteq> frames rg - avail rg \<Longrightarrow>
   \<exists>rg'. free_blocks_of bs ms rg = Some rg' \<and> region_inv rg' \<and> frames rg' = frames rg \<and>
     avail rg' = avail rg \<union> set fs \<and> rg_base rg' = rg_base rg \<and> rg_size rg' = rg_size rg"
proof (induction bs arbitrary: rg fs)
  case Nil
  then show ?case by simp
next
  case (Cons b bs)
  obtain r n where b: "b = (r, n)" by (cases b)
  let ?fc = "region_ptr ms FCRAM"
  have n: "0 < n" using Cons.prems(3) by (simp add: b)
  have m: "map ((+) (GetPtr r)) [0..<n] @ concat (map block_ptrs bs) = map ((+) ?fc) fs"
    using Cons.prems(4) block_ptrs_def [of "(r, n)"] by (simp add: b)
  have len: "n \<le> length fs" using arg_cong [OF m, of length] by simp
  have parts: "map ((+) (GetPtr r)) [0..<n] = map ((+) ?fc) (take n fs)" "concat (map block_ptrs bs) = map ((+) ?fc) (drop n fs)"
    using arg_cong [OF m, of "take n"] arg_cong [OF m, of "drop n"] len by (simp_all add: take_map drop_map min_def)
  define l where "l = fs ! 0"
  have at: "GetPtr r + i = ?fc + fs ! i" if "i < n" for i
    using arg_cong [OF parts(1), of "\<lambda>xs. xs ! i"] that len by simp
  have r: "GetPtr r = ?fc + l" using at [OF n] by (simp add: l_def)
  have tk: "take n fs = [l..<l + n]"
  proof (rule nth_equalityI)
    fix i assume "i < length (take n fs)"
    then show "take n fs ! i = [l..<l + n] ! i" using at [of i] r by simp
  qed (use len in simp)
  have fs: "set fs = {l..<l + n} \<union> set (drop n fs)" "{l..<l + n} \<inter> set (drop n fs) = {}" "distinct (drop n fs)"
    using Cons.prems(5) tk by (metis append_take_drop_id set_append set_upt, metis append_take_drop_id distinct_append set_upt, simp)
  have sub: "{l..<l + n} \<subseteq> frames rg - avail rg" using Cons.prems(6) fs(1) by blast
  have "l + n - 1 \<in> {l..<l + n}" using n by auto
  then have "l + n - 1 \<in> frames rg" using sub by blast
  then have top: "l + n \<le> FCRAM_N3DS_SIZE" using Cons.prems(2) n unfolding frames_def atLeastLessThan_iff by linarith
  then have "l + n < 2 ^ 32" by (simp add: FCRAM_N3DS_SIZE_def)
  from Free_spec [OF Cons.prems(1) sub this] obtain r1 where r1: "MemoryRegion.Free l n rg = Some r1" "region_inv r1"
    "frames r1 = frames rg" "avail r1 = avail rg \<union> {l..<l + n}" .
  have shape: "rg_base r1 = rg_base rg" "rg_size r1 = rg_size rg" using region_shape(4) [OF r1(1)] by simp_all
  have "set (drop n fs) \<subseteq> frames r1 - avail r1" using Cons.prems(6) fs(1,2) r1(3,4) by auto
  with Cons.IH [OF r1(2) _ _ parts(2) fs(3)] Cons.prems(2,3) shape obtain rg' where
    rg': "free_blocks_of bs ms r1 = Some rg'" "region_inv rg'" "frames rg' = frames r1"
      "avail rg' = avail r1 \<union> set (drop n fs)" "rg_base rg' = rg_base rg" "rg_size rg' = rg_size rg" by auto
  have "GetFCRAMOffset (GetPtr r) ms = Some l" using r top by (simp add: GetFCRAMOffset_def)
  with rg' r1 fs(1) show ?case by (auto simp: b)
qed

text \<open>What it leaves behind to free a range: its addresses stand for nothing, its frames are free.\<close>

definition range_freed :: "nat \<Rightarrow> nat \<Rightarrow> nat \<Rightarrow> process_memory \<Rightarrow> process_memory \<Rightarrow> bool" where
  "range_freed target sz fc p p' \<longleftrightarrow>
     kernel_version p' = kernel_version p \<and> frames (pm_region p') = frames (pm_region p) \<and>
     memory_used p' = memory_used p - sz \<and> sz \<le> memory_used p \<and>
     avail (pm_region p') = avail (pm_region p) \<union>
       {f. \<exists>a \<in> {target..<target + sz}. frame_at fc (frames (pm_region p)) (view (vma_map (pm_vm p)) a) = Some f} \<and>
     view (vma_map (pm_vm p')) = (\<lambda>a. if target \<le> a \<and> a < target + sz then Free_area else view (vma_map (pm_vm p)) a)"

lemma page_set_frames:
  assumes h: "holds fc area F L A V used" and al: "page_aligned target" "page_aligned n"
  shows "page_set {f. \<exists>a \<in> {target..<target + n}. frame_at fc F (V a) = Some f}"
  unfolding page_set_def
proof (intro allI iffI)
  let ?P = CITRA_PAGE_SIZE
  have P: "0 < ?P" by (simp add: CITRA_PAGE_SIZE_def)
  have page: "frame_at fc F (V b) = Some (f div ?P * ?P + b mod ?P)" if "frame_at fc F (V a) = Some f" "same_page a b" for a b f
    using h that by (simp add: holds_def)
  fix x
  {
    assume "x \<in> {f. \<exists>a \<in> {target..<target + n}. frame_at fc F (V a) = Some f}"
    then obtain a where a: "target \<le> a \<and> a < target + n" "frame_at fc F (V a) = Some x" by auto
    let ?b = "a div ?P * ?P"
    have ab: "same_page a ?b" "?b mod ?P = 0" using P by (simp_all add: same_page_def)
    have "target \<le> ?b \<and> ?b < target + n" using same_page_range [OF al ab(1)] a(1) by simp
    with page [OF a(2) ab(1)] ab(2) show "x div ?P * ?P \<in> {f. \<exists>a \<in> {target..<target + n}. frame_at fc F (V a) = Some f}"
      by auto
  next
    assume "x div ?P * ?P \<in> {f. \<exists>a \<in> {target..<target + n}. frame_at fc F (V a) = Some f}"
    then obtain a where a: "target \<le> a \<and> a < target + n" "frame_at fc F (V a) = Some (x div ?P * ?P)" by auto
    let ?b = "a div ?P * ?P + x mod ?P"
    have ab: "same_page a ?b" "?b mod ?P = x mod ?P" using P by (simp_all add: same_page_def)
    have "target \<le> ?b \<and> ?b < target + n" using same_page_range [OF al ab(1)] a(1) by simp
    with page [OF a(2) ab(1)] ab(2) P show "x \<in> {f. \<exists>a \<in> {target..<target + n}. frame_at fc F (V a) = Some f}"
      by auto
  }
qed

text \<open>Both ways to free a range end alike.\<close>

lemma freed_ok:
  assumes ok: "pm_ok e (p, ms)" and pr: "page_range target sz"
    and own: "{target..<target + sz} \<subseteq> owned (region_ptr ms FCRAM) (frames (pm_region p)) (view (vma_map (pm_vm p)))"
    and vm: "vm_ok e ((pm_vm p)\<lparr>vma_map := ys\<rparr>, ms')" "acts_on target sz (\<lambda>_. Free_area) (vma_map (pm_vm p)) ys"
    and rp: "region_ptr ms' = region_ptr ms"
    and rg: "region_inv rg" "frames rg = frames (pm_region p)" "rg_base rg = rg_base (pm_region p)" "rg_size rg = rg_size (pm_region p)"
      "avail rg = avail (pm_region p) \<union>
        {f. \<exists>a \<in> {target..<target + sz}. frame_at (region_ptr ms FCRAM) (frames (pm_region p)) (view (vma_map (pm_vm p)) a) = Some f}"
    and p': "p' = unbook sz (p\<lparr>pm_vm := (pm_vm p)\<lparr>vma_map := ys\<rparr>, pm_region := rg\<rparr>)"
  shows "pm_ok e (p', ms') \<and> range_freed target sz (region_ptr ms FCRAM) p p'"
proof -
  let ?fc = "region_ptr ms FCRAM" and ?V = "view (vma_map (pm_vm p))" and ?rg = "pm_region p"
  have o: "vm_ok e (pm_vm p, ms)" "\<not> is_locked (pm_vm p)" "fcram_ok e ?fc" "region_inv ?rg" "page_set (avail ?rg)"
    "rg_base ?rg + rg_size ?rg \<le> FCRAM_N3DS_SIZE"
    "holds ?fc (GetLinearHeapAreaAddress p) (frames ?rg) {GetLinearHeapBase p..<GetLinearHeapLimit p} (avail ?rg) ?V (memory_used p)"
    using ok by (simp_all add: pm_ok_def)
  have s: "space_ok e (vma_map (pm_vm p))" "space_ok e ys" using o(1) vm(1) by (simp_all add: vm_ok_def)
  have p: "target + sz \<le> MAX_ADDRESS" "page_aligned target" "page_aligned sz" using pr by (simp_all add: page_range_def)
  have v: "view ys = (\<lambda>a. if target \<le> a \<and> a < target + sz then Free_area else ?V a)" by (rule acts_on_view [OF vm(2) s p(1)])
  note hg = holds_give [OF o(7) own p(2,3)]
  have fin: "finite (frames ?rg)" "card (frames ?rg) = rg_size ?rg" by (simp_all add: frames_def)
  have bound: "memory_used p < 2 ^ 32" using holds_bound [OF o(7) fin(1)] fin(2) o(6) by (simp add: FCRAM_N3DS_SIZE_def)
  have "card {target..<target + sz} \<le> card (owned ?fc (frames ?rg) ?V)" using own o(7) by (intro card_mono) (simp_all add: holds_def)
  then have le: "sz \<le> memory_used p" using o(7) by (simp add: holds_def)
  have used: "sub32 (memory_used p) sz = memory_used p - sz" by (rule sub32_id [OF le bound])
  have ps: "page_set (avail rg)" using page_set_ops(1) [OF o(5) page_set_frames [OF o(7) p(2,3)]] rg(5) by simp
  have lb: "GetLinearHeapAreaAddress p' = GetLinearHeapAreaAddress p" "GetLinearHeapBase p' = GetLinearHeapBase p"
    "GetLinearHeapLimit p' = GetLinearHeapLimit p" "pm_vm p' = (pm_vm p)\<lparr>vma_map := ys\<rparr>" "pm_region p' = rg"
    "memory_used p' = memory_used p - sz" "kernel_version p' = kernel_version p"
    using rg(3,4) used by (simp_all add: p' unbook_def GetLinearHeapAreaAddress_def GetLinearHeapBase_def GetLinearHeapLimit_def)
  have "pm_ok e (p', ms')" using vm(1) o(2,3,6) rp rg ps hg v by (simp add: pm_ok_def lb)
  moreover have "range_freed target sz ?fc p p'" using rg(2,5) v le by (simp add: range_freed_def lb)
  ultimately show ?thesis by blast
qed

lemma heap_free_run:
  assumes ok: "pm_ok e (p, ms)" and r: "rasterizer_ok env" and pr: "page_range target sz"
    and range: "\<not> outside HEAP_VADDR HEAP_VADDR_END target sz"
  shows "if \<not> (\<forall>a \<in> {target..<target + sz}. is_backed (view (vma_map (pm_vm p)) a))
    then Process_HeapFree env target sz (p, ms) = Some (ResultCodes.ERR_INVALID_ADDRESS_STATE, p, ms)
    else \<exists>p' ms'. Process_HeapFree env target sz (p, ms) = Some (RESULT_SUCCESS, p', ms') \<and>
      pm_ok e (p', ms') \<and> region_ptr ms' = region_ptr ms \<and> range_freed target sz (region_ptr ms FCRAM) p p'"
proof -
  let ?fc = "region_ptr ms FCRAM" and ?V = "view (vma_map (pm_vm p))" and ?rg = "pm_region p" and ?R = "{target..<target + sz}"
  have o: "vm_ok e (pm_vm p, ms)" "\<not> is_locked (pm_vm p)" "region_inv ?rg"
    "rg_base ?rg + rg_size ?rg \<le> FCRAM_N3DS_SIZE"
    "holds ?fc (GetLinearHeapAreaAddress p) (frames ?rg) {GetLinearHeapBase p..<GetLinearHeapLimit p} (avail ?rg) ?V (memory_used p)"
    using ok by (simp_all add: pm_ok_def)
  have s: "space_ok e (vma_map (pm_vm p))" using o(1) by (simp add: vm_ok_def)
  have p: "0 < sz" "target + sz \<le> MAX_ADDRESS" using pr by (simp_all add: page_range_def)
  have w: "add32 target sz = target + sz" by (rule page_range_end [OF pr])
  have inside_heap: "HEAP_VADDR \<le> target" "target + sz \<le> HEAP_VADDR_END" using range w by (simp_all add: outside_def)
  have b: "GetBackingBlocksForRange target sz (pm_vm p) = backing_blocks (vma_map (pm_vm p)) (target + sz) target []"
    by (simp add: GetBackingBlocksForRange_def w)
  note bs = backing_blocks_spec [OF s le_add1 p(2), of "[]", folded b]
  show ?thesis
  proof (cases "\<forall>a \<in> ?R. is_backed (?V a)")
    case False
    then show ?thesis using bs range p(1) by (simp add: Process_HeapFree_def vm_code_def)
  next
    case True
    then obtain bs where bs: "GetBackingBlocksForRange target sz (pm_vm p) = Some (Inr bs)" "\<forall>b \<in> set bs. 0 < snd b"
      "concat (map block_ptrs bs) = map (\<lambda>a. host_ptr (?V a)) [target..<target + sz]" using bs by auto
    have own: "?R \<subseteq> owned ?fc (frames ?rg) ?V" using o(5) True inside_heap by (auto simp: holds_def)
    let ?f = "\<lambda>a. the (frame_at ?fc (frames ?rg) (?V a))"
    have f: "frame_at ?fc (frames ?rg) (?V a) = Some (?f a)" if "a \<in> ?R" for a using own that by (auto simp: owned_def)
    have host: "host_ptr x = ?fc + g" if "frame_at ?fc F x = Some g" for x F g
      using that by (auto simp: frame_at_def host_ptr_def split: area.splits if_splits)
    have "map (\<lambda>a. host_ptr (?V a)) [target..<target + sz] = map ((+) ?fc) (map ?f [target..<target + sz])"
      using host [OF f] by simp
    note c = bs(3) [unfolded this]
    have "inj_on ?f ?R"
    proof (rule inj_onI)
      fix a b assume "a \<in> ?R" "b \<in> ?R" "?f a = ?f b"
      then show "a = b" using f [of a] f [of b] o(5) unfolding holds_def by metis
    qed
    then have d: "distinct (map ?f [target..<target + sz])" by (simp add: distinct_map)
    have sub: "set (map ?f [target..<target + sz]) \<subseteq> frames ?rg - avail ?rg"
    proof
      fix x assume "x \<in> set (map ?f [target..<target + sz])"
      then obtain a where a: "a \<in> ?R" "x = ?f a" by auto
      have "x \<notin> avail ?rg" using f [OF a(1)] a(2) o(5) unfolding holds_def by metis
      moreover have "x \<in> frames ?rg" using f [OF a(1)] a(2) by (auto simp: frame_at_def split: area.splits if_splits)
      ultimately show "x \<in> frames ?rg - avail ?rg" by simp
    qed
    from free_blocks_run [OF o(3,4) bs(2) c d sub] obtain rg where rg: "free_blocks_of bs ms ?rg = Some rg" "region_inv rg"
      "frames rg = frames ?rg" "avail rg = avail ?rg \<union> set (map ?f [target..<target + sz])" "rg_base rg = rg_base ?rg" "rg_size rg = rg_size ?rg"
      by blast
    have set_f: "set (map ?f [target..<target + sz]) = {x. \<exists>a \<in> ?R. frame_at ?fc (frames ?rg) (?V a) = Some x}"
    proof (intro set_eqI)
      fix x show "x \<in> set (map ?f [target..<target + sz]) \<longleftrightarrow> x \<in> {x. \<exists>a \<in> ?R. frame_at ?fc (frames ?rg) (?V a) = Some x}"
        using f by force
    qed
    have "all_mapped target sz (vma_map (pm_vm p))" using True by (auto simp: all_mapped_def is_backed_def)
    from UnmapRange_run [OF o(1) r pr this o(2)] obtain ys ms' where
      u: "UnmapRange env target sz (pm_vm p, ms) = Some (Inr (), (pm_vm p)\<lparr>vma_map := ys\<rparr>, ms')"
        "acts_on target sz (\<lambda>_. Free_area) (vma_map (pm_vm p)) ys" "vm_ok e ((pm_vm p)\<lparr>vma_map := ys\<rparr>, ms')" by blast
    note rp = UnmapRange_region_ptr [OF u(1) r]
    note fin = freed_ok [OF ok pr own u(3,2) rp rg(2,3,5,6) rg(4) [unfolded set_f] refl]
    have "Process_HeapFree env target sz (p, ms) =
        Some (RESULT_SUCCESS, unbook sz (p\<lparr>pm_vm := (pm_vm p)\<lparr>vma_map := ys\<rparr>, pm_region := rg\<rparr>), ms')"
      using range p(1) bs(1) rg(1) u(1) by (simp add: Process_HeapFree_def)
    with fin rp True show ?thesis by auto
  qed
qed

text \<open>A successful allocation of linear heap: the address is the frame, \<open>area\<close> higher.\<close>

definition linear_allocated :: "nat \<Rightarrow> nat \<Rightarrow> VMAPermission \<Rightarrow> nat \<Rightarrow> process_memory \<Rightarrow> process_memory \<Rightarrow> bool" where
  "linear_allocated a sz perms fc p p' \<longleftrightarrow>
     kernel_version p' = kernel_version p \<and> frames (pm_region p') = frames (pm_region p) \<and>
     memory_used p' = memory_used p + sz \<and> {a..<a + sz} \<subseteq> avail (pm_region p) \<and>
     avail (pm_region p') = avail (pm_region p) - {a..<a + sz} \<and>
     mapped_as (GetLinearHeapAreaAddress p + a) (map ((+) fc) [a..<a + sz]) Continuous perms
       (view (vma_map (pm_vm p))) (view (vma_map (pm_vm p')))"

lemma linear_map_run:
  assumes ok: "pm_ok e (p, ms)" and r: "rasterizer_ok env" and al: "page_aligned a" "page_aligned sz" "0 < sz"
    and place: "linear_place target sz p = Some (Inr (a, GetLinearHeapAreaAddress p + a), rg)"
    and rg: "region_inv rg" "frames rg = frames (pm_region p)" "{a..<a + sz} \<subseteq> avail (pm_region p)"
      "avail rg = avail (pm_region p) - {a..<a + sz}" "rg_base rg = rg_base (pm_region p)" "rg_size rg = rg_size (pm_region p)"
  shows "\<exists>p' ms'. Process_LinearAllocate env target sz perms (p, ms) = Some (Inr (GetLinearHeapAreaAddress p + a), p', ms') \<and>
    pm_ok e (p', ms') \<and> region_ptr ms' = region_ptr ms \<and> linear_allocated a sz perms (region_ptr ms FCRAM) p p'"
proof -
  let ?fc = "region_ptr ms FCRAM" and ?V = "view (vma_map (pm_vm p))" and ?rg = "pm_region p"
  let ?area = "GetLinearHeapAreaAddress p"
  have o: "vm_ok e (pm_vm p, ms)" "\<not> is_locked (pm_vm p)" "fcram_ok e ?fc" "region_inv ?rg" "page_set (avail ?rg)"
    "rg_base ?rg + rg_size ?rg \<le> FCRAM_N3DS_SIZE"
    "holds ?fc ?area (frames ?rg) {GetLinearHeapBase p..<GetLinearHeapLimit p} (avail ?rg) ?V (memory_used p)"
    using ok by (simp_all add: pm_ok_def)
  note lb = linear_bounds [OF o(6)]
  have sub: "avail ?rg \<subseteq> frames ?rg" using o(4) by (simp add: region_inv_def)
  have "a \<in> {a..<a + sz}" "a + sz - 1 \<in> {a..<a + sz}" using al(3) by auto
  then have "a \<in> frames ?rg" "a + sz - 1 \<in> frames ?rg" using rg(3) sub by blast+
  then have a: "rg_base ?rg \<le> a" "a + sz \<le> rg_base ?rg + rg_size ?rg"
    unfolding frames_def atLeastLessThan_iff using al(3) by linarith+
  have L: "x \<in> {GetLinearHeapBase p..<GetLinearHeapLimit p}" if "?area + a \<le> x" "x < ?area + a + sz" for x
    using that a lb(1,2) by simp
  have free: "?V x = Free_area" if "?area + a \<le> x" "x < ?area + a + sz" for x
  proof (rule ccontr)
    assume "?V x \<noteq> Free_area"
    then have "frame_at ?fc (frames ?rg) (?V x) = Some (x - ?area)" using o(7) L [OF that] by (simp add: holds_def)
    then have "x - ?area \<notin> avail ?rg" using o(7) unfolding holds_def by metis
    moreover have "x - ?area \<in> {a..<a + sz}" using that by auto
    ultimately show False using rg(3) by blast
  qed
  let ?r = "\<lparr>GetPtr = ?fc + a, ref_size = FCRAM_N3DS_SIZE - a\<rparr>"
  have top: "a + sz \<le> FCRAM_N3DS_SIZE" using a o(6) by linarith
  have ref: "GetFCRAMRef a ms = Some ?r" using top by (simp add: GetFCRAMRef_def region_ref_def GetSize_def)
  have "e (?fc + a) = ?fc + FCRAM_N3DS_SIZE" using o(3) top al(3) by (simp add: fcram_ok_def)
  then have rok: "ref_ok e ?r sz" using o(3) top al(3) by (simp add: ref_ok_def fcram_ok_def le_diff_conv2)
  have ta: "page_aligned (?area + a)" using lb(5) al(1) by (auto simp: page_aligned_def)
  then have pr: "page_range (?area + a) sz" using al lb(4) top by (simp add: page_range_def)
  let ?ms = "store (?fc + a) (replicate sz 0) ms"
  have vm: "vm_ok e (pm_vm p, ?ms)" using o(1) by simp
  have fr: "all_free (?area + a) sz (vma_map (pm_vm p))" using free by (simp add: all_free_def)
  from map_protected_run [OF vm r pr fr rok o(2), of Continuous perms] obtain ys ms' where
    m: "map_protected env (?area + a) ?r sz Continuous perms (pm_vm p, ?ms) = Some ((pm_vm p)\<lparr>vma_map := ys\<rparr>, ms')"
      "vm_ok e ((pm_vm p)\<lparr>vma_map := ys\<rparr>, ms')" "region_ptr ms' = region_ptr ms"
      "mapped_as (?area + a) [?fc + a..<?fc + a + sz] Continuous perms ?V (view ys)" by auto
  have upt: "[?fc + a..<?fc + a + sz] = map ((+) ?fc) [a..<a + sz]" by (intro nth_equalityI) simp_all
  note m4 = m(4) [unfolded upt]
  have len: "length [a..<a + sz] = sz" by simp
  have fr': "\<forall>x. ?area + a \<le> x \<and> x < ?area + a + length [a..<a + sz] \<longrightarrow> ?V x = Free_area" using free by simp
  have lin: "\<forall>i < length [a..<a + sz]. ?area + a + i \<in> {GetLinearHeapBase p..<GetLinearHeapLimit p} \<longrightarrow>
      [a..<a + sz] ! i = ?area + a + i - ?area" by simp
  have sub': "set [a..<a + sz] \<subseteq> avail ?rg" using rg(3) by simp
  note ht = holds_take [OF o(7) m4 fr' distinct_upt sub' sub ta _ by_pages_upt [OF al(1)] lin, unfolded len, OF al(2)]
  have fin: "finite (frames ?rg)" "card (frames ?rg) = rg_size ?rg" by (simp_all add: frames_def)
  have used: "add32 (memory_used p) sz = memory_used p + sz"
    using holds_bound [OF ht fin(1)] fin(2) o(6) by (intro add32_id) (simp add: FCRAM_N3DS_SIZE_def)
  let ?p = "book sz (p\<lparr>pm_vm := (pm_vm p)\<lparr>vma_map := ys\<rparr>, pm_region := rg\<rparr>)"
  have run: "Process_LinearAllocate env target sz perms (p, ms) = Some (Inr (?area + a), ?p, ms')"
    using place ref m(1) by (simp add: Process_LinearAllocate_def)
  have "page_aligned (a + sz)" using al by (auto simp: page_aligned_def)
  then have ps: "page_set (avail rg)" using page_set_ops(2) [OF o(5) page_set_piece [OF al(1)]] rg(4) by simp
  have lb': "GetLinearHeapAreaAddress ?p = ?area" "GetLinearHeapBase ?p = GetLinearHeapBase p"
    "GetLinearHeapLimit ?p = GetLinearHeapLimit p"
    using rg(5,6) by (simp_all add: book_def GetLinearHeapAreaAddress_def GetLinearHeapBase_def GetLinearHeapLimit_def)
  have "pm_ok e (?p, ms')"
    using m(2,3) o(2,3,6) rg(1,2,4-6) ps ht used by (simp add: pm_ok_def lb') (simp add: book_def)
  moreover have "linear_allocated a sz perms ?fc p ?p"
    using m4 rg(2-4) used by (simp add: linear_allocated_def book_def)
  ultimately show ?thesis using run m(3) by blast
qed

lemma linear_allocate_run:
  assumes ok: "pm_ok e (p, ms)" and r: "rasterizer_ok env" and al: "page_aligned target" "page_aligned sz" "0 < sz" "target < 2 ^ 32" "sz < 2 ^ 32"
  shows "if target = 0
    then if \<exists>b. {b..<b + sz} \<subseteq> avail (pm_region p)
      then \<exists>a p' ms'. Process_LinearAllocate env target sz perms (p, ms) = Some (Inr (GetLinearHeapAreaAddress p + a), p', ms') \<and>
        (\<forall>b. {b..<b + sz} \<subseteq> avail (pm_region p) \<longrightarrow> a \<le> b) \<and>
        pm_ok e (p', ms') \<and> region_ptr ms' = region_ptr ms \<and> linear_allocated a sz perms (region_ptr ms FCRAM) p p'
      else Process_LinearAllocate env target sz perms (p, ms) = Some (Inl ERR_OUT_OF_HEAP_MEMORY, p, ms)
    else if outside (GetLinearHeapBase p) (GetLinearHeapLimit p) target sz
    then Process_LinearAllocate env target sz perms (p, ms) = Some (Inl ResultCodes.ERR_INVALID_ADDRESS, p, ms)
    else let a = target - GetLinearHeapAreaAddress p in
      if {a..<a + sz} \<subseteq> avail (pm_region p)
      then \<exists>p' ms'. Process_LinearAllocate env target sz perms (p, ms) = Some (Inr target, p', ms') \<and>
        pm_ok e (p', ms') \<and> region_ptr ms' = region_ptr ms \<and> linear_allocated a sz perms (region_ptr ms FCRAM) p p'
      else Process_LinearAllocate env target sz perms (p, ms) = Some (Inl ResultCodes.ERR_INVALID_ADDRESS_STATE, p, ms)"
proof -
  let ?rg = "pm_region p" and ?area = "GetLinearHeapAreaAddress p"
  have o: "region_inv ?rg" "page_set (avail ?rg)" "rg_base ?rg + rg_size ?rg \<le> FCRAM_N3DS_SIZE"
    using ok by (simp_all add: pm_ok_def)
  note lb = linear_bounds [OF o(3)]
  have w32: "?area + FCRAM_N3DS_SIZE < 2 ^ 32" using lb(4) by (simp add: MAX_ADDRESS_def)
  have sub: "avail ?rg \<subseteq> frames ?rg" using o(1) by (simp add: region_inv_def)
  show ?thesis
  proof (cases "target = 0")
    case True
    show ?thesis
    proof (rule LinearAllocate_spec [OF o(1) al(3)])
      assume "LinearAllocate sz ?rg = Some (None, ?rg)" "\<And>a. \<not> {a..<a + sz} \<subseteq> avail ?rg"
      with True show ?thesis by (simp add: Process_LinearAllocate_def linear_place_def)
    next
      fix a rg assume l: "LinearAllocate sz ?rg = Some (Some a, rg)" "region_inv rg" "frames rg = frames ?rg"
        "{a..<a + sz} \<subseteq> avail ?rg" "avail rg = avail ?rg - {a..<a + sz}" "\<And>b. {b..<b + sz} \<subseteq> avail ?rg \<Longrightarrow> a \<le> b"
      have "\<exists>h. (a, h) \<in> set (free_blocks ?rg)"
        using l(1) by (auto simp: LinearAllocate_def find_Some_iff split: option.splits if_splits) (metis nth_mem)
      then have a: "page_aligned a" using interval_pages [of "free_blocks ?rg"] o(1,2)
        by (auto simp: region_inv_def avail_def page_intervals_def)
      have "a \<in> {a..<a + sz}" using al(3) by simp
      then have "a \<in> frames ?rg" using l(4) sub by blast
      then have "add32 a ?area = ?area + a" using o(3) w32
        by (subst add32_id) (simp_all add: frames_def)
      then have "linear_place target sz p = Some (Inr (a, ?area + a), rg)" using True l(1) by (simp add: linear_place_def)
      then obtain p' ms' where m: "Process_LinearAllocate env target sz perms (p, ms) = Some (Inr (?area + a), p', ms')"
        "pm_ok e (p', ms')" "region_ptr ms' = region_ptr ms" "linear_allocated a sz perms (region_ptr ms FCRAM) p p'"
        using linear_map_run [OF ok r a al(2,3) _ l(2-5)] region_shape(2) [OF l(1)] by blast
      have "\<exists>a p' ms'. Process_LinearAllocate env target sz perms (p, ms) = Some (Inr (?area + a), p', ms') \<and>
        (\<forall>b. {b..<b + sz} \<subseteq> avail ?rg \<longrightarrow> a \<le> b) \<and>
        pm_ok e (p', ms') \<and> region_ptr ms' = region_ptr ms \<and> linear_allocated a sz perms (region_ptr ms FCRAM) p p'"
        by (rule exI [of _ a], rule exI [of _ p'], rule exI [of _ ms'], intro conjI allI impI) (fact m l(6))+
      moreover have "\<exists>b. {b..<b + sz} \<subseteq> avail ?rg" using l(4) by blast
      ultimately show ?thesis using True by (simp only: if_True simp_thms)
    qed
  next
    case False
    show ?thesis
    proof (cases "outside (GetLinearHeapBase p) (GetLinearHeapLimit p) target sz")
      case True
      with False show ?thesis by (simp add: Process_LinearAllocate_def linear_place_def)
    next
      case inside: False
      define a where "a = target - ?area"
      have t: "GetLinearHeapBase p \<le> target" "add32 target sz \<le> GetLinearHeapLimit p" "target \<le> add32 target sz"
        using inside by (simp_all add: outside_def)
      have sum: "target + sz < 2 ^ 32"
      proof (rule ccontr)
        assume "\<not> target + sz < 2 ^ 32"
        then have "add32 target sz = target + sz - 2 ^ 32" using al(4,5) by (simp add: add32_def le_mod_geq)
        then show False using t(3) al(5) False by simp
      qed
      have ta: "target = ?area + a" using t(1) lb(1) by (simp add: a_def)
      have s: "sub32 target ?area = a" using ta al(4) by (simp add: sub32_id)
      have a: "page_aligned a" using al(1) lb(5) unfolding ta by (simp add: page_aligned_def mod_add_eq [symmetric, of ?area])
      have "a + sz < 2 ^ 32" using sum ta by simp
      from LinearAllocate_at_spec [OF o(1) this] obtain rg where l: "LinearAllocate_at a sz ?rg = Some ({a..<a + sz} \<subseteq> avail ?rg, rg)"
        "region_inv rg" "frames rg = frames ?rg" "avail rg = (if {a..<a + sz} \<subseteq> avail ?rg then avail ?rg - {a..<a + sz} else avail ?rg)" .
      show ?thesis
      proof (cases "{a..<a + sz} \<subseteq> avail ?rg")
        case True
        then have "linear_place target sz p = Some (Inr (a, target), rg)"
          using False inside l(1) s by (simp add: linear_place_def)
        then have "linear_place target sz p = Some (Inr (a, ?area + a), rg)" using ta by simp
        from linear_map_run [OF ok r a al(2,3) this l(2,3) True _] l(4) region_shape(3) [OF l(1)] True False inside
        show ?thesis unfolding Let_def a_def [symmetric] by (simp add: ta [symmetric])
      next
        case no: False
        then have "rg = ?rg" using l(1) by (auto simp: LinearAllocate_at_def Let_def split: if_splits)
        then have "linear_place target sz p = Some (Inl ResultCodes.ERR_INVALID_ADDRESS_STATE, ?rg)"
          using False inside l(1) s no by (simp add: linear_place_def)
        with no False inside show ?thesis unfolding Let_def a_def [symmetric] by (simp add: Process_LinearAllocate_def)
      qed
    qed
  qed
qed

lemma linear_free_run:
  assumes ok: "pm_ok e (p, ms)" and r: "rasterizer_ok env" and pr: "page_range target sz"
    and range: "\<not> outside (GetLinearHeapBase p) (GetLinearHeapLimit p) target sz"
  shows "if \<not> all_mapped target sz (vma_map (pm_vm p))
    then Process_LinearFree env target sz (p, ms) = Some (ResultCodes.ERR_INVALID_ADDRESS_STATE, p, ms)
    else \<exists>p' ms'. Process_LinearFree env target sz (p, ms) = Some (RESULT_SUCCESS, p', ms') \<and>
      pm_ok e (p', ms') \<and> region_ptr ms' = region_ptr ms \<and> range_freed target sz (region_ptr ms FCRAM) p p'"
proof -
  let ?fc = "region_ptr ms FCRAM" and ?V = "view (vma_map (pm_vm p))" and ?rg = "pm_region p" and ?R = "{target..<target + sz}"
  let ?area = "GetLinearHeapAreaAddress p"
  have o: "vm_ok e (pm_vm p, ms)" "\<not> is_locked (pm_vm p)" "region_inv ?rg"
    "rg_base ?rg + rg_size ?rg \<le> FCRAM_N3DS_SIZE"
    "holds ?fc ?area (frames ?rg) {GetLinearHeapBase p..<GetLinearHeapLimit p} (avail ?rg) ?V (memory_used p)"
    using ok by (simp_all add: pm_ok_def)
  note lb = linear_bounds [OF o(4)]
  have p: "0 < sz" "target + sz \<le> MAX_ADDRESS" using pr by (simp_all add: page_range_def)
  have w: "add32 target sz = target + sz" by (rule page_range_end [OF pr])
  have R: "GetLinearHeapBase p \<le> target" "target + sz \<le> GetLinearHeapLimit p" using range w by (simp_all add: outside_def)
  show ?thesis
  proof (cases "all_mapped target sz (vma_map (pm_vm p))")
    case False
    then show ?thesis using UnmapRange_error [OF o(1) pr False o(2)] range p(1)
      by (simp add: Process_LinearFree_def vm_code_def)
  next
    case True
    have at: "frame_at ?fc (frames ?rg) (?V a) = Some (a - ?area)" if "a \<in> ?R" for a
    proof -
      have "a \<in> {GetLinearHeapBase p..<GetLinearHeapLimit p}" using that R by auto
      moreover have "?V a \<noteq> Free_area" using True that by (simp add: all_mapped_def)
      ultimately show ?thesis using o(5) by (simp add: holds_def)
    qed
    then have own: "?R \<subseteq> owned ?fc (frames ?rg) ?V" by (auto simp: owned_def)
    define a where "a = target - ?area"
    have ta: "target = ?area + a" using R(1) lb(1) by (simp add: a_def)
    have "target < 2 ^ 32" using p by (simp add: MAX_ADDRESS_def)
    then have s: "sub32 target ?area = a" using ta by (simp add: sub32_id)
    have set_f: "{f. \<exists>x \<in> ?R. frame_at ?fc (frames ?rg) (?V x) = Some f} = {a..<a + sz}"
    proof (intro set_eqI iffI)
      fix f assume "f \<in> {f. \<exists>x \<in> ?R. frame_at ?fc (frames ?rg) (?V x) = Some f}"
      then show "f \<in> {a..<a + sz}" using at ta by auto
    next
      fix f assume "f \<in> {a..<a + sz}"
      then have "?area + f \<in> ?R" using ta by simp
      then show "f \<in> {f. \<exists>x \<in> ?R. frame_at ?fc (frames ?rg) (?V x) = Some f}" using at [of "?area + f"] by auto
    qed
    have sub: "{a..<a + sz} \<subseteq> frames ?rg - avail ?rg"
    proof
      fix f assume "f \<in> {a..<a + sz}"
      then obtain x where x: "frame_at ?fc (frames ?rg) (?V x) = Some f" using set_f by blast
      then have "f \<notin> avail ?rg" using o(5) unfolding holds_def by metis
      moreover have "f \<in> frames ?rg" using x by (auto simp: frame_at_def split: area.splits if_splits)
      ultimately show "f \<in> frames ?rg - avail ?rg" by simp
    qed
    have "a + sz < 2 ^ 32" using p(2) ta by (simp add: MAX_ADDRESS_def)
    from Free_spec [OF o(3) sub this] obtain rg where rg: "MemoryRegion.Free a sz ?rg = Some rg" "region_inv rg"
      "frames rg = frames ?rg" "avail rg = avail ?rg \<union> {a..<a + sz}" .
    note shape = region_shape(4) [OF rg(1), THEN conjunct1] region_shape(4) [OF rg(1), THEN conjunct2]
    from UnmapRange_run [OF o(1) r pr True o(2)] obtain ys ms' where
      u: "UnmapRange env target sz (pm_vm p, ms) = Some (Inr (), (pm_vm p)\<lparr>vma_map := ys\<rparr>, ms')"
        "acts_on target sz (\<lambda>_. Free_area) (vma_map (pm_vm p)) ys" "vm_ok e ((pm_vm p)\<lparr>vma_map := ys\<rparr>, ms')" by blast
    note rp = UnmapRange_region_ptr [OF u(1) r]
    note fin = freed_ok [OF ok pr own u(3,2) rp rg(2,3) shape rg(4) [folded set_f] refl]
    have "Process_LinearFree env target sz (p, ms) =
        Some (RESULT_SUCCESS, unbook sz (p\<lparr>pm_vm := (pm_vm p)\<lparr>vma_map := ys\<rparr>, pm_region := rg\<rparr>), ms')"
      using range p(1) rg(1) u(1) s by (simp add: Process_LinearFree_def unbook_def)
    with fin rp True show ?thesis by auto
  qed
qed

end
