(* ===== verification/ControlMemory.thy ===== *)
theory ControlMemory
  imports ProcessHeaps
begin

text \<open>
  \<open>ControlMemory\<close> of \<open>core/hle/kernel/svc.cpp\<close>: the call by which a guest commits, frees, maps and protects its
  memory. Its commits, frees and protections keep the memory of a process and the region it takes its frames
  from in step.
\<close>

unbundle bit_operations_syntax

section \<open>The call\<close>

definition MEMOP_FREE :: u32 where "MEMOP_FREE = 1"
definition MEMOP_COMMIT :: u32 where "MEMOP_COMMIT = 3"
definition MEMOP_MAP :: u32 where "MEMOP_MAP = 4"
definition MEMOP_UNMAP :: u32 where "MEMOP_UNMAP = 5"
definition MEMOP_PROTECT :: u32 where "MEMOP_PROTECT = 6"
definition MEMOP_OPERATION_MASK :: u32 where "MEMOP_OPERATION_MASK = 0xFF"
definition MEMOP_REGION_MASK :: u32 where "MEMOP_REGION_MASK = 0xF00"
definition MEMOP_LINEAR :: u32 where "MEMOP_LINEAR = 0x10000"

text \<open>The result code and what is written to \<open>out_addr\<close>, if anything.\<close>

type_synonym control_result = "u32 \<times> nat option"

definition control_free :: "'d memory_env \<Rightarrow> nat \<Rightarrow> nat \<Rightarrow> 'd pm_state \<Rightarrow> (control_result \<times> 'd pm_state) run" where
  "control_free env addr0 sz = (\<lambda>(p, ms).
     let answer = (\<lambda>(r, s). ((if IsError r then (r, None) else (RESULT_SUCCESS, Some addr0)), s))
     in if HEAP_VADDR \<le> addr0 \<and> addr0 < HEAP_VADDR_END then map_option answer (Process_HeapFree env addr0 sz (p, ms))
        else if GetLinearHeapBase p \<le> addr0 \<and> addr0 < GetLinearHeapLimit p
        then map_option answer (Process_LinearFree env addr0 sz (p, ms))
        else Some ((ResultCodes.ERR_INVALID_ADDRESS, None), p, ms))"

definition control_commit ::
  "'d memory_env \<Rightarrow> bool \<Rightarrow> nat \<Rightarrow> nat \<Rightarrow> VMAPermission \<Rightarrow> 'd pm_state \<Rightarrow> (control_result \<times> 'd pm_state) run" where
  "control_commit env linear addr0 sz perms s =
     map_option (\<lambda>(r, s'). (case r of Inl e \<Rightarrow> (e, None) | Inr a \<Rightarrow> (RESULT_SUCCESS, Some a), s'))
       (if linear then Process_LinearAllocate env addr0 sz perms s
        else Process_HeapAllocate env addr0 sz perms Private False s)"

definition in_vm ::
  "(vm_manager \<times> 'd memory_system \<Rightarrow> (u32 \<times> vm_manager \<times> 'd memory_system) run) \<Rightarrow> 'd pm_state \<Rightarrow>
   (control_result \<times> 'd pm_state) run" where
  "in_vm f = (\<lambda>(p, ms).
     map_option (\<lambda>(r, vm', ms'). (((if IsError r then r else RESULT_SUCCESS), None), p\<lparr>pm_vm := vm'\<rparr>, ms')) (f (pm_vm p, ms)))"

definition ControlMemory ::
  "'d memory_env \<Rightarrow> nat \<Rightarrow> nat \<Rightarrow> nat \<Rightarrow> u32 \<Rightarrow> u32 \<Rightarrow> 'd pm_state \<Rightarrow> (control_result \<times> 'd pm_state) run" where
  "ControlMemory env addr0 addr1 sz operation prot s =
     (if \<not> page_aligned addr0 \<or> \<not> page_aligned addr1 then Some ((ERR_MISALIGNED_ADDRESS, None), s)
      else if \<not> page_aligned sz then Some ((ERR_MISALIGNED_SIZE, None), s)
      else
        let operation = operation AND NOT MEMOP_REGION_MASK;
            memop = operation AND MEMOP_OPERATION_MASK;
            perms = unat prot in
        if prot AND word_of_nat ReadWrite \<noteq> prot then Some ((ERR_INVALID_COMBINATION, None), s)
        else if memop = MEMOP_FREE then control_free env addr0 sz s
        else if memop = MEMOP_COMMIT then control_commit env (operation AND MEMOP_LINEAR \<noteq> 0) addr0 sz perms s
        else if memop = MEMOP_MAP then in_vm (Process_Map env addr0 addr1 sz perms False) s
        else if memop = MEMOP_UNMAP then in_vm (Process_Unmap env addr0 addr1 sz perms False) s
        else if memop = MEMOP_PROTECT
        then in_vm (\<lambda>s. map_option (apfst vm_result) (ReprotectRange env addr0 sz perms s)) s
        else Some ((ERR_INVALID_COMBINATION, None), s))"




section \<open>Nothing is shared and nothing is lost\<close>

text \<open>All that the process maps are frames of its region, and every frame that is taken is mapped.\<close>

definition whole :: "nat \<Rightarrow> process_memory \<Rightarrow> bool" where
  "whole fc p \<longleftrightarrow>
     (\<forall>a. view (vma_map (pm_vm p)) a \<noteq> Free_area \<longrightarrow> a \<in> owned fc (frames (pm_region p)) (view (vma_map (pm_vm p)))) \<and>
     memory_used p + card (avail (pm_region p)) = card (frames (pm_region p))"





definition kept :: "(nat \<Rightarrow> nat) \<Rightarrow> nat \<Rightarrow> nat set \<Rightarrow> nat \<Rightarrow> 'd pm_state \<Rightarrow> bool" where
  "kept e fc F kv s \<longleftrightarrow> pm_ok e s \<and> region_ptr (snd s) FCRAM = fc \<and> whole fc (fst s) \<and>
     frames (pm_region (fst s)) = F \<and> kernel_version (fst s) = kv"













lemma fresh_kept:
  assumes "separated e" "rasterizer_ok env" "\<not> is_locked vm" "fcram_ok e (region_ptr ms FCRAM)"
    "base + sz \<le> FCRAM_N3DS_SIZE" "page_aligned base" "page_aligned sz"
  obtains rg vm0 ms0 where "Reset_region base sz new_region = Some rg" "Reset env vm ms = Some (vm0, ms0)"
    "kept e (region_ptr ms FCRAM) {base..<base + sz} kv
       (\<lparr>pm_vm = vm0, pm_region = rg, memory_used = 0, current_commit = c, kernel_version = kv\<rparr>, ms0)"
    "\<forall>a. view (vma_map vm0) a = Free_area" "avail rg = {base..<base + sz}"
proof -
  have "base + sz < 2 ^ 32" using assms(5) by (simp add: FCRAM_N3DS_SIZE_def)
  from region_inv_Reset [OF _ this, of new_region] obtain rg where rg: "Reset_region base sz new_region = Some rg" "region_inv rg"
    "avail rg = {base..<base + sz}" "frames rg = {base..<base + sz}" "rg_size rg = sz" "rg_base rg = base"
    by (auto simp: new_region_def)
  from Reset_run [OF assms(1-3), of ms] obtain ys ms0 where
    0: "Reset env vm ms = Some (vm\<lparr>vma_map := ys\<rparr>, ms0)" "vm_ok e (vm\<lparr>vma_map := ys\<rparr>, ms0)" "all_free 0 MAX_ADDRESS ys"
    by blast
  have v: "view ys a = Free_area" for a
    using 0(2,3) view_above [of e ys a] by (cases "a < MAX_ADDRESS") (auto simp: all_free_def vm_ok_def)
  have "page_aligned (base + sz)" using assms(6,7) by (auto simp: page_aligned_def)
  then have ps: "page_set (avail rg)" using page_set_piece [OF assms(6)] rg(3) by simp
  have own: "owned fc F (view ys) = {}" for fc F by (simp add: owned_def v frame_at_def)
  let ?p = "\<lparr>pm_vm = vm\<lparr>vma_map := ys\<rparr>, pm_region = rg, memory_used = 0, current_commit = c, kernel_version = kv\<rparr>"
  have "holds fc area F L A (view ys) 0" for fc area F L A
    unfolding holds_def own by (simp add: v frame_at_def is_backed_def)
  then have "pm_ok e (?p, ms0)"
    using 0(2) assms(3-5) rg Reset_region_ptr [OF 0(1) assms(2)] ps by (simp add: pm_ok_def)
  moreover have "whole fc ?p" for fc using rg by (simp add: whole_def v)
  ultimately have "kept e (region_ptr ms FCRAM) {base..<base + sz} kv (?p, ms0)"
    using rg(4) Reset_region_ptr [OF 0(1) assms(2)] by (simp add: kept_def)
  with rg(1) 0(1) show thesis by (rule that) (simp_all add: v rg(3))
qed








text \<open>C5: What an allocation of heap does. On whole pages of the heap it answers \<open>ERR_INVALID_ADDRESS_STATE\<close> exactly
  where an address of the range is mapped, and \<open>ERR_OUT_OF_HEAP_MEMORY\<close> exactly where the range is free but the
  region has not that much memory, changing nothing in both cases. Otherwise it succeeds: the highest frames
  that were free stand behind the range in order, with the permissions and the state asked for, and are free no
  more; no other address changes, but for permissions of areas that were \<open>ReadWrite\<close> in the same state.\<close>

theorem heap_allocation:
  assumes "pm_ok e (p, ms)" "rasterizer_ok env" "page_range target sz" "HEAP_VADDR \<le> target" "target + sz \<le> HEAP_VADDR_END"
  shows "if \<not> all_free target sz (vma_map (pm_vm p))
    then Process_HeapAllocate env target sz perms st False (p, ms) = Some (Inl ResultCodes.ERR_INVALID_ADDRESS_STATE, p, ms)
    else if card (avail (pm_region p)) < sz
    then Process_HeapAllocate env target sz perms st False (p, ms) = Some (Inl ERR_OUT_OF_HEAP_MEMORY, p, ms)
    else \<exists>fs p' ms'. Process_HeapAllocate env target sz perms st False (p, ms) = Some (Inr target, p', ms') \<and>
      pm_ok e (p', ms') \<and> region_ptr ms' = region_ptr ms \<and> heap_allocated target sz perms st (region_ptr ms FCRAM) fs p p'"
proof -
  have "add32 target sz = target + sz" by (rule page_range_end [OF assms(3)])
  then have o: "\<not> outside HEAP_VADDR HEAP_VADDR_END target sz" using assms(4,5) by (simp add: outside_def)
  have "rg_base (pm_region p) + rg_size (pm_region p) \<le> FCRAM_N3DS_SIZE" using assms(1) by (simp add: pm_ok_def)
  from linear_bounds(1,3) [OF this] have "{target..<target + sz} \<inter> {GetLinearHeapBase p..<GetLinearHeapLimit p} = {}"
    using assms(5) by auto
  from heap_allocate_run [OF assms(1-3) _ this, of False perms st] o show ?thesis by blast
qed


text \<open>C7: What an allocation of linear heap does. Without an address it takes the lowest whole range of free
  frames, and fails with \<open>ERR_OUT_OF_HEAP_MEMORY\<close> exactly if there is none; with an address it fails with
  \<open>ERR_INVALID_ADDRESS\<close> exactly outside of the linear heap of the region, and with \<open>ERR_INVALID_ADDRESS_STATE\<close> exactly if
  one of the frames is taken; no failure changes anything. The asserted mapping cannot fail: where the frames
  are free, so are the addresses. On success the range stands for the frames that its addresses name.\<close>

theorem linear_allocation:
  assumes "pm_ok e (p, ms)" "rasterizer_ok env" "page_aligned target" "page_aligned sz" "0 < sz" "target < 2 ^ 32" "sz < 2 ^ 32"
  shows "if target = 0
    then if \<exists>b. {b..<b + sz} \<subseteq> avail (pm_region p)
      then \<exists>a p' ms'. Process_LinearAllocate env target sz perms (p, ms) = Some (Inr (GetLinearHeapAreaAddress p + a), p', ms') \<and>
        (\<forall>b. {b..<b + sz} \<subseteq> avail (pm_region p) \<longrightarrow> a \<le> b) \<and>
        pm_ok e (p', ms') \<and> region_ptr ms' = region_ptr ms \<and> linear_allocated a sz perms (region_ptr ms FCRAM) p p'
      else Process_LinearAllocate env target sz perms (p, ms) = Some (Inl ERR_OUT_OF_HEAP_MEMORY, p, ms)
    else if outside (GetLinearHeapBase p) (GetLinearHeapLimit p) target sz
    then Process_LinearAllocate env target sz perms (p, ms) = Some (Inl ResultCodes.ERR_INVALID_ADDRESS, p, ms)
    else let a = target - GetLinearHeapAreaAddress p in
      if {a..<a + sz} \<subseteq> avail (pm_region p)
      then \<exists>p' ms'. Process_LinearAllocate env target sz perms (p, ms) = Some (Inr target, p', ms') \<and>
        pm_ok e (p', ms') \<and> region_ptr ms' = region_ptr ms \<and> linear_allocated a sz perms (region_ptr ms FCRAM) p p'
      else Process_LinearAllocate env target sz perms (p, ms) = Some (Inl ResultCodes.ERR_INVALID_ADDRESS_STATE, p, ms)"
  by (rule linear_allocate_run [OF assms])

section \<open>Instances\<close>

definition fcram_end :: "nat \<Rightarrow> nat" where
  "fcram_end x = (if 0x10000000 \<le> x \<and> x < 0x20000000 then 0x20000000 else 0)"

definition sample_process :: "vm_manager \<Rightarrow> region \<Rightarrow> process_memory" where
  "sample_process vm rg = \<lparr>pm_vm = vm, pm_region = rg, memory_used = 0, current_commit = 0, kernel_version = 0x234\<rparr>"

lemma sample_memory: "separated fcram_end" "fcram_ok fcram_end (region_ptr boot_memory FCRAM)"
  by (auto simp: separated_def fcram_ok_def fcram_end_def boot_memory_def FCRAM_N3DS_SIZE_def)

lemma sample_pages: "page_aligned 0" "page_aligned 0x04000000" "0 + 0x04000000 \<le> FCRAM_N3DS_SIZE"
  by (simp_all add: page_aligned_def CITRA_PAGE_SIZE_def FCRAM_N3DS_SIZE_def)

lemma sample_start:
  obtains vm rg ms where "Reset no_devices sample_vm boot_memory = Some (vm, ms)" "Reset_region 0 0x04000000 new_region = Some rg"
    "pm_ok fcram_end (sample_process vm rg, ms)" "\<forall>a. view (vma_map vm) a = Free_area" "avail rg = {0..<0x04000000}"
  by (rule fresh_kept [OF sample_memory(1) rasterizer_none sample_unlocked sample_memory(2) sample_pages(3,1,2),
        where kv = "0x234" and c = 0]) (simp add: kept_def sample_process_def)


theorem heap_allocation_witness:
  "\<exists>p ms fs p' ms'. pm_ok fcram_end (p, ms) \<and>
     Process_HeapAllocate no_devices 0x08000000 0x2000 3 Private False (p, ms) = Some (Inr 0x08000000, p', ms') \<and>
     heap_allocated 0x08000000 0x2000 3 Private 0x10000000 fs p p' \<and>
     Process_HeapAllocate no_devices 0x08000000 0x07000000 3 Private False (p, ms) = Some (Inl ERR_OUT_OF_HEAP_MEMORY, p, ms)"
proof -
  obtain vm rg ms where s: "pm_ok fcram_end (sample_process vm rg, ms)" "\<forall>a. view (vma_map vm) a = Free_area" "avail rg = {0..<0x04000000}"
    "Reset no_devices sample_vm boot_memory = Some (vm, ms)"
    by (rule sample_start) (rule that; assumption)
  have rp: "region_ptr ms FCRAM = 0x10000000" using Reset_region_ptr [OF s(4) rasterizer_none] by (simp add: boot_memory_def)
  have p: "page_range 0x08000000 0x2000" "page_range 0x08000000 0x07000000"
    by (simp_all add: page_range_def page_aligned_def CITRA_PAGE_SIZE_def MAX_ADDRESS_def)
  have h: "HEAP_VADDR \<le> 0x08000000" "0x08000000 + 0x2000 \<le> HEAP_VADDR_END" "0x08000000 + 0x07000000 \<le> HEAP_VADDR_END"
    by (simp_all add: HEAP_VADDR_END_def HEAP_VADDR_def HEAP_SIZE_def)
  let ?p = "sample_process vm rg"
  have f: "all_free t n (vma_map (pm_vm ?p))" for t n using s(2) by (simp add: all_free_def sample_process_def)
  have c: "card (avail (pm_region ?p)) = 0x04000000" using s(3) by (simp add: sample_process_def)
  from heap_allocation [OF s(1) rasterizer_none p(1) h(1,2), of 3 Private] f [of "0x08000000" "0x2000"] c rp
  obtain fs p' ms' where "Process_HeapAllocate no_devices 0x08000000 0x2000 3 Private False (?p, ms) = Some (Inr 0x08000000, p', ms')"
    "heap_allocated 0x08000000 0x2000 3 Private 0x10000000 fs ?p p'" by auto
  moreover have "Process_HeapAllocate no_devices 0x08000000 0x07000000 3 Private False (?p, ms) = Some (Inl ERR_OUT_OF_HEAP_MEMORY, ?p, ms)"
    using heap_allocation [OF s(1) rasterizer_none p(2) h(1,3), of 3 Private] f [of "0x08000000" "0x07000000"] c by simp
  ultimately show ?thesis using s(1) by blast
qed


theorem linear_allocation_witness:
  "\<exists>p ms p' ms'. pm_ok fcram_end (p, ms) \<and>
     Process_LinearAllocate no_devices 0x30001000 0x1000 3 (p, ms) = Some (Inr 0x30001000, p', ms') \<and>
     linear_allocated 0x1000 0x1000 3 0x10000000 p p'"
proof -
  obtain vm rg ms where s: "pm_ok fcram_end (sample_process vm rg, ms)" "\<forall>a. view (vma_map vm) a = Free_area" "avail rg = {0..<0x04000000}"
    "Reset no_devices sample_vm boot_memory = Some (vm, ms)" "Reset_region 0 0x04000000 new_region = Some rg"
    by (rule sample_start) (rule that; assumption)
  have rp: "region_ptr ms FCRAM = 0x10000000" using Reset_region_ptr [OF s(4) rasterizer_none] by (simp add: boot_memory_def)
  let ?p = "sample_process vm rg"
  have rg: "rg_base rg = 0" "rg_size rg = 0x04000000" using s(5) by (auto simp: Reset_region_def new_region_def)
  have area: "GetLinearHeapAreaAddress ?p = 0x30000000" "\<not> outside (GetLinearHeapBase ?p) (GetLinearHeapLimit ?p) 0x30001000 0x1000"
    using rg by (simp_all add: outside_def GetLinearHeapBase_def GetLinearHeapLimit_def GetLinearHeapAreaAddress_def sample_process_def
        NEW_LINEAR_HEAP_VADDR_def add32_def)
  have al: "page_aligned 0x30001000" "page_aligned 0x1000" by (simp_all add: page_aligned_def CITRA_PAGE_SIZE_def)
  have av: "{0x1000..<0x1000 + 0x1000} \<subseteq> avail (pm_region ?p)" using s(3) by (auto simp: sample_process_def)
  from linear_allocation [OF s(1) rasterizer_none al, of 3] area av rp
  obtain p' ms' where "Process_LinearAllocate no_devices 0x30001000 0x1000 3 (?p, ms) = Some (Inr 0x30001000, p', ms')"
    "linear_allocated 0x1000 0x1000 3 0x10000000 ?p p'" by (auto simp: Let_def)
  with s(1) show ?thesis by blast
qed

section \<open>Where the calls fall short\<close>

lemma CarveVMA_empty:
  assumes s: "space_ok e xs"
  shows "CarveVMA t 0 xs \<noteq> Some (Inr r)"
proof
  assume c: "CarveVMA t 0 xs = Some (Inr r)"
  have t: "tiles 0 xs MAX_ADDRESS" using s by (simp add: space_ok_def)
  show False
  proof (cases "t < MAX_ADDRESS")
    case False
    then show False using c by (auto simp: CarveVMA_def FindVMA_def split: if_splits)
  next
    case True
    obtain as v bs where x: "xs = as @ v # bs" "vma_base v \<le> t" "t < vma_base v + vma_size v"
      by (rule tiles_find [OF t le0 [of t] True]) (rule that; assumption)
    note t' = t [unfolded x(1)]
    have f: "FindVMA t xs = Some (Some (vma_base v))" "at_key (vma_base v) xs = Some v"
      using FindVMA_cut [OF t' x(2,3) True] at_key_cut [OF t'] by (simp_all add: x(1))
    have w: "t < 2 ^ 32" using True by (simp add: MAX_ADDRESS_def)
    define n where "n = t - vma_base v"
    have n: "sub32 t (vma_base v) = n" "add32 n 0 = n" "n < vma_size v"
      using x(2,3) w by (auto simp: n_def sub32_id add32_def)
    from c obtain xs1 where xs1: "map_option snd (SplitVMA (vma_base v) n xs) = Some xs1"
      "(if n \<noteq> 0 then SplitVMA (vma_base v) n xs1 else Some (vma_base v, xs1)) = Some r"
      using f n by (auto simp: CarveVMA_def bind_eq_Some_conv split: if_splits)
    have ok: "vma_ok e v" using s by (rule vma_ok_area [of e as v bs, folded x(1)])
    show False
    proof (cases "n = 0")
      case True
      then show False using xs1(1) f(2) by (simp add: SplitVMA_def)
    next
      case False
      have "SplitVMA (vma_base v) n xs = Some (vma_base v + n, as @ v\<lparr>vma_size := n\<rparr> # split_right v n # bs)"
        unfolding x(1) using False n(3) by (intro SplitVMA_cut [OF t' ok]) simp_all
      then have "xs1 = as @ v\<lparr>vma_size := n\<rparr> # split_right v n # bs" using xs1(1) by simp
      moreover have "at_key (vma_base v) (as @ v\<lparr>vma_size := n\<rparr> # split_right v n # bs) = Some (v\<lparr>vma_size := n\<rparr>)"
        unfolding at_key_def using tiles_cut(1) [OF t'] by (subst find_skip) auto
      ultimately show False using xs1(2) False by (simp add: SplitVMA_def)
    qed
  qed
qed

lemma map_protected_empty:
  assumes "space_ok e (vma_map vm)"
  shows "map_protected env t r 0 st perms (vm, ms) = None"
proof (cases "CarveVMA t 0 (vma_map vm)")
  case None
  then show ?thesis by (simp add: map_protected_def MapBackingMemory_def)
next
  case (Some c)
  then obtain x where "c = Inl x" using CarveVMA_empty [OF assms, of t] by (cases c) auto
  with Some show ?thesis by (simp add: map_protected_def MapBackingMemory_def)
qed

lemma LinearAllocate_empty:
  assumes "pm_ok e (p, ms)" "avail (pm_region p) \<noteq> {}"
  shows "Process_LinearAllocate env 0 0 perms (p, ms) = None"
proof -
  have s: "space_ok e (vma_map (pm_vm p))" and l: "\<not> rg_locked (pm_region p)"
    using assms(1) by (simp_all add: pm_ok_def vm_ok_def region_inv_def)
  obtain i bs where f: "free_blocks (pm_region p) = i # bs" using assms(2) by (cases "free_blocks (pm_region p)") (auto simp: avail_def)
  have "linear_place 0 0 p = Some (Inr (fst i, add32 (fst i) (GetLinearHeapAreaAddress p)),
      (pm_region p)\<lparr>free_blocks := iset_minus (fst i, fst i) (free_blocks (pm_region p)), rg_used := add32 (rg_used (pm_region p)) 0\<rparr>)"
    using f l by (cases i) (simp add: linear_place_def LinearAllocate_def)
  then show ?thesis
    by (cases "GetFCRAMRef (fst i) ms") (simp_all add: Process_LinearAllocate_def Let_def map_protected_empty [OF s])
qed

text \<open>Two calls that a guest can make end in a failed assertion. A commit of linear heap of no size reaches
  \<open>MapBackingMemory\<close>, which cannot carve out an empty area, as soon as the region has a free frame: \<open>LinearAllocate\<close>
  does not look at the size, as \<open>HeapFree\<close> and \<open>LinearFree\<close> do. And a protection of no size, or of a range that goes
  past the end of the address space, meets the assertions of \<open>CarveVMARange\<close> on its arguments.\<close>

theorem control_memory_reaches_assertions:
  assumes ok: "pm_ok e (p, ms)" and free: "avail (pm_region p) \<noteq> {}"
    and r: "page_aligned a" "page_aligned n" "a + n < 2 ^ 32" "n = 0 \<or> MAX_ADDRESS < a + n"
  shows "ControlMemory env 0 0 0 (MEMOP_LINEAR OR MEMOP_COMMIT) 3 (p, ms) = None \<and>
    ControlMemory env a 0 n MEMOP_PROTECT 3 (p, ms) = None"
proof
  have al: "page_aligned 0" by (simp add: page_aligned_def)
  show "ControlMemory env 0 0 0 (MEMOP_LINEAR OR MEMOP_COMMIT) 3 (p, ms) = None"
    using al LinearAllocate_empty [OF ok free, of env 3]
    by (simp add: ControlMemory_def Let_def control_commit_def ReadWrite_def MEMOP_LINEAR_def MEMOP_COMMIT_def MEMOP_FREE_def
        MEMOP_OPERATION_MASK_def MEMOP_REGION_MASK_def)
  have "add32 a n = a + n" using r(3) by (rule add32_id)
  then have "CarveVMARange a n xs = None" for xs using r(1,2,4) by (auto simp: CarveVMARange_def Let_def)
  then have "ReprotectRange env a n 3 (pm_vm p, ms) = None" by (simp add: ReprotectRange_def)
  then show "ControlMemory env a 0 n MEMOP_PROTECT 3 (p, ms) = None"
    using al r(1,2)
    by (simp add: ControlMemory_def Let_def in_vm_def ReadWrite_def MEMOP_PROTECT_def MEMOP_COMMIT_def MEMOP_FREE_def
        MEMOP_MAP_def MEMOP_UNMAP_def MEMOP_OPERATION_MASK_def MEMOP_REGION_MASK_def)
qed

theorem control_memory_reaches_assertions_witness:
  "\<exists>p ms. pm_ok fcram_end (p, ms) \<and> ControlMemory no_devices 0 0 0 (MEMOP_LINEAR OR MEMOP_COMMIT) 3 (p, ms) = None \<and>
     ControlMemory no_devices 0x3FFFF000 0 0x2000 MEMOP_PROTECT 3 (p, ms) = None"
proof -
  obtain vm rg ms where s: "pm_ok fcram_end (sample_process vm rg, ms)" "avail rg = {0..<0x04000000}"
    "Reset no_devices sample_vm boot_memory = Some (vm, ms)"
    by (rule sample_start) (rule that; assumption)
  have "avail (pm_region (sample_process vm rg)) \<noteq> {}" using s(2) by (simp add: sample_process_def)
  moreover have "page_aligned 0x3FFFF000" "page_aligned 0x2000" by (simp_all add: page_aligned_def CITRA_PAGE_SIZE_def)
  ultimately show ?thesis using control_memory_reaches_assertions [OF s(1), of "0x3FFFF000" "0x2000" no_devices] s(1)
    by (auto simp: MAX_ADDRESS_def)
qed

text \<open>A page of linear heap that is mapped, and the page of the region before it that is free.\<close>

definition linear_area :: "nat \<Rightarrow> nat \<Rightarrow> VMAPermission \<Rightarrow> vma" where
  "linear_area b n perms = new_vma\<lparr>vma_base := b, vma_size := n, vma_type := BackingMemory, permissions := perms,
     meminfo_state := Continuous, backing_memory := \<lparr>GetPtr = b - 0x20000000, ref_size = 0x40000000 - b\<rparr>\<rparr>"

definition one_page :: process_memory where
  "one_page = sample_process
     (sample_vm\<lparr>vma_map := [new_vma\<lparr>vma_size := 0x30001000\<rparr>, linear_area 0x30001000 0x1000 3,
                             new_vma\<lparr>vma_base := 0x30002000, vma_size := 0xFFFE000\<rparr>]\<rparr>)
     \<lparr>rg_base = 0, rg_size = 0x2000, rg_used = 0x1000, free_blocks = [(0, 0x1000)], rg_locked = False\<rparr>"

text \<open>A commit can change the permissions of memory that was there before: \<open>MapBackingMemory\<close> maps with
  \<open>ReadWrite\<close> and merges the new area with its neighbour where that has these permissions and the frame next
  to it, and the \<open>Reprotect\<close> that follows reaches all of the merged area. Here a guest commits a page in front of
  a page it may read and write, asks for write permission only, and may no longer read the other page.\<close>

theorem commit_changes_neighbour:
  "\<exists>p' ms'. ControlMemory no_devices 0x30000000 0 0x1000 (MEMOP_LINEAR OR MEMOP_COMMIT) 2 (one_page, boot_memory) =
     Some ((RESULT_SUCCESS, Some 0x30000000), p', ms') \<and>
     view (vma_map (pm_vm one_page)) 0x30001000 = Backed 3 Continuous 0x10001000 \<and>
     view (vma_map (pm_vm p')) 0x30001000 = Backed 2 Continuous 0x10001000"
proof -
  define ms1 where "ms1 = store 0x10000000 (replicate 0x1000 0) boot_memory"
  have up: "\<exists>ms'. UpdatePageTableForVMA no_devices 0 (linear_area b n q) ms = Some ms'"
    if "page_aligned b" "page_aligned n" "b + n \<le> MAX_ADDRESS" for b n q ms
    using update_some [of "linear_area b n q" no_devices 0 ms] that rasterizer_none by (simp add: linear_area_def)
  have al: "page_aligned 0x30000000" "page_aligned 0x1000" "page_aligned 0x2000" "page_aligned 0"
    by (simp_all add: page_aligned_def CITRA_PAGE_SIZE_def)
  obtain ms2 where ms2: "UpdatePageTableForVMA no_devices 0 (linear_area 0x30000000 0x1000 3) ms1 = Some ms2"
    using up [of "0x30000000" "0x1000" 3 ms1] al by (auto simp: MAX_ADDRESS_def)
  obtain ms3 where ms3: "UpdatePageTableForVMA no_devices 0 (linear_area 0x30000000 0x2000 2) ms2 = Some ms3"
    using up [of "0x30000000" "0x2000" 2 ms2] al by (auto simp: MAX_ADDRESS_def)
  define A where "A = new_vma\<lparr>vma_size := 0x30000000\<rparr>"
  define Z where "Z = new_vma\<lparr>vma_base := 0x30002000, vma_size := 0xFFFE000\<rparr>"
  define ys where "ys = (\<lambda>q. [A, linear_area 0x30000000 0x2000 q, Z])"
  let ?vm = "pm_vm one_page"
  let ?r = "\<lparr>GetPtr = 0x10000000, ref_size = 0x10000000\<rparr>"
  have vm: "page_table ?vm = 0" "\<not> is_locked ?vm"
    "vma_map ?vm = [new_vma\<lparr>vma_size := 0x30001000\<rparr>, linear_area 0x30001000 0x1000 3, Z]"
    by (simp_all add: one_page_def sample_process_def sample_vm_def Z_def)
  have carve: "CarveVMA 0x30000000 0x1000 (vma_map ?vm) =
      Some (Inr (0x30000000, [A, new_vma\<lparr>vma_base := 0x30000000, vma_size := 0x1000\<rparr>, linear_area 0x30001000 0x1000 3, Z]))"
    unfolding vm(3)
    by (simp add: CarveVMA_def FindVMA_def al Z_def A_def new_vma_def linear_area_def at_key_def SplitVMA_def update_key_def
        sub32_def add32_def CanBeMergedWith_def Let_def MAX_ADDRESS_def)
  have tb: "to_backing ?r Continuous (new_vma\<lparr>vma_base := 0x30000000, vma_size := 0x1000\<rparr>) = linear_area 0x30000000 0x1000 3"
    by (simp add: to_backing_def linear_area_def new_vma_def ReadWrite_def)
  have m1: "modify_vma no_devices (to_backing ?r Continuous) 0x30000000
      (?vm\<lparr>vma_map := [A, new_vma\<lparr>vma_base := 0x30000000, vma_size := 0x1000\<rparr>, linear_area 0x30001000 0x1000 3, Z]\<rparr>, ms1) =
      Some (0x30000000, ?vm\<lparr>vma_map := ys 3\<rparr>, ms2)"
    using ms2 vm(1) tb
    by (simp add: modify_vma_def at_key_def update_key_def A_def Z_def new_vma_def linear_area_def MergeAdjacent_def merge_next_def
        merge_prev_def next_iter_def prev_iter_def CanBeMergedWith_def erase_key_def add32_def ys_def Let_def)
  have m2: "modify_vma no_devices (with_perms 2) 0x30000000 (?vm\<lparr>vma_map := ys 3\<rparr>, ms2) =
      Some (0x30000000, ?vm\<lparr>vma_map := ys 2\<rparr>, ms3)"
    using ms3 vm(1)
    by (simp add: modify_vma_def at_key_def update_key_def A_def Z_def new_vma_def linear_area_def MergeAdjacent_def merge_next_def
        merge_prev_def next_iter_def prev_iter_def CanBeMergedWith_def erase_key_def add32_def ys_def Let_def with_perms_def)
  have map: "map_protected no_devices 0x30000000 ?r 0x1000 Continuous 2 (?vm, ms1) = Some (?vm\<lparr>vma_map := ys 2\<rparr>, ms3)"
    using carve m1 m2 vm(2)
    by (simp add: map_protected_def MapBackingMemory_def Reprotect_def at_key_def A_def new_vma_def)
  have place: "linear_place 0x30000000 0x1000 one_page = Some (Inr (0, 0x30000000),
      \<lparr>rg_base = 0, rg_size = 0x2000, rg_used = 0x2000, free_blocks = [], rg_locked = False\<rparr>)"
    by (simp add: linear_place_def outside_def one_page_def sample_process_def GetLinearHeapBase_def GetLinearHeapLimit_def
        GetLinearHeapAreaAddress_def NEW_LINEAR_HEAP_VADDR_def add32_def sub32_def LinearAllocate_at_def iset_contains_def
        iset_minus_def piece_def Let_def)
  have ref: "GetFCRAMRef 0 boot_memory = Some ?r"
    by (simp add: GetFCRAMRef_def region_ref_def GetSize_def FCRAM_N3DS_SIZE_def boot_memory_def)
  have run: "\<exists>p'. Process_LinearAllocate no_devices 0x30000000 0x1000 2 (one_page, boot_memory) = Some (Inr 0x30000000, p', ms3) \<and>
      pm_vm p' = ?vm\<lparr>vma_map := ys 2\<rparr>"
    using place ref map by (simp add: Process_LinearAllocate_def ms1_def [symmetric] book_def)
  then obtain p' where p': "Process_LinearAllocate no_devices 0x30000000 0x1000 2 (one_page, boot_memory) = Some (Inr 0x30000000, p', ms3)"
    "pm_vm p' = ?vm\<lparr>vma_map := ys 2\<rparr>" by blast
  have "ControlMemory no_devices 0x30000000 0 0x1000 (MEMOP_LINEAR OR MEMOP_COMMIT) 2 (one_page, boot_memory) =
      Some ((RESULT_SUCCESS, Some 0x30000000), p', ms3)"
    using al p'(1)
    by (simp add: ControlMemory_def Let_def control_commit_def ReadWrite_def MEMOP_LINEAR_def MEMOP_COMMIT_def MEMOP_FREE_def
        MEMOP_OPERATION_MASK_def MEMOP_REGION_MASK_def)
  moreover have "view (vma_map ?vm) 0x30001000 = Backed 3 Continuous 0x10001000"
    by (simp add: vm(3) view_def inside_def new_vma_def linear_area_def area_at_def)
  moreover have "view (vma_map (pm_vm p')) 0x30001000 = Backed 2 Continuous 0x10001000"
    by (simp add: p'(2) ys_def A_def view_def inside_def new_vma_def linear_area_def area_at_def)
  ultimately show ?thesis by blast
qed

end
