(* ===== verification/KernelCaps.thy ===== *)
theory KernelCaps
  imports ProcessMemory
begin

text \<open>
  What a program may do, from its extended header: \<open>Process::ParseKernelCaps\<close> of \<open>core/hle/kernel/process.cpp\<close>, and the
  memory that the kernel maps into its address space for that, \<open>HandleSpecialMapping\<close> and \<open>MapSharedPages\<close> of
  \<open>memory.cpp\<close>. Descriptors are words of \<open>u32\<close>.
\<close>

section \<open>Capabilities\<close>

unbundle bit_operations_syntax

record address_mapping =
  am_address :: u32
  am_size :: u32
  am_read_only :: bool
  am_unk_flag :: bool

record kernel_caps =
  svc_access_mask :: "bool list"
  handle_table_size :: u32
  address_mappings :: "address_mapping list"
  flags_raw :: u16
  caps_version :: u16

text \<open>The loop over the bits of a mask of calls.\<close>

function set_calls :: "nat \<Rightarrow> u32 \<Rightarrow> bool list \<Rightarrow> bool list" where
  "set_calls index bits calls =
     (if bits \<noteq> 0 \<and> index < length calls
      then set_calls (index + 1) (drop_bit 1 bits) (calls[index := bit bits 0])
      else calls)"
  by auto

termination by (relation "measure (\<lambda>(index, bits, calls). length calls - index)") auto

declare set_calls.simps [simp del]

text \<open>\<open>address_mappings\<close> is a vector with room for eight; a ninth is refused with an exception.\<close>

definition push_mapping :: "address_mapping \<Rightarrow> kernel_caps \<Rightarrow> kernel_caps run" where
  "push_mapping m c =
     do {
       assert_that (length (address_mappings c) < 8);
       Some (c\<lparr>address_mappings := address_mappings c @ [m]\<rparr>)
     }"

definition is_type :: "u32 \<Rightarrow> u32 \<Rightarrow> u32 \<Rightarrow> bool" where
  "is_type m v descriptor \<longleftrightarrow> drop_bit 20 descriptor AND m = v"

definition range_mapping :: "u32 \<Rightarrow> u32 \<Rightarrow> address_mapping" where
  "range_mapping descriptor end_desc =
     (let address = push_bit 12 descriptor; end_address = push_bit 12 end_desc in
      \<lparr>am_address = address, am_size = (if address < end_address then end_address - address else 0),
       am_read_only = (descriptor AND 0x100000 \<noteq> 0), am_unk_flag = (end_desc AND 0x100000 \<noteq> 0)\<rparr>)"

definition page_mapping :: "u32 \<Rightarrow> address_mapping" where
  "page_mapping descriptor =
     \<lparr>am_address = push_bit 12 descriptor, am_size = 0x1000, am_read_only = False, am_unk_flag = False\<rparr>"

fun ParseKernelCaps :: "u32 list \<Rightarrow> kernel_caps \<Rightarrow> kernel_caps run" where
  "ParseKernelCaps [] c = Some c"
| "ParseKernelCaps (descriptor # ds) c =
     (if descriptor = 0xFFFFFFFF then ParseKernelCaps ds c
      else if is_type 0xF00 0xE00 descriptor then ParseKernelCaps ds c
      else if is_type 0xF80 0xF00 descriptor
      then ParseKernelCaps ds
             (c\<lparr>svc_access_mask := set_calls (unat (drop_bit 24 descriptor AND 7) * 24) (descriptor AND 0xFFFFFF) (svc_access_mask c)\<rparr>)
      else if is_type 0xFF0 0xFE0 descriptor
      then ParseKernelCaps ds (c\<lparr>handle_table_size := descriptor AND 0x3FF\<rparr>)
      else if is_type 0xFF8 0xFF0 descriptor
      then ParseKernelCaps ds (c\<lparr>flags_raw := ucast (descriptor AND 0xFFFF)\<rparr>)
      else if is_type 0xFFE 0xFF8 descriptor
      then (case ds of
              [] \<Rightarrow> Some c
            | end_desc # es \<Rightarrow>
                if \<not> is_type 0xFFE 0xFF8 end_desc then ParseKernelCaps ds c
                else do { c' \<leftarrow> push_mapping (range_mapping descriptor end_desc) c; ParseKernelCaps es c' })
      else if is_type 0xFFF 0xFFE descriptor
      then do { c' \<leftarrow> push_mapping (page_mapping descriptor) c; ParseKernelCaps ds c' }
      else if is_type 0xFE0 0xFC0 descriptor
      then ParseKernelCaps ds (c\<lparr>caps_version := ucast (descriptor AND 0xFFFF)\<rparr>)
      else ParseKernelCaps ds c)"

definition Set3dsxKernelCaps :: "kernel_caps \<Rightarrow> kernel_caps" where
  "Set3dsxKernelCaps c = c\<lparr>svc_access_mask := replicate 0x80 True,
     address_mappings := [\<lparr>am_address = 0x1FF50000, am_size = 0x8000, am_read_only = True, am_unk_flag = False\<rparr>,
                          \<lparr>am_address = 0x1FF70000, am_size = 0x8000, am_read_only = True, am_unk_flag = False\<rparr>,
                          \<lparr>am_address = 0x1F000000, am_size = 0x600000, am_read_only = False, am_unk_flag = False\<rparr>],
     caps_version := 0x234\<rparr>"

section \<open>Types of descriptors\<close>

lemma type_bits:
  assumes "k \<le> 12"
  shows "drop_bit 20 (d :: u32) AND push_bit k (mask (12 - k)) = push_bit k (drop_bit (20 + k) d)"
proof (rule bit_word_eqI)
  fix n assume "n < LENGTH(32)"
  have "n < 12" if "bit d (20 + n)" using bit_imp_le_length [OF that] by simp
  then show "bit (drop_bit 20 d AND push_bit k (mask (12 - k))) n \<longleftrightarrow> bit (push_bit k (drop_bit (20 + k) d)) n"
    using \<open>n < LENGTH(32)\<close> by (auto simp: bit_simps)
qed

lemma unat_push:
  assumes "unat (x :: u32) < 2 ^ (12 - k)" "k \<le> 12"
  shows "unat (push_bit k x) = unat x * 2 ^ k"
proof -
  have "unat x * 2 ^ k < 2 ^ (12 - k) * 2 ^ k" using assms(1) by simp
  also have "\<dots> = 2 ^ 12" using assms(2) by (simp flip: power_add)
  finally have "unat x * 2 ^ k < 2 ^ 32" by simp
  then have "take_bit LENGTH(32) (push_bit k (unat x)) = unat x * 2 ^ k" by (simp add: push_bit_eq_mult take_bit_nat_eq_self)
  then show ?thesis unfolding unsigned_push_bit_eq .
qed

lemma is_type_iff:
  assumes "k \<le> 12" "unat v < 2 ^ (12 - k)"
  shows "is_type (push_bit k (mask (12 - k))) (push_bit k v) d \<longleftrightarrow> unat d div 2 ^ (20 + k) = unat v"
proof -
  have d: "unat (drop_bit (20 + k) d) = unat d div 2 ^ (20 + k)" unfolding unat_drop_bit_eq by (rule drop_bit_eq_div)
  have "unat d < 2 ^ (20 + k) * 2 ^ (12 - k)"
    using unsigned_less [of d] assms(1) by (simp flip: power_add)
  then have "unat (drop_bit (20 + k) d) < 2 ^ (12 - k)" unfolding d by (simp add: less_mult_imp_div_less mult.commute)
  then show ?thesis unfolding is_type_def type_bits [OF assms(1)] word_unat_eq_iff unat_push [OF assms(2,1)]
    using unat_push [OF _ assms(1)] d by simp
qed

lemma is_type_div:
  "is_type 0xF00 0xE00 d \<longleftrightarrow> unat d div 2 ^ 28 = 0xE"
  "is_type 0xF80 0xF00 d \<longleftrightarrow> unat d div 2 ^ 27 = 0x1E"
  "is_type 0xFF0 0xFE0 d \<longleftrightarrow> unat d div 2 ^ 24 = 0xFE"
  "is_type 0xFF8 0xFF0 d \<longleftrightarrow> unat d div 2 ^ 23 = 0x1FE"
  "is_type 0xFFE 0xFF8 d \<longleftrightarrow> unat d div 2 ^ 21 = 0x7FC"
  "is_type 0xFFF 0xFFE d \<longleftrightarrow> unat d div 2 ^ 20 = 0xFFE"
  "is_type 0xFE0 0xFC0 d \<longleftrightarrow> unat d div 2 ^ 25 = 0x7E"
  using is_type_iff [of 8 "0xE" d] is_type_iff [of 7 "0x1E" d] is_type_iff [of 4 "0xFE" d] is_type_iff [of 3 "0x1FE" d]
    is_type_iff [of 1 "0x7FC" d] is_type_iff [of 0 "0xFFE" d] is_type_iff [of 5 "0x7E" d]
  by (simp_all add: mask_eq_exp_minus_1)

lemma set_calls_fresh:
  "\<forall>k < length calls. i \<le> k \<longrightarrow> \<not> calls ! k \<Longrightarrow>
   length (set_calls i bits calls) = length calls \<and>
   (\<forall>k < length calls. set_calls i bits calls ! k = (if k < i then calls ! k else bit bits (k - i)))"
proof (induction i bits calls rule: set_calls.induct)
  case (1 i bits calls)
  show ?case
  proof (cases "bits \<noteq> 0 \<and> i < length calls")
    case True
    let ?calls = "calls[i := bit bits 0]"
    have "\<forall>k < length ?calls. i + 1 \<le> k \<longrightarrow> \<not> ?calls ! k" using "1.prems" by auto
    note IH = "1.IH" [OF True this]
    have s: "set_calls i bits calls = set_calls (i + 1) (drop_bit 1 bits) ?calls" using True by (subst set_calls.simps) simp
    show ?thesis
    proof (intro conjI allI impI)
      show "length (set_calls i bits calls) = length calls" using IH s by simp
      fix k assume k: "k < length calls"
      consider "k < i" | "k = i" | "i < k" by linarith
      then show "set_calls i bits calls ! k = (if k < i then calls ! k else bit bits (k - i))"
      proof cases
        case 3
        then have "set_calls i bits calls ! k = bit (drop_bit 1 bits) (k - (i + 1))" using IH s k by simp
        also have "\<dots> = bit bits (k - i)" using 3 by (simp add: bit_drop_bit_eq Suc_diff_Suc)
        finally show ?thesis using 3 by simp
      qed (use IH s k in simp_all)
    qed
  next
    case False
    then have "set_calls i bits calls = calls" by (subst set_calls.simps) auto
    then show ?thesis using False "1.prems" by auto
  qed
qed


section \<open>Writing capabilities\<close>

definition call_descriptor :: "nat \<Rightarrow> nat \<Rightarrow> u32" where
  "call_descriptor g bits = word_of_nat (0xF0000000 + g * 2 ^ 24 + bits)"

definition call_group :: "bool list \<Rightarrow> nat \<Rightarrow> nat" where
  "call_group calls g = horner_sum of_bool 2 (map (\<lambda>j. 24 * g + j < length calls \<and> calls ! (24 * g + j)) [0..<24])"

definition range_descriptors :: "address_mapping \<Rightarrow> u32 list" where
  "range_descriptors m =
     [word_of_nat (0xFF800000 + of_bool (am_read_only m) * 2 ^ 20 + unat (am_address m) div 2 ^ 12),
      word_of_nat (0xFF800000 + of_bool (am_unk_flag m) * 2 ^ 20 + (unat (am_address m) + unat (am_size m)) div 2 ^ 12)]"

definition encode_caps :: "kernel_caps \<Rightarrow> u32 list" where
  "encode_caps c =
     map (\<lambda>g. call_descriptor g (call_group (svc_access_mask c) g)) [0..<6] @
     [word_of_nat (0xFE000000 + unat (handle_table_size c)), word_of_nat (0xFF000000 + unat (flags_raw c)),
      word_of_nat (0xFC000000 + unat (caps_version c))] @
     concat (map range_descriptors (address_mappings c))"

definition whole_pages :: "address_mapping \<Rightarrow> bool" where
  "whole_pages m \<longleftrightarrow> unat (am_address m) mod 2 ^ 12 = 0 \<and> unat (am_size m) mod 2 ^ 12 = 0 \<and>
     unat (am_address m) + unat (am_size m) < 2 ^ 32"

definition new_caps :: kernel_caps where
  "new_caps = \<lparr>svc_access_mask = replicate 0x80 False, handle_table_size = 0x200, address_mappings = [], flags_raw = 0, caps_version = 0\<rparr>"

lemma unat_descriptor: "n < 2 ^ 32 \<Longrightarrow> unat (word_of_nat n :: u32) = n"
  by (simp add: unat_of_nat take_bit_nat_eq_self)

lemma unat_low: "unat ((d :: u32) AND mask k) = unat d mod 2 ^ k"
  unfolding take_bit_eq_mask [symmetric] unsigned_take_bit_eq by (rule take_bit_eq_mod)

lemma low_masks:
  "unat ((d :: u32) AND 7) = unat d mod 2 ^ 3" "unat (d AND 0xFFFFFF) = unat d mod 2 ^ 24"
  "unat (d AND 0x3FF) = unat d mod 2 ^ 10" "unat (d AND 0xFFFF) = unat d mod 2 ^ 16"
  using unat_low [of d 3] unat_low [of d 24] unat_low [of d 10] unat_low [of d 16] by (simp_all add: mask_eq_exp_minus_1)

lemma not_unused: "unat d \<noteq> 0xFFFFFFFF \<Longrightarrow> (d :: u32) \<noteq> 0xFFFFFFFF"
  by auto

lemma mod_shift: "x < m \<Longrightarrow> (k * m + x) mod m = (x :: nat)"
  by simp

lemma div_shift: "x < m \<Longrightarrow> (k * m + x) div m = (k :: nat)"
  by simp

lemma parse_call:
  assumes "g < 6" "b < 2 ^ 24"
  shows "ParseKernelCaps (call_descriptor g b # ds) c =
    ParseKernelCaps ds (c\<lparr>svc_access_mask := set_calls (24 * g) (word_of_nat b) (svc_access_mask c)\<rparr>)"
proof -
  let ?d = "call_descriptor g b"
  have n: "unat ?d = 0xF0000000 + g * 2 ^ 24 + b" unfolding call_descriptor_def
    using assms by (intro unat_descriptor) simp
  have q: "unat ?d div 2 ^ 28 = 0xF" "unat ?d div 2 ^ 27 = 0x1E" "unat ?d div 2 ^ 24 = 0xF0 + g" "unat ?d mod 2 ^ 24 = b"
    "unat ?d \<noteq> 0xFFFFFFFF"
  proof -
    show "unat ?d div 2 ^ 28 = 0xF" "unat ?d div 2 ^ 27 = 0x1E" "unat ?d \<noteq> 0xFFFFFFFF"
      unfolding n using assms by (simp_all add: div_nat_eqI)
    have n': "unat ?d = b + (0xF0 + g) * 2 ^ 24" using n by simp
    show "unat ?d div 2 ^ 24 = 0xF0 + g" "unat ?d mod 2 ^ 24 = b" unfolding n' mod_mult_self1 using assms by simp_all
  qed
  have u: "unat (drop_bit 24 ?d) = 0xF0 + g" unfolding unat_drop_bit_eq using q(3) by (simp add: drop_bit_eq_div)
  have i: "unat (drop_bit 24 ?d AND 7) * 24 = 24 * g" unfolding low_masks(1) u using mod_shift [of g 8 30] assms(1) by simp
  have m: "?d AND 0xFFFFFF = word_of_nat b"
    unfolding word_unat_eq_iff low_masks(2) q(4) using assms(2) by (simp add: unat_of_nat take_bit_nat_eq_self)
  show ?thesis using q not_unused [OF q(5)] by (simp add: is_type_div i m)
qed


lemma parse_fields:
  "unat n < 0x400 \<Longrightarrow> ParseKernelCaps (word_of_nat (0xFE000000 + unat (n :: u32)) # ds) c = ParseKernelCaps ds (c\<lparr>handle_table_size := n\<rparr>)"
  "ParseKernelCaps (word_of_nat (0xFF000000 + unat (f :: u16)) # ds) c = ParseKernelCaps ds (c\<lparr>flags_raw := f\<rparr>)"
  "ParseKernelCaps (word_of_nat (0xFC000000 + unat f) # ds) c = ParseKernelCaps ds (c\<lparr>caps_version := f\<rparr>)"
proof -
  show "ParseKernelCaps (word_of_nat (0xFE000000 + unat n) # ds) c = ParseKernelCaps ds (c\<lparr>handle_table_size := n\<rparr>)"
    if "unat n < 0x400"
  proof -
    let ?d = "word_of_nat (0xFE000000 + unat n) :: u32"
    have u: "unat ?d = 0xFE000000 + unat n" using that by (intro unat_descriptor) simp
    have q: "unat ?d div 2 ^ 28 = 0xF" "unat ?d div 2 ^ 27 = 0x1F" "unat ?d div 2 ^ 24 = 0xFE" "unat ?d \<noteq> 0xFFFFFFFF"
      unfolding u using that by (simp_all add: div_nat_eqI)
    have "(0xFE000000 + x) mod 2 ^ 10 = x" if "x < 0x400" for x :: nat
      using mod_shift [of x "2 ^ 10" "0x3F8000"] that by simp
    then have "?d AND 0x3FF = n" unfolding word_unat_eq_iff low_masks(3) u using that by simp
    then show ?thesis using q not_unused [OF q(4)] by (simp add: is_type_div)
  qed
  have f: "unat f < 2 ^ 16" using unsigned_less [of f] by simp
  have low: "ucast (d AND 0xFFFF :: u32) = f" if "unat d = unat f + k * 2 ^ 16" for d k
  proof -
    have "unat (d AND 0xFFFF) = unat f" unfolding low_masks(4) that using f by (simp add: mod_mult_self1)
    then show ?thesis unfolding word_unat_eq_iff unsigned_ucast_eq using f by (simp add: take_bit_nat_eq_self)
  qed
  show "ParseKernelCaps (word_of_nat (0xFF000000 + unat f) # ds) c = ParseKernelCaps ds (c\<lparr>flags_raw := f\<rparr>)"
  proof -
    let ?d = "word_of_nat (0xFF000000 + unat f) :: u32"
    have u: "unat ?d = 0xFF000000 + unat f" using f by (intro unat_descriptor) simp
    have q: "unat ?d div 2 ^ 28 = 0xF" "unat ?d div 2 ^ 27 = 0x1F" "unat ?d div 2 ^ 24 = 0xFF" "unat ?d div 2 ^ 23 = 0x1FE" "unat ?d \<noteq> 0xFFFFFFFF"
      unfolding u using f by (simp_all add: div_nat_eqI)
    have "unat ?d = unat f + 0xFF00 * 2 ^ 16" using u by simp
    from low [OF this] show ?thesis using q not_unused [OF q(5)] by (simp add: is_type_div)
  qed
  show "ParseKernelCaps (word_of_nat (0xFC000000 + unat f) # ds) c = ParseKernelCaps ds (c\<lparr>caps_version := f\<rparr>)"
  proof -
    let ?d = "word_of_nat (0xFC000000 + unat f) :: u32"
    have u: "unat ?d = 0xFC000000 + unat f" using f by (intro unat_descriptor) simp
    have q: "unat ?d div 2 ^ 28 = 0xF" "unat ?d div 2 ^ 27 = 0x1F" "unat ?d div 2 ^ 24 = 0xFC" "unat ?d div 2 ^ 23 = 0x1F8"
      "unat ?d div 2 ^ 21 = 0x7E0" "unat ?d div 2 ^ 20 = 0xFC0" "unat ?d div 2 ^ 25 = 0x7E" "unat ?d \<noteq> 0xFFFFFFFF"
      unfolding u using f by (simp_all add: div_nat_eqI)
    have "unat ?d = unat f + 0xFC00 * 2 ^ 16" using u by simp
    from low [OF this] show ?thesis using q not_unused [OF q(8)] by (simp add: is_type_div)
  qed
qed

lemma parse_range:
  assumes "whole_pages m" "length (address_mappings c) < 8"
  shows "ParseKernelCaps (range_descriptors m @ ds) c = ParseKernelCaps ds (c\<lparr>address_mappings := address_mappings c @ [m]\<rparr>)"
proof -
  define a where "a = unat (am_address m) div 2 ^ 12"
  define b where "b = (unat (am_address m) + unat (am_size m)) div 2 ^ 12"
  have a: "unat (am_address m) = a * 2 ^ 12" and b: "unat (am_address m) + unat (am_size m) = b * 2 ^ 12"
    using assms(1) by (auto simp: a_def b_def whole_pages_def mod_add_eq [symmetric])
  have ab: "a \<le> b" "b < 2 ^ 20" using assms(1) a b by (simp_all add: whole_pages_def)
  have desc: "unat d div 2 ^ 28 = 0xF \<and> unat d div 2 ^ 27 = 0x1F \<and> unat d div 2 ^ 24 = 0xFF \<and> unat d div 2 ^ 23 = 0x1FF \<and>
      unat d div 2 ^ 21 = 0x7FC \<and> d \<noteq> 0xFFFFFFFF \<and> (d AND 0x100000 \<noteq> 0) = t \<and> unat (push_bit 12 d) = x * 2 ^ 12"
    if d: "d = word_of_nat (0xFF800000 + of_bool t * 2 ^ 20 + x)" and x: "x < 2 ^ 20" for t x and d :: u32
  proof -
    have u: "unat d = 0xFF800000 + of_bool t * 2 ^ 20 + x" unfolding d using x by (intro unat_descriptor) (cases t; simp)
    have b20: "d AND 0x100000 \<noteq> 0 \<longleftrightarrow> bit d 20" using and_exp_eq_0_iff_not_bit [of d 20] by simp
    have "bit d 20 \<longleftrightarrow> bit (unat d) 20" by (simp add: bit_unsigned_iff)
    also have "\<dots> \<longleftrightarrow> odd (unat d div 2 ^ 20)" by (rule bit_iff_odd)
    also have "unat d div 2 ^ 20 = 0xFF8 + of_bool t" using div_shift [of x "2 ^ 20" "0xFF8 + of_bool t"] x u by (cases t) simp_all
    finally have "bit d 20 \<longleftrightarrow> t" by (cases t) simp_all
    moreover have "unat (push_bit 12 d) = x * 2 ^ 12"
    proof -
      have "unat (push_bit 12 d) = unat d * 2 ^ 12 mod 2 ^ 32"
        unfolding unsigned_push_bit_eq by (simp add: push_bit_eq_mult take_bit_eq_mod)
      also have "unat d * 2 ^ 12 = (0xFF8 + of_bool t) * 2 ^ 32 + x * 2 ^ 12" unfolding u by (simp add: algebra_simps)
      finally show ?thesis using mod_shift [of "x * 2 ^ 12" "2 ^ 32" "0xFF8 + of_bool t"] x by simp
    qed
    moreover have "unat d div 2 ^ 28 = 0xF" "unat d div 2 ^ 27 = 0x1F" "unat d div 2 ^ 24 = 0xFF" "unat d div 2 ^ 23 = 0x1FF"
      "unat d div 2 ^ 21 = 0x7FC" "unat d \<noteq> 0xFFFFFFFF"
      unfolding u using x by (cases t; simp add: div_nat_eqI)+
    ultimately show ?thesis using b20 by auto
  qed
  define d where "d = (word_of_nat (0xFF800000 + of_bool (am_read_only m) * 2 ^ 20 + a) :: u32)"
  define f where "f = (word_of_nat (0xFF800000 + of_bool (am_unk_flag m) * 2 ^ 20 + b) :: u32)"
  have da: "a < 2 ^ 20" using ab by simp
  note dd = desc [OF d_def da] and ff = desc [OF f_def ab(2)]
  have u: "unat (push_bit 12 d) = unat (am_address m)" "unat (push_bit 12 f) = unat (am_address m) + unat (am_size m)"
    using dd ff a b by simp_all
  then have A: "push_bit 12 d = am_address m" by (simp only: word_unat_eq_iff)
  have S: "(if push_bit 12 d < push_bit 12 f then push_bit 12 f - push_bit 12 d else 0) = am_size m"
    unfolding word_unat_eq_iff word_less_nat_alt using u by (auto simp: unat_sub word_le_nat_alt)
  have flags: "(d AND 0x100000 \<noteq> 0) = am_read_only m" "(f AND 0x100000 \<noteq> 0) = am_unk_flag m" using dd ff by blast+
  have "range_mapping d f = m" unfolding range_mapping_def Let_def S flags unfolding A by simp
  moreover have "range_descriptors m = [d, f]" by (simp add: range_descriptors_def a_def b_def d_def f_def)
  ultimately show ?thesis using dd ff assms(2) by (simp add: is_type_div push_mapping_def)
qed

lemma parse_ranges:
  "\<forall>m \<in> set ms. whole_pages m \<Longrightarrow> length (address_mappings c) + length ms \<le> 8 \<Longrightarrow>
   ParseKernelCaps (concat (map range_descriptors ms)) c = Some (c\<lparr>address_mappings := address_mappings c @ ms\<rparr>)"
proof (induction ms arbitrary: c)
  case (Cons m ms)
  then show ?case by (simp add: parse_range)
qed simp

lemma call_group_bit: "bit (call_group calls g) j \<longleftrightarrow> j < 24 \<and> 24 * g + j < length calls \<and> calls ! (24 * g + j)"
  by (auto simp: call_group_def bit_horner_sum_bit_iff)

lemma call_group_less: "call_group calls g < 2 ^ 24"
  using horner_sum_of_bool_2_less [of "map (\<lambda>j. 24 * g + j < length calls \<and> calls ! (24 * g + j)) [0..<24]"]
  by (simp add: call_group_def)

lemma parse_calls:
  assumes "n \<le> 6" "length calls = 0x80"
  shows "ParseKernelCaps (map (\<lambda>g. call_descriptor g (call_group calls g)) [0..<n] @ ds) (c\<lparr>svc_access_mask := replicate 0x80 False\<rparr>) =
    ParseKernelCaps ds (c\<lparr>svc_access_mask := map (\<lambda>k. k < 24 * n \<and> calls ! k) [0..<0x80]\<rparr>)"
  using assms(1)
proof (induction n arbitrary: ds)
  case 0
  have "replicate 0x80 False = map (\<lambda>k. k < 24 * 0 \<and> calls ! k) [0..<0x80]" by (rule nth_equalityI) simp_all
  then show ?case by simp
next
  case (Suc n)
  let ?old = "map (\<lambda>k. k < 24 * n \<and> calls ! k) [0..<0x80]" and ?g = "call_group calls n"
  have "set_calls (24 * n) (word_of_nat ?g) ?old = map (\<lambda>k. k < 24 * Suc n \<and> calls ! k) [0..<0x80]"
  proof (rule nth_equalityI)
    have f: "\<forall>k < length ?old. 24 * n \<le> k \<longrightarrow> \<not> ?old ! k" by simp
    note s = set_calls_fresh [OF f, of "word_of_nat ?g"]
    show "length (set_calls (24 * n) (word_of_nat ?g) ?old) = length (map (\<lambda>k. k < 24 * Suc n \<and> calls ! k) [0..<0x80])" using s by simp
    fix k assume "k < length (set_calls (24 * n) (word_of_nat ?g) ?old)"
    then have k: "k < 0x80" using s by simp
    have "bit (word_of_nat ?g :: u32) j \<longleftrightarrow> bit ?g j" for j
      using call_group_bit [of calls n j] by (auto simp: bit_of_nat_iff possible_bit_word)
    then show "set_calls (24 * n) (word_of_nat ?g) ?old ! k = map (\<lambda>k. k < 24 * Suc n \<and> calls ! k) [0..<0x80] ! k"
      using s k call_group_bit [of calls n "k - 24 * n"] assms(2) by (cases "k < 24 * n") auto
  qed
  then show ?case using Suc parse_call [of n ?g ds "c\<lparr>svc_access_mask := ?old\<rparr>"] call_group_less [of calls n] by simp
qed

text \<open>C38: The capabilities that a program asks for are the ones it gets: parsing the descriptors that encode a set
  of calls, a size of the handle table, flags, a kernel version and up to eight mapped ranges of whole pages
  gives exactly these, each field from its own descriptors.\<close>

theorem caps_roundtrip:
  assumes "length (svc_access_mask c) = 0x80" "unat (handle_table_size c) < 0x400" "length (address_mappings c) \<le> 8"
    "\<forall>m \<in> set (address_mappings c). whole_pages m"
  shows "ParseKernelCaps (encode_caps c) new_caps = Some c"
proof -
  have n: "new_caps = new_caps\<lparr>svc_access_mask := replicate 0x80 False\<rparr>" by (simp add: new_caps_def)
  have m: "map (\<lambda>k. k < 24 * 6 \<and> svc_access_mask c ! k) [0..<0x80] = svc_access_mask c"
    using assms(1) by (intro nth_equalityI) simp_all
  have "ParseKernelCaps (encode_caps c) new_caps = ParseKernelCaps
      ([word_of_nat (0xFE000000 + unat (handle_table_size c)), word_of_nat (0xFF000000 + unat (flags_raw c)),
        word_of_nat (0xFC000000 + unat (caps_version c))] @ concat (map range_descriptors (address_mappings c)))
      (new_caps\<lparr>svc_access_mask := svc_access_mask c\<rparr>)"
    unfolding encode_caps_def by (subst n, subst parse_calls [OF le_refl assms(1)], subst m) (rule refl)
  also have "\<dots> = ParseKernelCaps (concat (map range_descriptors (address_mappings c)))
      (new_caps\<lparr>svc_access_mask := svc_access_mask c, handle_table_size := handle_table_size c, flags_raw := flags_raw c,
         caps_version := caps_version c\<rparr>)"
    unfolding append_Cons append_Nil parse_fields(1) [OF assms(2)] parse_fields(2,3) by simp
  also have "\<dots> = Some c" using assms(3,4) by (subst parse_ranges) (simp_all add: new_caps_def)
  finally show ?thesis .
qed

theorem caps_roundtrip_witness:
  "ParseKernelCaps (encode_caps (Set3dsxKernelCaps new_caps)) new_caps = Some (Set3dsxKernelCaps new_caps)"
  by (rule caps_roundtrip) (auto simp: Set3dsxKernelCaps_def new_caps_def whole_pages_def)

section \<open>Special mappings\<close>

definition CONFIG_MEMORY_VADDR :: nat where "CONFIG_MEMORY_VADDR = 0x1FF80000"
definition CONFIG_MEMORY_SIZE :: nat where "CONFIG_MEMORY_SIZE = 0x00001000"
definition SHARED_PAGE_VADDR :: nat where "SHARED_PAGE_VADDR = 0x1FF81000"
definition SHARED_PAGE_SIZE :: nat where "SHARED_PAGE_SIZE = 0x00001000"




definition MapSharedPages ::
  "'d memory_env \<Rightarrow> memory_ref \<Rightarrow> memory_ref \<Rightarrow> vm_manager \<times> 'd memory_system \<Rightarrow> (vm_manager \<times> 'd memory_system) run" where
  "MapSharedPages env config_mem shared_page s =
     do {
       s1 \<leftarrow> map_protected env CONFIG_MEMORY_VADDR config_mem CONFIG_MEMORY_SIZE Shared 1 s;
       map_protected env SHARED_PAGE_VADDR shared_page SHARED_PAGE_SIZE Shared 1 s1
     }"











end
