(* ===== verification/Cheats.thy ===== *)
theory Cheats
  imports BlockTransfer
begin

text \<open>
  The interpreter of Gateway cheats, \<open>Execute\<close> in \<open>core/cheats/gateway_cheat.cpp\<close>: the state of a run, one
  definition per operation, the two switches of the loop over the lines, and the loop. A cheat changes the
  memory of the guest through the \<open>MemorySystem\<close>; the calls of \<open>InvalidateCacheRange\<close>, which the CPU
  backends act on, are kept as a list. The pad is a parameter: its state is in the HID service.

  A field of a line that the constructor left uninitialized is \<open>None\<close>, and so is a run that reads one,
  that reads past the lines, or that never ends.
\<close>

section \<open>Lines and state\<close>

datatype CheatType = Null | Write32 | Write16 | Write8 | GreaterThan32 | LessThan32 | EqualTo32 | NotEqualTo32
  | GreaterThan16WithMask | LessThan16WithMask | EqualTo16WithMask | NotEqualTo16WithMask
  | LoadOffset | Loop | Terminator | LoopExecuteVariant | FullTerminator | SetOffset | AddValue | SetValue
  | IncrementiveWrite32 | IncrementiveWrite16 | IncrementiveWrite8 | Load32 | Load16 | Load8
  | AddOffset | Joker | Patch | Unnamed nat

text \<open>\<open>static_cast<CheatType>\<close>; a number without an enumerator is a value of the type as well.\<close>

definition CheatType_of :: "nat \<Rightarrow> CheatType" where
  "CheatType_of n =
     (case map_of [(0x00, Write32), (0x01, Write16), (0x02, Write8), (0x03, GreaterThan32), (0x04, LessThan32),
        (0x05, EqualTo32), (0x06, NotEqualTo32), (0x07, GreaterThan16WithMask), (0x08, LessThan16WithMask),
        (0x09, EqualTo16WithMask), (0x0A, NotEqualTo16WithMask), (0x0B, LoadOffset), (0x0C, Loop),
        (0xD0, Terminator), (0xD1, LoopExecuteVariant), (0xD2, FullTerminator), (0xD3, SetOffset),
        (0xD4, AddValue), (0xD5, SetValue), (0xD6, IncrementiveWrite32), (0xD7, IncrementiveWrite16),
        (0xD8, IncrementiveWrite8), (0xD9, Load32), (0xDA, Load16), (0xDB, Load8), (0xDC, AddOffset),
        (0xDD, Joker), (0xE, Patch)] n of
        Some t \<Rightarrow> t | None \<Rightarrow> Unnamed n)"

record cheat_line =
  line_type :: CheatType
  line_address :: "u32 option"
  line_value :: "u32 option"
  line_first :: "u32 option"
  line_text :: string
  line_valid :: bool

record cheat_state =
  reg :: u32
  offset :: u32
  if_flag :: u32
  loop_count :: u32
  loop_back_line :: u64
  current_line_nr :: u64
  loop_flag :: bool

definition initial_state :: cheat_state where
  "initial_state = \<lparr>reg = 0, offset = 0, if_flag = 0, loop_count = 0, loop_back_line = 0,
     current_line_nr = 0, loop_flag = False\<rparr>"

text \<open>What a cheat works on: the memory, and the ranges invalidated so far.\<close>

record 'd cheat_system =
  memory :: "'d memory_system"
  invalidated :: "(u32 \<times> nat) list"

definition InvalidateCacheRange :: "u32 \<Rightarrow> nat \<Rightarrow> 'd cheat_system \<Rightarrow> 'd cheat_system" where
  "InvalidateCacheRange addr n sys = sys\<lparr>invalidated := invalidated sys @ [(addr, n)]\<rparr>"

text \<open>The accesses \<open>Read8\<close> to \<open>Write32\<close> of the closures in \<open>Execute\<close>, on words.\<close>

definition cheat_read :: "(nat \<Rightarrow> 'd memory_system \<Rightarrow> (nat \<times> 'd memory_system) run) \<Rightarrow>
    u32 \<Rightarrow> 'd cheat_system \<Rightarrow> (u32 \<times> 'd cheat_system) run" where
  "cheat_read read_func addr sys =
     do { (v, ms) \<leftarrow> read_func (unat addr) (memory sys); Some (word_of_nat v, sys\<lparr>memory := ms\<rparr>) }"

definition cheat_write :: "(nat \<Rightarrow> nat \<Rightarrow> 'd memory_system \<Rightarrow> 'd memory_system run) \<Rightarrow>
    u32 \<Rightarrow> u32 \<Rightarrow> 'd cheat_system \<Rightarrow> 'd cheat_system run" where
  "cheat_write write_func addr v sys =
     do { ms \<leftarrow> write_func (unat addr) (unat v) (memory sys); Some (sys\<lparr>memory := ms\<rparr>) }"

section \<open>Operations\<close>

text \<open>\<open>n\<close> is \<open>sizeof(T)\<close>, and the cast to \<open>T\<close> keeps the lower \<open>8 * n\<close> bits.\<close>

definition WriteOp :: "nat \<Rightarrow> (nat \<Rightarrow> 'd memory_system \<Rightarrow> (nat \<times> 'd memory_system) run) \<Rightarrow>
    (nat \<Rightarrow> nat \<Rightarrow> 'd memory_system \<Rightarrow> 'd memory_system run) \<Rightarrow> cheat_line \<Rightarrow> cheat_state \<Rightarrow>
    'd cheat_system \<Rightarrow> (cheat_state \<times> 'd cheat_system) run" where
  "WriteOp n read_func write_func line st sys =
     do {
       a \<leftarrow> line_address line;
       v \<leftarrow> line_value line;
       let addr = a + offset st;
       (val, sys) \<leftarrow> cheat_read read_func addr sys;
       if val \<noteq> take_bit (8 * n) v
       then do { sys \<leftarrow> cheat_write write_func addr (take_bit (8 * n) v) sys;
                 Some (st, InvalidateCacheRange addr n sys) }
       else Some (st, sys)
     }"

definition CompOp :: "(nat \<Rightarrow> 'd memory_system \<Rightarrow> (nat \<times> 'd memory_system) run) \<Rightarrow> (u32 \<Rightarrow> u32 \<Rightarrow> bool) \<Rightarrow>
    cheat_line \<Rightarrow> cheat_state \<Rightarrow> 'd cheat_system \<Rightarrow> (cheat_state \<times> 'd cheat_system) run" where
  "CompOp read_func cmp line st sys =
     do {
       a \<leftarrow> line_address line;
       v \<leftarrow> line_value line;
       (val, sys) \<leftarrow> cheat_read read_func (a + offset st) sys;
       Some (if cmp v val then st else st\<lparr>if_flag := if_flag st + 1\<rparr>, sys)
     }"

text \<open>The value of a comparison with mask: \<open>static_cast<u16>(~line.value >> 16) & val\<close>.\<close>

definition masked :: "u32 \<Rightarrow> u32 \<Rightarrow> u32" where
  "masked v val = take_bit 16 (drop_bit 16 (NOT v)) AND val"

definition LoadOffsetOp :: "'d memory_env \<Rightarrow> cheat_line \<Rightarrow> cheat_state \<Rightarrow> 'd cheat_system \<Rightarrow>
    (cheat_state \<times> 'd cheat_system) run" where
  "LoadOffsetOp env line st sys =
     do { a \<leftarrow> line_address line;
          (val, sys) \<leftarrow> cheat_read (Read32 env) (a + offset st) sys;
          Some (st\<lparr>offset := val\<rparr>, sys) }"

definition LoopOp :: "cheat_line \<Rightarrow> cheat_state \<Rightarrow> cheat_state run" where
  "LoopOp line st =
     do { v \<leftarrow> line_value line;
          Some (st\<lparr>loop_flag := loop_count st < v, loop_count := loop_count st + 1,
                  loop_back_line := current_line_nr st\<rparr>) }"

definition TerminateOp :: "cheat_state \<Rightarrow> cheat_state" where
  "TerminateOp st = (if if_flag st > 0 then st\<lparr>if_flag := if_flag st - 1\<rparr> else st)"

definition LoopExecuteVariantOp :: "cheat_state \<Rightarrow> cheat_state" where
  "LoopExecuteVariantOp st =
     (if loop_flag st then st\<lparr>current_line_nr := loop_back_line st - 1\<rparr> else st\<lparr>loop_count := 0\<rparr>)"

definition FullTerminateOp :: "cheat_state \<Rightarrow> cheat_state" where
  "FullTerminateOp st =
     (if loop_flag st then st\<lparr>current_line_nr := loop_back_line st - 1\<rparr>
      else st\<lparr>offset := 0, reg := 0, loop_count := 0, if_flag := 0, loop_flag := False\<rparr>)"

definition SetOffsetOp :: "cheat_line \<Rightarrow> cheat_state \<Rightarrow> cheat_state run" where
  "SetOffsetOp line st = do { v \<leftarrow> line_value line; Some (st\<lparr>offset := v\<rparr>) }"

definition AddValueOp :: "cheat_line \<Rightarrow> cheat_state \<Rightarrow> cheat_state run" where
  "AddValueOp line st = do { v \<leftarrow> line_value line; Some (st\<lparr>reg := reg st + v\<rparr>) }"

definition SetValueOp :: "cheat_line \<Rightarrow> cheat_state \<Rightarrow> cheat_state run" where
  "SetValueOp line st = do { v \<leftarrow> line_value line; Some (st\<lparr>reg := v\<rparr>) }"

definition IncrementiveWriteOp :: "nat \<Rightarrow> (nat \<Rightarrow> 'd memory_system \<Rightarrow> (nat \<times> 'd memory_system) run) \<Rightarrow>
    (nat \<Rightarrow> nat \<Rightarrow> 'd memory_system \<Rightarrow> 'd memory_system run) \<Rightarrow> cheat_line \<Rightarrow> cheat_state \<Rightarrow>
    'd cheat_system \<Rightarrow> (cheat_state \<times> 'd cheat_system) run" where
  "IncrementiveWriteOp n read_func write_func line st sys =
     do {
       v \<leftarrow> line_value line;
       let addr = v + offset st;
       (val, sys) \<leftarrow> cheat_read read_func addr sys;
       sys \<leftarrow> (if val \<noteq> take_bit (8 * n) (reg st)
              then do { sys \<leftarrow> cheat_write write_func addr (take_bit (8 * n) (reg st)) sys;
                        Some (InvalidateCacheRange addr n sys) }
              else Some sys);
       Some (st\<lparr>offset := offset st + of_nat n\<rparr>, sys)
     }"

definition LoadOp :: "(nat \<Rightarrow> 'd memory_system \<Rightarrow> (nat \<times> 'd memory_system) run) \<Rightarrow> cheat_line \<Rightarrow> cheat_state \<Rightarrow>
    'd cheat_system \<Rightarrow> (cheat_state \<times> 'd cheat_system) run" where
  "LoadOp read_func line st sys =
     do { v \<leftarrow> line_value line;
          (val, sys) \<leftarrow> cheat_read read_func (v + offset st) sys;
          Some (st\<lparr>reg := val\<rparr>, sys) }"

definition AddOffsetOp :: "cheat_line \<Rightarrow> cheat_state \<Rightarrow> cheat_state run" where
  "AddOffsetOp line st = do { v \<leftarrow> line_value line; Some (st\<lparr>offset := offset st + v\<rparr>) }"

definition JokerOp :: "u32 \<Rightarrow> cheat_line \<Rightarrow> cheat_state \<Rightarrow> cheat_state run" where
  "JokerOp pad_state line st =
     do { v \<leftarrow> line_value line;
          let pressed = (pad_state AND v) = v;
          Some (if pressed then st else st\<lparr>if_flag := if_flag st + 1\<rparr>) }"

text \<open>\<open>first ? cheat_lines[nr].first : cheat_lines[nr].value\<close>; an index past the end is undefined behaviour.\<close>

definition patch_word :: "cheat_line list \<Rightarrow> bool \<Rightarrow> u64 \<Rightarrow> u32 run" where
  "patch_word lines first nr =
     (if unat nr < length lines
      then (if first then line_first (lines ! unat nr) else line_value (lines ! unat nr)) else None)"

text \<open>The two loops of \<open>PatchOp\<close>.\<close>

fun patch_words :: "'d memory_env \<Rightarrow> cheat_line list \<Rightarrow> bool \<Rightarrow> u64 \<Rightarrow> u32 \<Rightarrow> nat \<Rightarrow> 'd cheat_system \<Rightarrow>
    (bool \<times> u64 \<times> u32 \<times> nat \<times> 'd cheat_system) run" where
  "patch_words env lines first nr addr num_bytes sys =
     (if num_bytes < 4 then Some (first, nr, addr, num_bytes, sys)
      else do {
        tmp \<leftarrow> patch_word lines first nr;
        sys \<leftarrow> cheat_write (MemorySystem.Write32 env) addr tmp sys;
        patch_words env lines (\<not> first) (if \<not> first \<and> num_bytes > 4 then nr + 1 else nr) (addr + 4)
          (num_bytes - 4) sys
      })"

primrec patch_bytes :: "'d memory_env \<Rightarrow> cheat_line list \<Rightarrow> bool \<Rightarrow> u64 \<Rightarrow> u32 \<Rightarrow> nat \<Rightarrow> nat \<Rightarrow> 'd cheat_system \<Rightarrow>
    'd cheat_system run" where
  "patch_bytes env lines first nr addr bit_offset 0 sys = Some sys"
| "patch_bytes env lines first nr addr bit_offset (Suc num_bytes) sys =
     do {
       w \<leftarrow> patch_word lines first nr;
       sys \<leftarrow> cheat_write (MemorySystem.Write8 env) addr (take_bit 8 (drop_bit bit_offset w)) sys;
       patch_bytes env lines first nr (addr + 1) (bit_offset + 8) num_bytes sys
     }"

definition PatchOp :: "'d memory_env \<Rightarrow> cheat_line list \<Rightarrow> cheat_line \<Rightarrow> cheat_state \<Rightarrow> 'd cheat_system \<Rightarrow>
    (cheat_state \<times> 'd cheat_system) run" where
  "PatchOp env lines line st sys =
     do {
       v \<leftarrow> line_value line;
       if if_flag st > 0
       then Some (st\<lparr>current_line_nr := current_line_nr st + word_of_nat ((unat v + 7) div 8)\<rparr>, sys)
       else do {
         a \<leftarrow> line_address line;
         let addr = a + offset st;
         let sys = InvalidateCacheRange addr (unat v) sys;
         let nr = (if v > 0 then current_line_nr st + 1 else current_line_nr st);
         (first, nr, addr, num_bytes, sys) \<leftarrow> patch_words env lines True nr addr (unat v) sys;
         sys \<leftarrow> patch_bytes env lines first nr addr 0 num_bytes sys;
         Some (st\<lparr>current_line_nr := nr\<rparr>, sys)
       }
     }"

declare WriteOp_def [cheat_step] CompOp_def [cheat_step] LoadOffsetOp_def [cheat_step] SetOffsetOp_def [cheat_step]
  AddValueOp_def [cheat_step] SetValueOp_def [cheat_step] IncrementiveWriteOp_def [cheat_step] LoadOp_def [cheat_step]
  AddOffsetOp_def [cheat_step] JokerOp_def [cheat_step]

section \<open>The loop over the lines\<close>

definition pure_op :: "cheat_state run \<Rightarrow> 'd cheat_system \<Rightarrow> (cheat_state \<times> 'd cheat_system) run" where
  "pure_op r sys = map_option (\<lambda>st. (st, sys)) r"

declare pure_op_def [cheat_step]

text \<open>The first switch, for lines inside a condition that does not hold.\<close>

definition skip_line :: "'d memory_env \<Rightarrow> cheat_line list \<Rightarrow> cheat_line \<Rightarrow> cheat_state \<Rightarrow> 'd cheat_system \<Rightarrow>
    (cheat_state \<times> 'd cheat_system) run" where
  "skip_line env lines line st sys =
     (if line_type line \<in> {GreaterThan32, LessThan32, EqualTo32, NotEqualTo32, GreaterThan16WithMask,
           LessThan16WithMask, EqualTo16WithMask, NotEqualTo16WithMask, Joker}
      then Some (st\<lparr>if_flag := if_flag st + 1\<rparr>, sys)
      else case line_type line of
        Patch \<Rightarrow> PatchOp env lines line st sys
      | Terminator \<Rightarrow> Some (TerminateOp st, sys)
      | FullTerminator \<Rightarrow> Some (FullTerminateOp st, sys)
      | _ \<Rightarrow> Some (st, sys))"

text \<open>The second switch.\<close>

definition run_line :: "'d memory_env \<Rightarrow> u32 \<Rightarrow> cheat_line list \<Rightarrow> cheat_line \<Rightarrow> cheat_state \<Rightarrow> 'd cheat_system \<Rightarrow>
    (cheat_state \<times> 'd cheat_system) run" where
  "run_line env pad lines line st sys =
     (case line_type line of
        Null \<Rightarrow> Some (st, sys)
      | Write32 \<Rightarrow> WriteOp 4 (Read32 env) (MemorySystem.Write32 env) line st sys
      | Write16 \<Rightarrow> WriteOp 2 (Read16 env) (MemorySystem.Write16 env) line st sys
      | Write8 \<Rightarrow> WriteOp 1 (Read8 env) (MemorySystem.Write8 env) line st sys
      | GreaterThan32 \<Rightarrow> CompOp (Read32 env) (\<lambda>v val. v > val) line st sys
      | LessThan32 \<Rightarrow> CompOp (Read32 env) (\<lambda>v val. v < val) line st sys
      | EqualTo32 \<Rightarrow> CompOp (Read32 env) (\<lambda>v val. v = val) line st sys
      | NotEqualTo32 \<Rightarrow> CompOp (Read32 env) (\<lambda>v val. v \<noteq> val) line st sys
      | GreaterThan16WithMask \<Rightarrow> CompOp (Read16 env) (\<lambda>v val. take_bit 16 v > masked v val) line st sys
      | LessThan16WithMask \<Rightarrow> CompOp (Read16 env) (\<lambda>v val. take_bit 16 v < masked v val) line st sys
      | EqualTo16WithMask \<Rightarrow> CompOp (Read16 env) (\<lambda>v val. take_bit 16 v = masked v val) line st sys
      | NotEqualTo16WithMask \<Rightarrow> CompOp (Read16 env) (\<lambda>v val. take_bit 16 v \<noteq> masked v val) line st sys
      | LoadOffset \<Rightarrow> LoadOffsetOp env line st sys
      | Loop \<Rightarrow> pure_op (LoopOp line st) sys
      | Terminator \<Rightarrow> Some (TerminateOp st, sys)
      | LoopExecuteVariant \<Rightarrow> Some (LoopExecuteVariantOp st, sys)
      | FullTerminator \<Rightarrow> Some (FullTerminateOp st, sys)
      | SetOffset \<Rightarrow> pure_op (SetOffsetOp line st) sys
      | AddValue \<Rightarrow> pure_op (AddValueOp line st) sys
      | SetValue \<Rightarrow> pure_op (SetValueOp line st) sys
      | IncrementiveWrite32 \<Rightarrow> IncrementiveWriteOp 4 (Read32 env) (MemorySystem.Write32 env) line st sys
      | IncrementiveWrite16 \<Rightarrow> IncrementiveWriteOp 2 (Read16 env) (MemorySystem.Write16 env) line st sys
      | IncrementiveWrite8 \<Rightarrow> IncrementiveWriteOp 1 (Read8 env) (MemorySystem.Write8 env) line st sys
      | Load32 \<Rightarrow> LoadOp (Read32 env) line st sys
      | Load16 \<Rightarrow> LoadOp (Read16 env) line st sys
      | Load8 \<Rightarrow> LoadOp (Read8 env) line st sys
      | AddOffset \<Rightarrow> pure_op (AddOffsetOp line st) sys
      | Joker \<Rightarrow> pure_op (JokerOp pad line st) sys
      | Patch \<Rightarrow> PatchOp env lines line st sys
      | Unnamed n \<Rightarrow> Some (st, sys))"

definition cheat_line_step :: "'d memory_env \<Rightarrow> u32 \<Rightarrow> cheat_line list \<Rightarrow> cheat_state \<Rightarrow> 'd cheat_system \<Rightarrow>
    (cheat_state \<times> 'd cheat_system) run" where
  "cheat_line_step env pad lines st sys =
     (let line = lines ! unat (current_line_nr st) in
      if if_flag st > 0 then skip_line env lines line st sys else run_line env pad lines line st sys)"

partial_function (option) cheat_loop :: "'d memory_env \<Rightarrow> u32 \<Rightarrow> cheat_line list \<Rightarrow> cheat_state \<Rightarrow>
    'd cheat_system \<Rightarrow> 'd cheat_system run" where
  "cheat_loop env pad lines st sys =
     (if unat (current_line_nr st) < length lines
      then do {
        (st, sys) \<leftarrow> cheat_line_step env pad lines st sys;
        cheat_loop env pad lines (st\<lparr>current_line_nr := current_line_nr st + 1\<rparr>) sys
      }
      else Some sys)"

definition Execute :: "'d memory_env \<Rightarrow> u32 \<Rightarrow> cheat_line list \<Rightarrow> 'd cheat_system \<Rightarrow> 'd cheat_system run" where
  "Execute env pad lines sys = cheat_loop env pad lines initial_state sys"

end
