(* ===== verification/CheatPrograms.thy ===== *)
theory CheatPrograms
  imports Cheats
begin

text \<open>
  What a cheat means: cheats as structured programs of writes, conditions that close with \<open>D0\<close>, loops
  that close with \<open>D1\<close> and sections that close with \<open>D2\<close>, their meaning by recursion over the structure, and
  that the interpreter of \<open>Cheats\<close> refines it: the counter of open conditions, the line to jump back to and
  the lines skipped by a patch implement the structure.
\<close>

section \<open>Structured cheats\<close>

datatype stmt =
    Basic cheat_line
  | PatchBlock cheat_line "cheat_line list"
  | IfBlock cheat_line "stmt list"
  | Repeat cheat_line "stmt list"

text \<open>A section may leave conditions open: \<open>D2\<close> closes them.\<close>

datatype chain = Stmts "stmt list" | Guarded "stmt list" cheat_line chain

definition conditions :: "CheatType set" where
  "conditions = {GreaterThan32, LessThan32, EqualTo32, NotEqualTo32, GreaterThan16WithMask,
     LessThan16WithMask, EqualTo16WithMask, NotEqualTo16WithMask, Joker}"

definition closing :: "CheatType \<Rightarrow> cheat_line" where
  "closing t = \<lparr>line_type = t, line_address = Some 0, line_value = Some 0, line_first = Some 0,
     line_text = [], line_valid = True\<rparr>"

primrec flat :: "stmt \<Rightarrow> cheat_line list" where
  "flat (Basic l) = [l]"
| "flat (PatchBlock l ds) = l # ds"
| "flat (IfBlock c ss) = c # concat (map flat ss) @ [closing Terminator]"
| "flat (Repeat l ss) = l # concat (map flat ss) @ [closing LoopExecuteVariant]"

primrec flat_chain :: "chain \<Rightarrow> cheat_line list" where
  "flat_chain (Stmts ss) = concat (map flat ss)"
| "flat_chain (Guarded ss c ch) = concat (map flat ss) @ c # flat_chain ch"

definition flat_program :: "chain list \<times> chain \<Rightarrow> cheat_line list" where
  "flat_program p = concat (map (\<lambda>ch. flat_chain ch @ [closing FullTerminator]) (fst p)) @ flat_chain (snd p)"

text \<open>Loops do not nest, and the right type of line stands everywhere.\<close>

primrec no_repeat :: "stmt \<Rightarrow> bool" where
  "no_repeat (Basic l) = True"
| "no_repeat (PatchBlock l ds) = True"
| "no_repeat (IfBlock c ss) = list_all no_repeat ss"
| "no_repeat (Repeat l ss) = False"

primrec wf_stmt :: "stmt \<Rightarrow> bool" where
  "wf_stmt (Basic l) =
     (line_type l \<notin> conditions \<union> {Patch, Loop, Terminator, LoopExecuteVariant, FullTerminator})"
| "wf_stmt (PatchBlock l ds) =
     (line_type l = Patch \<and> (\<exists>v. line_value l = Some v \<and> length ds = (unat v + 7) div 8))"
| "wf_stmt (IfBlock c ss) = (line_type c \<in> conditions \<and> list_all wf_stmt ss)"
| "wf_stmt (Repeat l ss) = (line_type l = Loop \<and> list_all wf_stmt ss \<and> list_all no_repeat ss)"

primrec wf_chain :: "chain \<Rightarrow> bool" where
  "wf_chain (Stmts ss) = list_all wf_stmt ss"
| "wf_chain (Guarded ss c ch) = (list_all wf_stmt ss \<and> line_type c \<in> conditions \<and> wf_chain ch)"

definition wf_program :: "chain list \<times> chain \<Rightarrow> bool" where
  "wf_program p \<longleftrightarrow> list_all wf_chain (fst p) \<and> wf_chain (snd p)"

section \<open>Their meaning\<close>

text \<open>What a program works on: the two registers, and the memory.\<close>

type_synonym 'd cheat_regs = "u32 \<times> u32 \<times> 'd cheat_system"

definition at_line :: "u32 \<Rightarrow> u32 \<Rightarrow> cheat_state" where
  "at_line r o1 = initial_state\<lparr>reg := r, offset := o1\<rparr>"

definition exec_basic :: "'d memory_env \<Rightarrow> u32 \<Rightarrow> cheat_line \<Rightarrow> 'd cheat_regs \<Rightarrow> 'd cheat_regs run" where
  "exec_basic env pad l s = (case s of (r, o1, sys) \<Rightarrow>
     map_option (\<lambda>(st, sys). (reg st, offset st, sys)) (run_line env pad [] l (at_line r o1) sys))"

definition holds_cond :: "'d memory_env \<Rightarrow> u32 \<Rightarrow> cheat_line \<Rightarrow> 'd cheat_regs \<Rightarrow> (bool \<times> 'd cheat_regs) run" where
  "holds_cond env pad c s = (case s of (r, o1, sys) \<Rightarrow>
     map_option (\<lambda>(st, sys). (if_flag st = 0, r, o1, sys)) (run_line env pad [] c (at_line r o1) sys))"

text \<open>The words after a patch line go to memory one after the other, and the last of them in bytes.\<close>

primrec store_words :: "'d memory_env \<Rightarrow> u32 \<Rightarrow> u32 option list \<Rightarrow> 'd cheat_system \<Rightarrow> 'd cheat_system run" where
  "store_words env addr [] sys = Some sys"
| "store_words env addr (w # ws) sys =
     do { v \<leftarrow> w; sys \<leftarrow> cheat_write (MemorySystem.Write32 env) addr v sys; store_words env (addr + 4) ws sys }"

primrec store_bytes :: "'d memory_env \<Rightarrow> u32 \<Rightarrow> u32 option \<Rightarrow> nat \<Rightarrow> nat \<Rightarrow> 'd cheat_system \<Rightarrow> 'd cheat_system run" where
  "store_bytes env addr w bit_offset 0 sys = Some sys"
| "store_bytes env addr w bit_offset (Suc n) sys =
     do { v \<leftarrow> w; sys \<leftarrow> cheat_write (MemorySystem.Write8 env) addr (take_bit 8 (drop_bit bit_offset v)) sys;
          store_bytes env (addr + 1) w (bit_offset + 8) n sys }"

definition payload :: "cheat_line list \<Rightarrow> u32 option list" where
  "payload ds = concat (map (\<lambda>d. [line_first d, line_value d]) ds)"

definition exec_patch :: "'d memory_env \<Rightarrow> cheat_line \<Rightarrow> cheat_line list \<Rightarrow> 'd cheat_regs \<Rightarrow> 'd cheat_regs run" where
  "exec_patch env l ds s = (case s of (r, o1, sys) \<Rightarrow>
     do {
       v \<leftarrow> line_value l;
       a \<leftarrow> line_address l;
       let k = unat v div 4;
       sys \<leftarrow> store_words env (a + o1) (take k (payload ds)) (InvalidateCacheRange (a + o1) (unat v) sys);
       sys \<leftarrow> store_bytes env (a + o1 + 4 * of_nat k) (payload ds ! k) 0 (unat v mod 4) sys;
       Some (r, o1, sys)
     })"

primrec times_run :: "nat \<Rightarrow> ('a \<Rightarrow> 'a run) \<Rightarrow> 'a \<Rightarrow> 'a run" where
  "times_run 0 f s = Some s"
| "times_run (Suc n) f s = Option.bind (f s) (times_run n f)"

primrec seq_run :: "('a \<Rightarrow> 'a run) list \<Rightarrow> 'a \<Rightarrow> 'a run" where
  "seq_run [] s = Some s"
| "seq_run (f # fs) s = Option.bind (f s) (seq_run fs)"

text \<open>A loop with the value \<open>n\<close> runs its body \<open>n + 1\<close> times.\<close>

primrec exec :: "'d memory_env \<Rightarrow> u32 \<Rightarrow> stmt \<Rightarrow> 'd cheat_regs \<Rightarrow> 'd cheat_regs run" where
  "exec env pad (Basic l) = exec_basic env pad l"
| "exec env pad (PatchBlock l ds) = exec_patch env l ds"
| "exec env pad (IfBlock c ss) =
     (\<lambda>s. do { (b, s) \<leftarrow> holds_cond env pad c s; if b then seq_run (map (exec env pad) ss) s else Some s })"
| "exec env pad (Repeat l ss) =
     (\<lambda>s. do { v \<leftarrow> line_value l; times_run (Suc (unat v)) (seq_run (map (exec env pad) ss)) s })"

abbreviation execs :: "'d memory_env \<Rightarrow> u32 \<Rightarrow> stmt list \<Rightarrow> 'd cheat_regs \<Rightarrow> 'd cheat_regs run" where
  "execs env pad ss \<equiv> seq_run (map (exec env pad) ss)"

primrec exec_chain :: "'d memory_env \<Rightarrow> u32 \<Rightarrow> chain \<Rightarrow> 'd cheat_regs \<Rightarrow> 'd cheat_regs run" where
  "exec_chain env pad (Stmts ss) s = execs env pad ss s"
| "exec_chain env pad (Guarded ss c ch) s =
     do { s \<leftarrow> execs env pad ss s; (b, s) \<leftarrow> holds_cond env pad c s;
          if b then exec_chain env pad ch s else Some s }"

text \<open>Every section but the last ends with \<open>D2\<close>, after which both registers are 0.\<close>

primrec exec_sections :: "'d memory_env \<Rightarrow> u32 \<Rightarrow> chain list \<Rightarrow> 'd cheat_system \<Rightarrow> 'd cheat_system run" where
  "exec_sections env pad [] sys = Some sys"
| "exec_sections env pad (ch # chs) sys =
     do { (r, o1, sys) \<leftarrow> exec_chain env pad ch (0, 0, sys); exec_sections env pad chs sys }"

definition exec_program :: "'d memory_env \<Rightarrow> u32 \<Rightarrow> chain list \<times> chain \<Rightarrow> 'd cheat_system \<Rightarrow> 'd cheat_system run" where
  "exec_program env pad p sys = exec_sections env pad (fst p @ [snd p]) sys"

section \<open>One line\<close>

lemma run_basic:
  assumes "wf_stmt (Basic l)" "if_flag st = 0"
  shows "run_line env pad lines l st sys =
    map_option (\<lambda>(r, o1, sys). (st\<lparr>reg := r, offset := o1\<rparr>, sys)) (exec_basic env pad l (reg st, offset st, sys))"
  using assms
  by (cases "line_type l")
    (auto simp: run_line_def exec_basic_def at_line_def cheat_step Let_def conditions_def bind_map_option map_option_bind
      option.map_comp comp_def intro!: Option.bind_cong split: prod.splits)

lemma run_cond:
  assumes "line_type c \<in> conditions" "if_flag st = 0"
  shows "run_line env pad lines c st sys =
    map_option (\<lambda>(b, r, o1, sys). (if b then st else st\<lparr>if_flag := 1\<rparr>, sys))
      (holds_cond env pad c (reg st, offset st, sys))"
  using assms
  by (cases "line_type c")
    (auto simp: run_line_def holds_cond_def at_line_def initial_state_def cheat_step Let_def conditions_def bind_map_option map_option_bind
      option.map_comp comp_def intro!: Option.bind_cong split: prod.splits)

lemma holds_cond_regs:
  "line_type c \<in> conditions \<Longrightarrow> holds_cond env pad c (r, o1, sys) = Some (b, s) \<Longrightarrow> \<exists>sys'. s = (r, o1, sys')"
  by (auto simp: holds_cond_def)

section \<open>Where a run is\<close>

definition code_at :: "cheat_line list \<Rightarrow> nat \<Rightarrow> cheat_line list \<Rightarrow> bool" where
  "code_at lines n ls \<longleftrightarrow> length lines < 2 ^ 32 \<and> (\<exists>pre post. lines = pre @ ls @ post \<and> length pre = n)"

lemma code_at_append:
  "code_at lines n (as @ bs) \<longleftrightarrow> code_at lines n as \<and> code_at lines (n + length as) bs"
proof
  assume "code_at lines n (as @ bs)"
  then obtain pre post where l: "length lines < 2 ^ 32" "lines = pre @ (as @ bs) @ post" "length pre = n"
    by (auto simp: code_at_def)
  have "lines = pre @ as @ (bs @ post)" "lines = (pre @ as) @ bs @ post" using l(2) by simp_all
  with l(1,3) show "code_at lines n as \<and> code_at lines (n + length as) bs"
    unfolding code_at_def by (metis length_append)
next
  assume "code_at lines n as \<and> code_at lines (n + length as) bs"
  then obtain pre post pre' post' where l: "length lines < 2 ^ 32" "lines = pre @ as @ post" "length pre = n"
      "lines = pre' @ bs @ post'" "length pre' = n + length as"
    unfolding code_at_def by blast
  have "pre' = take (n + length as) lines" using l(4,5) by simp
  also have "\<dots> = pre @ as" using l(2,3) by simp
  finally have "lines = pre @ (as @ bs) @ post'" using l(4) by simp
  with l(1,3) show "code_at lines n (as @ bs)" unfolding code_at_def by blast
qed

lemma code_at_Cons: "code_at lines n (l # ls) \<longleftrightarrow> code_at lines n [l] \<and> code_at lines (Suc n) ls"
  using code_at_append [of lines n "[l]" ls] by simp

lemma code_at_bound: "code_at lines n ls \<Longrightarrow> n + length ls \<le> length lines \<and> length lines < 2 ^ 32"
  by (auto simp: code_at_def)

lemma code_at_nth: "code_at lines n [l] \<Longrightarrow> n < length lines \<and> lines ! n = l"
  by (auto simp: code_at_def nth_append)

lemma line_index: "n \<le> length lines \<Longrightarrow> length lines < 2 ^ 32 \<Longrightarrow> unat (word_of_nat n :: u64) = n"
  by (simp add: unat_of_nat take_bit_nat_eq_self)

lemma at_one_line:
  assumes "code_at lines n [l]" "current_line_nr st = of_nat n"
  shows "cheat_loop env pad lines st sys =
    do { (st, sys) \<leftarrow> (if if_flag st > 0 then skip_line env lines l st sys else run_line env pad lines l st sys);
         cheat_loop env pad lines (st\<lparr>current_line_nr := current_line_nr st + 1\<rparr>) sys }"
proof -
  have "n < length lines" "lines ! n = l" "unat (current_line_nr st) = n"
    using code_at_nth [OF assms(1)] code_at_bound [OF assms(1)] assms(2) line_index [of n lines] by auto
  then show ?thesis by (subst cheat_loop.simps) (simp add: cheat_line_step_def Let_def)
qed

lemma same_line: "st\<lparr>current_line_nr := current_line_nr st\<rparr> = (st :: cheat_state)"
  by simp

section \<open>Skipping what a condition guards\<close>

text \<open>With an open condition the lines are passed over, whatever is nested in them.\<close>

definition skips :: "'d memory_env \<Rightarrow> u32 \<Rightarrow> cheat_line list \<Rightarrow> cheat_line list \<Rightarrow> bool" where
  "skips env pad lines ls \<longleftrightarrow>
     (\<forall>n st sys. code_at lines n ls \<longrightarrow> current_line_nr st = of_nat n \<longrightarrow> if_flag st > 0 \<longrightarrow>
        unat (if_flag st) + length ls < 2 ^ 32 \<longrightarrow>
        cheat_loop env pad lines st sys =
          cheat_loop env pad lines (st\<lparr>current_line_nr := of_nat (n + length ls)\<rparr>) sys)"

lemma skipsD:
  "skips env pad lines ls \<Longrightarrow> code_at lines n ls \<Longrightarrow> current_line_nr st = of_nat n \<Longrightarrow> if_flag st > 0 \<Longrightarrow>
   unat (if_flag st) + length ls < 2 ^ 32 \<Longrightarrow>
   cheat_loop env pad lines st sys = cheat_loop env pad lines (st\<lparr>current_line_nr := of_nat (n + length ls)\<rparr>) sys"
  by (simp add: skips_def)

lemma skips_Nil [simp]: "skips env pad lines []"
  unfolding skips_def by (metis add.right_neutral list.size(3) same_line)

lemma skips_append:
  assumes "skips env pad lines as" "skips env pad lines bs"
  shows "skips env pad lines (as @ bs)"
  unfolding skips_def
proof (intro allI impI)
  fix n sys and st :: cheat_state
  assume a: "code_at lines n (as @ bs)" "current_line_nr st = of_nat n" "0 < if_flag st"
    "unat (if_flag st) + length (as @ bs) < 2 ^ 32"
  show "cheat_loop env pad lines st sys =
      cheat_loop env pad lines (st\<lparr>current_line_nr := of_nat (n + length (as @ bs))\<rparr>) sys"
    using a skipsD [OF assms(1), of n st sys]
      skipsD [OF assms(2), of "n + length as" "st\<lparr>current_line_nr := of_nat (n + length as)\<rparr>" sys]
    by (simp add: code_at_append add.assoc)
qed

lemma skips_concat: "(\<And>s. s \<in> set ss \<Longrightarrow> skips env pad lines (flat s)) \<Longrightarrow> skips env pad lines (concat (map flat ss))"
  by (induction ss) (auto intro: skips_append)

lemma skips_line:
  assumes "\<And>st sys. skip_line env lines l st sys = Some (st, sys)"
  shows "skips env pad lines [l]"
  unfolding skips_def
proof (intro allI impI)
  fix n sys and st :: cheat_state
  assume a: "code_at lines n [l]" "current_line_nr st = of_nat n" "0 < if_flag st"
  show "cheat_loop env pad lines st sys = cheat_loop env pad lines (st\<lparr>current_line_nr := of_nat (n + length [l])\<rparr>) sys"
    by (subst at_one_line [OF a(1,2)]) (simp add: a(2,3) assms add.commute)
qed

lemma skips_patch:
  assumes "line_type l = Patch" "line_value l = Some v" "length ds = (unat v + 7) div 8"
  shows "skips env pad lines (l # ds)"
  unfolding skips_def
proof (intro allI impI)
  fix n sys and st :: cheat_state
  assume a: "code_at lines n (l # ds)" "current_line_nr st = of_nat n" "0 < if_flag st"
  then have l: "code_at lines n [l]" by (metis code_at_Cons)
  show "cheat_loop env pad lines st sys = cheat_loop env pad lines (st\<lparr>current_line_nr := of_nat (n + length (l # ds))\<rparr>) sys"
    by (subst at_one_line [OF l a(2)])
      (simp add: a(2,3) skip_line_def PatchOp_def assms algebra_simps flip: assms(3))
qed

lemma flag_up:
  fixes f :: u32
  assumes "0 < f" "unat f + k < 2 ^ 32" "0 < k"
  shows "unat (f + 1) = unat f + 1" "f + 1 > 0" "f + 1 - 1 = f"
proof -
  show *: "unat (f + 1) = unat f + 1" using assms(2,3) by (simp add: unat_word_ariths)
  show "f + 1 > 0" using * by (simp add: word_greater_zero_iff) (metis nat.distinct(1) unat_0)
qed simp

lemma skips_cond:
  assumes c: "line_type c \<in> conditions" and b: "skips env pad lines body"
  shows "skips env pad lines (c # body @ [closing Terminator])"
  unfolding skips_def
proof (intro allI impI)
  fix n sys and st :: cheat_state
  assume "code_at lines n (c # body @ [closing Terminator])"
    and a: "current_line_nr st = of_nat n" "0 < if_flag st"
      "unat (if_flag st) + length (c # body @ [closing Terminator]) < 2 ^ 32"
  then have l: "code_at lines n [c]" "code_at lines (Suc n) body"
      "code_at lines (Suc n + length body) [closing Terminator]"
    by (metis code_at_Cons, metis code_at_Cons code_at_append, metis code_at_Cons code_at_append)
  have up: "unat (if_flag st + 1) = unat (if_flag st) + 1" "if_flag st + 1 > 0"
    using a(2,3) by (simp_all add: flag_up [of _ "length (c # body @ [closing Terminator])"])
  let ?st1 = "st\<lparr>if_flag := if_flag st + 1, current_line_nr := of_nat (Suc n)\<rparr>"
  have "cheat_loop env pad lines st sys = cheat_loop env pad lines ?st1 sys"
    using c by (subst at_one_line [OF l(1) a(1)]) (auto simp: a skip_line_def conditions_def add.commute)
  also have "\<dots> = cheat_loop env pad lines (?st1\<lparr>current_line_nr := of_nat (Suc n + length body)\<rparr>) sys"
    using a(3) up by (intro skipsD [OF b l(2)]) simp_all
  also have "\<dots> = cheat_loop env pad lines (st\<lparr>current_line_nr := of_nat (Suc n + length body + 1)\<rparr>) sys"
    using up(2) by (subst at_one_line [OF l(3)])
      (simp_all add: skip_line_def closing_def TerminateOp_def add.commute)
  finally show "cheat_loop env pad lines st sys = cheat_loop env pad lines
      (st\<lparr>current_line_nr := of_nat (n + length (c # body @ [closing Terminator]))\<rparr>) sys"
    by (simp add: algebra_simps)
qed

lemma skips_stmt: "wf_stmt s \<Longrightarrow> skips env pad lines (flat s)"
proof (induction s)
  case (Basic l)
  then have "skip_line env lines l st sys = Some (st, sys)" for st sys
    by (auto simp: skip_line_def conditions_def split: CheatType.splits)
  then show ?case by (simp add: skips_line)
next
  case (PatchBlock l ds)
  then show ?case by (auto intro: skips_patch)
next
  case (IfBlock c ss)
  then have "skips env pad lines (concat (map flat ss))" by (auto intro: skips_concat simp: list_all_iff)
  with IfBlock.prems show ?case by (simp add: skips_cond)
next
  case (Repeat l ss)
  then have "skips env pad lines (concat (map flat ss))" by (auto intro: skips_concat simp: list_all_iff)
  moreover have "skips env pad lines [l]" "skips env pad lines [closing LoopExecuteVariant]"
    using Repeat.prems by (auto intro!: skips_line simp: skip_line_def closing_def)
  ultimately show ?case
    using skips_append [of env pad lines "[l]" "concat (map flat ss) @ [closing LoopExecuteVariant]"]
    by (simp add: skips_append)
qed

section \<open>Patches\<close>

lemma length_payload [simp]: "length (payload ds) = 2 * length ds"
  by (induction ds) (auto simp: payload_def)

lemma payload_Cons [simp]: "payload (d # ds) = line_first d # line_value d # payload ds"
  by (simp add: payload_def)

lemma payload_nth:
  "i div 2 < length ds \<Longrightarrow>
   payload ds ! i = (if even i then line_first (ds ! (i div 2)) else line_value (ds ! (i div 2)))"
proof (induction ds arbitrary: i)
  case (Cons d ds)
  consider "i = 0" | "i = 1" | j where "i = Suc (Suc j)" by (metis One_nat_def not0_implies_Suc)
  then show ?case
  proof cases
    case 3
    then show ?thesis using Cons by simp
  qed auto
qed simp

lemma patch_word_payload:
  assumes "code_at lines n ds" "i div 2 < length ds"
  shows "patch_word lines (even i) (of_nat (n + i div 2)) = payload ds ! i"
proof -
  from assms(1) obtain pre post where l: "lines = pre @ ds @ post" "length pre = n"
    by (auto simp: code_at_def)
  have "n + i div 2 < length lines" "length lines < 2 ^ 32"
    using code_at_bound [OF assms(1)] assms(2) by auto
  moreover from this have "unat (of_nat (n + i div 2) :: u64) = n + i div 2"
    by (intro line_index) auto
  moreover have "lines ! (n + i div 2) = ds ! (i div 2)" using l assms(2) by (simp add: nth_append)
  ultimately show ?thesis unfolding patch_word_def payload_nth [OF assms(2)] by simp
qed

text \<open>The line that holds word \<open>i\<close>, or the one before if nothing is left to store.\<close>

definition patch_nr :: "nat \<Rightarrow> nat \<Rightarrow> nat \<Rightarrow> nat" where
  "patch_nr n i num = n + (if num = 0 then (i - 1) div 2 else i div 2)"

lemma patch_nr_step:
  "4 \<le> num \<Longrightarrow> (if even (Suc i) \<and> 4 < num then (of_nat (patch_nr n i num) :: u64) + 1 else of_nat (patch_nr n i num)) =
     of_nat (patch_nr n (Suc i) (num - 4))"
proof -
  assume num: "4 \<le> num"
  have "(if even (Suc i) \<and> 4 < num then patch_nr n i num + 1 else patch_nr n i num) = patch_nr n (Suc i) (num - 4)"
    using num by (auto simp: patch_nr_def elim!: evenE oddE)
  then show ?thesis by (metis of_nat_1 of_nat_add)
qed

lemma patch_words_spec:
  assumes "code_at lines n ds" "length ds = (4 * i + num + 7) div 8"
  shows "patch_words env lines (even i) (of_nat (patch_nr n i num)) addr num sys =
    map_option (\<lambda>sys. (even (i + num div 4), of_nat (patch_nr n (i + num div 4) (num mod 4)),
        addr + 4 * of_nat (num div 4), num mod 4, sys))
      (store_words env addr (take (num div 4) (drop i (payload ds))) sys)"
  using assms(2)
proof (induction num arbitrary: i addr sys rule: less_induct)
  case (less num)
  show ?case
  proof (cases "num < 4")
    case False
    let ?k = "num - 4"
    have i: "i div 2 < length ds" using less.prems False by simp
    then have i2: "i < length (payload ds)" by simp
    have k: "num div 4 = Suc (?k div 4)" "num mod 4 = ?k mod 4" "?k < num"
      using False by (auto simp: le_div_geq le_mod_geq)
    have tk: "take (num div 4) (drop i (payload ds)) =
        payload ds ! i # take (?k div 4) (drop (Suc i) (payload ds))"
      using i2 by (simp add: k(1) Cons_nth_drop_Suc [symmetric])
    have pw: "patch_word lines (even i) (of_nat (patch_nr n i num)) = payload ds ! i"
      using patch_word_payload [OF assms(1) i] False by (simp add: patch_nr_def)
    have IH: "patch_words env lines (even (Suc i)) (of_nat (patch_nr n (Suc i) ?k)) (addr + 4) ?k =
        (\<lambda>sys. map_option (\<lambda>sys. (even (i + num div 4), of_nat (patch_nr n (i + num div 4) (num mod 4)),
            addr + 4 * of_nat (num div 4), num mod 4, sys))
          (store_words env (addr + 4) (take (?k div 4) (drop (Suc i) (payload ds))) sys))"
      using less.IH [OF k(3), of "Suc i" "addr + 4"] less.prems False
      by (intro ext) (simp add: k(1,2) algebra_simps)
    show ?thesis
      unfolding tk store_words.simps map_option_bind comp_def
      by (subst patch_words.simps)
        (use False in \<open>simp only: pw patch_nr_step [OF leI [OF False]] if_False even_Suc [symmetric] IH Let_def
           bind_assoc flip: even_Suc\<close>)
  qed (simp add: patch_nr_def)
qed

lemma patch_bytes_store:
  "patch_bytes env lines first nr addr bit_offset k sys =
     store_bytes env addr (patch_word lines first nr) bit_offset k sys"
  by (induction k arbitrary: addr bit_offset sys) simp_all

lemma patch_line_count:
  fixes w :: nat
  assumes "0 < w"
  shows "Suc (if w mod 4 = 0 then (w div 4 - 1) div 2 else w div 4 div 2) = (w + 7) div 8"
proof -
  obtain u where u: "w = Suc u" using assms by (cases w) auto
  have "(if w mod 4 = 0 then w div 4 - 1 else w div 4) = u div 4" unfolding u by (simp add: div_Suc)
  then have "(if w mod 4 = 0 then (w div 4 - 1) div 2 else w div 4 div 2) = u div 4 div 2" by (simp split: if_splits)
  moreover have "(w + 7) div 8 = Suc (u div 8)" unfolding u by simp
  ultimately show ?thesis by (simp add: div_mult2_eq [symmetric])
qed

lemma run_patch:
  assumes "code_at lines n (l # ds)" "line_type l = Patch" "line_value l = Some v" "length ds = (unat v + 7) div 8"
    "current_line_nr st = of_nat n" "if_flag st = 0"
  shows "run_line env pad lines l st sys =
    map_option (\<lambda>(r, o1, sys). (st\<lparr>reg := r, offset := o1, current_line_nr := of_nat (n + length ds)\<rparr>, sys))
      (exec_patch env l ds (reg st, offset st, sys))"
proof -
  have ds: "code_at lines (Suc n) ds" using assms(1) by (metis code_at_Cons)
  let ?k = "unat v div 4" and ?m = "unat v mod 4"
  have nr: "(if v > 0 then current_line_nr st + 1 else current_line_nr st) =
      of_nat (if v = 0 then n else patch_nr (Suc n) 0 (unat v))"
    using assms(5) by (auto simp: word_gt_0 patch_nr_def unat_eq_0)
  have last: "(if v = 0 then n else patch_nr (Suc n) ?k ?m) = n + length ds"
  proof (cases "v = 0")
    case False
    then have v: "0 < unat v" by (simp add: unat_gt_0)
    from patch_line_count [OF v] False show ?thesis by (simp add: assms(4) patch_nr_def)
  qed (use assms(4) in simp)
  have pay: "store_bytes env a (patch_word lines (even ?k) (of_nat (patch_nr (Suc n) ?k ?m))) 0 ?m sys =
      store_bytes env a (payload ds ! ?k) 0 ?m sys" for a sys
  proof (cases "?m = 0")
    case False
    then have "0 < unat v" by (metis mod_0 neq0_conv)
    from patch_line_count [OF this] False have "?k div 2 < length ds" unfolding assms(4) by simp
    from patch_word_payload [OF ds this] False show ?thesis by (simp add: patch_nr_def)
  qed simp
  have ws: "patch_words env lines True (of_nat (patch_nr (Suc n) 0 (unat v))) a (unat v) sys =
      map_option (\<lambda>sys. (even ?k, of_nat (patch_nr (Suc n) ?k ?m), a + 4 * of_nat ?k, ?m, sys))
        (store_words env a (take ?k (payload ds)) sys)" for a sys
    using patch_words_spec [OF ds, of 0 "unat v" env a sys] assms(4) by simp
  show ?thesis
  proof (cases "v = 0")
    case True
    then show ?thesis using assms
      by (cases "line_address l") (simp_all add: run_line_def PatchOp_def exec_patch_def payload_def Let_def)
  next
    case False
    then have last': "patch_nr (Suc n) ?k ?m = n + length ds" using last by simp
    show ?thesis using nr False last'
      by (cases "line_address l")
        (simp_all add: run_line_def PatchOp_def exec_patch_def Let_def assms(2,3,6) ws bind_map_option comp_def
          patch_bytes_store pay [unfolded last'] map_option_bind assms(5) del: patch_words.simps of_nat_add)
  qed
qed

section \<open>Running what is not guarded\<close>

text \<open>The lines \<open>ls\<close> compute \<open>f\<close> on the registers and the memory and leave the run behind them. Lines with
  a loop change the fields for loops, but leave no loop running; lines without one keep them.\<close>

definition loop_fields :: "bool \<Rightarrow> cheat_state \<Rightarrow> bool \<Rightarrow> u64 \<Rightarrow> bool" where
  "loop_fields keep st lf lb \<longleftrightarrow>
     (lf \<longrightarrow> loop_flag st) \<and> (keep \<longrightarrow> lf = loop_flag st \<and> lb = loop_back_line st)"

definition after :: "nat \<Rightarrow> bool \<Rightarrow> u64 \<Rightarrow> u32 \<Rightarrow> u32 \<Rightarrow> cheat_state \<Rightarrow> cheat_state" where
  "after n lf lb r o1 st = st\<lparr>reg := r, offset := o1, current_line_nr := of_nat n, loop_flag := lf,
     loop_back_line := lb\<rparr>"

lemma after_simps [simp]:
  "reg (after n lf lb r o1 st) = r" "offset (after n lf lb r o1 st) = o1"
  "current_line_nr (after n lf lb r o1 st) = of_nat n" "loop_flag (after n lf lb r o1 st) = lf"
  "loop_back_line (after n lf lb r o1 st) = lb" "if_flag (after n lf lb r o1 st) = if_flag st"
  "loop_count (after n lf lb r o1 st) = loop_count st"
  "after n lf lb r o1 (after n' lf' lb' r' o' st) = after n lf lb r o1 st"
  by (simp_all add: after_def)

definition lands :: "'d memory_env \<Rightarrow> u32 \<Rightarrow> cheat_line list \<Rightarrow> bool \<Rightarrow> nat \<Rightarrow> cheat_state \<Rightarrow> 'd cheat_system \<Rightarrow>
    'd cheat_regs run \<Rightarrow> bool" where
  "lands env pad lines keep n st sys res \<longleftrightarrow>
     (case res of
        None \<Rightarrow> cheat_loop env pad lines st sys = None
      | Some (r, o1, sys') \<Rightarrow> \<exists>lf lb. loop_fields keep st lf lb \<and>
          cheat_loop env pad lines st sys = cheat_loop env pad lines (after n lf lb r o1 st) sys')"

definition runs :: "'d memory_env \<Rightarrow> u32 \<Rightarrow> cheat_line list \<Rightarrow> bool \<Rightarrow> cheat_line list \<Rightarrow>
    ('d cheat_regs \<Rightarrow> 'd cheat_regs run) \<Rightarrow> bool" where
  "runs env pad lines keep ls f \<longleftrightarrow>
     (\<forall>n st sys. code_at lines n ls \<longrightarrow> current_line_nr st = of_nat n \<longrightarrow> if_flag st = 0 \<longrightarrow>
        keep \<or> loop_count st = 0 \<longrightarrow>
        lands env pad lines keep (n + length ls) st sys (f (reg st, offset st, sys)))"

lemma runsD:
  "runs env pad lines keep ls f \<Longrightarrow> code_at lines n ls \<Longrightarrow> current_line_nr st = of_nat n \<Longrightarrow> if_flag st = 0 \<Longrightarrow>
   keep \<or> loop_count st = 0 \<Longrightarrow> lands env pad lines keep (n + length ls) st sys (f (reg st, offset st, sys))"
  unfolding runs_def by blast

lemma runsD_after:
  "runs env pad lines keep ls f \<Longrightarrow> code_at lines n ls \<Longrightarrow> if_flag st = 0 \<Longrightarrow> keep \<or> loop_count st = 0 \<Longrightarrow>
   m = n + length ls \<Longrightarrow> lands env pad lines keep m (after n lf lb r o1 st) sys (f (r, o1, sys))"
  using runsD [of env pad lines keep ls f n "after n lf lb r o1 st" sys] by simp

lemma landsI_None: "cheat_loop env pad lines st sys = None \<Longrightarrow> lands env pad lines keep n st sys None"
  by (simp add: lands_def)

lemma landsI:
  "loop_fields keep st lf lb \<Longrightarrow>
   cheat_loop env pad lines st sys = cheat_loop env pad lines (after n lf lb r o1 st) sys' \<Longrightarrow>
   lands env pad lines keep n st sys (Some (r, o1, sys'))"
  unfolding lands_def by auto

lemma lands_SomeE:
  assumes "lands env pad lines keep n st sys (Some (r, o1, sys'))"
  obtains lf lb where "loop_fields keep st lf lb"
    "cheat_loop env pad lines st sys = cheat_loop env pad lines (after n lf lb r o1 st) sys'"
  using assms unfolding lands_def by auto

lemma lands_None: "lands env pad lines keep n st sys None \<Longrightarrow> cheat_loop env pad lines st sys = None"
  by (simp add: lands_def)

lemma lands_weaken: "lands env pad lines True n st sys res \<Longrightarrow> lands env pad lines keep n st sys res"
  by (auto simp: lands_def loop_fields_def split: option.splits prod.splits)

lemma runs_weaken: "runs env pad lines True ls f \<Longrightarrow> runs env pad lines keep ls f"
  unfolding runs_def by (blast intro: lands_weaken)

lemma runs_Nil: "runs env pad lines keep [] (seq_run [])"
  unfolding runs_def
proof (intro allI impI)
  fix n sys and st :: cheat_state
  assume "current_line_nr st = of_nat n"
  then have "after n (loop_flag st) (loop_back_line st) (reg st) (offset st) st = st" by (simp add: after_def)
  then show "lands env pad lines keep (n + length []) st sys (seq_run [] (reg st, offset st, sys))"
    unfolding seq_run.simps by (intro landsI [of _ _ "loop_flag st" "loop_back_line st"]) (simp_all add: loop_fields_def)
qed

text \<open>Two stretches of a run, one after the other.\<close>

lemma lands_trans:
  assumes "lands env pad lines keep n st sys res"
    and "\<And>r o1 sys' lf lb. res = Some (r, o1, sys') \<Longrightarrow> loop_fields keep st lf lb \<Longrightarrow>
      lands env pad lines keep m (after n lf lb r o1 st) sys' (g (r, o1, sys'))"
  shows "lands env pad lines keep m st sys (Option.bind res g)"
proof (cases res)
  case None
  then show ?thesis using assms(1) by (simp add: lands_def)
next
  case (Some s)
  obtain r o1 sys' where s: "s = (r, o1, sys')" by (cases s)
  from assms(1) obtain lf lb where l: "loop_fields keep st lf lb"
      "cheat_loop env pad lines st sys = cheat_loop env pad lines (after n lf lb r o1 st) sys'"
    unfolding Some s by (rule lands_SomeE)
  from assms(2) [OF Some [unfolded s] l(1)]
  have "lands env pad lines keep m (after n lf lb r o1 st) sys' (g (r, o1, sys'))" .
  then show ?thesis unfolding Some s
    using l by (auto simp: lands_def loop_fields_def split: option.splits)
qed

lemma runs_append:
  assumes "runs env pad lines keep as f" "runs env pad lines keep bs g"
  shows "runs env pad lines keep (as @ bs) (\<lambda>s. Option.bind (f s) g)"
  unfolding runs_def
proof (intro allI impI)
  fix n sys and st :: cheat_state
  assume a: "code_at lines n (as @ bs)" "current_line_nr st = of_nat n" "if_flag st = 0" "keep \<or> loop_count st = 0"
  then have "code_at lines n as" "code_at lines (n + length as) bs" by (simp_all add: code_at_append)
  then show "lands env pad lines keep (n + length (as @ bs)) st sys (Option.bind (f (reg st, offset st, sys)) g)"
    unfolding length_append add.assoc [symmetric] using a
    by (intro lands_trans [OF runsD [OF assms(1)]] runsD_after [OF assms(2)]) simp_all
qed

lemma runs_concat:
  "(\<And>s. s \<in> set ss \<Longrightarrow> runs env pad lines keep (flat s) (f s)) \<Longrightarrow>
   runs env pad lines keep (concat (map flat ss)) (seq_run (map f ss))"
proof (induction ss)
  case (Cons s ss)
  then show ?case using runs_append [of env pad lines keep "flat s" "f s"] by (simp add: fun_eq_iff)
qed (simp add: runs_Nil)

lemma line_then_loop:
  "st\<lparr>reg := r, offset := o1, loop_flag := lf, loop_back_line := lb, current_line_nr := k\<rparr> =
     st\<lparr>reg := r, offset := o1, current_line_nr := k, loop_flag := lf, loop_back_line := lb\<rparr>"
  "st\<lparr>reg := r, offset := o1, loop_flag := lf, loop_back_line := lb, loop_count := c, current_line_nr := k\<rparr> =
     st\<lparr>loop_count := c, reg := r, offset := o1, current_line_nr := k, loop_flag := lf, loop_back_line := lb\<rparr>"
  "st\<lparr>if_flag := f, current_line_nr := k\<rparr> = st\<lparr>current_line_nr := k, if_flag := f\<rparr>" for st :: cheat_state
  by (cases st; simp)+

lemma no_flag: "if_flag st = 0 \<Longrightarrow> st\<lparr>current_line_nr := k, if_flag := 0\<rparr> = st\<lparr>current_line_nr := k\<rparr>"
  by (cases st) simp

lemma runs_basic:
  assumes "wf_stmt (Basic l)"
  shows "runs env pad lines keep [l] (exec_basic env pad l)"
  unfolding runs_def
proof (intro allI impI)
  fix n sys and st :: cheat_state
  assume a: "code_at lines n [l]" "current_line_nr st = of_nat n" "if_flag st = 0"
  let ?res = "exec_basic env pad l (reg st, offset st, sys)"
  have loop: "cheat_loop env pad lines st sys = Option.bind ?res (\<lambda>(r, o1, sys).
      cheat_loop env pad lines (after (n + length [l]) (loop_flag st) (loop_back_line st) r o1 st) sys)"
    by (subst at_one_line [OF a(1,2)])
      (simp add: a(2,3) run_basic [OF assms a(3)] bind_map_option comp_def split_def after_def add.commute)
  show "lands env pad lines keep (n + length [l]) st sys ?res"
  proof (cases ?res)
    case (Some s)
    then show ?thesis using loop
      by (cases s) (auto intro!: landsI [of _ _ "loop_flag st" "loop_back_line st"] simp: loop_fields_def)
  qed (use loop in \<open>simp add: landsI_None\<close>)
qed

lemma runs_patch:
  assumes "wf_stmt (PatchBlock l ds)"
  shows "runs env pad lines keep (l # ds) (exec_patch env l ds)"
  unfolding runs_def
proof (intro allI impI)
  fix n sys and st :: cheat_state
  assume a: "code_at lines n (l # ds)" "current_line_nr st = of_nat n" "if_flag st = 0"
  let ?res = "exec_patch env l ds (reg st, offset st, sys)"
  from assms obtain v where l: "line_type l = Patch" "line_value l = Some v" "length ds = (unat v + 7) div 8" by auto
  from a(1) have one: "code_at lines n [l]" by (metis code_at_Cons)
  have loop: "cheat_loop env pad lines st sys = Option.bind ?res (\<lambda>(r, o1, sys).
      cheat_loop env pad lines (after (n + length (l # ds)) (loop_flag st) (loop_back_line st) r o1 st) sys)"
    by (subst at_one_line [OF one a(2)])
      (simp add: a(2,3) run_patch [OF a(1) l a(2,3)] bind_map_option comp_def split_def after_def algebra_simps)
  show "lands env pad lines keep (n + length (l # ds)) st sys ?res"
  proof (cases ?res)
    case (Some s)
    then show ?thesis using loop
      by (cases s) (auto intro!: landsI [of _ _ "loop_flag st" "loop_back_line st"] simp: loop_fields_def)
  qed (use loop in \<open>simp add: landsI_None\<close>)
qed

text \<open>After a condition the run is either in its body or skips it.\<close>

lemma cond_line:
  assumes c: "line_type c \<in> conditions" and a: "code_at lines n [c]" "current_line_nr st = of_nat n" "if_flag st = 0"
  shows "cheat_loop env pad lines st sys =
    Option.bind (holds_cond env pad c (reg st, offset st, sys)) (\<lambda>(b, r, o1, sys).
      cheat_loop env pad lines (st\<lparr>current_line_nr := of_nat (Suc n), if_flag := (if b then 0 else 1)\<rparr>) sys)"
proof -
  show ?thesis
    by (subst at_one_line [OF a(1,2)])
      (auto simp: a(2,3) run_cond [OF c a(3)] bind_map_option comp_def split_def add.commute no_flag [OF a(3)] line_then_loop
        intro!: Option.bind_cong)
qed

lemma runs_if:
  assumes c: "line_type c \<in> conditions" and b: "runs env pad lines keep body f" and sk: "skips env pad lines body"
  shows "runs env pad lines keep (c # body @ [closing Terminator])
    (\<lambda>s. do { (b, s) \<leftarrow> holds_cond env pad c s; if b then f s else Some s })"
  unfolding runs_def
proof (intro allI impI)
  fix n sys and st :: cheat_state
  let ?ls = "c # body @ [closing Terminator]"
  assume at: "code_at lines n ?ls"
    and a: "current_line_nr st = of_nat n" "if_flag st = 0" "keep \<or> loop_count st = 0"
  from at have l: "code_at lines n [c]" "code_at lines (Suc n) body"
      "code_at lines (Suc n + length body) [closing Terminator]"
    by (metis code_at_Cons, metis code_at_Cons code_at_append, metis code_at_Cons code_at_append)
  have len: "1 + length body < 2 ^ 32" using code_at_bound [OF at] by simp
  let ?h = "holds_cond env pad c (reg st, offset st, sys)"
  let ?fin = "after (n + length ?ls) (loop_flag st) (loop_back_line st) (reg st) (offset st) st"
  show "lands env pad lines keep (n + length ?ls) st sys (Option.bind ?h (\<lambda>(b, s). if b then f s else Some s))"
  proof (cases ?h)
    case None
    then show ?thesis using cond_line [OF c l(1) a(1,2), of env pad sys] by (simp add: landsI_None)
  next
    case (Some bs)
    then obtain b sys' where h: "?h = Some (b, reg st, offset st, sys')"
      using holds_cond_regs [OF c] by (cases bs) fastforce
    let ?st1 = "after (Suc n) (loop_flag st) (loop_back_line st) (reg st) (offset st) st"
    have first: "cheat_loop env pad lines st sys =
        cheat_loop env pad lines (?st1\<lparr>if_flag := (if b then 0 else 1)\<rparr>) sys'"
      using cond_line [OF c l(1) a(1,2), of env pad sys] unfolding h by (simp add: after_def)
    show ?thesis
    proof (cases b)
      case True
      have "lands env pad lines keep (Suc n + length body) ?st1 sys' (f (reg st, offset st, sys'))"
        using a by (intro runsD_after [OF b l(2)]) simp_all
      moreover have "cheat_loop env pad lines (after (Suc n + length body) lf lb r o1 st) sys =
          cheat_loop env pad lines (after (n + length ?ls) lf lb r o1 st) sys" for lf lb r o1 sys
        by (subst at_one_line [OF l(3)])
          (simp_all add: a(2) run_line_def closing_def TerminateOp_def after_def line_then_loop algebra_simps)
      moreover have "?st1\<lparr>if_flag := 0\<rparr> = ?st1" using a(2) by (simp add: after_def)
      ultimately show ?thesis using first True unfolding h
        by (auto simp: lands_def loop_fields_def split: option.splits)
    next
      case False
      let ?st2 = "?st1\<lparr>if_flag := 1\<rparr>"
      have "cheat_loop env pad lines ?st2 sys' =
          cheat_loop env pad lines (?st2\<lparr>current_line_nr := of_nat (Suc n + length body)\<rparr>) sys'"
        using len by (intro skipsD [OF sk l(2)]) simp_all
      also have "\<dots> = cheat_loop env pad lines ?fin sys'"
        by (subst at_one_line [OF l(3)])
          (simp_all add: a(2) skip_line_def closing_def TerminateOp_def after_def line_then_loop no_flag algebra_simps)
      finally have "cheat_loop env pad lines st sys = cheat_loop env pad lines ?fin sys'"
        using first False by simp
      then show ?thesis using False unfolding h
        by (auto intro!: landsI [of _ _ "loop_flag st" "loop_back_line st"] simp: loop_fields_def)
    qed
  qed
qed


lemma runs_repeat:
  assumes l: "line_type l = Loop" and b: "runs env pad lines True body f"
  shows "runs env pad lines False (l # body @ [closing LoopExecuteVariant])
    (\<lambda>s. do { v \<leftarrow> line_value l; times_run (Suc (unat v)) f s })"
  unfolding runs_def
proof (intro allI impI)
  fix n sys and st :: cheat_state
  let ?ls = "l # body @ [closing LoopExecuteVariant]"
  assume at: "code_at lines n ?ls"
    and a: "current_line_nr st = of_nat n" "if_flag st = 0" "False \<or> loop_count st = 0"
  from at have c: "code_at lines n [l]" "code_at lines (Suc n) body"
      "code_at lines (Suc n + length body) [closing LoopExecuteVariant]"
    by (metis code_at_Cons, metis code_at_Cons code_at_append, metis code_at_Cons code_at_append)
  show "lands env pad lines False (n + length ?ls) st sys
      (Option.bind (line_value l) (\<lambda>v. times_run (Suc (unat v)) f (reg st, offset st, sys)))"
  proof (cases "line_value l")
    case None
    have "cheat_loop env pad lines st sys = None"
      by (subst at_one_line [OF c(1) a(1)]) (simp add: a(2) run_line_def l LoopOp_def pure_op_def None)
    with None show ?thesis by (simp add: landsI_None)
  next
    case (Some v)
    let ?N = "n + length ?ls"
    have loop_line: "cheat_loop env pad lines st sys = cheat_loop env pad lines
        (after (Suc n) (loop_count st < v) (of_nat n) (reg st) (offset st) (st\<lparr>loop_count := loop_count st + 1\<rparr>)) sys"
      if "current_line_nr st = of_nat n" "if_flag st = 0" for st sys
    proof -
      have "run_line env pad lines l st sys = Some (st\<lparr>loop_flag := loop_count st < v,
          loop_count := loop_count st + 1, loop_back_line := of_nat n\<rparr>, sys)"
        by (simp add: run_line_def l LoopOp_def pure_op_def Some that(1))
      moreover have order: "st\<lparr>loop_flag := lf, loop_count := lc, loop_back_line := lb, current_line_nr := k\<rparr> =
          st\<lparr>loop_count := lc, current_line_nr := k, loop_flag := lf,
            loop_back_line := lb\<rparr>" for st :: cheat_state and lf lc lb k
        by (cases st) simp
      ultimately show ?thesis
        by (subst at_one_line [OF c(1) that(1)]) (simp add: that after_def order add.commute)
    qed
    have round: "cheat_loop env pad lines st sys = Option.bind (f (reg st, offset st, sys)) (\<lambda>(r, o1, sys').
        cheat_loop env pad lines (if loop_count st < v
          then after n True (of_nat n) r o1 (st\<lparr>loop_count := loop_count st + 1\<rparr>)
          else after ?N False (of_nat n) r o1 (st\<lparr>loop_count := 0\<rparr>)) sys')"
      if st: "current_line_nr st = of_nat n" "if_flag st = 0" for st sys
    proof -
      let ?lf = "loop_count st < v" and ?st = "st\<lparr>loop_count := loop_count st + 1\<rparr>"
      let ?fin = "\<lambda>r o1. after (Suc n + length body) ?lf (of_nat n) r o1 ?st"
      have "lands env pad lines True (Suc n + length body) (after (Suc n) ?lf (of_nat n) (reg st) (offset st) ?st) sys
          (f (reg st, offset st, sys))"
        using st by (intro runsD_after [OF b c(2)]) simp_all
      then have "cheat_loop env pad lines (after (Suc n) ?lf (of_nat n) (reg st) (offset st) ?st) sys =
          Option.bind (f (reg st, offset st, sys)) (\<lambda>(r, o1, sys'). cheat_loop env pad lines (?fin r o1) sys')"
        by (auto simp: lands_def loop_fields_def split: option.splits)
      moreover have "cheat_loop env pad lines (?fin r o1) sys' = cheat_loop env pad lines (if ?lf
          then after n True (of_nat n) r o1 ?st else after ?N False (of_nat n) r o1 (st\<lparr>loop_count := 0\<rparr>)) sys'" for r o1 sys'
      proof (cases ?lf)
        case True
        have "cheat_loop env pad lines (after (Suc n + length body) True (of_nat n) r o1 ?st) sys' =
            cheat_loop env pad lines (after n True (of_nat n) r o1 ?st) sys'"
          by (subst at_one_line [OF c(3)])
            (simp_all add: st run_line_def closing_def LoopExecuteVariantOp_def after_def line_then_loop)
        with True show ?thesis by simp
      next
        case False
        have "cheat_loop env pad lines (after (Suc n + length body) False (of_nat n) r o1 ?st) sys' =
            cheat_loop env pad lines (after ?N False (of_nat n) r o1 (st\<lparr>loop_count := 0\<rparr>)) sys'"
          by (subst at_one_line [OF c(3)])
            (simp_all add: st run_line_def closing_def LoopExecuteVariantOp_def after_def line_then_loop algebra_simps)
        with False show ?thesis by simp
      qed
      ultimately show ?thesis by (simp add: loop_line [OF st])
    qed
    have rounds: "cheat_loop env pad lines st sys =
        Option.bind (times_run (Suc k) f (reg st, offset st, sys)) (\<lambda>(r, o1, sys').
          cheat_loop env pad lines (after ?N False (of_nat n) r o1 (st\<lparr>loop_count := 0\<rparr>)) sys')"
      if "current_line_nr st = of_nat n" "if_flag st = 0" "unat (loop_count st) + k = unat v" for k st sys
      using that
    proof (induction k arbitrary: st sys)
      case 0
      then have "\<not> loop_count st < v" by (simp add: word_less_nat_alt)
      then show ?case by (subst round [OF 0(1,2)]) (simp add: split_def)
    next
      case (Suc k)
      then have lt: "loop_count st < v" by (simp add: word_less_nat_alt)
      have "unat (loop_count st + 1) + k = unat v"
        using Suc.prems(3) unsigned_less [of v, where ?'a = nat] by (simp add: unat_word_ariths)
      then have IH: "cheat_loop env pad lines (after n True (of_nat n) r o1 (st\<lparr>loop_count := loop_count st + 1\<rparr>)) sys' =
          Option.bind (times_run (Suc k) f (r, o1, sys')) (\<lambda>(r, o1, sys').
            cheat_loop env pad lines (after ?N False (of_nat n) r o1 (st\<lparr>loop_count := 0\<rparr>)) sys')" for r o1 sys'
        using Suc.IH [of "after n True (of_nat n) r o1 (st\<lparr>loop_count := loop_count st + 1\<rparr>)" sys'] Suc.prems
        by (simp add: after_def line_then_loop)
      show ?case
        by (subst round [OF Suc.prems(1,2)]) (simp add: lt IH split_def del: times_run.simps(1))
    qed
    have "st\<lparr>loop_count := 0\<rparr> = st" using a(3) by (cases st) simp
    then have eq: "cheat_loop env pad lines st sys =
        Option.bind (times_run (Suc (unat v)) f (reg st, offset st, sys)) (\<lambda>(r, o1, sys').
          cheat_loop env pad lines (after ?N False (of_nat n) r o1 st) sys')"
      using rounds [OF a(1,2), of "unat v" sys] a(3) by simp
    show ?thesis
    proof (cases "times_run (Suc (unat v)) f (reg st, offset st, sys)")
      case None
      then show ?thesis using eq Some by (simp add: landsI_None del: times_run.simps)
    next
      case (Some s)
      then show ?thesis using eq \<open>line_value l = Some v\<close>
        by (cases s) (auto intro!: landsI [of _ _ False "of_nat n"] simp: loop_fields_def simp del: times_run.simps)
    qed
  qed
qed

lemma runs_stmt:
  "wf_stmt s \<Longrightarrow> (keep \<Longrightarrow> no_repeat s) \<Longrightarrow> runs env pad lines keep (flat s) (exec env pad s)"
proof (induction s arbitrary: keep)
  case (Basic l)
  then show ?case by (simp add: runs_basic)
next
  case (PatchBlock l ds)
  then show ?case by (simp add: runs_patch del: wf_stmt.simps)
next
  case (IfBlock c ss)
  then have "runs env pad lines keep (concat (map flat ss)) (execs env pad ss)"
    by (intro runs_concat) (auto simp: list_all_iff)
  moreover have "skips env pad lines (concat (map flat ss))"
    using IfBlock.prems(1) by (auto intro!: skips_concat skips_stmt simp: list_all_iff)
  ultimately show ?case using IfBlock.prems(1) by (simp add: runs_if)
next
  case (Repeat l ss)
  then have "runs env pad lines True (concat (map flat ss)) (execs env pad ss)"
    by (intro runs_concat) (auto simp: list_all_iff)
  moreover have "keep = False" using Repeat.prems(2) by auto
  ultimately show ?case using Repeat.prems(1) by (simp add: runs_repeat del: times_run.simps)
qed

lemma runs_stmts:
  "list_all wf_stmt ss \<Longrightarrow> runs env pad lines False (concat (map flat ss)) (execs env pad ss)"
  by (intro runs_concat runs_stmt) (auto simp: list_all_iff)

lemma skips_stmts: "list_all wf_stmt ss \<Longrightarrow> skips env pad lines (concat (map flat ss))"
  by (intro skips_concat skips_stmt) (auto simp: list_all_iff)

section \<open>Sections and programs\<close>

text \<open>A run that is in no loop and in which no line has left one.\<close>

definition idle :: "cheat_state \<Rightarrow> bool" where
  "idle st \<longleftrightarrow> \<not> loop_flag st \<and> loop_count st = 0"

lemma skip_chain:
  "wf_chain ch \<Longrightarrow> code_at lines n (flat_chain ch) \<Longrightarrow> current_line_nr st = of_nat n \<Longrightarrow> if_flag st > 0 \<Longrightarrow>
   unat (if_flag st) + length (flat_chain ch) < 2 ^ 32 \<Longrightarrow> idle st \<Longrightarrow>
   \<exists>st'. cheat_loop env pad lines st sys = cheat_loop env pad lines st' sys \<and>
     current_line_nr st' = of_nat (n + length (flat_chain ch)) \<and> idle st'"
proof (induction ch arbitrary: n st)
  case (Stmts ss)
  then have "skips env pad lines (concat (map flat ss))" by (simp add: skips_stmts)
  from skipsD [OF this, of n st sys] Stmts.prems show ?case
    by (intro exI [of _ "st\<lparr>current_line_nr := of_nat (n + length (flat_chain (Stmts ss)))\<rparr>"]) (simp add: idle_def)
next
  case (Guarded ss c ch)
  let ?a = "concat (map flat ss)"
  from Guarded.prems have wf: "skips env pad lines ?a" "line_type c \<in> conditions" "wf_chain ch"
    by (simp_all add: skips_stmts)
  from Guarded.prems(2) have l: "code_at lines n ?a" "code_at lines (n + length ?a) [c]"
      "code_at lines (Suc (n + length ?a)) (flat_chain ch)"
    by (simp, metis code_at_append, simp, metis code_at_append code_at_Cons, simp, metis code_at_append code_at_Cons)
  let ?st1 = "st\<lparr>current_line_nr := of_nat (n + length ?a)\<rparr>"
  let ?st2 = "st\<lparr>if_flag := if_flag st + 1, current_line_nr := of_nat (Suc (n + length ?a))\<rparr>"
  have up: "unat (if_flag st + 1) = unat (if_flag st) + 1" "if_flag st + 1 > 0"
    using Guarded.prems(4,5) by (simp_all add: flag_up [of _ "length (flat_chain (Guarded ss c ch))"])
  have "cheat_loop env pad lines st sys = cheat_loop env pad lines ?st1 sys"
    using Guarded.prems by (intro skipsD [OF wf(1) l(1)]) simp_all
  also have "\<dots> = cheat_loop env pad lines ?st2 sys"
    using wf(2) Guarded.prems(4)
    by (subst at_one_line [OF l(2)]) (auto simp: skip_line_def conditions_def line_then_loop add.commute)
  finally have "cheat_loop env pad lines st sys = cheat_loop env pad lines ?st2 sys" .
  moreover have "\<exists>st'. cheat_loop env pad lines ?st2 sys = cheat_loop env pad lines st' sys \<and>
     current_line_nr st' = of_nat (Suc (n + length ?a) + length (flat_chain ch)) \<and> idle st'"
    using Guarded.prems(5,6) up by (intro Guarded.IH [OF wf(3) l(3)]) (simp_all add: idle_def)
  ultimately show ?case by (auto simp: algebra_simps)
qed

lemma run_chain:
  "wf_chain ch \<Longrightarrow> code_at lines n (flat_chain ch) \<Longrightarrow> current_line_nr st = of_nat n \<Longrightarrow> if_flag st = 0 \<Longrightarrow> idle st \<Longrightarrow>
   case exec_chain env pad ch (reg st, offset st, sys) of
     None \<Rightarrow> cheat_loop env pad lines st sys = None
   | Some (r, o1, sys') \<Rightarrow> \<exists>st'. cheat_loop env pad lines st sys = cheat_loop env pad lines st' sys' \<and>
       current_line_nr st' = of_nat (n + length (flat_chain ch)) \<and> idle st'"
proof (induction ch arbitrary: n st sys)
  case (Stmts ss)
  then have "lands env pad lines False (n + length (concat (map flat ss))) st sys (execs env pad ss (reg st, offset st, sys))"
    by (intro runsD [OF runs_stmts]) (simp_all add: idle_def)
  then show ?case using Stmts.prems(5)
    by (auto simp: lands_def loop_fields_def idle_def split: option.splits)
next
  case (Guarded ss c ch)
  let ?a = "concat (map flat ss)"
  let ?n1 = "n + length ?a"
  from Guarded.prems have wf: "list_all wf_stmt ss" "line_type c \<in> conditions" "wf_chain ch" by simp_all
  from Guarded.prems(2) have l: "code_at lines n ?a" "code_at lines ?n1 [c]" "code_at lines (Suc ?n1) (flat_chain ch)"
    by (simp, metis code_at_append, simp, metis code_at_append code_at_Cons, simp, metis code_at_append code_at_Cons)
  have len: "1 + length (flat_chain ch) < 2 ^ 32" using code_at_bound [OF Guarded.prems(2)] by simp
  have a: "lands env pad lines False ?n1 st sys (execs env pad ss (reg st, offset st, sys))"
    using Guarded.prems by (intro runsD [OF runs_stmts [OF wf(1)] l(1)]) (simp_all add: idle_def)
  show ?case
  proof (cases "execs env pad ss (reg st, offset st, sys)")
    case None
    with a show ?thesis by (simp add: lands_def)
  next
    case (Some s)
    then obtain r o1 sys1 where s: "execs env pad ss (reg st, offset st, sys) = Some (r, o1, sys1)" by (cases s) auto
    from a obtain lf lb where st1: "loop_fields False st lf lb"
        "cheat_loop env pad lines st sys = cheat_loop env pad lines (after ?n1 lf lb r o1 st) sys1"
      unfolding s by (rule lands_SomeE)
    let ?st1 = "after ?n1 lf lb r o1 st"
    have idle1: "idle ?st1" "if_flag ?st1 = 0" "current_line_nr ?st1 = of_nat ?n1"
      using Guarded.prems st1(1) by (auto simp: idle_def loop_fields_def)
    have cond: "cheat_loop env pad lines st sys = Option.bind (holds_cond env pad c (r, o1, sys1)) (\<lambda>(b, r, o1, sys).
        cheat_loop env pad lines (?st1\<lparr>current_line_nr := of_nat (Suc ?n1), if_flag := (if b then 0 else 1)\<rparr>) sys)"
      unfolding st1(2) using cond_line [OF wf(2) l(2) idle1(3,2), of env pad sys1] by simp
    show ?thesis
    proof (cases "holds_cond env pad c (r, o1, sys1)")
      case None
      then show ?thesis using cond by (simp add: s)
    next
      case (Some bs)
      then obtain b sys2 where h: "holds_cond env pad c (r, o1, sys1) = Some (b, r, o1, sys2)"
        using holds_cond_regs [OF wf(2)] by (cases bs) fastforce
      let ?st2 = "?st1\<lparr>current_line_nr := of_nat (Suc ?n1), if_flag := (if b then 0 else 1)\<rparr>"
      have at2: "cheat_loop env pad lines st sys = cheat_loop env pad lines ?st2 sys2" using cond unfolding h by simp
      show ?thesis
      proof (cases b)
        case True
        have "case exec_chain env pad ch (reg ?st2, offset ?st2, sys2) of
            None \<Rightarrow> cheat_loop env pad lines ?st2 sys2 = None
          | Some (r, o1, sys') \<Rightarrow> \<exists>st'. cheat_loop env pad lines ?st2 sys2 = cheat_loop env pad lines st' sys' \<and>
              current_line_nr st' = of_nat (Suc ?n1 + length (flat_chain ch)) \<and> idle st'"
          using idle1(1) True by (intro Guarded.IH [OF wf(3) l(3)]) (simp_all add: idle_def)
        moreover have "exec_chain env pad (Guarded ss c ch) (reg st, offset st, sys) = exec_chain env pad ch (r, o1, sys2)"
            "n + length (flat_chain (Guarded ss c ch)) = Suc ?n1 + length (flat_chain ch)" "reg ?st2 = r" "offset ?st2 = o1"
          using True by (simp_all add: s h)
        ultimately show ?thesis unfolding at2 by (simp only:)
      next
        case False
        have "\<exists>st'. cheat_loop env pad lines ?st2 sys2 = cheat_loop env pad lines st' sys2 \<and>
            current_line_nr st' = of_nat (Suc ?n1 + length (flat_chain ch)) \<and> idle st'"
          using idle1(1) False len by (intro skip_chain [OF wf(3) l(3)]) (simp_all add: idle_def)
        then show ?thesis using False at2 by (simp add: s h add.assoc)
      qed
    qed
  qed
qed

lemma full_terminator:
  assumes "code_at lines n [closing FullTerminator]" "current_line_nr st = of_nat n" "idle st"
  shows "\<exists>st'. cheat_loop env pad lines st sys = cheat_loop env pad lines st' sys \<and>
    current_line_nr st' = of_nat (Suc n) \<and> idle st' \<and> if_flag st' = 0 \<and> reg st' = 0 \<and> offset st' = 0"
proof -
  have "cheat_loop env pad lines st sys =
      cheat_loop env pad lines ((FullTerminateOp st)\<lparr>current_line_nr := of_nat (Suc n)\<rparr>) sys"
    using assms by (subst at_one_line [OF assms(1,2)])
      (auto simp: skip_line_def run_line_def closing_def FullTerminateOp_def idle_def add.commute)
  then show ?thesis using assms(3)
    by (intro exI [of _ "(FullTerminateOp st)\<lparr>current_line_nr := of_nat (Suc n)\<rparr>"])
      (simp add: FullTerminateOp_def idle_def)
qed

lemma run_sections:
  "list_all wf_chain chs \<Longrightarrow> wf_chain ch \<Longrightarrow>
   code_at lines n (concat (map (\<lambda>ch. flat_chain ch @ [closing FullTerminator]) chs) @ flat_chain ch) \<Longrightarrow>
   length lines = n + length (concat (map (\<lambda>ch. flat_chain ch @ [closing FullTerminator]) chs) @ flat_chain ch) \<Longrightarrow>
   current_line_nr st = of_nat n \<Longrightarrow> idle st \<Longrightarrow> if_flag st = 0 \<Longrightarrow> reg st = 0 \<Longrightarrow> offset st = 0 \<Longrightarrow>
   cheat_loop env pad lines st sys = exec_sections env pad (chs @ [ch]) sys"
proof (induction chs arbitrary: n st sys)
  case Nil
  then have at: "code_at lines n (flat_chain ch)" and len: "length lines = n + length (flat_chain ch)" by simp_all
  note run = run_chain [OF Nil.prems(2) at Nil.prems(5,7,6), of env pad sys, unfolded Nil.prems(8,9)]
  show ?case
  proof (cases "exec_chain env pad ch (0, 0, sys)")
    case None
    with run show ?thesis by simp
  next
    case (Some s)
    then obtain r o1 sys' where s: "exec_chain env pad ch (0, 0, sys) = Some (r, o1, sys')" by (cases s) auto
    with run obtain st' where st': "cheat_loop env pad lines st sys = cheat_loop env pad lines st' sys'"
        "current_line_nr st' = of_nat (length lines)" by (auto simp: len)
    have "unat (current_line_nr st') = length lines"
      unfolding st'(2) using code_at_bound [OF at] by (intro line_index [of _ lines]) simp_all
    then have "cheat_loop env pad lines st' sys' = Some sys'" by (subst cheat_loop.simps) simp
    with st'(1) s show ?thesis by simp
  qed
next
  case (Cons c chs)
  let ?rest = "concat (map (\<lambda>ch. flat_chain ch @ [closing FullTerminator]) chs) @ flat_chain ch"
  let ?m = "n + length (flat_chain c)"
  have whole: "code_at lines n (flat_chain c @ [closing FullTerminator] @ ?rest)" using Cons.prems(3) by simp
  then have at: "code_at lines n (flat_chain c)" "code_at lines ?m [closing FullTerminator]" "code_at lines (Suc ?m) ?rest"
    by (metis code_at_append, metis code_at_append, metis code_at_append append_Cons append_Nil code_at_Cons)
  have wf: "wf_chain c" "list_all wf_chain chs" using Cons.prems(1) by simp_all
  note run = run_chain [OF wf(1) at(1) Cons.prems(5,7,6), of env pad sys, unfolded Cons.prems(8,9)]
  show ?case
  proof (cases "exec_chain env pad c (0, 0, sys)")
    case None
    with run show ?thesis by simp
  next
    case (Some s)
    then obtain r o1 sys' where s: "exec_chain env pad c (0, 0, sys) = Some (r, o1, sys')" by (cases s) auto
    with run obtain st1 where st1: "cheat_loop env pad lines st sys = cheat_loop env pad lines st1 sys'"
        "current_line_nr st1 = of_nat ?m" "idle st1" by auto
    from full_terminator [OF at(2) st1(2,3), of env pad sys'] obtain st2 where
      st2: "cheat_loop env pad lines st1 sys' = cheat_loop env pad lines st2 sys'"
        "current_line_nr st2 = of_nat (Suc ?m)" "idle st2" "if_flag st2 = 0" "reg st2 = 0" "offset st2 = 0"
      by blast
    have "cheat_loop env pad lines st2 sys' = exec_sections env pad (chs @ [ch]) sys'"
      using st2 Cons.prems(4) by (intro Cons.IH [OF wf(2) Cons.prems(2) at(3)]) simp_all
    then show ?thesis using st1(1) st2(1) s by simp
  qed
qed

section \<open>Properties\<close>

text \<open>C32: Running the lines of a structured cheat does what the structure says, aborts included: a condition
  guards the lines up to its \<open>D0\<close>, however many are nested in it, or up to the \<open>D2\<close> of the section; a loop
  with the value \<open>n\<close> runs its body \<open>n + 1\<close> times; a patch writes the bytes of the lines after it, which are
  not run themselves; and the registers are 0 at the beginning of every section. The meaning is
  by recursion over the structure: a run without a value is one in which an access to memory or to a field
  without a value aborts.\<close>

theorem cheats_run_structured:
  assumes "wf_program p" "length (flat_program p) < 2 ^ 32"
  shows "Execute env pad (flat_program p) sys = exec_program env pad p sys"
proof -
  have "code_at (flat_program p) 0 (flat_program p)" using assms(2) by (auto simp: code_at_def)
  then show ?thesis
    unfolding Execute_def exec_program_def using assms(1)
    by (intro run_sections [where n = 0]) (auto simp: wf_program_def flat_program_def initial_state_def idle_def)
qed

text \<open>\<open>D5000000 00000005\<close>, \<open>C0000000 00000002\<close>, \<open>D8000000 00001000\<close>, \<open>D1000000 00000000\<close>,
  \<open>D2000000 00000000\<close>, \<open>DD000000 00000001\<close>, \<open>E0001000 00000002\<close>, \<open>11223344 00000000\<close>: three bytes are
  written by a loop with the value 2, and a patch of two bytes is guarded by a button that is not pressed.\<close>

definition cheat_of :: "CheatType \<Rightarrow> u32 \<Rightarrow> u32 \<Rightarrow> cheat_line" where
  "cheat_of t a v = \<lparr>line_type = t, line_address = Some a, line_value = Some v, line_first = Some a,
     line_text = [], line_valid = True\<rparr>"

definition sample_program :: "chain list \<times> chain" where
  "sample_program =
     ([Stmts [Basic (cheat_of SetValue 0 5), Repeat (cheat_of Loop 0 2) [Basic (cheat_of IncrementiveWrite8 0 0x1000)]]],
      Guarded [] (cheat_of Joker 0 1) (Stmts [PatchBlock (cheat_of Patch 0x1000 2) [cheat_of Write16 0x11223344 0]]))"

lemma sample_byte:
  assumes "o1 \<in> {0, 1, 2}" "current_table ms = sample_table" "host ms (0x9000 + unat o1) = 7"
  shows "exec_basic no_devices 0 (cheat_of IncrementiveWrite8 0 0x1000) (5, o1, \<lparr>memory = ms, invalidated = iv\<rparr>) =
    Some (5, o1 + 1, \<lparr>memory = store (0x9000 + unat o1) [5] ms, invalidated = iv @ [(0x1000 + o1, 1)]\<rparr>)"
proof -
  have a: "unat (0x1000 + o1) = 0x1000 + unat o1" using assms(1) by auto
  have r: "Read no_devices 1 (0x1000 + unat o1) ms = Some ([7], ms)"
    using assms by (auto simp: Read_def Let_def sample_table_def fetch_def page_of_def page_offset_def memory_map)
  have w: "Write no_devices (0x1000 + unat o1) [5] ms = Some (store (0x9000 + unat o1) [5] ms)"
    using assms(1,2) by (auto simp: Write_def Let_def sample_table_def page_of_def page_offset_def memory_map)
  note one_byte = r [unfolded One_nat_def]
  have read: "cheat_read (Read8 no_devices) (0x1000 + o1) \<lparr>memory = ms, invalidated = iv\<rparr> =
      Some (7, \<lparr>memory = ms, invalidated = iv\<rparr>)"
    by (simp add: cheat_read_def Read8_def read_value_def a one_byte le_nat_def)
  have "le_bytes 1 5 = [5]" by (simp add: le_bytes_def)
  then have wr: "cheat_write (MemorySystem.Write8 no_devices) (0x1000 + o1) 5 \<lparr>memory = ms, invalidated = iv\<rparr> =
      Some \<lparr>memory = store (0x9000 + unat o1) [5] ms, invalidated = iv\<rparr>"
    by (simp add: cheat_write_def MemorySystem.Write8_def a w)
  have "take_bit 8 (5 :: u32) = 5" by simp
  then show ?thesis
    by (simp add: exec_basic_def run_line_def cheat_of_def at_line_def initial_state_def IncrementiveWriteOp_def Let_def
        read wr InvalidateCacheRange_def)
qed

theorem cheats_run_structured_witness:
  "map_option invalidated (Execute no_devices 0 (flat_program sample_program) \<lparr>memory = sample_memory, invalidated = []\<rparr>) =
     Some [(0x1000, 1), (0x1001, 1), (0x1002, 1)]"
proof -
  have wf: "wf_program sample_program" "length (flat_program sample_program) < 2 ^ 32"
    by (simp_all add: wf_program_def flat_program_def sample_program_def cheat_of_def conditions_def)
  have sam: "current_table sample_memory = sample_table" "current_table (store p bs ms) = current_table ms"
      "host sample_memory a = 7" "host (store p [b] ms) a = (if a = p then b else host ms a)"
    for p bs b a and ms :: "unit memory_system"
    by (auto simp: current_table_def sample_memory_def store_def)
  have set: "exec_basic no_devices 0 (cheat_of SetValue 0 5) (0, 0, sys) = Some (5, 0, sys)" for sys :: "unit cheat_system"
    by (simp add: exec_basic_def run_line_def cheat_of_def at_line_def initial_state_def cheat_step Let_def)
  have joker: "holds_cond no_devices 0 (cheat_of Joker 0 1) (0, 0, sys) = Some (False, 0, 0, sys)" for sys :: "unit cheat_system"
    by (simp add: holds_cond_def run_line_def cheat_of_def at_line_def initial_state_def cheat_step Let_def)
  have three: "times_run 3 f s = Option.bind (f s) (\<lambda>s. Option.bind (f s) f)"
    for f and s :: "unit cheat_regs"
  proof -
    have times_zero: "times_run 0 f = Some" by (rule ext) simp
    have "(3 :: nat) = Suc (Suc (Suc 0))" by simp
    moreover have one: "times_run (Suc 0) f = f" by (rule ext) (simp add: times_zero)
    moreover have "times_run (Suc (Suc 0)) f = (\<lambda>s. Option.bind (f s) f)"
      by (rule ext) (simp only: times_run.simps(2) one [unfolded One_nat_def])
    ultimately show ?thesis by (simp only: times_run.simps(2))
  qed
  have val: "line_value (cheat_of t a v) = Some v" for t a v by (simp add: cheat_of_def)
  show ?thesis
    unfolding cheats_run_structured [OF wf]
    by (simp add: exec_program_def sample_program_def set joker three val sample_byte sam del: times_run.simps)
qed

end
