(* ===== verification/Spec2Isabelle.thy ===== *)
theory Spec2Isabelle
  imports ThreadQueueList HandleTable CoreTiming MemoryRegion TickCounts ThumbDecode ArmSupp MemorySystem BlockTransfer RasterizerCache
    VMOperations AddressArbiter ControlMemory KernelCaps CheatPrograms
begin

text \<open>
  emuThreeDS is an emulator of the Nintendo 3DS: the Citra core in \<open>src/emuThreeDS/citra_core\<close> behind an iOS
  front end. This development models parts of that core: the code that keeps the state of the emulated
  machine. All file names below are relative to \<open>src/emuThreeDS/citra_core\<close>.

  The parts and how they interact. The guest's threads are scheduled by the kernel (\<open>core/hle/kernel\<close>), whose
  ready queue is a \<open>ThreadQueueList\<close> and whose objects the guest names by handles of a \<open>HandleTable\<close>. Time
  passes in ticks, which the CPU backends charge per instruction; \<open>core_timing.cpp\<close> runs events when their
  tick comes. Physical memory is handed out by \<open>MemoryRegionInfo\<close>; the address space of a process is a map
  of areas (\<open>VMManager\<close>), which keeps the process's page table in the \<open>MemorySystem\<close>; guest accesses go
  through that table, and pages that the renderer has cached are marked in it.

  The theories, in the order of the dependencies:
    \<^item> \<open>Prelude\<close>: runs that may hit an assertion or undefined behaviour (\<open>'a run\<close>, \<open>None\<close> for both), the
      arithmetic of \<open>u32\<close>, and lemmas on lists that several theories share.
    \<^item> \<open>ThreadQueueList\<close> (\<open>common/thread_queue_list.h\<close>): the queue and its chain of used levels as pointers;
      an invariant on the chain, refinement to a list of FIFOs behind a locale for priority queues.
    \<^item> \<open>HandleTable\<close> (\<open>core/hle/kernel/handle_table.cpp\<close>): the table with its free list inside the
      generations array; which handles resolve, and for how long a closed handle stays closed.
    \<^item> \<open>CoreTiming\<close> (\<open>core/core_timing.cpp\<close>): timers, the event heap and the queue of other threads; no event
      is overrun, \<open>Advance\<close> returns and runs exactly the due events; conversions of time to cycles.
    \<^item> \<open>MemoryMap\<close>, \<open>MemoryRegion\<close> (\<open>core/memory.h\<close>, \<open>core/hle/kernel/memory.cpp\<close>): the allocator of FCRAM.
    \<^item> \<open>TickCounts\<close> (\<open>core/arm/dynarmic/arm_tick_counts.cpp\<close>): the cost of each ARM instruction.
    \<^item> \<open>ThumbDecode\<close> (\<open>core/arm/dyncom/arm_dyncom_thumb.cpp\<close>): Thumb instructions into ARM ones.
    \<^item> \<open>ArmSupp\<close> (\<open>core/arm/skyeye_common/armsupp.cpp\<close>): adders and saturating operations on words.
    \<^item> \<open>MemorySystem\<close>, \<open>BlockTransfer\<close>, \<open>RasterizerCache\<close> (\<open>core/memory.cpp\<close>): page tables, accesses, block
      transfers and the marks of the rasterizer cache; the rasterizer and the devices are parameters.
    \<^item> \<open>VMManager\<close>, \<open>AddressSpace\<close>, \<open>VMOperations\<close> (\<open>core/hle/kernel/vm_manager.cpp\<close>): the areas of an address
      space. \<open>AddressSpace\<close> sees the list of areas as a map from addresses and shows what splitting,
      merging and the loop over a range do to it; \<open>VMOperations\<close> states the contract of the operations
      (\<open>spec_vm\<close>) and that the code refines it.
    \<^item> \<open>ResultCodes\<close> (\<open>core/hle/result.h\<close>, \<open>core/hle/kernel/errors.h\<close>): result codes and their fields.
    \<^item> \<open>ThreadLocal\<close> (\<open>thread.cpp\<close>): the slots of thread-local storage of a process.
    \<^item> \<open>KernelObjects\<close>, \<open>KernelCalls\<close> (\<open>core/hle/kernel\<close>: \<open>wait_object.cpp\<close>, \<open>thread.cpp\<close>, \<open>mutex.cpp\<close>,
      \<open>semaphore.cpp\<close>, \<open>event.cpp\<close>, \<open>timer.cpp\<close>, and the waiting calls of \<open>svc.cpp\<close>): the state of threads and
      the objects they wait for, waking up, priority inheritance, and every operation on them; the ready
      queues are those of \<open>ThreadQueueList\<close>, the timeouts events of \<open>CoreTiming\<close>.
    \<^item> \<open>KernelInvariant\<close>, \<open>KernelWaits\<close>, \<open>KernelRun\<close>, \<open>KernelSleep\<close>, \<open>KernelThreads\<close>: the invariant \<open>kernel_ok\<close>
      (ready queues, waiting lists, ownership and priorities of mutexes, no lost wakeup) and that each operation
      keeps it and returns: helper operations, waking up, signals and releases, waits and timeouts, the end and
      the beginning of threads and the scheduler.
    \<^item> \<open>KernelSystem\<close>: the kernel as a state machine of calls, the states that runs of calls lead to, and what
      holds in all of them.
    \<^item> \<open>AddressArbiter\<close> (\<open>address_arbiter.cpp\<close>): waiting at an address of the memory and signals, and that the runs
      of the kernel with them keep \<open>kernel_ok\<close> and the lists of the arbiters.
    \<^item> \<open>ProcessMemory\<close>, \<open>ProcessHeaps\<close>, \<open>ControlMemory\<close> (\<open>process.cpp\<close>, \<open>svc.cpp\<close>): how a process takes memory of its
      region into its address space and gives it back. \<open>pm_ok\<close> and \<open>holds\<close> say how areas, page table, frames and
      region belong together; each operation keeps them on every branch, and so does every run of
      \<open>ControlMemory\<close> calls that makes no aliases.
    \<^item> \<open>KernelCaps\<close> (\<open>process.cpp\<close>, \<open>core/hle/kernel/memory.cpp\<close>): the capability descriptors of a process
      and the mappings of devices, VRAM and shared pages that they lead to.
    \<^item> \<open>Cheats\<close>, \<open>CheatPrograms\<close> (\<open>core/cheats/gateway_cheat.cpp\<close>): the interpreter of cheats, line by line as in
      the code, and the meaning of cheats as structured programs, which the interpreter refines.

  Conventions. A function of the code that may fail an \<open>ASSERT\<close>, reach \<open>UNREACHABLE\<close> or run into undefined
  behaviour returns \<open>None\<close> there; result codes are the left side of a sum. Loops that the code does not bound
  are \<open>partial_function (option)\<close>, so that not returning is \<open>None\<close>, too; the theorems about them state that
  they return. No fuel is used. Machine integers are words where bit operations or wrap-around matter to
  the claims, and natural numbers with the wrap-around written out (\<open>add32\<close>, \<open>sub32\<close>) for addresses and sizes.

  Not modelled: the video and audio cores and the front end (host graphics and sound), the HLE services, the
  network, the JIT (third party), the ARM interpreter's main loop, serialization and logging; of a process, the
  loading of its segments and its main thread; of the cheats, the parsing and the files of cheats.
\<close>

end
